(* ===== verification/Ish_Prelude.thy ===== *)
theory Ish_Prelude
  imports Main "HOL-Library.Word" "HOL-Library.Monad_Syntax"
begin

text \<open>
  Shared vocabulary of the development: the machine integers of misc.h, the
  error numbers of kernel/errno.h, bounded access to a C buffer, and the
  generic lemmas the components use.

  \<^item> \<^verbatim>\<open>size_t\<close>, \<^verbatim>\<open>page_t\<close> and \<^verbatim>\<open>addr_t\<close> are natural numbers below 2 ^ 64; additions
    and subtractions that may wrap are written with \<^term>\<open>add64\<close> and \<^term>\<open>sub64\<close>.
  \<^item> \<^verbatim>\<open>off_t_\<close> and the other signed types are integers; \<^term>\<open>s64\<close> and \<^term>\<open>s32\<close> reduce
    to two's complement range.
  \<^item> A read or write outside a buffer is the value \<^term>\<open>None\<close>: undefined behaviour of
    the C program is an explicit outcome of the model.
\<close>

unbundle bit_operations_syntax

named_theorems u64_simps \<open>wrap-around arithmetic that does not wrap\<close>
named_theorems buf_simps \<open>bounded buffer access\<close>

section \<open>Machine integers\<close>

type_synonym byte = "8 word"
type_synonym flags32 = "32 word"

definition add64 :: "nat \<Rightarrow> nat \<Rightarrow> nat" where
  "add64 a b = (a + b) mod 2 ^ 64"

definition sub64 :: "nat \<Rightarrow> nat \<Rightarrow> nat" where
  "sub64 a b = (a + (2 ^ 64 - b mod 2 ^ 64)) mod 2 ^ 64"

definition mul64 :: "nat \<Rightarrow> nat \<Rightarrow> nat" where
  "mul64 a b = (a * b) mod 2 ^ 64"

definition s64 :: "int \<Rightarrow> int" where
  "s64 x = (x + 2 ^ 63) mod 2 ^ 64 - 2 ^ 63"

definition s32 :: "int \<Rightarrow> int" where
  "s32 x = (x + 2 ^ 31) mod 2 ^ 32 - 2 ^ 31"

definition u32 :: "int \<Rightarrow> nat" where
  "u32 x = nat (x mod 2 ^ 32)"

definition u64 :: "int \<Rightarrow> nat" where
  "u64 x = nat (x mod 2 ^ 64)"

lemma add64_no_wrap [u64_simps]: "a + b < 2 ^ 64 \<Longrightarrow> add64 a b = a + b"
  by (simp add: add64_def)

lemma sub64_no_wrap [u64_simps]:
  assumes "b \<le> a" "a < 2 ^ 64"
  shows "sub64 a b = a - b"
proof -
  have "b mod 2 ^ 64 = b" using assms by simp
  moreover have "a + (2 ^ 64 - b) = (a - b) + 2 ^ 64" using assms by simp
  moreover have "(a - b) mod 2 ^ 64 = a - b" using assms by simp
  ultimately show ?thesis by (simp only: sub64_def mod_add_self2)
qed

lemma mul64_no_wrap [u64_simps]: "a * b < 2 ^ 64 \<Longrightarrow> mul64 a b = a * b"
  by (simp add: mul64_def)

lemma s64_id [u64_simps]: "- (2 ^ 63) \<le> x \<Longrightarrow> x < 2 ^ 63 \<Longrightarrow> s64 x = x"
  by (simp add: s64_def)

lemma s64_range: "- (2 ^ 63) \<le> s64 x \<and> s64 x < 2 ^ 63"
proof -
  have "0 \<le> (x + 2 ^ 63) mod 2 ^ 64" "(x + 2 ^ 63) mod 2 ^ 64 < 2 ^ 64"
    by (rule pos_mod_sign, simp) (rule pos_mod_bound, simp)
  then show ?thesis by (simp add: s64_def)
qed

lemma s32_id [u64_simps]: "- (2 ^ 31) \<le> x \<Longrightarrow> x < 2 ^ 31 \<Longrightarrow> s32 x = x"
  by (simp add: s32_def)

section \<open>Bounded buffers\<close>

definition buf_load :: "'a list \<Rightarrow> nat \<Rightarrow> nat \<Rightarrow> 'a list option" where
  "buf_load buf off n = (if off + n \<le> length buf then Some (take n (drop off buf)) else None)"

definition buf_store :: "'a list \<Rightarrow> nat \<Rightarrow> 'a list \<Rightarrow> 'a list option" where
  "buf_store buf off xs =
    (if off + length xs \<le> length buf
     then Some (take off buf @ xs @ drop (off + length xs) buf) else None)"

lemma buf_load_some [buf_simps]:
  "off + n \<le> length buf \<Longrightarrow> buf_load buf off n = Some (take n (drop off buf))"
  by (simp add: buf_load_def)

lemma buf_store_some [buf_simps]:
  "off + length xs \<le> length buf \<Longrightarrow>
   buf_store buf off xs = Some (take off buf @ xs @ drop (off + length xs) buf)"
  by (simp add: buf_store_def)

lemma nth_stored:
  assumes "off + length xs \<le> length buf" "i < length buf"
  shows "(take off buf @ xs @ drop (off + length xs) buf) ! i =
    (if off \<le> i \<and> i < off + length xs then xs ! (i - off) else buf ! i)"
  using assms by (auto simp: nth_append min_def)

section \<open>Little-endian data\<close>

fun le_nat :: "byte list \<Rightarrow> nat" where
  "le_nat [] = 0"
| "le_nat (b # bs) = unat b + 256 * le_nat bs"

fun le_bytes :: "nat \<Rightarrow> nat \<Rightarrow> byte list" where
  "le_bytes 0 x = []"
| "le_bytes (Suc n) x = of_nat x # le_bytes n (x div 256)"

lemma length_le_bytes [simp]: "length (le_bytes n x) = n"
  by (induction n arbitrary: x) auto

lemma le_nat_less: "le_nat bs < 256 ^ length bs"
proof (induction bs)
  case (Cons b bs)
  have "unat b < 256" using unsigned_less [of b] by simp
  then have "unat b + 256 * le_nat bs < 256 * (le_nat bs + 1)" by simp
  also have "\<dots> \<le> 256 * 256 ^ length bs" using Cons by (simp add: Suc_le_eq)
  finally show ?case by simp
qed simp

lemma le_nat_le_bytes [simp]: "le_nat (le_bytes n x) = x mod 256 ^ n"
proof (induction n arbitrary: x)
  case (Suc n)
  have "unat (of_nat x :: byte) = x mod 256" by (simp add: unat_of_nat)
  then show ?case using Suc by (simp add: mod_mult2_eq)
qed simp

lemma le_bytes_le_nat [simp]: "le_bytes (length bs) (le_nat bs) = bs"
proof (induction bs)
  case (Cons b bs)
  have u: "unat b < 256" using unsigned_less [of b] by simp
  then have "(unat b + 256 * le_nat bs) div 256 = le_nat bs" by simp
  moreover have "(of_nat 256 :: byte) = 0" by simp
  then have "(of_nat (unat b + 256 * le_nat bs) :: byte) = b"
    by (simp only: of_nat_add of_nat_mult mult_zero_left add_0_right of_nat_unat ucast_id)
  ultimately show ?case using Cons by simp
qed simp

section \<open>Iterating a step that may fail\<close>

fun foldM :: "('s \<Rightarrow> 'x \<Rightarrow> 's option) \<Rightarrow> 's \<Rightarrow> 'x list \<Rightarrow> 's option" where
  "foldM f s [] = Some s"
| "foldM f s (x # xs) = Option.bind (f s x) (\<lambda>s'. foldM f s' xs)"

section \<open>Error numbers of kernel/errno.h\<close>

abbreviation EPERM :: int where "EPERM \<equiv> - 1"
abbreviation ENOENT :: int where "ENOENT \<equiv> - 2"
abbreviation ESRCH :: int where "ESRCH \<equiv> - 3"
abbreviation EINTR :: int where "EINTR \<equiv> - 4"
abbreviation EIO :: int where "EIO \<equiv> - 5"
abbreviation E2BIG :: int where "E2BIG \<equiv> - 7"
abbreviation EBADF :: int where "EBADF \<equiv> - 9"
abbreviation EAGAIN :: int where "EAGAIN \<equiv> - 11"
abbreviation ENOMEM :: int where "ENOMEM \<equiv> - 12"
abbreviation EACCES :: int where "EACCES \<equiv> - 13"
abbreviation EFAULT :: int where "EFAULT \<equiv> - 14"
abbreviation EBUSY :: int where "EBUSY \<equiv> - 16"
abbreviation EEXIST :: int where "EEXIST \<equiv> - 17"
abbreviation ENODEV :: int where "ENODEV \<equiv> - 19"
abbreviation ENOTDIR :: int where "ENOTDIR \<equiv> - 20"
abbreviation EISDIR :: int where "EISDIR \<equiv> - 21"
abbreviation EINVAL :: int where "EINVAL \<equiv> - 22"
abbreviation EMFILE :: int where "EMFILE \<equiv> - 24"
abbreviation ENOTTY :: int where "ENOTTY \<equiv> - 25"
abbreviation EFBIG :: int where "EFBIG \<equiv> - 27"
abbreviation ENOSPC :: int where "ENOSPC \<equiv> - 28"
abbreviation ERANGE :: int where "ERANGE \<equiv> - 34"
abbreviation ENAMETOOLONG :: int where "ENAMETOOLONG \<equiv> - 36"
abbreviation ENOSYS :: int where "ENOSYS \<equiv> - 38"
abbreviation ENOTEMPTY :: int where "ENOTEMPTY \<equiv> - 39"
abbreviation ELOOP :: int where "ELOOP \<equiv> - 40"
abbreviation EIDRM :: int where "EIDRM \<equiv> - 43"
abbreviation ENOMSG :: int where "ENOMSG \<equiv> - 42"
abbreviation EMSGSIZE :: int where "EMSGSIZE \<equiv> - 90"
abbreviation ETIMEDOUT :: int where "ETIMEDOUT \<equiv> - 110"

end
