(* ===== verification/Fifo_Ring.thy ===== *)
theory Fifo_Ring
  imports Ish_Prelude
begin

text \<open>
  The ring buffer of util/fifo.c and the kernel log of kernel/log.c built on it.
  The buffer is a list of length capacity; a \<^verbatim>\<open>memcpy\<close> outside it is \<^term>\<open>None\<close>.  The
  locale \<^verbatim>\<open>bounded_queue\<close> is the contract the log relies on; it is interpreted on
  the ring-buffer operations.
\<close>

section \<open>util/fifo.c\<close>

record 'a fifo =
  fifo_buf :: "'a list"
  fifo_cap :: nat
  fifo_len :: nat
  fifo_start :: nat

abbreviation FIFO_OVERWRITE :: flags32 where "FIFO_OVERWRITE \<equiv> 1"
abbreviation FIFO_PEEK :: flags32 where "FIFO_PEEK \<equiv> 1"
abbreviation FIFO_LAST :: flags32 where "FIFO_LAST \<equiv> 2"

definition fifo_init :: "'a list \<Rightarrow> 'a fifo" where
  "fifo_init mallocd = \<lparr>fifo_buf = mallocd, fifo_cap = length mallocd, fifo_len = 0, fifo_start = 0\<rparr>"

definition fifo_capacity :: "'a fifo \<Rightarrow> nat" where
  "fifo_capacity f = fifo_cap f"

definition fifo_size :: "'a fifo \<Rightarrow> nat" where
  "fifo_size f = fifo_len f"

definition fifo_remaining :: "'a fifo \<Rightarrow> nat" where
  "fifo_remaining f = sub64 (fifo_cap f) (fifo_len f)"

definition fifo_copy_in :: "'a fifo \<Rightarrow> 'a list \<Rightarrow> (int \<times> 'a fifo) option" where
  "fifo_copy_in f data =
    (if fifo_cap f = 0 then None else
     let tail = add64 (fifo_start f) (fifo_len f) mod fifo_cap f;
         first_copy_size = min (sub64 (fifo_cap f) tail) (length data)
     in do {
       b1 \<leftarrow> buf_store (fifo_buf f) tail (take first_copy_size data);
       b2 \<leftarrow> buf_store b1 0 (drop first_copy_size data);
       Some (0, f\<lparr>fifo_buf := b2, fifo_len := add64 (fifo_len f) (length data)\<rparr>)
     })"

definition fifo_write :: "'a fifo \<Rightarrow> 'a list \<Rightarrow> flags32 \<Rightarrow> (int \<times> 'a fifo) option" where
  "fifo_write f data fl =
    (if length data > fifo_remaining f then
       if fl AND FIFO_OVERWRITE = 0 then Some (1, f)
       else if fifo_cap f = 0 then None
       else let excess = sub64 (length data) (fifo_remaining f)
            in fifo_copy_in
                 (f\<lparr>fifo_start := add64 (fifo_start f) excess mod fifo_cap f,
                    fifo_len := sub64 (fifo_len f) excess\<rparr>) data
     else fifo_copy_in f data)"

definition fifo_read :: "'a fifo \<Rightarrow> nat \<Rightarrow> flags32 \<Rightarrow> (int \<times> 'a list \<times> 'a fifo) option" where
  "fifo_read f n fl =
    (if n > fifo_size f then Some (1, [], f)
     else if fifo_cap f = 0 then None
     else let start = (if fl AND FIFO_LAST \<noteq> 0
                       then add64 (fifo_start f) (sub64 (fifo_len f) n) mod fifo_cap f
                       else fifo_start f);
              first_copy_size = min (sub64 (fifo_cap f) (fifo_start f)) n
          in do {
            d1 \<leftarrow> buf_load (fifo_buf f) start first_copy_size;
            d2 \<leftarrow> buf_load (fifo_buf f) 0 (n - first_copy_size);
            Some (0, d1 @ d2,
              if fl AND FIFO_PEEK = 0
              then f\<lparr>fifo_start := add64 start n mod fifo_cap f, fifo_len := sub64 (fifo_len f) n\<rparr>
              else f)
          })"

definition fifo_flush :: "'a fifo \<Rightarrow> 'a fifo" where
  "fifo_flush f = f\<lparr>fifo_len := 0\<rparr>"

section \<open>Abstraction to a list\<close>

definition fifo_inv :: "'a fifo \<Rightarrow> bool" where
  "fifo_inv f \<longleftrightarrow> length (fifo_buf f) = fifo_cap f \<and> 0 < fifo_cap f \<and> fifo_cap f < 2 ^ 62 \<and>
     fifo_len f \<le> fifo_cap f \<and> fifo_start f < fifo_cap f"

definition fifo_contents :: "'a fifo \<Rightarrow> 'a list" where
  "fifo_contents f =
    map (\<lambda>i. fifo_buf f ! ((fifo_start f + i) mod fifo_cap f)) [0..<fifo_len f]"

lemma length_fifo_contents [simp]: "length (fifo_contents f) = fifo_len f"
  by (simp add: fifo_contents_def)

lemma nth_fifo_contents:
  "i < fifo_len f \<Longrightarrow> fifo_contents f ! i = fifo_buf f ! ((fifo_start f + i) mod fifo_cap f)"
  by (simp add: fifo_contents_def)

lemma mod_wrap:
  fixes t j c :: nat
  assumes "t < c" "j \<le> c"
  shows "(t + j) mod c = (if t + j < c then t + j else t + j - c)"
  using assms by (auto simp: le_mod_geq not_less le_add_diff_inverse2 mod_if)

lemma fifo_remaining_eq [u64_simps]: "fifo_inv f \<Longrightarrow> fifo_remaining f = fifo_cap f - fifo_len f"
  by (simp add: fifo_remaining_def fifo_inv_def sub64_no_wrap)

lemma fifo_overflow_iff [u64_simps]:
  "fifo_inv f \<Longrightarrow> n > fifo_remaining f \<longleftrightarrow> fifo_len f + n > fifo_cap f"
  by (auto simp: fifo_remaining_eq fifo_inv_def)

text \<open>The two copies of a wrapped write put the data at consecutive positions of the ring.\<close>

definition ring_put :: "'a list \<Rightarrow> nat \<Rightarrow> 'a list \<Rightarrow> 'a list" where
  "ring_put buf tail data =
    (let fcs = min (length buf - tail) (length data);
         b1 = take tail buf @ take fcs data @ drop (tail + fcs) buf
     in drop fcs data @ drop (length data - fcs) b1)"

lemma length_ring_put [simp]:
  "tail < length buf \<Longrightarrow> length data \<le> length buf \<Longrightarrow> length (ring_put buf tail data) = length buf"
  by (auto simp: ring_put_def Let_def min_def)

lemma ring_put_nth:
  assumes "tail < length buf" "length data \<le> length buf" "p < length buf"
  shows "ring_put buf tail data ! p =
    (if tail \<le> p \<and> p < tail + length data then data ! (p - tail)
     else if p + length buf < tail + length data then data ! (p + length buf - tail)
     else buf ! p)"
  using assms
  by (auto simp: ring_put_def Let_def nth_append min_def not_less add.commute intro!: arg_cong[where f="nth data"])

lemma fifo_copy_in_eq:
  assumes "fifo_inv f" "fifo_len f + length data \<le> fifo_cap f"
  shows "fifo_copy_in f data =
    Some (0, f\<lparr>fifo_buf := ring_put (fifo_buf f) ((fifo_start f + fifo_len f) mod fifo_cap f) data,
               fifo_len := fifo_len f + length data\<rparr>)"
proof -
  define t where "t = (fifo_start f + fifo_len f) mod fifo_cap f"
  have t: "t < fifo_cap f" using assms by (simp add: fifo_inv_def t_def)
  have "add64 (fifo_start f) (fifo_len f) mod fifo_cap f = t"
    "sub64 (fifo_cap f) t = fifo_cap f - t"
    "add64 (fifo_len f) (length data) = fifo_len f + length data"
    using assms t by (auto simp: fifo_inv_def u64_simps t_def)
  moreover define fcs where "fcs = min (fifo_cap f - t) (length data)"
  moreover have "fifo_cap f \<noteq> 0" using t by simp
  moreover have "buf_store (fifo_buf f) t (take fcs data) =
      Some (take t (fifo_buf f) @ take fcs data @ drop (t + fcs) (fifo_buf f))"
    using assms t by (simp add: buf_store_def fifo_inv_def fcs_def)
  moreover have "length data - fcs \<le> fifo_cap f" using assms(2) by simp
  ultimately show ?thesis using assms(1) t unfolding t_def [symmetric]
    by (simp add: fifo_copy_in_def Let_def buf_store_def fifo_inv_def ring_put_def)
qed

lemma fifo_append_contents:
  assumes "fifo_inv f" "fifo_len f + length data \<le> fifo_cap f"
    "f' = f\<lparr>fifo_buf := ring_put (fifo_buf f) ((fifo_start f + fifo_len f) mod fifo_cap f) data,
            fifo_len := fifo_len f + length data\<rparr>"
  shows "fifo_contents f' = fifo_contents f @ data" "fifo_inv f'"
proof -
  let ?t = "(fifo_start f + fifo_len f) mod fifo_cap f"
  have inv: "length (fifo_buf f) = fifo_cap f" "fifo_start f < fifo_cap f" "fifo_len f \<le> fifo_cap f"
    using assms(1) by (auto simp: fifo_inv_def)
  have t: "?t < fifo_cap f" using inv by auto
  show "fifo_contents f' = fifo_contents f @ data"
  proof (rule nth_equalityI)
    fix i assume "i < length (fifo_contents f')"
    then have i: "i < fifo_len f + length data" using assms(3) by simp
    have m: "(fifo_start f + i) mod fifo_cap f < fifo_cap f" using inv by auto
    have "fifo_contents f' ! i = ring_put (fifo_buf f) ?t data ! ((fifo_start f + i) mod fifo_cap f)"
      using i assms(3) by (simp add: nth_fifo_contents)
    also have "\<dots> = (fifo_contents f @ data) ! i"
      using i assms(2) inv t m
      by (subst ring_put_nth)
         (auto simp: nth_append nth_fifo_contents mod_wrap split: if_splits
               intro!: arg_cong[where f="nth data"])
    finally show "fifo_contents f' ! i = (fifo_contents f @ data) ! i" .
  qed (use assms(3) in simp)
  show "fifo_inv f'" using assms t by (auto simp: fifo_inv_def)
qed

definition keep_last :: "nat \<Rightarrow> 'a list \<Rightarrow> 'a list" where
  "keep_last n xs = drop (length xs - n) xs"

lemma keep_last_short [simp]: "length xs \<le> n \<Longrightarrow> keep_last n xs = xs"
  by (simp add: keep_last_def)

lemma keep_last_append_keep_last: "keep_last n (keep_last n xs @ ys) = keep_last n (xs @ ys)"
proof (cases "length xs \<le> n")
  case False
  then show ?thesis by (simp add: keep_last_def add.commute)
qed simp

lemma fifo_discard_contents:
  assumes "fifo_inv f" "k \<le> fifo_len f"
    "f' = f\<lparr>fifo_start := (fifo_start f + k) mod fifo_cap f, fifo_len := fifo_len f - k\<rparr>"
  shows "fifo_contents f' = drop k (fifo_contents f)" "fifo_inv f'"
  using assms by (auto simp: list_eq_iff_nth_eq nth_fifo_contents fifo_inv_def mod_simps ac_simps)

lemma fifo_write_fits:
  assumes "fifo_inv f" "fifo_len f + length data \<le> fifo_cap f"
  shows "\<exists>f'. fifo_write f data fl = Some (0, f') \<and> fifo_inv f' \<and> fifo_cap f' = fifo_cap f \<and>
    fifo_contents f' = fifo_contents f @ data"
  using assms fifo_append_contents [OF assms refl]
  by (simp add: fifo_write_def fifo_copy_in_eq fifo_overflow_iff)

lemma fifo_write_full:
  assumes "fifo_inv f" "fifo_len f + length data > fifo_cap f" "fl AND FIFO_OVERWRITE = 0"
  shows "fifo_write f data fl = Some (1, f)"
  using assms by (simp add: fifo_write_def fifo_overflow_iff)

lemma fifo_write_overwrite:
  assumes inv: "fifo_inv f" and fit: "length data \<le> fifo_cap f" and ov: "fl AND FIFO_OVERWRITE \<noteq> 0"
  shows "\<exists>f'. fifo_write f data fl = Some (0, f') \<and> fifo_inv f' \<and> fifo_cap f' = fifo_cap f \<and>
    fifo_contents f' = keep_last (fifo_cap f) (fifo_contents f @ data)"
proof (cases "fifo_len f + length data \<le> fifo_cap f")
  case True
  then show ?thesis using fifo_write_fits [OF inv True] by simp
next
  case False
  define k where "k = fifo_len f + length data - fifo_cap f"
  define g where "g = f\<lparr>fifo_start := (fifo_start f + k) mod fifo_cap f, fifo_len := fifo_len f - k\<rparr>"
  have k: "k \<le> fifo_len f" using fit by (simp add: k_def)
  have "sub64 (length data) (fifo_cap f - fifo_len f) = k" "sub64 (fifo_len f) k = fifo_len f - k"
    "add64 (fifo_start f) k = fifo_start f + k"
    using inv fit False k by (auto simp: u64_simps fifo_inv_def k_def)
  moreover have "fifo_cap f \<noteq> 0" using inv by (simp add: fifo_inv_def)
  ultimately have w: "fifo_write f data fl = fifo_copy_in g data"
    using inv False ov
    by (simp add: fifo_write_def fifo_overflow_iff Let_def g_def) (simp add: fifo_remaining_eq)
  have g: "fifo_inv g" "fifo_contents g = drop k (fifo_contents f)" "fifo_cap g = fifo_cap f"
    using fifo_discard_contents [OF inv k g_def] by (auto simp: g_def)
  have len: "fifo_len g + length data \<le> fifo_cap g" using False fit by (simp add: g_def k_def)
  have "drop k (fifo_contents f) @ data = keep_last (fifo_cap f) (fifo_contents f @ data)"
    using fit by (simp add: keep_last_def k_def)
  then show ?thesis
    using w g fifo_append_contents [OF g(1) len refl] by (simp add: fifo_copy_in_eq [OF g(1) len])
qed

lemma ring_take:
  assumes "fifo_inv f" "n \<le> fifo_len f"
  shows "take (min (fifo_cap f - fifo_start f) n) (drop (fifo_start f) (fifo_buf f)) @
     take (n - min (fifo_cap f - fifo_start f) n) (fifo_buf f) = take n (fifo_contents f)"
  using assms
  by (auto simp: list_eq_iff_nth_eq nth_append nth_fifo_contents fifo_inv_def mod_wrap min_def
      intro!: arg_cong[where f="nth (fifo_buf f)"])

lemma fifo_read_first:
  assumes "fifo_inv f" "n \<le> fifo_len f" "fl AND FIFO_LAST = 0"
  shows "fifo_read f n fl = Some (0, take n (fifo_contents f),
    if fl AND FIFO_PEEK = 0
    then f\<lparr>fifo_start := (fifo_start f + n) mod fifo_cap f, fifo_len := fifo_len f - n\<rparr> else f)"
proof -
  have "sub64 (fifo_cap f) (fifo_start f) = fifo_cap f - fifo_start f"
    "sub64 (fifo_len f) n = fifo_len f - n" "add64 (fifo_start f) n = fifo_start f + n"
    using assms by (auto simp: u64_simps fifo_inv_def)
  moreover have "fifo_start f + min (fifo_cap f - fifo_start f) n \<le> length (fifo_buf f)"
    "n - min (fifo_cap f - fifo_start f) n \<le> length (fifo_buf f)" "fifo_cap f \<noteq> 0"
    using assms by (auto simp: fifo_inv_def)
  ultimately show ?thesis using assms ring_take [OF assms(1,2)]
    by (simp add: fifo_read_def Let_def buf_load_def fifo_size_def)
qed

lemma fifo_read_deq:
  assumes "fifo_inv f" "n \<le> fifo_len f"
  shows "\<exists>f'. fifo_read f n 0 = Some (0, take n (fifo_contents f), f') \<and> fifo_inv f' \<and>
    fifo_cap f' = fifo_cap f \<and> fifo_contents f' = drop n (fifo_contents f)"
  using fifo_read_first [OF assms, of 0] fifo_discard_contents [OF assms refl] by simp

lemma fifo_read_short: "n > fifo_len f \<Longrightarrow> fifo_read f n fl = Some (1, [], f)"
  by (simp add: fifo_read_def fifo_size_def)

lemma fifo_init_inv: "0 < length b \<Longrightarrow> length b < 2 ^ 62 \<Longrightarrow> fifo_inv (fifo_init b)"
  by (simp add: fifo_inv_def fifo_init_def)

lemma fifo_init_contents [simp]: "fifo_contents (fifo_init b) = []"
  by (simp add: fifo_contents_def fifo_init_def)

section \<open>The queue contract and its interpretation\<close>

locale bounded_queue =
  fixes q_inv :: "'q \<Rightarrow> bool"
    and q_contents :: "'q \<Rightarrow> 'a list"
    and q_capacity :: "'q \<Rightarrow> nat"
    and q_enq :: "'q \<Rightarrow> 'a list \<Rightarrow> 'q option"
    and q_deq :: "'q \<Rightarrow> nat \<Rightarrow> ('a list \<times> 'q) option"
  assumes q_bound: "q_inv q \<Longrightarrow> length (q_contents q) \<le> q_capacity q"
    and q_enq_law: "q_inv q \<Longrightarrow> length xs \<le> q_capacity q \<Longrightarrow>
      \<exists>q'. q_enq q xs = Some q' \<and> q_inv q' \<and> q_capacity q' = q_capacity q \<and>
        q_contents q' = keep_last (q_capacity q) (q_contents q @ xs)"
    and q_deq_law: "q_inv q \<Longrightarrow> n \<le> length (q_contents q) \<Longrightarrow>
      \<exists>q'. q_deq q n = Some (take n (q_contents q), q') \<and> q_inv q' \<and>
        q_capacity q' = q_capacity q \<and> q_contents q' = drop n (q_contents q)"
begin

lemma q_enq_all:
  assumes "q_inv q" "\<And>m. m \<in> set ms \<Longrightarrow> length m \<le> q_capacity q"
  shows "\<exists>q'. foldM q_enq q ms = Some q' \<and> q_inv q' \<and> q_capacity q' = q_capacity q \<and>
    q_contents q' = keep_last (q_capacity q) (q_contents q @ concat ms)"
  using assms
proof (induction ms arbitrary: q)
  case Nil
  then show ?case by (simp add: q_bound)
next
  case (Cons m ms)
  obtain q1 where q1: "q_enq q m = Some q1" "q_inv q1" "q_capacity q1 = q_capacity q"
    "q_contents q1 = keep_last (q_capacity q) (q_contents q @ m)"
    using q_enq_law Cons.prems by (metis list.set_intros(1))
  show ?case using Cons.IH [OF q1(2)] Cons.prems(2) q1
    by (auto simp: keep_last_append_keep_last)
qed

lemma q_enq_deq_order:
  assumes "q_inv q" "length (q_contents q @ xs) \<le> q_capacity q" "n \<le> length (q_contents q @ xs)"
  shows "\<exists>q1 q2. q_enq q xs = Some q1 \<and> q_deq q1 n = Some (take n (q_contents q @ xs), q2) \<and>
    q_inv q2 \<and> q_contents q2 = drop n (q_contents q @ xs)"
proof -
  have "length xs \<le> q_capacity q" using assms(2) by simp
  with q_enq_law [OF assms(1)] obtain q1 where "q_enq q xs = Some q1" "q_inv q1"
    "q_contents q1 = q_contents q @ xs" using assms(2) by force
  then show ?thesis using q_deq_law [of q1 n] assms(3) by auto
qed

end

definition fifo_overwrite :: "'a fifo \<Rightarrow> 'a list \<Rightarrow> 'a fifo option" where
  "fifo_overwrite f data = map_option snd (fifo_write f data FIFO_OVERWRITE)"

definition fifo_take :: "'a fifo \<Rightarrow> nat \<Rightarrow> ('a list \<times> 'a fifo) option" where
  "fifo_take f n = map_option snd (fifo_read f n 0)"

interpretation ring: bounded_queue fifo_inv fifo_contents fifo_cap fifo_overwrite fifo_take
proof unfold_locales
  fix f :: "'a fifo" and xs :: "'a list" and n
  assume inv: "fifo_inv f"
  show "length (fifo_contents f) \<le> fifo_cap f" using inv by (simp add: fifo_inv_def)
  show "\<exists>q'. fifo_overwrite f xs = Some q' \<and> fifo_inv q' \<and> fifo_cap q' = fifo_cap f \<and>
      fifo_contents q' = keep_last (fifo_cap f) (fifo_contents f @ xs)"
    if "length xs \<le> fifo_cap f"
    using fifo_write_overwrite [OF inv that, of FIFO_OVERWRITE] by (auto simp: fifo_overwrite_def)
  show "\<exists>q'. fifo_take f n = Some (take n (fifo_contents f), q') \<and> fifo_inv q' \<and>
      fifo_cap q' = fifo_cap f \<and> fifo_contents q' = drop n (fifo_contents f)"
    if "n \<le> length (fifo_contents f)"
    using fifo_read_deq [OF inv, of n] that by (auto simp: fifo_take_def)
qed

section \<open>Properties of the ring buffer\<close>

text \<open>C20: a write that fits, and then a read of \<^verbatim>\<open>n\<close> bytes, return 0, never touch memory
  outside the buffer, and behave as appending to and taking from a queue: the bytes
  come out in the order they went in.\<close>

theorem fifo_write_then_read:
  assumes "fifo_inv f" "fifo_size f + length data \<le> fifo_capacity f" "n \<le> fifo_size f + length data"
  shows "\<exists>f1 f2. fifo_write f data 0 = Some (0, f1) \<and>
    fifo_read f1 n 0 = Some (0, take n (fifo_contents f @ data), f2) \<and>
    fifo_inv f2 \<and> fifo_contents f2 = drop n (fifo_contents f @ data)"
proof -
  obtain f1 where "fifo_write f data 0 = Some (0, f1)" "fifo_inv f1"
    "fifo_contents f1 = fifo_contents f @ data"
    using fifo_write_fits [OF assms(1)] assms(2) by (auto simp: fifo_size_def fifo_capacity_def)
  moreover from this have "fifo_len f1 = fifo_len f + length data"
    by (metis length_append length_fifo_contents)
  ultimately show ?thesis using fifo_read_deq [of f1 n] assms(3) by (auto simp: fifo_size_def)
qed

theorem fifo_write_then_read_witness:
  "\<exists>f1 f2. fifo_write \<lparr>fifo_buf = [7, 8, 9 :: nat], fifo_cap = 3, fifo_len = 1, fifo_start = 2\<rparr> [1, 2] 0
      = Some (0, f1) \<and> fifo_read f1 3 0 = Some (0, [9, 1, 2], f2)"
  using fifo_write_then_read
    [of "\<lparr>fifo_buf = [7, 8, 9 :: nat], fifo_cap = 3, fifo_len = 1, fifo_start = 2\<rparr>" "[1, 2]" 3]
  by (auto simp: fifo_inv_def fifo_size_def fifo_capacity_def fifo_contents_def)

text \<open>Reading the last \<^verbatim>\<open>n\<close> bytes of a full ring whose start is not at 0 reads past the
  end of the buffer whenever the start is below \<^verbatim>\<open>n\<close> and \<^verbatim>\<open>n\<close> fits behind it: the length of the first
  copy is computed from the start of the ring and not from the shifted start.\<close>

theorem fifo_read_last_out_of_bounds:
  assumes "fifo_inv f" "fifo_len f = fifo_cap f" "0 < fifo_start f" "fifo_start f < n"
    "n \<le> fifo_cap f - fifo_start f" "fl AND FIFO_LAST \<noteq> 0"
  shows "fifo_read f n fl = None"
proof -
  have "sub64 (fifo_cap f) (fifo_start f) = fifo_cap f - fifo_start f"
    "sub64 (fifo_len f) n = fifo_cap f - n"
    "add64 (fifo_start f) (fifo_cap f - n) = fifo_start f + (fifo_cap f - n)"
    using assms by (auto simp: u64_simps fifo_inv_def)
  moreover have "fifo_start f + (fifo_cap f - n) < fifo_cap f" "fifo_cap f \<noteq> 0" using assms by auto
  ultimately show ?thesis using assms
    by (simp add: fifo_read_def fifo_size_def Let_def buf_load_def min_def fifo_inv_def)
qed

theorem fifo_read_last_out_of_bounds_witness:
  "fifo_read \<lparr>fifo_buf = [0, 1, 2, 3 :: nat], fifo_cap = 4, fifo_len = 4, fifo_start = 1\<rparr> 3
     (FIFO_LAST OR FIFO_PEEK) = None"
  by (rule fifo_read_last_out_of_bounds) (simp_all add: fifo_inv_def)

end
