(* ===== verification/Kernel_Log.thy ===== *)
theory Kernel_Log
  imports Fifo_Ring
begin

text \<open>
  The kernel log of kernel/log.c: a ring buffer of 2 ^ 20 bytes, the count of bytes
  written since the last clear, and the syslog call.  The bytes \<^verbatim>\<open>malloc\<close> returns are a
  parameter (\<^verbatim>\<open>mallocd\<close>), and so is whether the copy to user memory succeeds; the bytes
  the guest receives are part of the result.
\<close>

record log_state =
  log_buf :: "byte fifo"
  log_max_since_clear :: nat

abbreviation LOG_BUF_SIZE :: nat where "LOG_BUF_SIZE \<equiv> 2 ^ 20"

abbreviation SYSLOG_ACTION_CLOSE :: int where "SYSLOG_ACTION_CLOSE \<equiv> 0"
abbreviation SYSLOG_ACTION_OPEN :: int where "SYSLOG_ACTION_OPEN \<equiv> 1"
abbreviation SYSLOG_ACTION_READ :: int where "SYSLOG_ACTION_READ \<equiv> 2"
abbreviation SYSLOG_ACTION_READ_ALL :: int where "SYSLOG_ACTION_READ_ALL \<equiv> 3"
abbreviation SYSLOG_ACTION_READ_CLEAR :: int where "SYSLOG_ACTION_READ_CLEAR \<equiv> 4"
abbreviation SYSLOG_ACTION_CLEAR :: int where "SYSLOG_ACTION_CLEAR \<equiv> 5"
abbreviation SYSLOG_ACTION_CONSOLE_LEVEL :: int where "SYSLOG_ACTION_CONSOLE_LEVEL \<equiv> 8"
abbreviation SYSLOG_ACTION_SIZE_UNREAD :: int where "SYSLOG_ACTION_SIZE_UNREAD \<equiv> 9"
abbreviation SYSLOG_ACTION_SIZE_BUFFER :: int where "SYSLOG_ACTION_SIZE_BUFFER \<equiv> 10"

definition syslog_read ::
  "(nat \<Rightarrow> byte list) \<Rightarrow> bool \<Rightarrow> log_state \<Rightarrow> int \<Rightarrow> flags32 \<Rightarrow> (int \<times> byte list \<times> log_state) option" where
  "syslog_read mallocd user_ok l len fl =
    (if len < 0 then Some (EINVAL, [], l)
     else let n = (if fl AND FIFO_LAST \<noteq> 0 then min (nat len) (log_max_since_clear l)
                   else min (nat len) (fifo_capacity (log_buf l)))
          in do {
            (r, data, f') \<leftarrow> fifo_read (log_buf l) n fl;
            let buf = data @ drop (length data) (mallocd n);
            if user_ok then Some (int n, buf, l\<lparr>log_buf := f'\<rparr>)
            else Some (EFAULT, [], l\<lparr>log_buf := f'\<rparr>)
          })"

definition do_syslog ::
  "(nat \<Rightarrow> byte list) \<Rightarrow> bool \<Rightarrow> log_state \<Rightarrow> int \<Rightarrow> int \<Rightarrow> (int \<times> byte list \<times> log_state) option" where
  "do_syslog mallocd user_ok l type len =
    (if type = SYSLOG_ACTION_READ then syslog_read mallocd user_ok l len 0
     else if type = SYSLOG_ACTION_READ_ALL then syslog_read mallocd user_ok l len (FIFO_LAST OR FIFO_PEEK)
     else if type = SYSLOG_ACTION_READ_CLEAR then do {
       (res, buf, l') \<leftarrow> syslog_read mallocd user_ok l len (FIFO_LAST OR FIFO_PEEK);
       if res < 0 then Some (res, buf, l') else Some (0, buf, l'\<lparr>log_max_since_clear := 0\<rparr>)
     }
     else if type = SYSLOG_ACTION_CLEAR then Some (0, [], l\<lparr>log_max_since_clear := 0\<rparr>)
     else if type = SYSLOG_ACTION_SIZE_UNREAD then Some (int (fifo_size (log_buf l)), [], l)
     else if type = SYSLOG_ACTION_SIZE_BUFFER then Some (int (fifo_capacity (log_buf l)), [], l)
     else if type \<in> {SYSLOG_ACTION_CLOSE, SYSLOG_ACTION_OPEN, 6, 7, SYSLOG_ACTION_CONSOLE_LEVEL}
     then Some (0, [], l)
     else Some (EINVAL, [], l))"

definition log_buf_append :: "log_state \<Rightarrow> byte list \<Rightarrow> log_state option" where
  "log_buf_append l msg = do {
     (r, f') \<leftarrow> fifo_write (log_buf l) msg FIFO_OVERWRITE;
     Some \<lparr>log_buf = f',
           log_max_since_clear =
             min (add64 (log_max_since_clear l) (length msg)) (fifo_capacity (log_buf l))\<rparr>
   }"

definition log_init :: "byte list \<Rightarrow> log_state" where
  "log_init zeroes = \<lparr>log_buf = fifo_init zeroes, log_max_since_clear = 0\<rparr>"

section \<open>The log keeps the most recent bytes\<close>

definition log_inv :: "log_state \<Rightarrow> bool" where
  "log_inv l \<longleftrightarrow> fifo_inv (log_buf l) \<and> log_max_since_clear l \<le> fifo_cap (log_buf l)"

lemma log_buf_append_buf:
  assumes "log_buf_append l m = Some l'"
  shows "fifo_overwrite (log_buf l) m = Some (log_buf l')"
  using assms by (auto simp: log_buf_append_def fifo_overwrite_def bind_eq_Some_conv)

lemma log_buf_append_total:
  assumes "log_inv l" "length m \<le> fifo_cap (log_buf l)"
  shows "\<exists>l'. log_buf_append l m = Some l' \<and> log_inv l' \<and>
    fifo_cap (log_buf l') = fifo_cap (log_buf l) \<and>
    log_max_since_clear l' = min (log_max_since_clear l + length m) (fifo_cap (log_buf l))"
proof -
  obtain f' where "fifo_write (log_buf l) m FIFO_OVERWRITE = Some (0, f')" "fifo_inv f'"
    "fifo_cap f' = fifo_cap (log_buf l)"
    using fifo_write_overwrite [of "log_buf l" m FIFO_OVERWRITE] assms by (auto simp: log_inv_def)
  moreover have "add64 (log_max_since_clear l) (length m) = log_max_since_clear l + length m"
    using assms by (auto simp: log_inv_def fifo_inv_def u64_simps)
  ultimately show ?thesis by (simp add: log_buf_append_def log_inv_def fifo_capacity_def)
qed

lemma foldM_log_append:
  assumes "log_inv l" "\<And>m. m \<in> set ms \<Longrightarrow> length m \<le> fifo_cap (log_buf l)"
  shows "\<exists>l'. foldM log_buf_append l ms = Some l' \<and> log_inv l' \<and>
    foldM fifo_overwrite (log_buf l) ms = Some (log_buf l') \<and>
    log_max_since_clear l' = min (log_max_since_clear l + length (concat ms)) (fifo_cap (log_buf l))"
  using assms
proof (induction ms arbitrary: l)
  case (Cons m ms)
  obtain l1 where l1: "log_buf_append l m = Some l1" "log_inv l1"
    "fifo_cap (log_buf l1) = fifo_cap (log_buf l)"
    "log_max_since_clear l1 = min (log_max_since_clear l + length m) (fifo_cap (log_buf l))"
    using log_buf_append_total Cons.prems by (metis list.set_intros(1))
  show ?case using Cons.IH [OF l1(2)] Cons.prems(2) l1 log_buf_append_buf [OF l1(1)]
    by (auto simp: min_def)
qed (simp add: log_inv_def min_def)

text \<open>C21: after any sequence of messages of at most 2 ^ 20 bytes each, appended to the
  empty log, every append succeeded within the buffer, the log holds exactly the last 2 ^ 20
  bytes of what was written, and the count since the last clear is the number of
  those bytes.\<close>

theorem log_keeps_last_bytes:
  assumes "length zeroes = LOG_BUF_SIZE" "list_all (\<lambda>m. length m \<le> LOG_BUF_SIZE) ms"
  shows "\<exists>l. foldM log_buf_append (log_init zeroes) ms = Some l \<and>
    fifo_contents (log_buf l) = keep_last LOG_BUF_SIZE (concat ms) \<and>
    log_max_since_clear l = min (length (concat ms)) LOG_BUF_SIZE"
proof -
  have cap: "fifo_cap (log_buf (log_init zeroes)) = LOG_BUF_SIZE"
    and inv: "log_inv (log_init zeroes)"
    using assms(1) by (simp_all add: log_init_def log_inv_def fifo_init_inv) (simp add: fifo_init_def)
  have "fifo_inv (log_buf (log_init zeroes))" using inv by (simp add: log_inv_def)
  from ring.q_enq_all [OF this, of ms] foldM_log_append [OF inv, of ms] assms(2)
  show ?thesis unfolding cap by (auto simp: log_init_def list_all_iff)
qed

theorem log_keeps_last_bytes_witness:
  "\<exists>l. foldM log_buf_append (log_init (replicate LOG_BUF_SIZE 0)) [[1, 2], [3]] = Some l \<and>
    fifo_contents (log_buf l) = [1, 2, 3]"
  using log_keeps_last_bytes [of "replicate LOG_BUF_SIZE 0" "[[1, 2], [3]]"] by auto

text \<open>A syslog read that asks for more bytes than the log holds, but no more than its
  capacity, reports success and hands the guest the uninitialised heap block that \<^verbatim>\<open>malloc\<close>
  returned: the failure of \<^verbatim>\<open>fifo_read\<close> is ignored.\<close>

theorem syslog_read_leaks_heap:
  assumes "fifo_size (log_buf l) < nat len" "nat len \<le> fifo_capacity (log_buf l)"
  shows "do_syslog mallocd True l SYSLOG_ACTION_READ len = Some (len, mallocd (nat len), l)"
proof -
  have "\<not> len < 0" using assms(1) by linarith
  then show ?thesis using assms
    by (simp add: do_syslog_def syslog_read_def Let_def min_def fifo_size_def fifo_read_short)
qed

theorem syslog_read_leaks_heap_witness:
  "do_syslog (\<lambda>n. replicate n 42) True
     \<lparr>log_buf = \<lparr>fifo_buf = [1, 2, 3], fifo_cap = 3, fifo_len = 1, fifo_start = 0\<rparr>,
      log_max_since_clear = 1\<rparr> SYSLOG_ACTION_READ 3 =
   Some (3, [42, 42, 42], \<lparr>log_buf = \<lparr>fifo_buf = [1, 2, 3], fifo_cap = 3, fifo_len = 1, fifo_start = 0\<rparr>,
      log_max_since_clear = 1\<rparr>)"
  using syslog_read_leaks_heap
    [of "\<lparr>log_buf = \<lparr>fifo_buf = [1, 2, 3], fifo_cap = 3, fifo_len = 1, fifo_start = 0\<rparr>,
      log_max_since_clear = 1\<rparr>" 3 "\<lambda>n. replicate n 42"]
  by (simp add: fifo_size_def fifo_capacity_def numeral_3_eq_3)

end
