(* ===== verification/Reservations.thy ===== *)
theory Reservations
  imports Ish_Prelude
begin

text \<open>
  Lazy reservations of kernel/memory.c: the list of address ranges that were mapped with
  MAP_NORESERVE and have no page-table entries yet.  The list is the C list in order;
  whether the allocation of a split node succeeds is the parameter \<^verbatim>\<open>alloc\<close>, asked for the
  node being split.  Theorems read the list through \<^verbatim>\<open>res_at\<close>, the flags a fault at a page
  would see.
\<close>

section \<open>Constants of kernel/memory.h and emu/mmu.h\<close>

abbreviation MEM_PAGES :: nat where "MEM_PAGES \<equiv> 68719476736"
abbreviation BAD_PAGE :: nat where "BAD_PAGE \<equiv> 68719476736"

abbreviation P_READ :: flags32 where "P_READ \<equiv> 1"
abbreviation P_WRITE :: flags32 where "P_WRITE \<equiv> 2"
abbreviation P_EXEC :: flags32 where "P_EXEC \<equiv> 4"
abbreviation P_RWX :: flags32 where "P_RWX \<equiv> 7"
abbreviation P_GROWSDOWN :: flags32 where "P_GROWSDOWN \<equiv> 8"
abbreviation P_COW :: flags32 where "P_COW \<equiv> 16"
abbreviation P_ANONYMOUS :: flags32 where "P_ANONYMOUS \<equiv> 64"
abbreviation P_SHARED :: flags32 where "P_SHARED \<equiv> 128"

record mem_reservation =
  res_start :: nat
  res_pages :: nat
  res_flags :: flags32

section \<open>Operations\<close>

definition page_range_end :: "nat \<Rightarrow> nat \<Rightarrow> nat" where
  "page_range_end start pages =
    (if pages = 0 then start
     else if start \<ge> MEM_PAGES \<or> pages > MEM_PAGES - start then MEM_PAGES
     else start + pages)"

definition res_end :: "mem_reservation \<Rightarrow> nat" where
  "res_end r = page_range_end (res_start r) (res_pages r)"

fun mem_find_reservation :: "mem_reservation list \<Rightarrow> nat \<Rightarrow> mem_reservation option" where
  "mem_find_reservation [] page = None"
| "mem_find_reservation (r # rs) page =
    (if res_pages r \<noteq> 0 \<and> page \<ge> res_start r \<and> page < res_end r then Some r
     else mem_find_reservation rs page)"

definition res_map_lazy ::
  "bool \<Rightarrow> mem_reservation list \<Rightarrow> nat \<Rightarrow> nat \<Rightarrow> flags32 \<Rightarrow> int \<times> mem_reservation list" where
  "res_map_lazy mallocd rs start pages fl =
    (if \<not> mallocd then (ENOMEM, rs)
     else (0, \<lparr>res_start = start, res_pages = pages, res_flags = fl OR P_ANONYMOUS\<rparr> # rs))"

fun remove_res_loop ::
  "(mem_reservation \<Rightarrow> bool) \<Rightarrow> nat \<Rightarrow> nat \<Rightarrow> mem_reservation list \<Rightarrow> mem_reservation list" where
  "remove_res_loop alloc start u_end [] = []"
| "remove_res_loop alloc start u_end (r # rs) =
    (let r_end = res_end r in
     if res_start r \<ge> u_end \<or> r_end \<le> start then r # remove_res_loop alloc start u_end rs
     else if res_start r \<ge> start \<and> r_end \<le> u_end then remove_res_loop alloc start u_end rs
     else if res_start r < start \<and> r_end > u_end then
       if alloc r
       then r\<lparr>res_pages := start - res_start r\<rparr>
            # \<lparr>res_start = u_end, res_pages = r_end - u_end, res_flags = res_flags r\<rparr>
            # remove_res_loop alloc start u_end rs
       else r # remove_res_loop alloc start u_end rs
     else if res_start r < start
     then r\<lparr>res_pages := start - res_start r\<rparr> # remove_res_loop alloc start u_end rs
     else r\<lparr>res_start := u_end, res_pages := r_end - u_end\<rparr> # remove_res_loop alloc start u_end rs)"

definition mem_remove_reservations ::
  "(mem_reservation \<Rightarrow> bool) \<Rightarrow> mem_reservation list \<Rightarrow> nat \<Rightarrow> nat \<Rightarrow> mem_reservation list" where
  "mem_remove_reservations alloc rs start pages =
    (if pages = 0 then rs else remove_res_loop alloc start (page_range_end start pages) rs)"

text \<open>In the branch with only an \<^verbatim>\<open>after\<close> part the C loop visits the new tail next; the tail
  starts at the end of the range, so the visit skips it.\<close>

fun set_res_flags_loop ::
  "(mem_reservation \<Rightarrow> bool) \<Rightarrow> nat \<Rightarrow> nat \<Rightarrow> flags32 \<Rightarrow> mem_reservation list \<Rightarrow>
   int \<times> mem_reservation list" where
  "set_res_flags_loop alloc start u_end fl [] = (0, [])"
| "set_res_flags_loop alloc start u_end fl (r # rs) =
    (let r_end = res_end r in
     if res_start r \<ge> u_end \<or> r_end \<le> start
     then map_prod id (Cons r) (set_res_flags_loop alloc start u_end fl rs)
     else
       let overlap_start = (if res_start r > start then res_start r else start);
           overlap_end = (if r_end < u_end then r_end else u_end);
           before = overlap_start - res_start r;
           overlap = overlap_end - overlap_start;
           after = r_end - overlap_end;
           old_flags = res_flags r;
           new_flags = fl OR (old_flags AND P_ANONYMOUS);
           middle = \<lparr>res_start = overlap_start, res_pages = overlap, res_flags = new_flags\<rparr>;
           tail = \<lparr>res_start = overlap_end, res_pages = after, res_flags = old_flags\<rparr>
       in if before \<noteq> 0 \<and> after \<noteq> 0 then
            if \<not> alloc r then (ENOMEM, r # rs)
            else map_prod id (\<lambda>l. r\<lparr>res_pages := before\<rparr> # middle # tail # l)
                   (set_res_flags_loop alloc start u_end fl rs)
          else if before \<noteq> 0 then
            if \<not> alloc r then (ENOMEM, r # rs)
            else map_prod id (\<lambda>l. r\<lparr>res_pages := before\<rparr> # middle # l)
                   (set_res_flags_loop alloc start u_end fl rs)
          else if after \<noteq> 0 then
            if \<not> alloc r then (ENOMEM, r # rs)
            else map_prod id (\<lambda>l. middle # tail # l)
                   (set_res_flags_loop alloc start u_end fl rs)
          else map_prod id (Cons (r\<lparr>res_flags := new_flags\<rparr>))
                 (set_res_flags_loop alloc start u_end fl rs))"

definition mem_set_reservation_flags ::
  "(mem_reservation \<Rightarrow> bool) \<Rightarrow> mem_reservation list \<Rightarrow> nat \<Rightarrow> nat \<Rightarrow> flags32 \<Rightarrow>
   int \<times> mem_reservation list" where
  "mem_set_reservation_flags alloc rs start pages fl =
    (if pages = 0 then (0, rs)
     else set_res_flags_loop alloc start (page_range_end start pages) fl rs)"

fun range_has_res_loop :: "nat \<Rightarrow> nat \<Rightarrow> mem_reservation list \<Rightarrow> bool" where
  "range_has_res_loop start u_end [] = False"
| "range_has_res_loop start u_end (r # rs) =
    (if res_pages r = 0 then range_has_res_loop start u_end rs
     else if res_end r \<le> res_start r \<or> (res_start r < u_end \<and> res_end r > start) then True
     else range_has_res_loop start u_end rs)"

definition mem_range_has_reservation :: "mem_reservation list \<Rightarrow> nat \<Rightarrow> nat \<Rightarrow> bool" where
  "mem_range_has_reservation rs start pages =
    (if pages = 0 then False
     else let u_end = page_range_end start pages in
       if u_end \<le> start then True else range_has_res_loop start u_end rs)"

section \<open>Pointwise meaning of the list\<close>

definition res_at :: "mem_reservation list \<Rightarrow> nat \<Rightarrow> flags32 option" where
  "res_at rs page = map_option res_flags (mem_find_reservation rs page)"

definition in_res :: "mem_reservation \<Rightarrow> nat \<Rightarrow> bool" where
  "in_res r page \<longleftrightarrow> res_start r \<le> page \<and> page < res_end r"

lemma page_range_end_simps:
  "pages \<noteq> 0 \<Longrightarrow> start + pages \<le> MEM_PAGES \<Longrightarrow> page_range_end start pages = start + pages"
  "page_range_end start 0 = start"
  by (auto simp: page_range_end_def)

lemma page_range_end_le: "pages \<noteq> 0 \<Longrightarrow> page_range_end start pages \<le> MEM_PAGES"
  by (auto simp: page_range_end_def)

lemma in_res_pages: "in_res r page \<Longrightarrow> res_pages r \<noteq> 0"
  by (cases "res_pages r = 0") (auto simp: in_res_def res_end_def page_range_end_def)

lemma in_res_bound: "in_res r page \<Longrightarrow> res_end r \<le> MEM_PAGES"
  using page_range_end_le [of "res_pages r" "res_start r"] in_res_pages [of r page]
  by (auto simp: res_end_def)

lemma res_at_Nil [simp]: "res_at [] page = None"
  by (simp add: res_at_def)

lemma res_at_Cons:
  "res_at (r # rs) page = (if in_res r page then Some (res_flags r) else res_at rs page)"
  using in_res_pages [of r page] by (auto simp: res_at_def in_res_def)

text \<open>The pieces a reservation is cut into cover what their bounds say.\<close>

lemma res_end_cut:
  assumes "res_start r < e" "e \<le> res_end r"
  shows "res_end (r\<lparr>res_pages := e - res_start r\<rparr>) = e"
proof -
  have "res_end r \<le> MEM_PAGES"
    using assms by (auto simp: res_end_def page_range_end_def split: if_splits)
  then show ?thesis using assms by (simp add: res_end_def page_range_end_simps)
qed

lemma res_end_mk:
  assumes "s < e" "e \<le> MEM_PAGES"
  shows "res_end \<lparr>res_start = s, res_pages = e - s, res_flags = fl\<rparr> = e"
  using assms by (simp add: res_end_def page_range_end_simps)

lemma res_end_move:
  assumes "s < e" "e \<le> MEM_PAGES"
  shows "res_end (r\<lparr>res_start := s, res_pages := e - s\<rparr>) = e"
  using assms by (simp add: res_end_def page_range_end_simps)

lemma res_end_flags [simp]: "res_end (r\<lparr>res_flags := fl\<rparr>) = res_end r"
  by (simp add: res_end_def)

lemma res_end_bound: "res_start r < res_end r \<Longrightarrow> res_end r \<le> MEM_PAGES"
  by (auto simp: res_end_def page_range_end_def split: if_splits)

lemmas res_cut_simps = res_at_Cons in_res_def res_end_cut res_end_mk res_end_move

lemma remove_res_loop_at:
  assumes "\<And>r. alloc r" "start < u_end"
  shows "res_at (remove_res_loop alloc start u_end rs) page =
    (if start \<le> page \<and> page < u_end then None else res_at rs page)"
proof (induction rs)
  case (Cons r rs)
  have b: "res_start r < res_end r \<Longrightarrow> res_end r \<le> MEM_PAGES" by (rule res_end_bound)
  show ?case using Cons.IH assms b
    by (auto simp: Let_def res_cut_simps)
qed simp

lemma set_res_flags_loop_at:
  assumes "\<And>r. alloc r" "start < u_end"
  shows "fst (set_res_flags_loop alloc start u_end fl rs) = 0 \<and>
    res_at (snd (set_res_flags_loop alloc start u_end fl rs)) page =
    (if start \<le> page \<and> page < u_end
     then map_option (\<lambda>old. fl OR (old AND P_ANONYMOUS)) (res_at rs page) else res_at rs page)"
proof (induction rs)
  case (Cons r rs)
  have b: "res_start r < res_end r \<Longrightarrow> res_end r \<le> MEM_PAGES" by (rule res_end_bound)
  show ?case using Cons.IH assms b
    by (auto simp: Let_def res_cut_simps)
qed simp

lemma res_skip_beyond:
  assumes "MEM_PAGES \<le> start"
  shows "res_start r \<ge> MEM_PAGES \<or> res_end r \<le> start"
  using assms by (auto simp: res_end_def page_range_end_def)

lemma res_loops_beyond:
  assumes "MEM_PAGES \<le> start"
  shows "remove_res_loop alloc start MEM_PAGES rs = rs"
    "set_res_flags_loop alloc start MEM_PAGES fl rs = (0, rs)"
  using res_skip_beyond [OF assms] by (induction rs) (auto simp: Let_def)

lemma page_range_end_cases:
  assumes "pages \<noteq> 0"
  obtains (inside) "start < page_range_end start pages"
    | (beyond) "MEM_PAGES \<le> start" "page_range_end start pages = MEM_PAGES"
  using assms by (cases "MEM_PAGES \<le> start") (auto simp: page_range_end_def split: if_splits)

lemma range_has_res_loop_False:
  assumes "\<not> range_has_res_loop start u_end rs" "start \<le> page" "page < u_end"
  shows "res_at rs page = None"
  using assms
proof (induction rs)
  case (Cons r rs)
  then show ?case using in_res_pages [of r page]
    by (auto simp: res_at_Cons in_res_def split: if_splits)
qed simp

lemma set_res_flags_loop_cover:
  assumes "start < u_end"
  shows "res_at (snd (set_res_flags_loop alloc start u_end fl rs)) page = None \<longleftrightarrow> res_at rs page = None"
proof (induction rs)
  case (Cons r rs)
  have b: "res_start r < res_end r \<Longrightarrow> res_end r \<le> MEM_PAGES" by (rule res_end_bound)
  show ?case using Cons.IH assms b
    by (auto simp: Let_def res_cut_simps)
qed simp

lemma res_removed_at:
  assumes "\<And>r. alloc r"
  shows "res_at (mem_remove_reservations alloc rs start pages) page =
    (if start \<le> page \<and> page < page_range_end start pages then None else res_at rs page)"
proof (cases "pages = 0")
  case False
  then show ?thesis
  proof (cases rule: page_range_end_cases [of pages start])
    case inside
    then show ?thesis using False by (simp add: mem_remove_reservations_def remove_res_loop_at assms)
  next
    case beyond
    then show ?thesis using False by (auto simp: mem_remove_reservations_def res_loops_beyond)
  qed
qed (auto simp: mem_remove_reservations_def page_range_end_simps)

section \<open>Properties\<close>

text \<open>Removing reservations on a range of pages takes exactly the pages of that range (clamped
  to the address space) out of every reservation, and every other page keeps the flags it
  had, provided the node for a reservation cut in two can be allocated.\<close>

theorem mem_remove_reservations_at:
  assumes "\<And>r. alloc r"
  shows "res_at (mem_remove_reservations alloc rs start pages) page =
    (if start \<le> page \<and> page < page_range_end start pages then None else res_at rs page)"
  by (rule res_removed_at) (rule assms)

theorem mem_remove_reservations_at_witness:
  "res_at (mem_remove_reservations (\<lambda>_. True)
      [\<lparr>res_start = 10, res_pages = 10, res_flags = 3\<rparr>] 12 3) 13 = None \<and>
   res_at (mem_remove_reservations (\<lambda>_. True)
      [\<lparr>res_start = 10, res_pages = 10, res_flags = 3\<rparr>] 12 3) 15 = Some 3"
  by (simp add: mem_remove_reservations_at [of "\<lambda>_. True"])
     (simp add: res_at_def res_end_def page_range_end_def)

text \<open>Changing the protection of a range of reserved pages gives every reserved page of the
  range the new flags with its old anonymous bit, leaves the flags of every other page
  alone, and reserves no page that was not reserved, provided the split nodes can be
  allocated.\<close>

theorem mem_set_reservation_flags_at:
  assumes "\<And>r. alloc r"
  shows "\<exists>rs'. mem_set_reservation_flags alloc rs start pages fl = (0, rs') \<and>
    (\<forall>page. res_at rs' page =
      (if start \<le> page \<and> page < page_range_end start pages
       then map_option (\<lambda>old. fl OR (old AND P_ANONYMOUS)) (res_at rs page) else res_at rs page))"
proof (cases "pages = 0")
  case False
  then show ?thesis
  proof (cases rule: page_range_end_cases [of pages start])
    case inside
    show ?thesis using False set_res_flags_loop_at [of alloc, OF assms inside]
      by (intro exI [where x="snd (mem_set_reservation_flags alloc rs start pages fl)"])
         (auto simp: mem_set_reservation_flags_def prod_eq_iff)
  next
    case beyond
    then show ?thesis using False by (auto simp: mem_set_reservation_flags_def res_loops_beyond)
  qed
qed (auto simp: mem_set_reservation_flags_def page_range_end_simps)

theorem mem_set_reservation_flags_at_witness:
  "\<exists>rs'. mem_set_reservation_flags (\<lambda>_. True)
      [\<lparr>res_start = 10, res_pages = 10, res_flags = 64\<rparr>] 12 3 5 = (0, rs') \<and>
    res_at rs' 13 = Some 69 \<and> res_at rs' 15 = Some 64"
proof -
  from mem_set_reservation_flags_at [of "\<lambda>_. True" "[\<lparr>res_start = 10, res_pages = 10, res_flags = 64\<rparr>]" 12 3 5]
  obtain rs' where "mem_set_reservation_flags (\<lambda>_. True)
      [\<lparr>res_start = 10, res_pages = 10, res_flags = 64\<rparr>] 12 3 5 = (0, rs')"
    and "\<forall>page. res_at rs' page = (if 12 \<le> page \<and> page < page_range_end 12 3
       then map_option (\<lambda>old. 5 OR (old AND P_ANONYMOUS))
              (res_at [\<lparr>res_start = 10, res_pages = 10, res_flags = 64\<rparr>] page)
       else res_at [\<lparr>res_start = 10, res_pages = 10, res_flags = 64\<rparr>] page)"
    by auto
  then show ?thesis by (simp add: res_at_Cons in_res_def res_end_def page_range_end_def)
qed

end
