(* ===== verification/Page_Table.thy ===== *)
theory Page_Table
  imports Reservations
begin

text \<open>
  The four-level page table of kernel/memory.c.  A node is the function from its 512 indices
  to its children; a child that was never allocated is \<^term>\<open>None\<close>.  Entries hold the
  number of a host memory block (\<^verbatim>\<open>struct data\<close>), an offset into it and flags.  The locale
  \<^verbatim>\<open>page_map\<close> states what the callers rely on (a flat map from page numbers to entries that can
  be traversed in increasing order without missing a page) and is interpreted on the tree.
\<close>

section \<open>Data\<close>

record pt_entry =
  pt_data :: "nat option"
  pt_offset :: nat
  pt_flags :: flags32

type_synonym pt_l3 = "nat \<Rightarrow> pt_entry"
type_synonym pt_l2 = "nat \<Rightarrow> pt_l3 option"
type_synonym pt_l1 = "nat \<Rightarrow> pt_l2 option"
type_synonym pt_l0 = "nat \<Rightarrow> pt_l1 option"

record mem =
  pgdir :: "pt_l0 option"
  pgdir_used :: int
  mmap_hint :: nat
  reservations :: "mem_reservation list"
  mmu_changes :: nat
  invalidated :: "nat list"

abbreviation MMAP_HOLE_START :: nat where "MMAP_HOLE_START \<equiv> 983037"
abbreviation MMAP_HOLE_END :: nat where "MMAP_HOLE_END \<equiv> 256"
abbreviation STACK_TOP_PAGE :: nat where "STACK_TOP_PAGE \<equiv> 1048574"
abbreviation STACK_INIT_PAGE :: nat where "STACK_INIT_PAGE \<equiv> 1048573"
abbreviation USER_ADDR_MAX_PAGE :: nat where "USER_ADDR_MAX_PAGE \<equiv> 68719476735"

definition PT_INDEX :: "nat \<Rightarrow> nat \<Rightarrow> nat" where
  "PT_INDEX page level = (page div 2 ^ (9 * (3 - level))) mod 512"

definition zero_entry :: pt_entry where
  "zero_entry = \<lparr>pt_data = None, pt_offset = 0, pt_flags = 0\<rparr>"

definition mem_init :: mem where
  "mem_init = \<lparr>pgdir = Some (\<lambda>_. None), pgdir_used = 0, mmap_hint = 0, reservations = [],
     mmu_changes = 0, invalidated = []\<rparr>"

section \<open>Walking the tree\<close>

definition walk_l1 :: "mem \<Rightarrow> nat \<Rightarrow> pt_l1 option" where
  "walk_l1 m page = (case pgdir m of None \<Rightarrow> None | Some l0 \<Rightarrow> l0 (PT_INDEX page 0))"

definition walk_l2 :: "mem \<Rightarrow> nat \<Rightarrow> pt_l2 option" where
  "walk_l2 m page = (case walk_l1 m page of None \<Rightarrow> None | Some l1 \<Rightarrow> l1 (PT_INDEX page 1))"

definition walk_l3 :: "mem \<Rightarrow> nat \<Rightarrow> pt_l3 option" where
  "walk_l3 m page = (case walk_l2 m page of None \<Rightarrow> None | Some l2 \<Rightarrow> l2 (PT_INDEX page 2))"

definition mem_pt :: "mem \<Rightarrow> nat \<Rightarrow> pt_entry option" where
  "mem_pt m page =
    (case walk_l3 m page of
       None \<Rightarrow> None
     | Some l3 \<Rightarrow>
         let entry = l3 (PT_INDEX page 3)
         in if pt_data entry = None then None else Some entry)"

text \<open>\<^verbatim>\<open>mem_pt_new\<close> returns a pointer to the entry of a page, after creating the missing nodes;
  the model takes what is written through the pointer as the function \<^verbatim>\<open>upd\<close>.  A null page
  directory is dereferenced by the C code; it does not exist between \<^verbatim>\<open>mem_init\<close> and \<^verbatim>\<open>mem_destroy\<close>.\<close>

definition mem_pt_new :: "mem \<Rightarrow> nat \<Rightarrow> (pt_entry \<Rightarrow> pt_entry) \<Rightarrow> mem" where
  "mem_pt_new m page upd =
    (case pgdir m of
       None \<Rightarrow> m
     | Some l0 \<Rightarrow>
         let i0 = PT_INDEX page 0; i1 = PT_INDEX page 1; i2 = PT_INDEX page 2; i3 = PT_INDEX page 3;
             used = (if l0 i0 = None then pgdir_used m + 1 else pgdir_used m);
             l1 = (case l0 i0 of None \<Rightarrow> (\<lambda>_. None) | Some l1 \<Rightarrow> l1);
             l2 = (case l1 i1 of None \<Rightarrow> (\<lambda>_. None) | Some l2 \<Rightarrow> l2);
             l3 = (case l2 i2 of None \<Rightarrow> (\<lambda>_. zero_entry) | Some l3 \<Rightarrow> l3)
         in m\<lparr>pgdir := Some (l0(i0 := Some (l1(i1 := Some (l2(i2 := Some (l3(i3 := upd (l3 i3))))))))),
              pgdir_used := used\<rparr>)"

text \<open>Writing through the pointer \<^verbatim>\<open>mem_pt\<close> returned; nothing to write when it is null.\<close>

definition mem_pt_modify :: "mem \<Rightarrow> nat \<Rightarrow> (pt_entry \<Rightarrow> pt_entry) \<Rightarrow> mem" where
  "mem_pt_modify m page upd =
    (case mem_pt m page of None \<Rightarrow> m | Some _ \<Rightarrow> mem_pt_new m page upd)"

definition mem_pt_del :: "mem \<Rightarrow> nat \<Rightarrow> mem" where
  "mem_pt_del m page = mem_pt_modify m page (\<lambda>e. e\<lparr>pt_data := None\<rparr>)"

definition skip_region :: "nat \<Rightarrow> nat \<Rightarrow> nat" where
  "skip_region k page = (page div 2 ^ k + 1) * 2 ^ k"

lemma skip_region_less: "page < skip_region k page"
proof -
  have "page = page div 2 ^ k * 2 ^ k + page mod 2 ^ k" by (rule div_mult_mod_eq [symmetric])
  moreover have "page mod 2 ^ k < 2 ^ k" by simp
  ultimately show ?thesis unfolding skip_region_def add_mult_distrib by linarith
qed

function next_page_loop :: "mem \<Rightarrow> nat \<Rightarrow> nat" where
  "next_page_loop m page =
    (if page < MEM_PAGES then
       if walk_l1 m page = None then next_page_loop m (skip_region 27 page)
       else if walk_l2 m page = None then next_page_loop m (skip_region 18 page)
       else if walk_l3 m page = None then next_page_loop m (skip_region 9 page)
       else page
     else page)"
  by pat_completeness auto
termination
  by (relation "measure (\<lambda>(m, page). MEM_PAGES - page)")
     (auto intro!: diff_less_mono2 skip_region_less)

declare next_page_loop.simps [simp del]

definition mem_next_page :: "mem \<Rightarrow> nat \<Rightarrow> nat" where
  "mem_next_page m page =
    (let page = page + 1 in
     if page \<ge> MEM_PAGES then page
     else if pgdir m = None then MEM_PAGES
     else next_page_loop m page)"

definition mem_changed :: "mem \<Rightarrow> mem" where
  "mem_changed m = m\<lparr>mmu_changes := add64 (mmu_changes m) 1\<rparr>"

section \<open>The tree as a flat map\<close>

definition same_slot :: "nat \<Rightarrow> nat \<Rightarrow> bool" where
  "same_slot p q \<longleftrightarrow> PT_INDEX p 0 = PT_INDEX q 0 \<and> PT_INDEX p 1 = PT_INDEX q 1 \<and>
     PT_INDEX p 2 = PT_INDEX q 2 \<and> PT_INDEX p 3 = PT_INDEX q 3"

lemma mod_mult_eqI:
  fixes p q a b :: nat
  assumes "p mod a = q mod a" "p div a mod b = q div a mod b"
  shows "p mod (a * b) = q mod (a * b)"
  using assms by (simp add: mod_mult2_eq)

lemma mod_mult_div_mod:
  fixes p a b c :: nat
  assumes "0 < a" "c dvd b"
  shows "p mod (a * b) div a mod c = p div a mod c"
  using assms by (simp add: mod_mult2_eq mod_mod_cancel)

lemma same_slot_iff: "same_slot p q \<longleftrightarrow> p mod MEM_PAGES = q mod MEM_PAGES"
proof
  assume s: "same_slot p q"
  have "p mod 512 = q mod 512" "p div 512 mod 512 = q div 512 mod 512"
    "p div 262144 mod 512 = q div 262144 mod 512" "p div 134217728 mod 512 = q div 134217728 mod 512"
    using s by (auto simp: same_slot_def PT_INDEX_def)
  then show "p mod MEM_PAGES = q mod MEM_PAGES"
    using mod_mult_eqI [of p 512 q 512] mod_mult_eqI [of p 262144 q 512]
      mod_mult_eqI [of p 134217728 q 512] by simp
next
  have idx: "PT_INDEX (p mod (2 ^ (9 * (3 - l)) * 2 ^ (9 * (l + 1)))) l = PT_INDEX p l" for p l
    unfolding PT_INDEX_def by (rule mod_mult_div_mod) (simp_all add: power_add)
  have idx': "PT_INDEX (p mod MEM_PAGES) l = PT_INDEX p l" if "l \<in> {0, 1, 2, 3}" for p l
  proof -
    have "(2 :: nat) ^ (9 * (3 - l)) * 2 ^ (9 * (l + 1)) = MEM_PAGES" using that by auto
    then show ?thesis using idx [of p l] by (simp only:)
  qed
  assume "p mod MEM_PAGES = q mod MEM_PAGES"
  then have "PT_INDEX p l = PT_INDEX q l" if "l \<in> {0, 1, 2, 3}" for l
    using idx' [OF that, of p] idx' [OF that, of q] by metis
  then show "same_slot p q" unfolding same_slot_def by blast
qed


lemma same_slot_eq: "p < MEM_PAGES \<Longrightarrow> q < MEM_PAGES \<Longrightarrow> same_slot p q \<longleftrightarrow> p = q"
  by (simp add: same_slot_iff)

lemma walk_cong:
  "PT_INDEX p 0 = PT_INDEX q 0 \<Longrightarrow> walk_l1 m p = walk_l1 m q"
  "PT_INDEX p 0 = PT_INDEX q 0 \<Longrightarrow> PT_INDEX p 1 = PT_INDEX q 1 \<Longrightarrow> walk_l2 m p = walk_l2 m q"
  "PT_INDEX p 0 = PT_INDEX q 0 \<Longrightarrow> PT_INDEX p 1 = PT_INDEX q 1 \<Longrightarrow> PT_INDEX p 2 = PT_INDEX q 2 \<Longrightarrow>
   walk_l3 m p = walk_l3 m q"
  unfolding walk_l3_def walk_l2_def walk_l1_def
  by (simp_all cong: option.case_cong del: One_nat_def)

lemma mem_pt_same_slot: "same_slot p q \<Longrightarrow> mem_pt m p = mem_pt m q"
  unfolding same_slot_def mem_pt_def using walk_cong(3) [of p q m]
  by (simp cong: option.case_cong del: One_nat_def)

definition pt_raw :: "mem \<Rightarrow> nat \<Rightarrow> pt_entry" where
  "pt_raw m page = (case walk_l3 m page of None \<Rightarrow> zero_entry | Some l3 \<Rightarrow> l3 (PT_INDEX page 3))"

lemma mem_pt_raw:
  "mem_pt m page = (if pt_data (pt_raw m page) = None then None else Some (pt_raw m page))"
  by (auto simp: mem_pt_def pt_raw_def zero_entry_def Let_def split: option.splits)

lemma pt_raw_new:
  "pgdir m \<noteq> None \<Longrightarrow>
   pt_raw (mem_pt_new m page upd) q = (if same_slot page q then upd (pt_raw m page) else pt_raw m q)"
  by (auto simp: pt_raw_def mem_pt_new_def same_slot_def walk_l3_def walk_l2_def walk_l1_def Let_def
      split: option.splits if_splits)

lemma pgdir_new [simp]: "pgdir (mem_pt_new m page upd) = None \<longleftrightarrow> pgdir m = None"
  by (auto simp: mem_pt_new_def Let_def split: option.splits)

lemma pgdir_modify [simp]: "pgdir (mem_pt_modify m page upd) = None \<longleftrightarrow> pgdir m = None"
  by (auto simp: mem_pt_modify_def split: option.splits)

lemma pgdir_del [simp]: "pgdir (mem_pt_del m page) = None \<longleftrightarrow> pgdir m = None"
  by (simp add: mem_pt_del_def)

lemma mem_pt_pgdir: "mem_pt m page = Some e \<Longrightarrow> pgdir m \<noteq> None"
  by (auto simp: mem_pt_def walk_l3_def walk_l2_def walk_l1_def split: option.splits)

lemma mem_pt_Some_raw: "mem_pt m page = Some e \<longleftrightarrow> pt_raw m page = e \<and> pt_data e \<noteq> None"
  by (auto simp: mem_pt_raw)

lemma mem_pt_new_lookup:
  assumes "pgdir m \<noteq> None" "pt_data (upd (pt_raw m page)) \<noteq> None"
  shows "mem_pt (mem_pt_new m page upd) q =
    (if same_slot page q then Some (upd (pt_raw m page)) else mem_pt m q)"
  using assms by (auto simp: mem_pt_raw pt_raw_new)

lemma mem_pt_modify_lookup:
  assumes "\<And>e. pt_data (upd e) = pt_data e"
  shows "mem_pt (mem_pt_modify m page upd) q =
    (if same_slot page q then map_option upd (mem_pt m page) else mem_pt m q)"
proof (cases "mem_pt m page")
  case None
  then show ?thesis using mem_pt_same_slot [of page q m] by (simp add: mem_pt_modify_def)
next
  case (Some e)
  then show ?thesis using mem_pt_pgdir [OF Some] assms
    by (auto simp: mem_pt_modify_def mem_pt_raw pt_raw_new split: if_splits)
qed

lemma mem_pt_del_lookup:
  "mem_pt (mem_pt_del m page) q = (if same_slot page q then None else mem_pt m q)"
proof (cases "mem_pt m page")
  case None
  then show ?thesis using mem_pt_same_slot [of page q m]
    by (simp add: mem_pt_del_def mem_pt_modify_def)
next
  case (Some e)
  then show ?thesis using mem_pt_pgdir [OF Some]
    by (auto simp: mem_pt_del_def mem_pt_modify_def mem_pt_raw pt_raw_new split: if_splits)
qed

text \<open>Pages above the 48-bit address space fall on the entry of the page 2 ^ 36 below.\<close>

lemma mem_pt_wraps: "mem_pt m (page + k * MEM_PAGES) = mem_pt m page"
  by (rule mem_pt_same_slot) (simp add: same_slot_iff)

section \<open>Traversal never misses a page\<close>

lemma skip_region_index:
  fixes page q :: nat
  assumes "page \<le> q" "q < skip_region k page"
  shows "q div 2 ^ k = page div 2 ^ k"
proof (rule antisym)
  show "page div 2 ^ k \<le> q div 2 ^ k" by (rule div_le_mono) (rule assms)
  have "q div 2 ^ k < page div 2 ^ k + 1"
    using assms(2) by (intro less_mult_imp_div_less) (simp add: skip_region_def)
  then show "q div 2 ^ k \<le> page div 2 ^ k" by simp
qed

lemma PT_INDEX_skip:
  assumes "page \<le> q" "q < skip_region k page" "k \<le> 9 * (3 - l)"
  shows "PT_INDEX q l = PT_INDEX page l"
proof -
  define j where "j = 9 * (3 - l)"
  have split: "(2 :: nat) ^ j = 2 ^ k * 2 ^ (j - k)"
    using assms(3) by (simp add: j_def flip: power_add)
  have "q div 2 ^ j = page div 2 ^ j"
    unfolding split div_mult2_eq using skip_region_index [OF assms(1,2)] by simp
  then show ?thesis by (simp add: PT_INDEX_def j_def)
qed

lemma walk_l3_None: "walk_l1 m p = None \<or> walk_l2 m p = None \<or> walk_l3 m p = None \<Longrightarrow> mem_pt m p = None"
  by (auto simp: mem_pt_def walk_l3_def walk_l2_def split: option.splits)

lemma next_page_loop_cases:
  obtains (skip) k where "page < MEM_PAGES"
      "walk_l1 m page = None \<and> k = 27 \<or> walk_l2 m page = None \<and> k = 18 \<or> walk_l3 m page = None \<and> k = 9"
      "next_page_loop m page = next_page_loop m (skip_region k page)"
    | (stop) "next_page_loop m page = page"
  using next_page_loop.simps [of m page] by metis

lemma next_page_induct [case_names step]:
  assumes "\<And>page. (\<And>k. page < MEM_PAGES \<Longrightarrow> P (skip_region k page)) \<Longrightarrow> P page"
  shows "P (page :: nat)"
proof (induction "MEM_PAGES - page" arbitrary: page rule: less_induct)
  case less
  show ?case by (rule assms, rule less) (use skip_region_less in \<open>auto intro: diff_less_mono2\<close>)
qed

lemma next_page_loop_ge: "page \<le> next_page_loop m page"
proof (induction page rule: next_page_induct)
  case (step page)
  show ?case
  proof (cases rule: next_page_loop_cases [of page m])
    case (skip k)
    then show ?thesis using step [OF skip(1), of k] skip_region_less [of page k] by simp
  qed simp
qed

lemma region_unmapped:
  assumes "walk_l1 m page = None \<and> k = 27 \<or> walk_l2 m page = None \<and> k = 18 \<or> walk_l3 m page = None \<and> k = 9"
    "page \<le> q" "q < skip_region k page"
  shows "mem_pt m q = None"
proof -
  note idx = PT_INDEX_skip [OF assms(2,3)]
  have "walk_l1 m q = None \<or> walk_l2 m q = None \<or> walk_l3 m q = None"
    using assms(1)
  proof (elim disjE conjE)
    assume "walk_l1 m page = None" "k = 27"
    then show ?thesis using walk_cong(1) [OF idx [of 0]] by simp
  next
    assume "walk_l2 m page = None" "k = 18"
    then show ?thesis using walk_cong(2) [OF idx [of 0] idx [of 1]] by simp
  next
    assume "walk_l3 m page = None" "k = 9"
    then show ?thesis using walk_cong(3) [OF idx [of 0] idx [of 1] idx [of 2]] by simp
  qed
  then show ?thesis by (rule walk_l3_None)
qed

lemma next_page_loop_skips:
  "page \<le> q \<Longrightarrow> q < next_page_loop m page \<Longrightarrow> mem_pt m q = None"
proof (induction page rule: next_page_induct)
  case (step page)
  show ?case
  proof (cases rule: next_page_loop_cases [of page m])
    case (skip k)
    then show ?thesis
      using step.IH [OF skip(1), of k] step.prems region_unmapped [OF skip(2) step.prems(1)]
      by (cases "skip_region k page \<le> q") auto
  next
    case stop
    then show ?thesis using step.prems by simp
  qed
qed

lemma mem_next_page_gt: "page < mem_next_page m page"
  using next_page_loop_ge [of "page + 1" m] by (auto simp: mem_next_page_def Let_def)

lemma mem_next_page_skips:
  assumes "page < q" "q < mem_next_page m page" "q < MEM_PAGES"
  shows "mem_pt m q = None"
proof (cases "pgdir m = None")
  case True
  then show ?thesis by (simp add: mem_pt_def walk_l3_def walk_l2_def walk_l1_def)
next
  case False
  then show ?thesis using assms next_page_loop_skips [of "page + 1" q m]
    by (auto simp: mem_next_page_def Let_def split: if_splits)
qed

section \<open>Fields the page-table writes leave alone\<close>

lemma mem_pt_new_frame [simp]:
  "mmap_hint (mem_pt_new m page upd) = mmap_hint m"
  "reservations (mem_pt_new m page upd) = reservations m"
  "mmu_changes (mem_pt_new m page upd) = mmu_changes m"
  "invalidated (mem_pt_new m page upd) = invalidated m"
  by (simp_all add: mem_pt_new_def Let_def split: option.split)

lemma mem_pt_modify_frame [simp]:
  "mmap_hint (mem_pt_modify m page upd) = mmap_hint m"
  "reservations (mem_pt_modify m page upd) = reservations m"
  "mmu_changes (mem_pt_modify m page upd) = mmu_changes m"
  "invalidated (mem_pt_modify m page upd) = invalidated m"
  by (simp_all add: mem_pt_modify_def split: option.split)

lemma mem_pt_del_frame [simp]:
  "mmap_hint (mem_pt_del m page) = mmap_hint m"
  "reservations (mem_pt_del m page) = reservations m"
  "mmu_changes (mem_pt_del m page) = mmu_changes m"
  "invalidated (mem_pt_del m page) = invalidated m"
  by (simp_all add: mem_pt_del_def)

lemma walk_fields [simp]:
  "walk_l1 (m\<lparr>mmap_hint := h\<rparr>) = walk_l1 m" "walk_l1 (m\<lparr>reservations := r\<rparr>) = walk_l1 m"
  "walk_l1 (m\<lparr>mmu_changes := c\<rparr>) = walk_l1 m" "walk_l1 (m\<lparr>invalidated := i\<rparr>) = walk_l1 m"
  by (auto simp: walk_l1_def fun_eq_iff)

lemma mem_pt_cong: "walk_l1 m' = walk_l1 m \<Longrightarrow> mem_pt m' = mem_pt m"
  by (simp add: fun_eq_iff mem_pt_def walk_l3_def walk_l2_def)

lemma mem_pt_fields [simp]:
  "mem_pt (m\<lparr>mmap_hint := h\<rparr>) = mem_pt m" "mem_pt (m\<lparr>reservations := r\<rparr>) = mem_pt m"
  "mem_pt (m\<lparr>mmu_changes := c\<rparr>) = mem_pt m" "mem_pt (m\<lparr>invalidated := i\<rparr>) = mem_pt m"
  "mem_pt (mem_changed m) = mem_pt m"
  by (rule mem_pt_cong, simp add: mem_changed_def)+

lemma mem_changed_fields [simp]:
  "pgdir (mem_changed m) = pgdir m" "mmap_hint (mem_changed m) = mmap_hint m"
  "reservations (mem_changed m) = reservations m" "invalidated (mem_changed m) = invalidated m"
  by (simp_all add: mem_changed_def)

text \<open>The traversal depends only on which nodes are allocated.\<close>

definition same_nodes :: "mem \<Rightarrow> mem \<Rightarrow> bool" where
  "same_nodes m m' \<longleftrightarrow> (pgdir m' = None \<longleftrightarrow> pgdir m = None) \<and>
    (\<forall>p. (walk_l1 m' p = None \<longleftrightarrow> walk_l1 m p = None) \<and> (walk_l2 m' p = None \<longleftrightarrow> walk_l2 m p = None) \<and>
         (walk_l3 m' p = None \<longleftrightarrow> walk_l3 m p = None))"

lemma next_page_loop_same_nodes:
  assumes "same_nodes m m'"
  shows "next_page_loop m' page = next_page_loop m page"
proof (induction page rule: next_page_induct)
  case (step page)
  show ?case
    unfolding next_page_loop.simps [of m' page] next_page_loop.simps [of m page]
    using assms step by (simp add: same_nodes_def)
qed

lemma mem_next_page_same_nodes: "same_nodes m m' \<Longrightarrow> mem_next_page m' = mem_next_page m"
proof -
  assume s: "same_nodes m m'"
  then have "pgdir m' = None \<longleftrightarrow> pgdir m = None" by (simp add: same_nodes_def)
  then show "mem_next_page m' = mem_next_page m"
    by (simp only: fun_eq_iff mem_next_page_def next_page_loop_same_nodes [OF s] simp_thms)
qed

lemma same_nodes_modify: "same_nodes m (mem_pt_modify m page upd)"
proof (cases "mem_pt m page")
  case (Some e)
  then obtain l0 l1 l2 l3 where "pgdir m = Some l0" "l0 (PT_INDEX page 0) = Some l1"
    "l1 (PT_INDEX page 1) = Some l2" "l2 (PT_INDEX page 2) = Some l3"
    by (auto simp: mem_pt_def walk_l3_def walk_l2_def walk_l1_def split: option.splits)
  then show ?thesis using Some
    by (auto simp: same_nodes_def mem_pt_modify_def mem_pt_new_def Let_def walk_l3_def walk_l2_def
        walk_l1_def simp del: One_nat_def)
qed (simp add: same_nodes_def mem_pt_modify_def)

lemma mem_next_page_modify [simp]: "mem_next_page (mem_pt_modify m page upd) = mem_next_page m"
  by (rule mem_next_page_same_nodes) (rule same_nodes_modify)

lemma mem_next_page_del [simp]: "mem_next_page (mem_pt_del m page) = mem_next_page m"
  by (simp add: mem_pt_del_def)

lemma mem_next_page_fields [simp]:
  "mem_next_page (m\<lparr>mmap_hint := h\<rparr>) = mem_next_page m"
  "mem_next_page (m\<lparr>reservations := r\<rparr>) = mem_next_page m"
  "mem_next_page (m\<lparr>invalidated := i\<rparr>) = mem_next_page m"
  by (rule mem_next_page_same_nodes, simp add: same_nodes_def walk_l3_def walk_l2_def)+

section \<open>The contract of a traversable page map\<close>

function visit :: "(nat \<Rightarrow> nat) \<Rightarrow> nat \<Rightarrow> nat \<Rightarrow> nat list" where
  "visit nxt page limit =
    (if page < limit then page # (if page < nxt page then visit nxt (nxt page) limit else []) else [])"
  by pat_completeness auto
termination by (relation "measure (\<lambda>(nxt, page, limit). limit - page)") auto

declare visit.simps [simp del]

locale page_map =
  fixes bound :: nat
    and lookup :: "'m \<Rightarrow> nat \<Rightarrow> 'e option"
    and remove :: "'m \<Rightarrow> nat \<Rightarrow> 'm"
    and nxt :: "'m \<Rightarrow> nat \<Rightarrow> nat"
  assumes lookup_remove: "p < bound \<Longrightarrow> q < bound \<Longrightarrow> lookup (remove m p) q = (if p = q then None else lookup m q)"
    and nxt_gt: "p < nxt m p"
    and nxt_skips: "p < q \<Longrightarrow> q < nxt m p \<Longrightarrow> q < bound \<Longrightarrow> lookup m q = None"
    and nxt_remove: "nxt (remove m p) = nxt m"
begin

lemma visit_unfold: "visit (nxt m) p limit = (if p < limit then p # visit (nxt m) (nxt m p) limit else [])"
  using nxt_gt [of p m] by (subst visit.simps) simp

lemma visit_range: "q \<in> set (visit (nxt m) p limit) \<Longrightarrow> p \<le> q \<and> q < limit"
proof (induction "nxt m" p limit rule: visit.induct)
  case (1 p limit)
  then show ?case using nxt_gt [of p m]
    by (subst (asm) (2) visit_unfold) (auto split: if_splits)
qed

lemma visit_complete:
  assumes "p \<le> q" "q < limit" "q < bound" "lookup m q \<noteq> None"
  shows "q \<in> set (visit (nxt m) p limit)"
  using assms(1,2)
proof (induction "nxt m" p limit rule: visit.induct)
  case (1 p limit)
  show ?case
  proof (cases "nxt m p \<le> q")
    case True
    then show ?thesis using 1 nxt_gt [of p m] by (subst visit_unfold) auto
  next
    case False
    then have "p = q" using nxt_skips [of p q m] 1(2) assms(3,4) by fastforce
    then show ?thesis using 1(3) by (subst visit_unfold) simp
  qed
qed

lemma visit_sorted: "sorted_wrt (<) (visit (nxt m) p limit)"
proof (induction "nxt m" p limit rule: visit.induct)
  case (1 p limit)
  have "p < q" if "q \<in> set (visit (nxt m) (nxt m p) limit)" for q
    using visit_range [OF that] nxt_gt [of p m] by simp
  then show ?case using 1 nxt_gt [of p m] by (subst visit_unfold) auto
qed

lemma nxt_fold: "nxt (foldl remove m ps) = nxt m"
  by (induction ps arbitrary: m) (simp_all add: nxt_remove)

lemma fold_remove_lookup:
  assumes "q < bound" "\<And>p. p \<in> set ps \<Longrightarrow> p < bound"
  shows "lookup (foldl remove m ps) q = (if q \<in> set ps then None else lookup m q)"
  using assms(2) by (induction ps arbitrary: m) (auto simp: lookup_remove assms(1))

lemma clear_range:
  assumes "q < bound" "limit \<le> bound"
  shows "lookup (foldl remove m (visit (nxt m) p limit)) q =
    (if p \<le> q \<and> q < limit then None else lookup m q)"
proof -
  have "lookup (foldl remove m (visit (nxt m) p limit)) q =
    (if q \<in> set (visit (nxt m) p limit) then None else lookup m q)"
    using visit_range [of _ m p limit] assms
    by (intro fold_remove_lookup) (auto intro: less_le_trans)
  moreover have "q \<in> set (visit (nxt m) p limit) \<Longrightarrow> p \<le> q \<and> q < limit" by (rule visit_range)
  moreover have "p \<le> q \<and> q < limit \<Longrightarrow> lookup m q \<noteq> None \<Longrightarrow> q \<in> set (visit (nxt m) p limit)"
    using visit_complete assms(1) by blast
  ultimately show ?thesis by metis
qed

end

interpretation pt: page_map MEM_PAGES mem_pt mem_pt_del mem_next_page
  by unfold_locales
     (simp_all add: mem_pt_del_lookup same_slot_eq mem_next_page_gt mem_next_page_skips)

section \<open>Properties\<close>

text \<open>C2: on the 2 ^ 36 pages of the address space the four-level tree behaves as a flat map:
  the fresh table is empty, an entry stored with \<^verbatim>\<open>mem_pt_new\<close> is what \<^verbatim>\<open>mem_pt\<close> returns for that
  page and for no other, and \<^verbatim>\<open>mem_pt_del\<close> clears that page and no other.\<close>

theorem page_table_refines_flat_map:
  assumes "p < MEM_PAGES" "q < MEM_PAGES" "pgdir m \<noteq> None" "pt_data e \<noteq> None"
  shows "mem_pt mem_init q = None \<and>
    mem_pt (mem_pt_new m p (\<lambda>_. e)) q = (if p = q then Some e else mem_pt m q) \<and>
    mem_pt (mem_pt_del m p) q = (if p = q then None else mem_pt m q)"
  using assms mem_pt_new_lookup [of m "\<lambda>_. e" p q]
  by (simp add: same_slot_eq mem_pt_del_lookup)
     (simp add: mem_init_def mem_pt_def walk_l3_def walk_l2_def walk_l1_def)

theorem page_table_refines_flat_map_witness:
  "mem_pt (mem_pt_new mem_init 5 (\<lambda>_. \<lparr>pt_data = Some 1, pt_offset = 0, pt_flags = 3\<rparr>)) 5
     = Some \<lparr>pt_data = Some 1, pt_offset = 0, pt_flags = 3\<rparr> \<and>
   mem_pt (mem_pt_new mem_init 5 (\<lambda>_. \<lparr>pt_data = Some 1, pt_offset = 0, pt_flags = 3\<rparr>)) 517 = None"
  using page_table_refines_flat_map [of 5 5 mem_init "\<lparr>pt_data = Some 1, pt_offset = 0, pt_flags = 3\<rparr>"]
    page_table_refines_flat_map [of 5 517 mem_init "\<lparr>pt_data = Some 1, pt_offset = 0, pt_flags = 3\<rparr>"]
  by (simp add: mem_init_def)

text \<open>A traversal of the range from \<^verbatim>\<open>start\<close> to \<^verbatim>\<open>limit\<close> with \<^verbatim>\<open>mem_next_page\<close>, which skips whole
  unallocated subtrees, visits every mapped page of the range, only pages of the range, and
  each at most once, in increasing order.\<close>

theorem mem_next_page_visits_all:
  assumes "limit \<le> MEM_PAGES"
  shows "{q. start \<le> q \<and> q < limit \<and> mem_pt m q \<noteq> None} \<subseteq> set (visit (mem_next_page m) start limit) \<and>
    set (visit (mem_next_page m) start limit) \<subseteq> {start..<limit} \<and>
    sorted_wrt (<) (visit (mem_next_page m) start limit)"
proof (intro conjI)
  show "{q. start \<le> q \<and> q < limit \<and> mem_pt m q \<noteq> None} \<subseteq> set (visit (mem_next_page m) start limit)"
    using pt.visit_complete [of start _ limit m] assms by (auto intro: less_le_trans)
  show "set (visit (mem_next_page m) start limit) \<subseteq> {start..<limit}"
    using pt.visit_range [of _ m start limit] by auto
  show "sorted_wrt (<) (visit (mem_next_page m) start limit)"
    by (rule pt.visit_sorted)
qed

theorem mem_next_page_visits_all_witness:
  "3 \<in> set (visit (mem_next_page (mem_pt_new mem_init 3 (\<lambda>_. \<lparr>pt_data = Some 1, pt_offset = 0, pt_flags = 3\<rparr>)))
     0 1000)"
  using mem_next_page_visits_all [of 1000 0
      "mem_pt_new mem_init 3 (\<lambda>_. \<lparr>pt_data = Some 1, pt_offset = 0, pt_flags = 3\<rparr>)"]
  by (auto simp: mem_pt_new_lookup mem_init_def same_slot_def)

end
