(* ===== verification/Hole_Finder.thy ===== *)
theory Hole_Finder
  imports Page_Table
begin

text \<open>
  Searching free address space (kernel/memory.c, \<^verbatim>\<open>pt_find_hole\<close> and its helpers): the downward scan of
  the low region that skips unallocated subtrees, the upward scan of the region above 4 GB, and
  the retry loop that keeps clear of lazy reservations.
\<close>

section \<open>Scanning downwards\<close>

text \<open>The first page of the unallocated subtree a page lies in, if there is one; the levels are
  tried from the top as in the C loop.  The shifted indices occupy disjoint bits, so their
  bitwise or is their sum.\<close>

definition empty_subtree_base :: "mem \<Rightarrow> nat \<Rightarrow> nat option" where
  "empty_subtree_base m page =
    (if walk_l1 m page = None then Some (PT_INDEX page 0 * 2 ^ 27)
     else if walk_l2 m page = None then Some (PT_INDEX page 0 * 2 ^ 27 + PT_INDEX page 1 * 2 ^ 18)
     else if walk_l3 m page = None
     then Some (PT_INDEX page 0 * 2 ^ 27 + PT_INDEX page 1 * 2 ^ 18 + PT_INDEX page 2 * 2 ^ 9)
     else None)"

lemma subtree_base_digits:
  "PT_INDEX page 0 * 2 ^ 27 = page mod MEM_PAGES - page mod 2 ^ 27"
  "PT_INDEX page 0 * 2 ^ 27 + PT_INDEX page 1 * 2 ^ 18 = page mod MEM_PAGES - page mod 2 ^ 18"
  "PT_INDEX page 0 * 2 ^ 27 + PT_INDEX page 1 * 2 ^ 18 + PT_INDEX page 2 * 2 ^ 9
     = page mod MEM_PAGES - page mod 2 ^ 9"
proof -
  have "page mod MEM_PAGES = PT_INDEX page 0 * 2 ^ 27 + page mod 2 ^ 27"
    "page mod 2 ^ 27 = PT_INDEX page 1 * 2 ^ 18 + page mod 2 ^ 18"
    "page mod 2 ^ 18 = PT_INDEX page 2 * 2 ^ 9 + page mod 2 ^ 9"
    using mod_mult2_eq [of page "2 ^ 27" 512] mod_mult2_eq [of page "2 ^ 18" 512]
      mod_mult2_eq [of page "2 ^ 9" 512]
    by (simp_all add: PT_INDEX_def)
  then show "PT_INDEX page 0 * 2 ^ 27 = page mod MEM_PAGES - page mod 2 ^ 27"
    "PT_INDEX page 0 * 2 ^ 27 + PT_INDEX page 1 * 2 ^ 18 = page mod MEM_PAGES - page mod 2 ^ 18"
    "PT_INDEX page 0 * 2 ^ 27 + PT_INDEX page 1 * 2 ^ 18 + PT_INDEX page 2 * 2 ^ 9
       = page mod MEM_PAGES - page mod 2 ^ 9"
    by linarith+
qed

lemma empty_subtree_baseE:
  assumes "empty_subtree_base m page = Some base"
  obtains k where
    "walk_l1 m page = None \<and> k = 27 \<or> walk_l2 m page = None \<and> k = 18 \<or> walk_l3 m page = None \<and> k = 9"
    "base = page mod MEM_PAGES - page mod 2 ^ k"
  using assms subtree_base_digits [of page] that [of 27] that [of 18] that [of 9]
  unfolding empty_subtree_base_def
  by (cases "walk_l1 m page = None"; cases "walk_l2 m page = None"; cases "walk_l3 m page = None")
     (simp_all only: simp_thms if_True if_False option.inject option.distinct)

lemma empty_subtree_base_le:
  assumes "empty_subtree_base m page = Some base"
  shows "base \<le> page"
  by (rule empty_subtree_baseE [OF assms]) (auto intro: order.trans [OF diff_le_self])

function pt_find_hole_loop :: "mem \<Rightarrow> nat \<Rightarrow> nat \<Rightarrow> bool \<Rightarrow> nat \<Rightarrow> nat" where
  "pt_find_hole_loop m sz page in_hole hole_end =
    (if page > MMAP_HOLE_END then
       case empty_subtree_base m page of
         Some base \<Rightarrow>
           let hole_end = (if in_hole then hole_end else page + 1);
               effective_base = (if base > MMAP_HOLE_END then base else MMAP_HOLE_END + 1)
           in if sub64 hole_end effective_base \<ge> sz then sub64 hole_end sz
              else if base = 0 then BAD_PAGE
              else pt_find_hole_loop m sz (base - 1) True hole_end
       | None \<Rightarrow>
           if mem_pt m page \<noteq> None then
             if page = 0 then BAD_PAGE else pt_find_hole_loop m sz (page - 1) False hole_end
           else
             let hole_end = (if in_hole then hole_end else page + 1)
             in if sub64 hole_end page \<ge> sz then page
                else if page = 0 then BAD_PAGE
                else pt_find_hole_loop m sz (page - 1) True hole_end
     else BAD_PAGE)"
  by pat_completeness auto
termination
  by (relation "measure (\<lambda>(m, sz, page, in_hole, hole_end). page)")
     (auto dest!: empty_subtree_base_le)

declare pt_find_hole_loop.simps [simp del]

definition pt_find_hole_from :: "mem \<Rightarrow> nat \<Rightarrow> nat \<Rightarrow> nat" where
  "pt_find_hole_from m sz start = pt_find_hole_loop m sz start False 0"

lemma subtree_base_unmapped:
  assumes "empty_subtree_base m page = Some base" "page < MEM_PAGES" "base \<le> q" "q \<le> page"
  shows "mem_pt m q = None"
proof -
  have gen: "mem_pt m q = None"
    if "walk_l1 m page = None \<and> k = 27 \<or> walk_l2 m page = None \<and> k = 18 \<or> walk_l3 m page = None \<and> k = 9"
      and base: "base = page - page mod 2 ^ k" for k
  proof -
    have "page div 2 ^ k * 2 ^ k \<le> q" using assms(3) base by (simp add: minus_mod_eq_div_mult)
    then have "page div 2 ^ k \<le> q div 2 ^ k" by (simp add: less_eq_div_iff_mult_less_eq)
    then have eq: "q div 2 ^ k = page div 2 ^ k" using assms(4) by (simp add: antisym div_le_mono)
    have "walk_l1 m q = None \<and> k = 27 \<or> walk_l2 m q = None \<and> k = 18 \<or> walk_l3 m q = None \<and> k = 9"
    proof -
      have idx: "PT_INDEX q l = PT_INDEX page l" if "k \<le> 9 * (3 - l)" for l
      proof -
        define j where "j = 9 * (3 - l)"
        have split: "(2 :: nat) ^ j = 2 ^ k * 2 ^ (j - k)"
          using that by (simp add: j_def flip: power_add)
        show ?thesis unfolding PT_INDEX_def j_def [symmetric] split div_mult2_eq eq ..
      qed
      show ?thesis using that(1) walk_cong(1) [of q page m] walk_cong(2) [of q page m]
          walk_cong(3) [of q page m] idx [of 0] idx [of 1] idx [of 2] by auto
    qed
    then show ?thesis using walk_l3_None by blast
  qed
  show ?thesis by (rule empty_subtree_baseE [OF assms(1)], rule gen) (use assms(2) in auto)
qed

definition is_unmapped :: "mem \<Rightarrow> nat \<Rightarrow> nat \<Rightarrow> bool" where
  "is_unmapped m start sz \<longleftrightarrow> (\<forall>q. start \<le> q \<and> q < start + sz \<longrightarrow> mem_pt m q = None)"

lemma pt_find_hole_loop_sound:
  assumes "page < MEM_PAGES" "in_hole \<Longrightarrow> page < hole_end \<and> hole_end \<le> MEM_PAGES"
    "in_hole \<Longrightarrow> \<forall>q. page < q \<and> q < hole_end \<longrightarrow> mem_pt m q = None"
    "pt_find_hole_loop m sz page in_hole hole_end = r" "r \<noteq> BAD_PAGE" "0 < sz"
  shows "MMAP_HOLE_END < r \<and> r + sz \<le> (if in_hole then hole_end else page + 1) \<and> is_unmapped m r sz"
  using assms
proof (induction page arbitrary: in_hole hole_end rule: less_induct)
  case (less page in_hole hole_end)
  note IH = less.IH and prems = less.prems
  define he where "he = (if in_hole then hole_end else page + 1)"
  have he: "page < he" "he \<le> MEM_PAGES" using prems(1,2) by (auto simp: he_def)
  have hole: "mem_pt m q = None" if "page < q" "q < he" for q
    using that prems(3) by (auto simp: he_def split: if_splits)
  have big: "MMAP_HOLE_END < page" using prems(4,5) by (subst (asm) pt_find_hole_loop.simps) (auto split: if_splits)
  show ?case
  proof (cases "empty_subtree_base m page")
    case (Some base)
    define eb where "eb = (if base > MMAP_HOLE_END then base else MMAP_HOLE_END + 1)"
    have base: "base \<le> page" by (rule empty_subtree_base_le [OF Some])
    have eb: "eb \<le> page" "base \<le> eb" "MMAP_HOLE_END < eb" using base big by (auto simp: eb_def)
    have free: "mem_pt m q = None" if "base \<le> q" "q < he" for q
      using hole [of q] subtree_base_unmapped [OF Some prems(1) that(1)] that(2) by (cases "q \<le> page") auto
    have loop: "r = (if he - eb \<ge> sz then sub64 he sz else if base = 0 then BAD_PAGE
        else pt_find_hole_loop m sz (base - 1) True he)"
      using prems(4) big Some he eb
      by (subst (asm) pt_find_hole_loop.simps) (simp add: Let_def he_def [symmetric] eb_def [symmetric] sub64_no_wrap)
    show ?thesis
    proof (cases "he - eb \<ge> sz")
      case True
      then have "r = he - sz" using loop he by (simp add: sub64_no_wrap)
      then show ?thesis using True eb he free by (auto simp: is_unmapped_def he_def [symmetric])
    next
      case False
      then have "base \<noteq> 0" "pt_find_hole_loop m sz (base - 1) True he = r"
        using loop prems(5) by (auto split: if_splits)
      then show ?thesis
        using IH [of "base - 1" True he] he base free prems(1,5,6)
        by (simp add: he_def [symmetric]) (metis Suc_pred le_eq_less_or_eq less_Suc_eq_le not_less)
    qed
  next
    case None
    show ?thesis
    proof (cases "mem_pt m page")
      case entry: (Some e)
      then have "pt_find_hole_loop m sz (page - 1) False hole_end = r"
        using prems(4) big None by (subst (asm) pt_find_hole_loop.simps) simp
      moreover have "page - 1 < page" "page - 1 < MEM_PAGES" using big prems(1) by linarith+
      ultimately show ?thesis using IH [of "page - 1" False hole_end] big he prems(5,6)
        by (simp add: he_def [symmetric])
    next
      case entry: None
      have loop: "r = (if he - page \<ge> sz then page else pt_find_hole_loop m sz (page - 1) True he)"
        using prems(4) big None entry he
        by (subst (asm) pt_find_hole_loop.simps)
           (auto simp: Let_def he_def [symmetric] sub64_no_wrap split: if_splits)
      have free: "mem_pt m q = None" if "page \<le> q" "q < he" for q
        using hole [of q] entry that by (cases "q = page") auto
      show ?thesis
      proof (cases "he - page \<ge> sz")
        case True
        then show ?thesis using loop big free he by (auto simp: is_unmapped_def he_def [symmetric])
      next
        case False
        then show ?thesis using IH [of "page - 1" True he] loop big he prems(1,5,6) free
          by (simp add: he_def [symmetric]) (metis Suc_pred not_less_eq zero_less_iff_neq_zero not_less le_eq_less_or_eq)
      qed
    qed
  qed
qed

lemma pt_find_hole_from_sound:
  assumes "pt_find_hole_from m sz start \<noteq> BAD_PAGE" "start < MEM_PAGES" "0 < sz"
  shows "MMAP_HOLE_END < pt_find_hole_from m sz start" "pt_find_hole_from m sz start + sz \<le> start + 1"
    "is_unmapped m (pt_find_hole_from m sz start) sz"
  using pt_find_hole_loop_sound [of start False 0 m sz, OF assms(2) _ _ refl] assms(1,3)
  by (auto simp: pt_find_hole_from_def)

section \<open>Scanning upwards above 4 GB\<close>

fun high_scan :: "mem_reservation list \<Rightarrow> nat \<Rightarrow> nat \<Rightarrow> mem_reservation option \<Rightarrow> nat \<times> mem_reservation option" where
  "high_scan [] subtree_end candidate first = (candidate, first)"
| "high_scan (r # rs) subtree_end candidate first =
    (let r_end = add64 (res_start r) (res_pages r) in
     if r_end \<le> candidate \<or> res_start r \<ge> subtree_end then high_scan rs subtree_end candidate first
     else if res_start r \<le> candidate then (r_end, Some r)
     else if (case first of None \<Rightarrow> True | Some f \<Rightarrow> res_start r < res_start f)
     then high_scan rs subtree_end candidate (Some r)
     else high_scan rs subtree_end candidate first)"

lemma high_scan_progress:
  assumes "high_scan rs e c first = (c', Some f)"
    "\<And>g. first = Some g \<Longrightarrow> res_start g > c \<and> res_start g < e \<and> c < add64 (res_start g) (res_pages g)"
  shows "c < c' \<and> res_start f < c' \<or>
    c' = c \<and> c < res_start f \<and> res_start f < e \<and> c < add64 (res_start f) (res_pages f)"
  using assms
proof (induction rs arbitrary: first)
  case (Cons r rs)
  then show ?case by (force simp: Let_def split: if_splits option.splits)
qed auto

lemma high_scan_None:
  assumes "high_scan rs e c first = (c', None)"
  shows "c' = c"
  using assms by (induction rs arbitrary: first) (auto simp: Let_def split: if_splits option.splits)

function high_candidates :: "mem_reservation list \<Rightarrow> nat \<Rightarrow> nat \<Rightarrow> nat \<Rightarrow> nat option" where
  "high_candidates rs sz subtree_end candidate =
    (if candidate < subtree_end then
       case high_scan rs subtree_end candidate None of
         (candidate, None) \<Rightarrow> if sub64 subtree_end candidate \<ge> sz then Some candidate else None
       | (candidate, Some first) \<Rightarrow>
           if res_start first > candidate then
             if sub64 (res_start first) candidate \<ge> sz then Some candidate
             else high_candidates rs sz subtree_end (add64 (res_start first) (res_pages first))
           else high_candidates rs sz subtree_end candidate
     else None)"
  by pat_completeness auto
termination
  by (relation "measure (\<lambda>(rs, sz, subtree_end, candidate). subtree_end - candidate)")
     (auto dest!: sym [of "(_, _)"] high_scan_progress)

declare high_candidates.simps [simp del]

definition l0_subtree_end :: "nat \<Rightarrow> nat" where
  "l0_subtree_end page =
    (let subtree_end = PT_INDEX page 0 * 2 ^ 27 + 2 ^ 27
     in if subtree_end > USER_ADDR_MAX_PAGE then USER_ADDR_MAX_PAGE else subtree_end)"

lemma l0_base:
  assumes "page < MEM_PAGES"
  shows "PT_INDEX page 0 * 2 ^ 27 \<le> page \<and> page < PT_INDEX page 0 * 2 ^ 27 + 2 ^ 27"
proof -
  have "page mod 2 ^ 27 < 2 ^ 27" "page mod 2 ^ 27 \<le> page" by (rule mod_less_divisor, simp) (rule mod_less_eq_dividend)
  moreover have "page mod MEM_PAGES = page" using assms by simp
  ultimately show ?thesis unfolding subtree_base_digits by linarith
qed

lemma l0_subtree_end_gt: "page < USER_ADDR_MAX_PAGE \<Longrightarrow> page < l0_subtree_end page"
  using l0_base [of page] by (simp add: l0_subtree_end_def Let_def)

function pt_find_hole_high_loop :: "mem \<Rightarrow> nat \<Rightarrow> nat \<Rightarrow> nat" where
  "pt_find_hole_high_loop m sz page =
    (if page < USER_ADDR_MAX_PAGE then
       let l0_base = PT_INDEX page 0 * 2 ^ 27; subtree_end = l0_subtree_end page
       in if walk_l1 m page = None then
            case high_candidates (reservations m) sz subtree_end (if l0_base < page then page else l0_base) of
              Some hole \<Rightarrow> hole
            | None \<Rightarrow> pt_find_hole_high_loop m sz subtree_end
          else pt_find_hole_high_loop m sz subtree_end
     else BAD_PAGE)"
  by pat_completeness auto
termination
  by (relation "measure (\<lambda>(m, sz, page). USER_ADDR_MAX_PAGE - page)")
     (auto dest: l0_subtree_end_gt intro: diff_less_mono2)

declare pt_find_hole_high_loop.simps [simp del]

definition pt_find_hole_high :: "mem \<Rightarrow> nat \<Rightarrow> nat" where
  "pt_find_hole_high m sz = pt_find_hole_high_loop m sz 1048576"

lemma high_candidates_sound:
  assumes "high_candidates rs sz e c = Some h" "e < 2 ^ 64"
  shows "c \<le> h \<and> h + sz \<le> e"
  using assms(1)
proof (induction "e - c" arbitrary: c rule: less_induct)
  case less
  have ce: "c < e" using less.prems by (subst (asm) high_candidates.simps) (simp split: if_splits)
  obtain c' first where scan: "high_scan rs e c None = (c', first)" by fastforce
  show ?case
  proof (cases first)
    case None
    then have "c' = c" using high_scan_None scan by simp
    then show ?thesis using less.prems scan None ce assms(2)
      by (subst (asm) high_candidates.simps) (auto simp: sub64_no_wrap split: if_splits)
  next
    case (Some f)
    have prog: "c < c' \<and> res_start f < c' \<or>
        c' = c \<and> c < res_start f \<and> res_start f < e \<and> c < add64 (res_start f) (res_pages f)"
      by (rule high_scan_progress [of rs e c None]) (use scan Some in auto)
    have step: "h = c' \<and> sz \<le> res_start f - c' \<and> c' < res_start f \<or>
        high_candidates rs sz e (if res_start f > c' then add64 (res_start f) (res_pages f) else c') = Some h"
      using less.prems scan Some ce prog assms(2)
      by (subst (asm) high_candidates.simps) (auto simp: sub64_no_wrap split: if_splits)
    let ?c = "if res_start f > c' then add64 (res_start f) (res_pages f) else c'"
    have "e - ?c < e - c" using prog ce by (auto split: if_splits)
    then show ?thesis using less.hyps [of ?c] step prog by (auto split: if_splits)
  qed
qed

lemma pt_find_hole_high_loop_sound:
  assumes "pt_find_hole_high_loop m sz page = h" "h \<noteq> BAD_PAGE"
  shows "page \<le> h \<and> h + sz \<le> USER_ADDR_MAX_PAGE \<and> is_unmapped m h sz"
  using assms
proof (induction "USER_ADDR_MAX_PAGE - page" arbitrary: page rule: less_induct)
  case less
  have pm: "page < USER_ADDR_MAX_PAGE"
    using less.prems by (subst (asm) pt_find_hole_high_loop.simps) (auto split: if_splits)
  define e where "e = l0_subtree_end page"
  have e: "page < e" "e \<le> USER_ADDR_MAX_PAGE" "e \<le> PT_INDEX page 0 * 2 ^ 27 + 2 ^ 27"
    using l0_subtree_end_gt [OF pm] by (auto simp: e_def l0_subtree_end_def Let_def)
  have base: "PT_INDEX page 0 * 2 ^ 27 \<le> page" using l0_base [of page] pm by simp
  show ?case
  proof (cases "walk_l1 m page = None \<and> high_candidates (reservations m) sz e page = Some h")
    case True
    then have h: "page \<le> h" "h + sz \<le> e" using high_candidates_sound [of "reservations m" sz e page h] e by auto
    have "mem_pt m q = None" if "h \<le> q" "q < h + sz" for q
    proof (rule region_unmapped [of m page 27])
      have "page < MEM_PAGES" using pm by simp
      then have "PT_INDEX page 0 = page div 2 ^ 27" by (simp add: PT_INDEX_def)
      then show "q < skip_region 27 page" using that h e by (simp add: skip_region_def)
    qed (use that h True in auto)
    then show ?thesis using h e by (auto simp: is_unmapped_def)
  next
    case False
    have "(if PT_INDEX page 0 * 2 ^ 27 < page then page else PT_INDEX page 0 * 2 ^ 27) = page"
      using base by simp
    then have "pt_find_hole_high_loop m sz e = h"
      using less.prems(1) False pm
      by (subst (asm) pt_find_hole_high_loop.simps) (auto simp: Let_def e_def [symmetric] split: if_splits option.splits)
    then show ?thesis using less.hyps [of e] e less.prems(2) by fastforce
  qed
qed

section \<open>Keeping clear of reservations\<close>

fun skip_below_reservation :: "mem_reservation list \<Rightarrow> nat \<Rightarrow> nat \<Rightarrow> nat \<Rightarrow> nat" where
  "skip_below_reservation [] result sz start = start"
| "skip_below_reservation (r # rs) result sz start =
    (if res_start r < add64 result sz \<and> add64 (res_start r) (res_pages r) > result
     then if res_start r > 0 then res_start r - 1 else 0
     else skip_below_reservation rs result sz start)"

text \<open>The loop of at most \<^verbatim>\<open>n\<close> attempts; it gives the hole it accepted, or the start value it ended with.\<close>

fun hole_attempts :: "nat \<Rightarrow> mem \<Rightarrow> nat \<Rightarrow> nat \<Rightarrow> nat option \<times> nat" where
  "hole_attempts 0 m sz start = (None, start)"
| "hole_attempts (Suc n) m sz start =
    (let result = pt_find_hole_from m sz start in
     if result = BAD_PAGE then (None, start)
     else if \<not> mem_range_has_reservation (reservations m) result sz then (Some result, start)
     else hole_attempts n m sz (skip_below_reservation (reservations m) result sz start))"

definition pt_find_hole :: "mem \<Rightarrow> nat \<Rightarrow> nat \<times> mem" where
  "pt_find_hole m sz =
    (let start = mmap_hint m;
         start = (if start = 0 \<or> start > MMAP_HOLE_START \<or> start \<le> add64 MMAP_HOLE_END sz
                  then MMAP_HOLE_START else start);
         accept = (\<lambda>result. (result, m\<lparr>mmap_hint := (if result > 0 then result - 1 else 0)\<rparr>));
         high = (let result = pt_find_hole_high m sz
                 in if result \<noteq> BAD_PAGE \<and> \<not> mem_range_has_reservation (reservations m) result sz
                    then (result, m) else (BAD_PAGE, m))
     in case hole_attempts 10 m sz start of
          (Some result, _) \<Rightarrow> accept result
        | (None, start) \<Rightarrow>
            if start < MMAP_HOLE_START then
              case hole_attempts 10 m sz MMAP_HOLE_START of
                (Some result, _) \<Rightarrow> accept result
              | (None, _) \<Rightarrow> high
            else high)"

fun pt_is_hole_loop :: "mem \<Rightarrow> nat \<Rightarrow> nat \<Rightarrow> bool" where
  "pt_is_hole_loop m page 0 = True"
| "pt_is_hole_loop m page (Suc n) = (if mem_pt m page \<noteq> None then False else pt_is_hole_loop m (page + 1) n)"

definition pt_is_hole :: "mem \<Rightarrow> nat \<Rightarrow> nat \<Rightarrow> bool" where
  "pt_is_hole m start pages \<longleftrightarrow>
    pt_is_hole_loop m start (add64 start pages - start) \<and>
    \<not> mem_range_has_reservation (reservations m) start pages"

section \<open>Soundness\<close>

definition is_free :: "mem \<Rightarrow> nat \<Rightarrow> nat \<Rightarrow> bool" where
  "is_free m start sz \<longleftrightarrow> is_unmapped m start sz \<and>
    (\<forall>q. start \<le> q \<and> q < start + sz \<longrightarrow> res_at (reservations m) q = None)"

lemma no_reservation_in_range:
  assumes "\<not> mem_range_has_reservation rs start sz" "start + sz \<le> MEM_PAGES" "start \<le> q" "q < start + sz"
  shows "res_at rs q = None"
proof (rule range_has_res_loop_False)
  show "\<not> range_has_res_loop start (page_range_end start sz) rs"
    using assms(1,3,4) by (auto simp: mem_range_has_reservation_def Let_def split: if_splits)
qed (use assms in \<open>auto simp: page_range_end_simps\<close>)

lemma skip_below_le:
  assumes "result + sz \<le> start + 1" "start < MEM_PAGES" "0 < sz"
  shows "skip_below_reservation rs result sz start \<le> start"
proof (induction rs)
  case (Cons r rs)
  have "add64 result sz = result + sz" using assms by (simp add: add64_no_wrap)
  then show ?case using Cons assms by auto
qed simp

lemma hole_attempts_sound:
  assumes "hole_attempts n m sz start = (Some r, s')" "start \<le> MMAP_HOLE_START" "0 < sz"
  shows "MMAP_HOLE_END < r \<and> r + sz \<le> MMAP_HOLE_START + 1 \<and> is_unmapped m r sz \<and>
    \<not> mem_range_has_reservation (reservations m) r sz"
  using assms(1,2)
proof (induction n arbitrary: start)
  case (Suc n)
  define h where "h = pt_find_hole_from m sz start"
  have hb: "h \<noteq> BAD_PAGE" using Suc.prems by (auto simp: Let_def h_def)
  then have h: "MMAP_HOLE_END < h" "h + sz \<le> start + 1" "is_unmapped m h sz"
    using pt_find_hole_from_sound [of m sz start] Suc.prems(2) assms(3) by (auto simp: h_def)
  show ?case
  proof (cases "mem_range_has_reservation (reservations m) h sz")
    case True
    have "skip_below_reservation (reservations m) h sz start \<le> MMAP_HOLE_START"
      using skip_below_le [of h sz start "reservations m"] h(2) Suc.prems(2) assms(3) by simp
    then show ?thesis using Suc.IH Suc.prems(1) True hb by (simp add: Let_def h_def [symmetric])
  next
    case False
    then show ?thesis using Suc.prems h hb by (simp add: Let_def h_def [symmetric])
  qed
qed simp

lemma is_freeI:
  assumes "is_unmapped m r sz" "\<not> mem_range_has_reservation (reservations m) r sz" "r + sz \<le> MEM_PAGES"
  shows "is_free m r sz"
  using assms no_reservation_in_range by (auto simp: is_free_def)

lemma pt_is_hole_loop_iff:
  "pt_is_hole_loop m page n \<longleftrightarrow> (\<forall>q. page \<le> q \<and> q < page + n \<longrightarrow> mem_pt m q = None)"
proof (induction n arbitrary: page)
  case (Suc n)
  show ?case unfolding pt_is_hole_loop.simps Suc.IH
    by (cases "mem_pt m page") (auto simp: not_less_eq_eq, metis Suc_leI le_neq_implies_less)
qed auto

lemma pt_is_hole_iff:
  assumes "start + pages \<le> MEM_PAGES"
  shows "pt_is_hole m start pages \<longleftrightarrow>
    is_unmapped m start pages \<and> \<not> mem_range_has_reservation (reservations m) start pages"
  using assms by (simp add: pt_is_hole_def is_unmapped_def pt_is_hole_loop_iff add64_no_wrap)

lemma hole_attempts_start:
  "pt_find_hole m sz = (r, m') \<Longrightarrow> r \<noteq> BAD_PAGE \<Longrightarrow>
   (\<exists>start s'. start \<le> MMAP_HOLE_START \<and> hole_attempts 10 m sz start = (Some r, s')) \<or>
   r = pt_find_hole_high m sz \<and> \<not> mem_range_has_reservation (reservations m) r sz"
  by (auto simp: pt_find_hole_def Let_def split: option.splits prod.splits if_splits)

lemma pt_find_hole_free:
  assumes "pt_find_hole m sz = (r, m')" "r \<noteq> BAD_PAGE" "0 < sz"
  shows "MMAP_HOLE_END < r \<and> r + sz \<le> USER_ADDR_MAX_PAGE \<and> is_free m r sz \<and> pt_is_hole m r sz \<and>
    m' = m\<lparr>mmap_hint := mmap_hint m'\<rparr>"
proof -
  have "MMAP_HOLE_END < r \<and> r + sz \<le> USER_ADDR_MAX_PAGE \<and> is_unmapped m r sz \<and>
    \<not> mem_range_has_reservation (reservations m) r sz"
    using hole_attempts_start [OF assms(1,2)]
  proof (elim disjE exE conjE)
    fix start s' assume "start \<le> MMAP_HOLE_START" "hole_attempts 10 m sz start = (Some r, s')"
    then show ?thesis using hole_attempts_sound [of 10 m sz start r s'] assms(3) by auto
  next
    assume "r = pt_find_hole_high m sz" "\<not> mem_range_has_reservation (reservations m) r sz"
    then show ?thesis using pt_find_hole_high_loop_sound [of m sz _ r] assms(2)
      by (fastforce simp: pt_find_hole_high_def)
  qed
  moreover have "m' = m\<lparr>mmap_hint := mmap_hint m'\<rparr>"
    using assms(1) by (auto simp: pt_find_hole_def Let_def split: option.splits prod.splits if_splits)
  ultimately show ?thesis using is_freeI [of m r sz] pt_is_hole_iff [of r sz m] by simp
qed

text \<open>C17: a range the hole finder returns for a non-empty request lies above the guard pages and
  inside the user address space, has no mapped page and no reserved page, and is a hole for
  \<^verbatim>\<open>pt_is_hole\<close>, the page-by-page check; the search changes nothing but its hint.\<close>

theorem pt_find_hole_sound:
  assumes "pt_find_hole m sz = (r, m')" "r \<noteq> BAD_PAGE" "0 < sz"
  shows "MMAP_HOLE_END < r \<and> r + sz \<le> USER_ADDR_MAX_PAGE \<and> is_free m r sz \<and> pt_is_hole m r sz \<and>
    m' = m\<lparr>mmap_hint := mmap_hint m'\<rparr>"
  using pt_find_hole_free [OF assms] .

lemma mem_init_hole: "pt_find_hole mem_init 4 = (983034, mem_init\<lparr>mmap_hint := 983033\<rparr>)"
proof -
  have found: "pt_find_hole_from mem_init 4 MMAP_HOLE_START = 983034"
    unfolding pt_find_hole_from_def
    by (subst pt_find_hole_loop.simps)
       (simp add: empty_subtree_base_def walk_l1_def mem_init_def PT_INDEX_def sub64_def)
  have ten: "(10 :: nat) = Suc 9" by simp
  have "hole_attempts 10 mem_init 4 MMAP_HOLE_START = (Some 983034, MMAP_HOLE_START)"
    unfolding ten hole_attempts.simps Let_def found
    by (simp add: mem_init_def mem_range_has_reservation_def page_range_end_def)
  then show ?thesis by (simp add: pt_find_hole_def Let_def) (simp add: mem_init_def)
qed

theorem pt_find_hole_sound_witness:
  "is_free mem_init (fst (pt_find_hole mem_init 4)) 4"
  using pt_find_hole_sound [of mem_init 4 983034] by (simp add: mem_init_hole)

end
