(* ===== verification/Address_Space.thy ===== *)
theory Address_Space
  imports Hole_Finder
begin

text \<open>
  Mapping and unmapping (kernel/memory.c): reference-counted host memory blocks (\<^verbatim>\<open>struct data\<close>),
  \<^verbatim>\<open>pt_map\<close>, \<^verbatim>\<open>pt_unmap\<close>, \<^verbatim>\<open>pt_set_flags\<close>, \<^verbatim>\<open>pt_copy_on_write\<close> and the fault handler \<^verbatim>\<open>mem_ptr\<close>.  A block
  carries the bytes of the host mapping, so that the guest's view of its memory is a function of
  the state.  Whether a host allocation succeeds is an argument.  Each operation runs under the
  lock of the address space; where \<^verbatim>\<open>mem_ptr\<close> drops the lock to upgrade it, what other threads
  do meanwhile is an argument of type \<^verbatim>\<open>mem \<times> vm \<Rightarrow> mem \<times> vm\<close>.
\<close>

section \<open>Host memory blocks\<close>

record data_block =
  db_bytes :: "nat \<Rightarrow> byte"
  db_size :: nat
  db_refcount :: nat
  db_fd :: "nat option"
  db_file_offset :: nat

record vm =
  vm_blocks :: "nat \<Rightarrow> data_block option"
  vm_next :: nat
  anon_page_count :: int
  vm_fds_released :: "nat list"

abbreviation PAGE_SIZE :: nat where "PAGE_SIZE \<equiv> 4096"
abbreviation ANON_MMAP_LIMIT_PAGES :: int where "ANON_MMAP_LIMIT_PAGES \<equiv> 1048576"

definition PAGE :: "nat \<Rightarrow> nat" where "PAGE addr = addr div 4096"
definition PGOFFSET :: "nat \<Rightarrow> nat" where "PGOFFSET addr = addr mod 4096"
definition PAGE_ROUND_UP :: "nat \<Rightarrow> nat" where
  "PAGE_ROUND_UP bytes = sub64 (add64 bytes PAGE_SIZE) 1 div 4096"

definition data_retain :: "vm \<Rightarrow> nat \<Rightarrow> vm" where
  "data_retain v d =
    (case vm_blocks v d of
       None \<Rightarrow> v
     | Some b \<Rightarrow> v\<lparr>vm_blocks := (vm_blocks v)(d := Some (b\<lparr>db_refcount := db_refcount b + 1\<rparr>))\<rparr>)"

definition data_release :: "vm \<Rightarrow> nat \<Rightarrow> vm" where
  "data_release v d =
    (case vm_blocks v d of
       None \<Rightarrow> v
     | Some b \<Rightarrow>
         if db_refcount b - 1 = 0
         then v\<lparr>vm_blocks := (vm_blocks v)(d := None),
                vm_fds_released := (case db_fd b of None \<Rightarrow> vm_fds_released v | Some fd \<Rightarrow> fd # vm_fds_released v)\<rparr>
         else v\<lparr>vm_blocks := (vm_blocks v)(d := Some (b\<lparr>db_refcount := db_refcount b - 1\<rparr>))\<rparr>)"

section \<open>Unmapping\<close>

definition pt_unmap_page :: "mem \<times> vm \<Rightarrow> nat \<Rightarrow> mem \<times> vm" where
  "pt_unmap_page mv page =
    (case mem_pt (fst mv) page of
       None \<Rightarrow> mv
     | Some pt \<Rightarrow>
         let m = (fst mv)\<lparr>invalidated := page # invalidated (fst mv)\<rparr>;
             v = (if pt_flags pt AND P_ANONYMOUS \<noteq> 0
                  then (snd mv)\<lparr>anon_page_count := anon_page_count (snd mv) - 1\<rparr> else snd mv)
         in (mem_pt_del m page, case pt_data pt of None \<Rightarrow> v | Some d \<Rightarrow> data_release v d))"

function pt_unmap_loop :: "mem \<times> vm \<Rightarrow> nat \<Rightarrow> nat \<Rightarrow> mem \<times> vm" where
  "pt_unmap_loop mv page limit =
    (if page < limit
     then let mv' = pt_unmap_page mv page in pt_unmap_loop mv' (mem_next_page (fst mv') page) limit
     else mv)"
  by pat_completeness auto
termination
  by (relation "measure (\<lambda>(mv, page, limit). limit - page)") (auto intro: diff_less_mono2 mem_next_page_gt)

declare pt_unmap_loop.simps [simp del]

definition pt_unmap_always ::
  "(mem_reservation \<Rightarrow> bool) \<Rightarrow> mem \<times> vm \<Rightarrow> nat \<Rightarrow> nat \<Rightarrow> int \<times> mem \<times> vm" where
  "pt_unmap_always alloc mv start pages =
    (let m = fst mv;
         last = sub64 (add64 start pages) 1;
         m = (if last > mmap_hint m then m\<lparr>mmap_hint := last\<rparr> else m);
         m = m\<lparr>reservations := mem_remove_reservations alloc (reservations m) start pages\<rparr>;
         mv' = pt_unmap_loop (m, snd mv) start (add64 start pages)
     in (0, mem_changed (fst mv'), snd mv'))"

fun pages_all_mapped :: "mem \<Rightarrow> nat \<Rightarrow> nat \<Rightarrow> bool" where
  "pages_all_mapped m page 0 = True"
| "pages_all_mapped m page (Suc n) = (if mem_pt m page = None then False else pages_all_mapped m (page + 1) n)"

definition pt_unmap ::
  "(mem_reservation \<Rightarrow> bool) \<Rightarrow> mem \<times> vm \<Rightarrow> nat \<Rightarrow> nat \<Rightarrow> int \<times> mem \<times> vm" where
  "pt_unmap alloc mv start pages =
    (if pages_all_mapped (fst mv) start (add64 start pages - start)
     then pt_unmap_always alloc mv start pages else (- 1, mv))"

section \<open>Mapping\<close>

fun pt_map_loop ::
  "(mem_reservation \<Rightarrow> bool) \<Rightarrow> nat \<Rightarrow> nat \<Rightarrow> nat \<Rightarrow> flags32 \<Rightarrow> nat \<Rightarrow> nat \<Rightarrow> mem \<times> vm \<Rightarrow> mem \<times> vm" where
  "pt_map_loop alloc d start offset fl page 0 mv = mv"
| "pt_map_loop alloc d start offset fl page (Suc n) mv =
    (let mv1 = (if mem_pt (fst mv) page \<noteq> None then snd (pt_unmap alloc mv page 1) else mv);
         v = data_retain (snd mv1) d;
         m = mem_pt_new (fst mv1) page
               (\<lambda>pt. pt\<lparr>pt_data := Some d, pt_offset := (page - start) * 4096 + offset, pt_flags := fl\<rparr>)
     in pt_map_loop alloc d start offset fl (page + 1) n (m, v))"

text \<open>The host mapping is given by its bytes, or by the error \<^verbatim>\<open>errno_map\<close> reports for MAP_FAILED.\<close>

definition pt_map ::
  "bool \<Rightarrow> (mem_reservation \<Rightarrow> bool) \<Rightarrow> mem \<times> vm \<Rightarrow> nat \<Rightarrow> nat \<Rightarrow> int + (nat \<Rightarrow> byte) \<Rightarrow> nat \<Rightarrow> flags32 \<Rightarrow>
   int \<times> mem \<times> vm" where
  "pt_map data_ok alloc mv start pages memory offset fl =
    (case memory of
       Inl err \<Rightarrow> (err, mv)
     | Inr bytes \<Rightarrow>
         if \<not> data_ok then (ENOMEM, mv)
         else let v = snd mv;
                  d = vm_next v;
                  b = \<lparr>db_bytes = bytes, db_size = add64 (mul64 pages PAGE_SIZE) offset, db_refcount = 0,
                       db_fd = None, db_file_offset = 0\<rparr>;
                  v = v\<lparr>vm_blocks := (vm_blocks v)(d := Some b), vm_next := d + 1\<rparr>;
                  mv' = pt_map_loop alloc d start offset fl start (add64 start pages - start) (fst mv, v)
              in (0, mem_changed (fst mv'), snd mv'))"

definition pt_map_nothing ::
  "bool \<Rightarrow> bool \<Rightarrow> (mem_reservation \<Rightarrow> bool) \<Rightarrow> mem \<times> vm \<Rightarrow> nat \<Rightarrow> nat \<Rightarrow> flags32 \<Rightarrow> int \<times> mem \<times> vm" where
  "pt_map_nothing mmap_ok data_ok alloc mv start pages fl =
    (if pages = 0 then (0, mv)
     else if \<not> mmap_ok then (ENOMEM, mv)
     else pt_map data_ok alloc mv start pages (Inr (\<lambda>_. 0)) 0 (fl OR P_ANONYMOUS))"

definition pt_map_lazy :: "bool \<Rightarrow> mem \<Rightarrow> nat \<Rightarrow> nat \<Rightarrow> flags32 \<Rightarrow> int \<times> mem" where
  "pt_map_lazy mallocd m start pages fl =
    (case res_map_lazy mallocd (reservations m) start pages fl of
       (err, rs) \<Rightarrow> if err < 0 then (err, m) else (0, mem_changed (m\<lparr>reservations := rs\<rparr>)))"

section \<open>Changing protection\<close>

abbreviation P_META_FLAGS :: flags32 where "P_META_FLAGS \<equiv> P_ANONYMOUS OR P_GROWSDOWN OR P_COW OR P_SHARED"

fun set_flags_check :: "mem \<Rightarrow> nat \<Rightarrow> nat \<Rightarrow> bool" where
  "set_flags_check m page 0 = True"
| "set_flags_check m page (Suc n) =
    (if mem_pt m page = None \<and> mem_find_reservation (reservations m) page = None then False
     else set_flags_check m (page + 1) n)"

text \<open>\<^verbatim>\<open>mprotect_err page\<close> is 0 or the error of the host \<^verbatim>\<open>mprotect\<close> on the host page under the entry.\<close>

fun set_flags_loop :: "(nat \<Rightarrow> int) \<Rightarrow> flags32 \<Rightarrow> nat \<Rightarrow> nat \<Rightarrow> mem \<Rightarrow> int \<times> mem" where
  "set_flags_loop mprotect_err fl page 0 m = (0, m)"
| "set_flags_loop mprotect_err fl page (Suc n) m =
    (case mem_pt m page of
       None \<Rightarrow> set_flags_loop mprotect_err fl (page + 1) n m
     | Some entry \<Rightarrow>
         let old_flags = pt_flags entry;
             m' = mem_pt_modify m page (\<lambda>e. e\<lparr>pt_flags := fl OR (old_flags AND P_META_FLAGS)\<rparr>)
         in if (fl AND NOT old_flags) AND (P_READ OR P_WRITE) \<noteq> 0 \<and> mprotect_err page < 0
            then (mprotect_err page, m')
            else set_flags_loop mprotect_err fl (page + 1) n m')"

definition pt_set_flags ::
  "(nat \<Rightarrow> int) \<Rightarrow> (mem_reservation \<Rightarrow> bool) \<Rightarrow> mem \<Rightarrow> nat \<Rightarrow> nat \<Rightarrow> flags32 \<Rightarrow> int \<times> mem" where
  "pt_set_flags mprotect_err alloc m start pages fl =
    (let n = add64 start pages - start in
     if \<not> set_flags_check m start n then (ENOMEM, m)
     else case set_flags_loop mprotect_err fl start n m of (err, m1) \<Rightarrow>
       if err < 0 then (err, m1)
       else case mem_set_reservation_flags alloc (reservations m1) start pages fl of (err, rs) \<Rightarrow>
         let m2 = m1\<lparr>reservations := rs\<rparr>
         in if err < 0 then (err, m2) else (0, mem_changed m2))"

section \<open>Copy on write\<close>

record cow_state =
  cs_src :: mem
  cs_dst :: mem
  cs_vm :: vm
  cs_copied :: int

definition cow_page :: "(mem_reservation \<Rightarrow> bool) \<Rightarrow> cow_state \<Rightarrow> nat \<Rightarrow> cow_state" where
  "cow_page alloc s page =
    (case mem_pt (cs_src s) page of
       None \<Rightarrow> s
     | Some entry \<Rightarrow>
         let (r, dst, v) = pt_unmap_always alloc (cs_dst s, cs_vm s) page 1;
             fl = (if pt_flags entry AND P_SHARED = 0 then pt_flags entry OR P_COW else pt_flags entry);
             src = mem_pt_modify (cs_src s) page (\<lambda>e. e\<lparr>pt_flags := fl\<rparr>);
             v = (case pt_data entry of None \<Rightarrow> v | Some d \<Rightarrow> data_retain v d);
             dst = mem_pt_new dst page
                     (\<lambda>e. e\<lparr>pt_data := pt_data entry, pt_offset := pt_offset entry, pt_flags := fl\<rparr>)
         in \<lparr>cs_src = src, cs_dst = dst, cs_vm = v,
             cs_copied = (if fl AND P_ANONYMOUS \<noteq> 0 then cs_copied s + 1 else cs_copied s)\<rparr>)"

function cow_loop :: "(mem_reservation \<Rightarrow> bool) \<Rightarrow> cow_state \<Rightarrow> nat \<Rightarrow> nat \<Rightarrow> cow_state" where
  "cow_loop alloc s page limit =
    (if page < limit
     then let s' = cow_page alloc s page in cow_loop alloc s' (mem_next_page (cs_src s') page) limit
     else s)"
  by pat_completeness auto
termination
  by (relation "measure (\<lambda>(alloc, s, page, limit). limit - page)") (auto intro: diff_less_mono2 mem_next_page_gt)

declare cow_loop.simps [simp del]

definition copy_reservations ::
  "(mem_reservation \<Rightarrow> bool) \<Rightarrow> mem_reservation list \<Rightarrow> mem_reservation list \<Rightarrow> mem_reservation list" where
  "copy_reservations alloc src dst = foldl (\<lambda>rs r. if alloc r then r # rs else rs) dst src"

definition pt_copy_on_write ::
  "(mem_reservation \<Rightarrow> bool) \<Rightarrow> mem \<Rightarrow> mem \<Rightarrow> vm \<Rightarrow> nat \<Rightarrow> nat \<Rightarrow> int \<times> mem \<times> mem \<times> vm" where
  "pt_copy_on_write alloc src dst v start pages =
    (let s = cow_loop alloc \<lparr>cs_src = src, cs_dst = dst, cs_vm = v, cs_copied = 0\<rparr> start (add64 start pages);
         v' = (cs_vm s)\<lparr>anon_page_count := anon_page_count (cs_vm s) + cs_copied s\<rparr>;
         dst' = (cs_dst s)\<lparr>reservations :=
                  copy_reservations alloc (reservations (cs_src s)) (reservations (cs_dst s))\<rparr>
     in (0, mem_changed (cs_src s), mem_changed dst', v'))"

section \<open>Faults\<close>

datatype access = MEM_READ | MEM_WRITE | MEM_WRITE_PTRACE

definition P_WRITABLE :: "flags32 \<Rightarrow> bool" where
  "P_WRITABLE fl \<longleftrightarrow> fl AND P_WRITE \<noteq> 0 \<and> fl AND P_COW = 0"

text \<open>A host pointer is the number of a block and an offset in it.\<close>

definition mem_ptr_nofault :: "mem \<Rightarrow> nat \<Rightarrow> access \<Rightarrow> (nat \<times> nat) option" where
  "mem_ptr_nofault m addr type =
    (case mem_pt m (PAGE addr) of
       None \<Rightarrow> None
     | Some entry \<Rightarrow>
         if type = MEM_WRITE \<and> \<not> P_WRITABLE (pt_flags entry) then None
         else map_option (\<lambda>d. (d, pt_offset entry + PGOFFSET addr)) (pt_data entry))"

function next_mapped :: "mem \<Rightarrow> nat \<Rightarrow> nat" where
  "next_mapped m p =
    (let p' = mem_next_page m p
     in if p' < MEM_PAGES \<and> mem_pt m p' = None then next_mapped m p' else p')"
  by pat_completeness auto
termination
  by (relation "measure (\<lambda>(m, p). MEM_PAGES - p)")
     (auto intro!: diff_less_mono2 mem_next_page_gt intro: less_trans [OF mem_next_page_gt])

declare next_mapped.simps [simp del]

abbreviation RLIM_INFINITY :: nat where "RLIM_INFINITY \<equiv> 2 ^ 64 - 1"

text \<open>What the fault handler finds outside its own code: whether it runs inside translated code and
  whether the write lock is free there, the stack limit, which host allocations succeed, what other
  threads do while the lock is dropped, and what the node of a reservation pointer then holds
  (\<^term>\<open>None\<close> when it was freed).\<close>

record fault_env =
  fe_in_jit :: bool
  fe_trylock :: bool
  fe_stack_limit :: nat
  fe_mmap_ok :: bool
  fe_data_ok :: bool
  fe_copy_ok :: bool
  fe_alloc :: "mem_reservation \<Rightarrow> bool"
  fe_others :: "mem \<times> vm \<Rightarrow> mem \<times> vm"
  fe_others_cow :: "mem \<times> vm \<Rightarrow> mem \<times> vm"
  fe_res_node :: "mem_reservation \<Rightarrow> mem_reservation option"

definition demand_map :: "fault_env \<Rightarrow> mem \<times> vm \<Rightarrow> nat \<Rightarrow> flags32 \<Rightarrow> mem \<times> vm" where
  "demand_map env mv page fl =
    (let v = (snd mv)\<lparr>anon_page_count := anon_page_count (snd mv) + 1\<rparr>;
         (err, mv') = pt_map_nothing (fe_mmap_ok env) (fe_data_ok env) (fe_alloc env) (fst mv, v) page 1 fl
     in if err \<ge> 0 then (mem_changed (fst mv'), snd mv') else mv')"

text \<open>The part of \<^verbatim>\<open>mem_ptr\<close> for a page without an entry.  The flag of the result says whether control
  reaches \<^verbatim>\<open>have_entry\<close> (otherwise \<^verbatim>\<open>mem_ptr\<close> returns NULL); \<^term>\<open>None\<close> is the use of a freed node.\<close>

definition fault_in :: "fault_env \<Rightarrow> mem \<times> vm \<Rightarrow> nat \<Rightarrow> (bool \<times> mem \<times> vm) option" where
  "fault_in env mv page =
    (let p = next_mapped (fst mv) page;
         grows = (p < MEM_PAGES \<and>
           (case mem_pt (fst mv) p of None \<Rightarrow> False | Some e \<Rightarrow> pt_flags e AND P_GROWSDOWN \<noteq> 0))
     in if grows then
          if fe_stack_limit env \<noteq> RLIM_INFINITY \<and>
             mul64 (sub64 STACK_TOP_PAGE page) PAGE_SIZE > fe_stack_limit env
          then Some (False, mv)
          else let mv1 = fe_others env mv in
            if fe_in_jit env \<and> \<not> fe_trylock env then Some (False, mv1)
            else if mem_pt (fst mv1) page \<noteq> None then Some (True, mv1)
            else Some (True, demand_map env mv1 page (P_WRITE OR P_GROWSDOWN))
        else case mem_find_reservation (reservations (fst mv)) page of
          None \<Rightarrow> Some (False, mv)
        | Some res \<Rightarrow>
            let mv1 = fe_others env mv in
            if fe_in_jit env \<and> \<not> fe_trylock env then Some (False, mv1)
            else if mem_pt (fst mv1) page \<noteq> None then Some (True, mv1)
            else case fe_res_node env res of
              None \<Rightarrow> None
            | Some node \<Rightarrow> Some (True, demand_map env mv1 page (res_flags node AND NOT P_GROWSDOWN)))"

definition page_bytes :: "vm \<Rightarrow> pt_entry \<Rightarrow> (nat \<Rightarrow> byte) option" where
  "page_bytes v entry = do {
     d \<leftarrow> pt_data entry;
     b \<leftarrow> vm_blocks v d;
     Some (\<lambda>i. if i < PAGE_SIZE then db_bytes b (pt_offset entry + i) else 0)
   }"

definition cow_fault :: "fault_env \<Rightarrow> mem \<times> vm \<Rightarrow> nat \<Rightarrow> (mem \<times> vm) option" where
  "cow_fault env mv page =
    (let mv1 = fe_others_cow env mv in
     case mem_pt (fst mv1) page of
       None \<Rightarrow> Some mv1
     | Some entry \<Rightarrow>
         if pt_flags entry AND P_COW = 0 then Some mv1
         else if \<not> fe_copy_ok env then None
         else do {
           bytes \<leftarrow> page_bytes (snd mv1) entry;
           let v = (if pt_flags entry AND P_ANONYMOUS \<noteq> 0
                    then (snd mv1)\<lparr>anon_page_count := anon_page_count (snd mv1) + 1\<rparr> else snd mv1);
           let (err, mv2) = pt_map (fe_data_ok env) (fe_alloc env) (fst mv1, v) page 1 (Inr bytes) 0
                              (pt_flags entry AND NOT P_COW);
           Some (mem_changed (fst mv2), snd mv2)
         })"

definition write_fault :: "fault_env \<Rightarrow> mem \<times> vm \<Rightarrow> nat \<Rightarrow> access \<Rightarrow> (bool \<times> mem \<times> vm) option" where
  "write_fault env mv page type =
    (case mem_pt (fst mv) page of
       None \<Rightarrow> Some (True, mv)
     | Some entry \<Rightarrow>
         if type = MEM_READ then Some (True, mv)
         else if type \<noteq> MEM_WRITE_PTRACE \<and> pt_flags entry AND P_WRITE = 0 then Some (False, mv)
         else
           let fl = (if type = MEM_WRITE_PTRACE then pt_flags entry OR (P_WRITE OR P_COW) else pt_flags entry);
               m = (if type = MEM_WRITE_PTRACE
                    then mem_pt_modify (fst mv) page (\<lambda>e. e\<lparr>pt_flags := fl\<rparr>) else fst mv);
               m = m\<lparr>invalidated := page # invalidated m\<rparr>
           in if fl AND P_COW \<noteq> 0 then map_option (\<lambda>mv'. (True, mv')) (cow_fault env (m, snd mv) page)
              else Some (True, m, snd mv))"

definition mem_ptr :: "fault_env \<Rightarrow> mem \<times> vm \<Rightarrow> nat \<Rightarrow> access \<Rightarrow> ((nat \<times> nat) option \<times> mem \<times> vm) option" where
  "mem_ptr env mv addr type = do {
     let page = PAGE addr;
     (have_entry, mv1) \<leftarrow> (if mem_pt (fst mv) page = None then fault_in env mv page else Some (True, mv));
     if \<not> have_entry then Some (None, mv1)
     else do {
       (ok, mv2) \<leftarrow> write_fault env mv1 page type;
       if \<not> ok then Some (None, mv2) else Some (mem_ptr_nofault (fst mv2) addr type, mv2)
     }
   }"

abbreviation SEGV_MAPERR :: int where "SEGV_MAPERR \<equiv> 1"
abbreviation SEGV_ACCERR :: int where "SEGV_ACCERR \<equiv> 2"

definition mem_segv_reason :: "mem \<Rightarrow> nat \<Rightarrow> int" where
  "mem_segv_reason m addr = (if mem_pt m (PAGE addr) = None then SEGV_MAPERR else SEGV_ACCERR)"

definition mem_destroy :: "(mem_reservation \<Rightarrow> bool) \<Rightarrow> mem \<times> vm \<Rightarrow> mem \<times> vm" where
  "mem_destroy alloc mv =
    (let (r, m, v) = pt_unmap_always alloc mv 0 MEM_PAGES
     in (m\<lparr>reservations := [], pgdir := None\<rparr>, v))"

end
