(* ===== verification/Address_Space_Laws.thy ===== *)
theory Address_Space_Laws
  imports Address_Space
begin

text \<open>
  Correctness of mapping, unmapping and copy on write: what each operation does to the flat page
  map, the reference-count invariant of the host memory blocks, and the isolation of an address
  space from writes in another one after a fork.
\<close>

section \<open>Unmapping clears exactly its range\<close>

lemma pt_unmap_page_lookup:
  "mem_pt (fst (pt_unmap_page mv p)) q = (if same_slot p q then None else mem_pt (fst mv) q)"
  using mem_pt_same_slot [of p q "fst mv"]
  by (auto simp: pt_unmap_page_def Let_def mem_pt_del_lookup split: option.splits)

lemma pt_unmap_page_next [simp]: "mem_next_page (fst (pt_unmap_page mv p)) = mem_next_page (fst mv)"
  by (simp add: pt_unmap_page_def Let_def split: option.splits)

lemma pt_unmap_page_frame [simp]:
  "pgdir (fst (pt_unmap_page mv p)) = None \<longleftrightarrow> pgdir (fst mv) = None"
  "reservations (fst (pt_unmap_page mv p)) = reservations (fst mv)"
  "mmap_hint (fst (pt_unmap_page mv p)) = mmap_hint (fst mv)"
  by (simp_all add: pt_unmap_page_def Let_def split: option.splits)

lemma pt_unmap_loop_visit:
  "pt_unmap_loop mv page limit = foldl pt_unmap_page mv (visit (mem_next_page (fst mv)) page limit)"
proof (induction mv page limit rule: pt_unmap_loop.induct)
  case (1 mv page limit)
  then show ?case
    by (simp add: pt_unmap_loop.simps [of mv page limit] pt.visit_unfold [of "fst mv" page limit] Let_def)
qed

lemma foldl_unmap_lookup:
  "mem_pt (fst (foldl pt_unmap_page mv ps)) q =
    (if \<exists>p \<in> set ps. same_slot p q then None else mem_pt (fst mv) q)"
  by (induction ps arbitrary: mv) (auto simp: pt_unmap_page_lookup)

lemma foldl_unmap_frame [simp]:
  "pgdir (fst (foldl pt_unmap_page mv ps)) = None \<longleftrightarrow> pgdir (fst mv) = None"
  "reservations (fst (foldl pt_unmap_page mv ps)) = reservations (fst mv)"
  "mmap_hint (fst (foldl pt_unmap_page mv ps)) = mmap_hint (fst mv)"
  by (induction ps arbitrary: mv) simp_all

lemma visit_bound: "limit \<le> MEM_PAGES \<Longrightarrow> p \<in> set (visit (mem_next_page m) page limit) \<Longrightarrow> p < MEM_PAGES"
  using pt.visit_range [of p m page limit] by simp

lemma pt_unmap_loop_lookup:
  assumes "limit \<le> MEM_PAGES" "q < MEM_PAGES"
  shows "mem_pt (fst (pt_unmap_loop mv page limit)) q =
    (if page \<le> q \<and> q < limit then None else mem_pt (fst mv) q)"
proof -
  have "(\<exists>p \<in> set (visit (mem_next_page (fst mv)) page limit). same_slot p q) \<longleftrightarrow>
      q \<in> set (visit (mem_next_page (fst mv)) page limit)"
    using visit_bound [OF assms(1)] assms(2) by (auto simp: same_slot_eq)
  moreover have "q \<in> set (visit (mem_next_page (fst mv)) page limit) \<Longrightarrow> page \<le> q \<and> q < limit"
    by (rule pt.visit_range)
  moreover have "page \<le> q \<Longrightarrow> q < limit \<Longrightarrow> mem_pt (fst mv) q \<noteq> None \<Longrightarrow>
      q \<in> set (visit (mem_next_page (fst mv)) page limit)"
    using pt.visit_complete assms(2) by blast
  ultimately show ?thesis unfolding pt_unmap_loop_visit foldl_unmap_lookup by metis
qed

definition unmap_prep :: "(mem_reservation \<Rightarrow> bool) \<Rightarrow> mem \<Rightarrow> nat \<Rightarrow> nat \<Rightarrow> mem" where
  "unmap_prep alloc m start pages =
    (let last = sub64 (add64 start pages) 1;
         m = (if last > mmap_hint m then m\<lparr>mmap_hint := last\<rparr> else m)
     in m\<lparr>reservations := mem_remove_reservations alloc (reservations m) start pages\<rparr>)"

lemma unmap_prep_simps [simp]:
  "mem_pt (unmap_prep alloc m start pages) = mem_pt m"
  "mem_next_page (unmap_prep alloc m start pages) = mem_next_page m"
  "pgdir (unmap_prep alloc m start pages) = pgdir m"
  "reservations (unmap_prep alloc m start pages) = mem_remove_reservations alloc (reservations m) start pages"
  by (simp_all add: unmap_prep_def Let_def)

lemma pt_unmap_always_eq:
  "pt_unmap_always alloc mv start pages =
    (let mv' = foldl pt_unmap_page (unmap_prep alloc (fst mv) start pages, snd mv)
                 (visit (mem_next_page (fst mv)) start (add64 start pages))
     in (0, mem_changed (fst mv'), snd mv'))"
  by (simp add: pt_unmap_always_def pt_unmap_loop_visit unmap_prep_def Let_def)

lemma pt_unmap_always_lookup:
  assumes "start + pages \<le> MEM_PAGES" "q < MEM_PAGES" "pt_unmap_always alloc (m, v) start pages = (r, m', v')"
  shows "mem_pt m' q = (if start \<le> q \<and> q < start + pages then None else mem_pt m q)"
proof -
  have "m' = mem_changed (fst (pt_unmap_loop (unmap_prep alloc m start pages, v) start (start + pages)))"
    using assms(1,3) by (auto simp: pt_unmap_always_def unmap_prep_def Let_def add64_no_wrap)
  then show ?thesis using assms(1,2) by (simp add: pt_unmap_loop_lookup)
qed

lemma pt_unmap_always_frame:
  assumes "pt_unmap_always alloc (m, v) start pages = (r, m', v')"
  shows "r = 0" "pgdir m' = None \<longleftrightarrow> pgdir m = None"
    "reservations m' = mem_remove_reservations alloc (reservations m) start pages"
  using assms by (auto simp: pt_unmap_always_eq Let_def)

section \<open>Reference counts\<close>

definition page_ref :: "mem \<Rightarrow> nat \<Rightarrow> nat option" where
  "page_ref m p = Option.bind (mem_pt m p) pt_data"

definition refs :: "mem \<Rightarrow> nat \<Rightarrow> nat" where
  "refs m d = card {p. p < MEM_PAGES \<and> page_ref m p = Some d}"

text \<open>Every block's count is the number of pages of the address space that map it plus the number of
  references from elsewhere (\<^verbatim>\<open>ext\<close>); a block that does not exist has no reference.\<close>

definition db_count :: "vm \<Rightarrow> nat \<Rightarrow> nat" where
  "db_count v d = (case vm_blocks v d of None \<Rightarrow> 0 | Some b \<Rightarrow> db_refcount b)"

definition vm_ok :: "(nat \<Rightarrow> nat) \<Rightarrow> mem \<Rightarrow> vm \<Rightarrow> bool" where
  "vm_ok ext m v \<longleftrightarrow> pgdir m \<noteq> None \<and>
    (\<forall>d. db_count v d = refs m d + ext d) \<and>
    (\<forall>d. vm_blocks v d \<noteq> None \<longrightarrow> d < vm_next v)"

lemma finite_ref_pages [simp]: "finite {p. p < MEM_PAGES \<and> page_ref m p = Some d}"
  by (rule finite_subset [of _ "{..<MEM_PAGES}"]) auto

lemma refs_remove:
  assumes "p < MEM_PAGES" "page_ref m p = Some d"
    "\<And>q. q < MEM_PAGES \<Longrightarrow> page_ref m' q = (if q = p then None else page_ref m q)"
  shows "refs m' x = (if x = d then refs m d - 1 else refs m x)" "0 < refs m d"
proof -
  have "{q. q < MEM_PAGES \<and> page_ref m' q = Some x} = {q. q < MEM_PAGES \<and> page_ref m q = Some x} - {p}"
    using assms(3) by (auto split: if_splits)
  then show "refs m' x = (if x = d then refs m d - 1 else refs m x)"
    using assms(1,2) by (auto simp: refs_def card_Diff_singleton_if)
  show "0 < refs m d" using assms(1,2) by (auto simp: refs_def card_gt_0_iff)
qed

lemma refs_add:
  assumes "p < MEM_PAGES" "page_ref m p = None"
    "\<And>q. q < MEM_PAGES \<Longrightarrow> page_ref m' q = (if q = p then Some d else page_ref m q)"
  shows "refs m' x = (if x = d then refs m d + 1 else refs m x)"
proof -
  have "{q. q < MEM_PAGES \<and> page_ref m' q = Some x} =
    (if x = d then insert p {q. q < MEM_PAGES \<and> page_ref m q = Some x}
     else {q. q < MEM_PAGES \<and> page_ref m q = Some x})"
    using assms by (auto split: if_splits)
  then show ?thesis using assms(2) by (auto simp: refs_def)
qed

lemma refs_pos: "p < MEM_PAGES \<Longrightarrow> page_ref m p = Some d \<Longrightarrow> 0 < refs m d"
  by (rule refs_remove(2) [where m' = "mem_pt_del m p"])
     (auto simp: page_ref_def mem_pt_del_lookup same_slot_eq)

lemma refs_cong: "(\<And>q. q < MEM_PAGES \<Longrightarrow> page_ref m' q = page_ref m q) \<Longrightarrow> refs m' x = refs m x"
  unfolding refs_def by (rule arg_cong [where f=card]) auto

lemma vm_ok_cong:
  assumes "vm_ok ext m v" "pgdir m' = None \<longleftrightarrow> pgdir m = None" "\<And>q. q < MEM_PAGES \<Longrightarrow> page_ref m' q = page_ref m q"
    "vm_blocks v' = vm_blocks v" "vm_next v' = vm_next v"
  shows "vm_ok ext m' v'"
  using assms refs_cong [of m' m] by (simp add: vm_ok_def db_count_def)

lemma vm_ok_release:
  assumes ok: "vm_ok ext m v" and p: "p < MEM_PAGES" "page_ref m p = Some d"
    and m': "\<And>q. q < MEM_PAGES \<Longrightarrow> page_ref m' q = (if q = p then None else page_ref m q)"
      "pgdir m' = None \<longleftrightarrow> pgdir m = None"
  shows "vm_ok ext m' (data_release v d)"
proof -
  note r = refs_remove [OF p m'(1)]
  have cnt: "db_count v x = refs m x + ext x" for x
    using ok by (simp add: vm_ok_def)
  obtain b where b: "vm_blocks v d = Some b" "db_refcount b = refs m d + ext d"
    using cnt [of d] r(2) by (cases "vm_blocks v d") (auto simp: db_count_def)
  show ?thesis unfolding vm_ok_def
  proof (intro conjI allI)
    show "pgdir m' \<noteq> None" using ok m'(2) by (simp add: vm_ok_def)
    show "db_count (data_release v d) x = refs m' x + ext x" for x
      using cnt [of x] b r(2) by (cases "x = d") (auto simp: db_count_def data_release_def r(1))
    show "vm_blocks (data_release v d) x \<noteq> None \<longrightarrow> x < vm_next (data_release v d)" for x
      using ok b by (auto simp: data_release_def vm_ok_def)
  qed
qed

lemma vm_ok_retain:
  assumes ok: "vm_ok ext m v" and p: "p < MEM_PAGES" "page_ref m p = None" and b: "vm_blocks v d \<noteq> None"
    and m': "\<And>q. q < MEM_PAGES \<Longrightarrow> page_ref m' q = (if q = p then Some d else page_ref m q)"
      "pgdir m' = None \<longleftrightarrow> pgdir m = None"
  shows "vm_ok ext m' (data_retain v d)"
proof -
  note r = refs_add [OF p m'(1)]
  have cnt: "db_count v x = refs m x + ext x" for x
    using ok by (simp add: vm_ok_def)
  show ?thesis unfolding vm_ok_def
  proof (intro conjI allI)
    show "pgdir m' \<noteq> None" using ok m'(2) by (simp add: vm_ok_def)
    show "db_count (data_retain v d) x = refs m' x + ext x" for x
      using cnt [of x] b by (cases "x = d") (auto simp: db_count_def data_retain_def r)
    show "vm_blocks (data_retain v d) x \<noteq> None \<longrightarrow> x < vm_next (data_retain v d)" for x
      using ok b by (auto simp: data_retain_def vm_ok_def split: if_splits)
  qed
qed

lemma vm_ok_anon [simp]: "vm_ok ext m (v\<lparr>anon_page_count := c\<rparr>) = vm_ok ext m v"
  by (simp add: vm_ok_def db_count_def)

lemma refs_fields [simp]:
  "refs (mem_changed m) = refs m" "refs (m\<lparr>invalidated := i\<rparr>) = refs m"
  "refs (unmap_prep alloc m start pages) = refs m"
  by (simp_all add: fun_eq_iff refs_def page_ref_def)

lemma vm_ok_mem_changed [simp]: "vm_ok ext (mem_changed m) v = vm_ok ext m v"
  by (simp add: vm_ok_def)

lemma vm_ok_fields [simp]:
  "vm_ok ext (m\<lparr>invalidated := i\<rparr>) v = vm_ok ext m v"
  "vm_ok ext (unmap_prep alloc m start pages) v = vm_ok ext m v"
  by (simp_all add: vm_ok_def)

lemma vm_ok_unmap_page:
  assumes "vm_ok ext (fst mv) (snd mv)" "p < MEM_PAGES"
  shows "vm_ok ext (fst (pt_unmap_page mv p)) (snd (pt_unmap_page mv p))"
proof (cases "mem_pt (fst mv) p")
  case None
  then show ?thesis using assms by (simp add: pt_unmap_page_def)
next
  case (Some e)
  then obtain d where d: "pt_data e = Some d" by (auto simp: mem_pt_Some_raw)
  have "page_ref (fst (pt_unmap_page mv p)) q = (if q = p then None else page_ref (fst mv) q)"
    if "q < MEM_PAGES" for q
    using that assms(2) by (auto simp: page_ref_def pt_unmap_page_lookup same_slot_eq)
  moreover have "snd (pt_unmap_page mv p) =
      data_release (if pt_flags e AND P_ANONYMOUS \<noteq> 0
        then (snd mv)\<lparr>anon_page_count := anon_page_count (snd mv) - 1\<rparr> else snd mv) d"
    using Some d by (simp add: pt_unmap_page_def Let_def)
  ultimately show ?thesis using assms Some d
    by (auto intro!: vm_ok_release simp: page_ref_def)
qed

lemma vm_ok_unmap_pages:
  assumes "vm_ok ext (fst mv) (snd mv)" "\<And>p. p \<in> set ps \<Longrightarrow> p < MEM_PAGES"
  shows "vm_ok ext (fst (foldl pt_unmap_page mv ps)) (snd (foldl pt_unmap_page mv ps))"
  using assms by (induction ps arbitrary: mv) (simp_all add: vm_ok_unmap_page)

lemma vm_ok_unmap_always:
  assumes "vm_ok ext m v" "start + pages \<le> MEM_PAGES" "pt_unmap_always alloc (m, v) start pages = (r, m', v')"
  shows "vm_ok ext m' v'"
proof -
  have "add64 start pages = start + pages" using assms(2) by (simp add: add64_no_wrap)
  then show ?thesis
    using assms vm_ok_unmap_pages [of ext "(unmap_prep alloc m start pages, v)"] visit_bound [OF assms(2)]
    by (auto simp: pt_unmap_always_eq Let_def)
qed

lemma visit_one: "visit (mem_next_page m) page (page + 1) = [page]"
proof -
  have "visit (mem_next_page m) (mem_next_page m page) (page + 1) = []"
    using mem_next_page_gt [of page m] by (subst pt.visit_unfold) simp
  then show ?thesis by (subst pt.visit_unfold) simp
qed

lemma pt_unmap_one:
  assumes "mem_pt m page \<noteq> None" "page < MEM_PAGES"
  shows "pt_unmap alloc (m, v) page 1 = pt_unmap_always alloc (m, v) page 1"
  using assms by (auto simp: pt_unmap_def add64_no_wrap)

section \<open>Blocks keep their bytes\<close>

definition bytes_from :: "vm \<Rightarrow> vm \<Rightarrow> bool" where
  "bytes_from v v' \<longleftrightarrow> vm_next v \<le> vm_next v' \<and>
    (\<forall>x b'. vm_blocks v' x = Some b' \<and> x < vm_next v \<longrightarrow>
      (\<exists>b. vm_blocks v x = Some b \<and> db_bytes b' = db_bytes b))"

lemma bytes_from_refl [simp]: "bytes_from v v"
  by (simp add: bytes_from_def)

lemma bytes_from_trans [trans]: "bytes_from v1 v2 \<Longrightarrow> bytes_from v2 v3 \<Longrightarrow> bytes_from v1 v3"
  unfolding bytes_from_def by (metis order.strict_trans2 order.trans)

lemma bytes_from_release [simp]: "bytes_from v (data_release v d)"
  by (auto simp: bytes_from_def data_release_def split: option.splits if_splits)

lemma bytes_from_retain [simp]: "bytes_from v (data_retain v d)"
  by (auto simp: bytes_from_def data_retain_def split: option.splits if_splits)

lemma bytes_from_anon [simp]: "bytes_from v (v'\<lparr>anon_page_count := c\<rparr>) = bytes_from v v'"
  "bytes_from (v\<lparr>anon_page_count := c\<rparr>) v' = bytes_from v v'"
  by (simp_all add: bytes_from_def)

lemma bytes_from_release_anon [simp]: "bytes_from v (data_release (v\<lparr>anon_page_count := c\<rparr>) d)"
  using bytes_from_release [of "v\<lparr>anon_page_count := c\<rparr>" d] by (simp only: bytes_from_anon)

lemma bytes_from_unmap_page [simp]: "bytes_from (snd mv) (snd (pt_unmap_page mv p))"
  by (auto simp: pt_unmap_page_def Let_def split: option.splits)

lemma bytes_from_unmap_pages: "bytes_from (snd mv) (snd (foldl pt_unmap_page mv ps))"
proof (induction ps arbitrary: mv)
  case (Cons p ps)
  show ?case using bytes_from_trans [OF bytes_from_unmap_page Cons.IH] by simp
qed simp

lemma bytes_from_unmap_always:
  "pt_unmap_always alloc (m, v) start pages = (r, m', v') \<Longrightarrow> bytes_from v v'"
  using bytes_from_unmap_pages [of "(unmap_prep alloc m start pages, v)"]
  by (auto simp: pt_unmap_always_eq Let_def)

lemma release_other [simp]: "x \<noteq> d \<Longrightarrow> vm_blocks (data_release v d) x = vm_blocks v x"
  by (auto simp: data_release_def split: option.splits)

lemma retain_other [simp]: "x \<noteq> d \<Longrightarrow> vm_blocks (data_retain v d) x = vm_blocks v x"
  by (auto simp: data_retain_def split: option.splits)

lemma retain_alive [simp]: "vm_blocks (data_retain v d) x = None \<longleftrightarrow> vm_blocks v x = None"
  by (auto simp: data_retain_def split: option.splits)

lemma unmap_page_other:
  "page_ref (fst mv) p \<noteq> Some x \<Longrightarrow> vm_blocks (snd (pt_unmap_page mv p)) x = vm_blocks (snd mv) x"
  by (auto simp: pt_unmap_page_def Let_def page_ref_def split: option.splits)

lemma vm_ok_alive: "vm_ok ext m v \<Longrightarrow> 0 < ext d \<Longrightarrow> vm_blocks v d \<noteq> None"
  by (cases "vm_blocks v d") (auto simp: vm_ok_def db_count_def dest: spec [of _ d])

section \<open>Mapping installs exactly its range\<close>

text \<open>The part of the loop body before the new entry is written: a mapped page is unmapped first.\<close>

definition clear_page :: "(mem_reservation \<Rightarrow> bool) \<Rightarrow> mem \<times> vm \<Rightarrow> nat \<Rightarrow> mem \<times> vm" where
  "clear_page alloc mv page = (if mem_pt (fst mv) page \<noteq> None then snd (pt_unmap alloc mv page 1) else mv)"

lemma clear_page_law:
  assumes "page < MEM_PAGES" "clear_page alloc (m, v) page = (m', v')"
  shows "\<And>q. q < MEM_PAGES \<Longrightarrow> mem_pt m' q = (if q = page then None else mem_pt m q)"
    "pgdir m' = None \<longleftrightarrow> pgdir m = None" "bytes_from v v'" "vm_ok ext m v \<Longrightarrow> vm_ok ext m' v'"
    "page_ref m page \<noteq> Some x \<Longrightarrow> vm_blocks v' x = vm_blocks v x" "vm_next v' = vm_next v"
proof -
  have pg: "page + 1 \<le> MEM_PAGES" using assms(1) by simp
  have cases: "mem_pt m page = None \<and> m' = m \<and> v' = v \<or> pt_unmap_always alloc (m, v) page 1 = (0, m', v')"
    using assms pt_unmap_one [of m page alloc v]
    by (auto simp: clear_page_def pt_unmap_always_eq Let_def split: if_splits)
  show "mem_pt m' q = (if q = page then None else mem_pt m q)" if "q < MEM_PAGES" for q
    using cases pt_unmap_always_lookup [OF pg that, of alloc m v 0 m' v'] by auto
  show "pgdir m' = None \<longleftrightarrow> pgdir m = None"
    using cases pt_unmap_always_frame(2) [of alloc m v page 1 0 m' v'] by auto
  show "bytes_from v v'" using cases bytes_from_unmap_always by fastforce
  show "vm_ok ext m v \<Longrightarrow> vm_ok ext m' v'" using cases vm_ok_unmap_always pg by blast
  have "v' = v \<or> v' = snd (pt_unmap_page (unmap_prep alloc m page 1, v) page)"
    using cases pg by (auto simp: pt_unmap_always_eq visit_one [simplified] add64_no_wrap Let_def)
  then show "page_ref m page \<noteq> Some x \<Longrightarrow> vm_blocks v' x = vm_blocks v x" "vm_next v' = vm_next v"
    using unmap_page_other [of "(unmap_prep alloc m page 1, v)" page x]
    by (auto simp: page_ref_def pt_unmap_page_def Let_def data_release_def split: option.splits)
qed

definition mapped_entry :: "nat \<Rightarrow> nat \<Rightarrow> nat \<Rightarrow> flags32 \<Rightarrow> nat \<Rightarrow> pt_entry" where
  "mapped_entry d start offset fl q = \<lparr>pt_data = Some d, pt_offset = (q - start) * 4096 + offset, pt_flags = fl\<rparr>"

lemma pt_map_loop_step:
  "pt_map_loop alloc d start offset fl page (Suc n) mv =
    (let (m, v) = clear_page alloc mv page
     in pt_map_loop alloc d start offset fl (page + 1) n
          (mem_pt_new m page (\<lambda>_. mapped_entry d start offset fl page), data_retain v d))"
proof -
  have "(\<lambda>pt. pt\<lparr>pt_data := Some d, pt_offset := (page - start) * 4096 + offset, pt_flags := fl\<rparr>) =
      (\<lambda>_. mapped_entry d start offset fl page)"
    by (simp add: mapped_entry_def fun_eq_iff)
  then show ?thesis by (simp add: clear_page_def Let_def case_prod_beta)
qed

lemma pt_map_loop_law:
  assumes "vm_ok ext m v" "page + n \<le> MEM_PAGES" "vm_blocks v d \<noteq> None"
    "\<And>p. page \<le> p \<Longrightarrow> p < MEM_PAGES \<Longrightarrow> page_ref m p \<noteq> Some d"
    "pt_map_loop alloc d start offset fl page n (m, v) = (m', v')"
  shows "vm_ok ext m' v' \<and> bytes_from v v' \<and>
    (\<forall>q < MEM_PAGES. mem_pt m' q =
      (if page \<le> q \<and> q < page + n then Some (mapped_entry d start offset fl q) else mem_pt m q))"
  using assms
proof (induction n arbitrary: page m v)
  case (Suc n)
  have pg: "page < MEM_PAGES" using Suc.prems(2) by simp
  obtain m1 v1 where c: "clear_page alloc (m, v) page = (m1, v1)" by fastforce
  note c' = clear_page_law [OF pg c]
  define m2 where "m2 = mem_pt_new m1 page (\<lambda>_. mapped_entry d start offset fl page)"
  have pd: "pgdir m1 \<noteq> None" using c'(2) Suc.prems(1) by (simp add: vm_ok_def)
  have m2: "mem_pt m2 q = (if q = page then Some (mapped_entry d start offset fl page) else mem_pt m q)"
    if "q < MEM_PAGES" for q
    using that pd c'(1) [OF that] pg by (simp add: m2_def mem_pt_new_lookup same_slot_eq mapped_entry_def)
  have alive: "vm_blocks v1 d \<noteq> None" using c'(5) [of d] Suc.prems(3,4) pg by simp
  have ok: "vm_ok ext m2 (data_retain v1 d)"
  proof (rule vm_ok_retain [OF c'(4) [OF Suc.prems(1)] pg _ alive])
    show "page_ref m1 page = None" using c'(1) [OF pg] by (simp add: page_ref_def)
    show "page_ref m2 q = (if q = page then Some d else page_ref m1 q)" if "q < MEM_PAGES" for q
      using m2 [OF that] c'(1) [OF that] by (simp add: page_ref_def mapped_entry_def)
  qed (simp add: m2_def)
  have rest: "pt_map_loop alloc d start offset fl (page + 1) n (m2, data_retain v1 d) = (m', v')"
    using Suc.prems(5) c by (simp only: pt_map_loop_step m2_def Let_def prod.case)
  have no: "page_ref m2 p \<noteq> Some d" if "page + 1 \<le> p" "p < MEM_PAGES" for p
    using Suc.prems(4) [of p] m2 [OF that(2)] that by (simp add: page_ref_def)
  have IH: "vm_ok ext m' v' \<and> bytes_from (data_retain v1 d) v' \<and> (\<forall>q < MEM_PAGES. mem_pt m' q =
      (if page + 1 \<le> q \<and> q < page + 1 + n then Some (mapped_entry d start offset fl q) else mem_pt m2 q))"
    by (rule Suc.IH [OF ok _ _ no rest]) (use Suc.prems(2) alive in auto)
  have "bytes_from v (data_retain v1 d)" using bytes_from_trans [OF c'(3)] by simp
  then have "bytes_from v v'" using IH bytes_from_trans by blast
  then show ?case using IH m2 by auto
qed auto

lemma pt_map_law:
  assumes "vm_ok ext m v" "start + pages \<le> MEM_PAGES"
    "pt_map True alloc (m, v) start pages (Inr bytes) offset fl = (r, m', v')"
  shows "r = 0" "vm_ok ext m' v'" "bytes_from v v'"
    "\<And>q. q < MEM_PAGES \<Longrightarrow> mem_pt m' q =
      (if start \<le> q \<and> q < start + pages then Some (mapped_entry (vm_next v) start offset fl q) else mem_pt m q)"
    "\<And>b. vm_blocks v' (vm_next v) = Some b \<Longrightarrow> db_bytes b = bytes"
proof -
  let ?d = "vm_next v"
  define b where "b = \<lparr>db_bytes = bytes, db_size = add64 (mul64 pages PAGE_SIZE) offset, db_refcount = 0,
    db_fd = None, db_file_offset = 0\<rparr>"
  define v0 where "v0 = v\<lparr>vm_blocks := (vm_blocks v)(?d := Some b), vm_next := ?d + 1\<rparr>"
  have fresh: "vm_blocks v ?d = None" using assms(1) by (auto simp: vm_ok_def)
  have "db_count v ?d = refs m ?d + ext ?d" using assms(1) by (simp add: vm_ok_def)
  then have zero: "refs m ?d + ext ?d = 0" using fresh by (simp add: db_count_def)
  have ok0: "vm_ok ext m v0" unfolding vm_ok_def
  proof (intro conjI allI)
    show "pgdir m \<noteq> None" using assms(1) by (simp add: vm_ok_def)
    show "db_count v0 x = refs m x + ext x" for x
      using assms(1) zero by (cases "x = ?d") (simp_all add: vm_ok_def v0_def db_count_def b_def)
    show "vm_blocks v0 x \<noteq> None \<longrightarrow> x < vm_next v0" for x
      using assms(1) by (cases "x = ?d") (auto simp: vm_ok_def v0_def less_SucI)
  qed
  obtain m1 v1 where loop: "pt_map_loop alloc ?d start offset fl start pages (m, v0) = (m1, v1)" by fastforce
  have res: "r = 0" "m' = mem_changed m1" "v' = v1"
    using assms(2,3) loop by (auto simp: pt_map_def Let_def b_def v0_def add64_no_wrap)
  have no: "page_ref m p \<noteq> Some ?d" if "p < MEM_PAGES" for p
    using refs_pos [OF that, of m ?d] zero by auto
  note L = pt_map_loop_law [OF ok0 assms(2) _ no loop]
  have L': "vm_ok ext m1 v1 \<and> bytes_from v0 v1 \<and> (\<forall>q < MEM_PAGES. mem_pt m1 q =
      (if start \<le> q \<and> q < start + pages then Some (mapped_entry ?d start offset fl q) else mem_pt m q))"
    by (rule L) (auto simp: v0_def)
  show "r = 0" by (rule res)
  show "vm_ok ext m' v'" using L' res by simp
  have "bytes_from v v0" by (auto simp: bytes_from_def v0_def)
  then show "bytes_from v v'" using L' res bytes_from_trans by blast
  show "mem_pt m' q = (if start \<le> q \<and> q < start + pages
      then Some (mapped_entry ?d start offset fl q) else mem_pt m q)" if "q < MEM_PAGES" for q
    using L' res that by simp
  show "db_bytes c = bytes" if alive: "vm_blocks v' ?d = Some c" for c
  proof -
    have "?d < vm_next v0" by (simp add: v0_def)
    then obtain b' where "vm_blocks v0 ?d = Some b'" "db_bytes c = db_bytes b'"
      using L' alive res unfolding bytes_from_def by blast
    then show ?thesis by (auto simp: v0_def b_def)
  qed
qed

section \<open>The guest's view of memory\<close>

definition guest_byte :: "vm \<Rightarrow> mem \<Rightarrow> nat \<Rightarrow> byte option" where
  "guest_byte v m addr = do {
     e \<leftarrow> mem_pt m (PAGE addr);
     d \<leftarrow> pt_data e;
     b \<leftarrow> vm_blocks v d;
     Some (db_bytes b (pt_offset e + PGOFFSET addr))
   }"

definition vm_store :: "vm \<Rightarrow> nat \<times> nat \<Rightarrow> byte \<Rightarrow> vm" where
  "vm_store v ptr x =
    (case vm_blocks v (fst ptr) of
       None \<Rightarrow> v
     | Some b \<Rightarrow> v\<lparr>vm_blocks := (vm_blocks v)(fst ptr := Some (b\<lparr>db_bytes := (db_bytes b)(snd ptr := x)\<rparr>))\<rparr>)"

lemma vm_ok_mapped_alive:
  assumes "vm_ok ext m v" "p < MEM_PAGES" "mem_pt m p = Some e" "pt_data e = Some d"
  shows "vm_blocks v d \<noteq> None" "d < vm_next v"
proof -
  have "0 < refs m d" using assms by (intro refs_pos [of p]) (auto simp: page_ref_def)
  moreover have "db_count v d = refs m d + ext d" using assms(1) by (simp add: vm_ok_def)
  ultimately show "vm_blocks v d \<noteq> None" by (auto simp: db_count_def split: option.splits)
  then show "d < vm_next v" using assms(1) by (auto simp: vm_ok_def)
qed

lemma block_bytes_kept:
  assumes "bytes_from v v'" "vm_blocks v' d \<noteq> None" "d < vm_next v"
  shows "map_option db_bytes (vm_blocks v' d) = map_option db_bytes (vm_blocks v d)"
  using assms unfolding bytes_from_def by fastforce

lemma guest_byte_alt:
  "guest_byte v m addr = do {
     e \<leftarrow> mem_pt m (PAGE addr);
     d \<leftarrow> pt_data e;
     f \<leftarrow> map_option db_bytes (vm_blocks v d);
     Some (f (pt_offset e + PGOFFSET addr))
   }"
  by (simp add: guest_byte_def map_option_case split: option.splits bind_splits)

definition pt_target :: "pt_entry \<Rightarrow> nat option \<times> nat" where
  "pt_target e = (pt_data e, pt_offset e)"

lemma guest_byte_cong:
  assumes "vm_ok ext m v" "vm_ok ext' m' v'" "bytes_from v v'" "PAGE addr < MEM_PAGES"
    "map_option pt_target (mem_pt m' (PAGE addr)) = map_option pt_target (mem_pt m (PAGE addr))"
  shows "guest_byte v' m' addr = guest_byte v m addr"
proof (cases "mem_pt m (PAGE addr)")
  case (Some e)
  then obtain d where d: "pt_data e = Some d" by (auto simp: mem_pt_Some_raw)
  obtain e' where e': "mem_pt m' (PAGE addr) = Some e'" "pt_data e' = Some d" "pt_offset e' = pt_offset e"
    using assms(5) Some d by (auto simp: pt_target_def)
  have "map_option db_bytes (vm_blocks v' d) = map_option db_bytes (vm_blocks v d)"
    using vm_ok_mapped_alive [OF assms(1,4) Some d] vm_ok_mapped_alive [OF assms(2,4) e'(1,2)]
    by (intro block_bytes_kept [OF assms(3)]) auto
  then show ?thesis using Some d e' by (simp add: guest_byte_alt)
qed (use assms(5) in \<open>simp add: guest_byte_def\<close>)

lemma cow_flags [simp]:
  "(fl AND - 17) AND P_COW = (0 :: flags32)"
  "(fl AND - 17) AND P_WRITE = (fl AND P_WRITE :: flags32)"
  by (simp_all add: and.assoc)

text \<open>A write fault on a private copy-on-write page: the page moves to a fresh block with the same bytes.\<close>

lemma cow_write_fault:
  assumes ok: "vm_ok ext m v" and p: "PAGE addr < MEM_PAGES" and e: "mem_pt m (PAGE addr) = Some e"
    and fl: "pt_flags e AND P_WRITE \<noteq> 0" "pt_flags e AND P_COW \<noteq> 0"
    and env: "fe_others_cow env = id" "fe_copy_ok env" "fe_data_ok env"
  shows "\<exists>m' v'. mem_ptr env (m, v) addr MEM_WRITE = Some (Some (vm_next v, PGOFFSET addr), m', v') \<and>
    vm_ok ext m' v' \<and> bytes_from v v' \<and>
    (\<forall>q < MEM_PAGES. mem_pt m' q = (if q = PAGE addr
       then Some (mapped_entry (vm_next v) (PAGE addr) 0 (pt_flags e AND NOT P_COW) q) else mem_pt m q)) \<and>
    map_option db_bytes (vm_blocks v' (vm_next v)) = page_bytes v e"
proof -
  define m1 where "m1 = m\<lparr>invalidated := PAGE addr # invalidated m\<rparr>"
  obtain d where d: "pt_data e = Some d" using e by (auto simp: mem_pt_Some_raw)
  obtain b where b: "vm_blocks v d = Some b" using vm_ok_mapped_alive(1) [OF ok p e d] by auto
  obtain bytes where bytes: "page_bytes v e = Some bytes" using d b by (simp add: page_bytes_def)
  define v1 where "v1 = (if pt_flags e AND P_ANONYMOUS \<noteq> 0
    then v\<lparr>anon_page_count := anon_page_count v + 1\<rparr> else v)"
  obtain r m2 v2 where map: "pt_map True (fe_alloc env) (m1, v1) (PAGE addr) 1 (Inr bytes) 0
      (pt_flags e AND NOT P_COW) = (r, m2, v2)" by (metis prod_cases3)
  have ok1: "vm_ok ext m1 v1" using ok by (simp add: m1_def v1_def)
  have n: "vm_next v1 = vm_next v" by (simp add: v1_def)
  have p1: "PAGE addr + 1 \<le> MEM_PAGES" using p by simp
  note L = pt_map_law [OF ok1 p1 map, unfolded n]
  have "cow_fault env (m1, v) (PAGE addr) = Some (mem_changed m2, v2)"
    using e fl env bytes map by (simp add: cow_fault_def m1_def v1_def Let_def split: if_splits)
  then have wf: "write_fault env (m, v) (PAGE addr) MEM_WRITE = Some (True, mem_changed m2, v2)"
    using e fl by (simp add: write_fault_def m1_def Let_def)
  have m2: "mem_pt m2 q = (if q = PAGE addr
      then Some (mapped_entry (vm_next v) (PAGE addr) 0 (pt_flags e AND NOT P_COW) q) else mem_pt m q)"
    if "q < MEM_PAGES" for q
    using L(4) [OF that] by (auto simp: m1_def)
  have "mem_ptr_nofault (mem_changed m2) addr MEM_WRITE = Some (vm_next v, PGOFFSET addr)"
    using m2 [OF p] fl by (simp add: mem_ptr_nofault_def mapped_entry_def P_WRITABLE_def)
  then have ptr: "mem_ptr env (m, v) addr MEM_WRITE = Some (Some (vm_next v, PGOFFSET addr), mem_changed m2, v2)"
    using wf e by (simp add: mem_ptr_def)
  have "vm_blocks v2 (vm_next v) \<noteq> None"
    using vm_ok_mapped_alive(1) [OF L(2) p, of "mapped_entry (vm_next v) (PAGE addr) 0 (pt_flags e AND NOT P_COW) (PAGE addr)" "vm_next v"]
      m2 [OF p] by (simp add: mapped_entry_def)
  then have "map_option db_bytes (vm_blocks v2 (vm_next v)) = page_bytes v e"
    using L(5) bytes by auto
  moreover have "bytes_from v v2" using L(3) by (simp add: v1_def split: if_splits)
  ultimately show ?thesis using ptr L(2) m2 by auto
qed

lemma PAGE_bound: "a < 2 ^ 48 \<Longrightarrow> PAGE a < MEM_PAGES"
  by (simp add: PAGE_def)

lemma page_offset_inj: "PAGE a = PAGE b \<Longrightarrow> PGOFFSET a = PGOFFSET b \<Longrightarrow> a = b"
  unfolding PAGE_def PGOFFSET_def by (metis div_mult_mod_eq)

lemma vm_store_other: "x \<noteq> fst ptr \<Longrightarrow> vm_blocks (vm_store v ptr y) x = vm_blocks v x"
  by (auto simp: vm_store_def split: option.splits)

text \<open>A store through a fresh block is invisible where the block is not mapped.\<close>

lemma guest_byte_store_elsewhere:
  assumes "vm_ok ext m v" "bytes_from v v'" "vm_next v = fst ptr"
    "\<And>e d. mem_pt other (PAGE a) = Some e \<Longrightarrow> pt_data e = Some d \<Longrightarrow> vm_blocks v d \<noteq> None \<and> vm_blocks v' d \<noteq> None"
  shows "guest_byte (vm_store v' ptr x) other a = guest_byte v other a"
proof (cases "mem_pt other (PAGE a)")
  case (Some e)
  then obtain z where z: "pt_data e = Some z" by (auto simp: mem_pt_Some_raw)
  have alive: "vm_blocks v z \<noteq> None" "vm_blocks v' z \<noteq> None" using assms(4) [OF Some z] by simp_all
  then have "z < vm_next v" using assms(1) by (auto simp: vm_ok_def)
  then have "map_option db_bytes (vm_blocks (vm_store v' ptr x) z) = map_option db_bytes (vm_blocks v z)"
    using vm_store_other [of z ptr v' x] assms(3) block_bytes_kept [OF assms(2) alive(2)] by simp
  then show ?thesis using Some z by (simp add: guest_byte_alt)
qed (simp add: guest_byte_def)

lemma guest_byte_target:
  "map_option pt_target (mem_pt m' (PAGE a)) = map_option pt_target (mem_pt m (PAGE a)) \<Longrightarrow>
   guest_byte v m' a = guest_byte v m a"
  by (cases "mem_pt m (PAGE a)"; cases "mem_pt m' (PAGE a)") (auto simp: guest_byte_def pt_target_def)

section \<open>Forking an address space\<close>

definition cowed :: "pt_entry \<Rightarrow> pt_entry" where
  "cowed e = e\<lparr>pt_flags := (if pt_flags e AND P_SHARED = 0 then pt_flags e OR P_COW else pt_flags e)\<rparr>"

lemma cowed_data [simp]: "pt_data (cowed e) = pt_data e" "pt_offset (cowed e) = pt_offset e"
  by (simp_all add: cowed_def)

lemma pt_target_cowed [simp]: "pt_target (cowed e) = pt_target e"
  by (simp add: pt_target_def)

lemma cowed_private: "pt_flags (cowed e) AND P_SHARED = 0 \<Longrightarrow> pt_flags (cowed e) AND P_COW \<noteq> 0"
  by (cases "pt_flags e AND P_SHARED = 0") (simp_all add: cowed_def word_ao_absorbs)

definition cow_inv :: "(nat \<Rightarrow> nat) \<Rightarrow> mem \<Rightarrow> vm \<Rightarrow> nat set \<Rightarrow> cow_state \<Rightarrow> bool" where
  "cow_inv ext src v done s \<longleftrightarrow>
    (\<forall>q < MEM_PAGES. mem_pt (cs_src s) q = (if q \<in> done then map_option cowed (mem_pt src q) else mem_pt src q)) \<and>
    (\<forall>q < MEM_PAGES. mem_pt (cs_dst s) q = (if q \<in> done then map_option cowed (mem_pt src q) else None)) \<and>
    pgdir (cs_dst s) \<noteq> None \<and> vm_ok (\<lambda>d. ext d + refs (cs_dst s) d) (cs_src s) (cs_vm s) \<and>
    bytes_from v (cs_vm s) \<and> mem_next_page (cs_src s) = mem_next_page src"

lemma unmap_unmapped_page:
  assumes "p < MEM_PAGES" "mem_pt dst p = None" "pt_unmap_always alloc (dst, v) p 1 = (r, dst', v')"
  shows "v' = v" "mem_pt dst' = mem_pt dst" "pgdir dst' = pgdir dst"
  using assms by (auto simp: pt_unmap_always_eq add64_no_wrap visit_one [simplified] pt_unmap_page_def Let_def)

lemma vm_ok_retain_elsewhere:
  assumes "vm_ok ext m v" "vm_blocks v d \<noteq> None" "\<And>x. ext' x = ext x + (if x = d then 1 else 0)"
  shows "vm_ok ext' m (data_retain v d)"
  using assms by (auto simp: vm_ok_def db_count_def data_retain_def split: option.splits if_splits)

lemma cow_page_inv:
  assumes inv: "cow_inv ext src v done s" and p: "p < MEM_PAGES" "p \<notin> done"
  shows "cow_inv ext src v (insert p done) (cow_page alloc s p)"
proof (cases "mem_pt src p")
  case None
  then show ?thesis using inv p by (auto simp: cow_inv_def cow_page_def)
next
  case (Some e)
  then obtain d where d: "pt_data e = Some d" by (auto simp: mem_pt_Some_raw)
  have src: "mem_pt (cs_src s) p = Some e" and dst: "mem_pt (cs_dst s) p = None"
    and pd: "pgdir (cs_dst s) \<noteq> None" and ok: "vm_ok (\<lambda>d. ext d + refs (cs_dst s) d) (cs_src s) (cs_vm s)"
    using inv p Some by (auto simp: cow_inv_def)
  obtain r dst1 v1 where u: "pt_unmap_always alloc (cs_dst s, cs_vm s) p 1 = (r, dst1, v1)" by (metis prod_cases3)
  note u' = unmap_unmapped_page [OF p(1) dst u]
  define src2 where "src2 = mem_pt_modify (cs_src s) p (\<lambda>x. x\<lparr>pt_flags := pt_flags (cowed e)\<rparr>)"
  define dst2 where "dst2 = mem_pt_new dst1 p
    (\<lambda>x. x\<lparr>pt_data := pt_data e, pt_offset := pt_offset e, pt_flags := pt_flags (cowed e)\<rparr>)"
  have page: "cs_src (cow_page alloc s p) = src2" "cs_dst (cow_page alloc s p) = dst2"
    "cs_vm (cow_page alloc s p) = data_retain (cs_vm s) d"
    using src u u'(1) d by (simp_all add: cow_page_def Let_def src2_def dst2_def cowed_def)
  have ce: "e\<lparr>pt_flags := pt_flags (cowed e)\<rparr> = cowed e" by (simp add: cowed_def)
  have src2: "mem_pt src2 q = (if q = p then Some (cowed e) else mem_pt (cs_src s) q)" if "q < MEM_PAGES" for q
    using that p(1) src by (auto simp: src2_def mem_pt_modify_lookup same_slot_eq ce)
  have dst2: "mem_pt dst2 q = (if q = p then Some (cowed e) else mem_pt (cs_dst s) q)" if "q < MEM_PAGES" for q
    using that p(1) pd u'(2,3) d
    by (auto simp: dst2_def mem_pt_new_lookup same_slot_eq cowed_def)
  have alive: "vm_blocks (cs_vm s) d \<noteq> None" by (rule vm_ok_mapped_alive(1) [OF ok p(1) src d])
  have "vm_ok (\<lambda>d. ext d + refs dst2 d) (cs_src s) (data_retain (cs_vm s) d)"
  proof (rule vm_ok_retain_elsewhere [OF ok alive])
    show "ext x + refs dst2 x = ext x + refs (cs_dst s) x + (if x = d then 1 else 0)" for x
      using refs_add [of p "cs_dst s" dst2 d x] p(1) dst dst2 d by (auto simp: page_ref_def)
  qed
  then have "vm_ok (\<lambda>d. ext d + refs dst2 d) src2 (data_retain (cs_vm s) d)"
    by (rule vm_ok_cong) (use src2 src d in \<open>auto simp: page_ref_def src2_def\<close>)
  moreover have "bytes_from v (data_retain (cs_vm s) d)"
    using inv bytes_from_trans [of v "cs_vm s"] by (simp add: cow_inv_def)
  ultimately show ?thesis using inv Some src2 dst2 pd u'(3) unfolding cow_inv_def page
    by (auto simp: src2_def dst2_def)
qed

lemma cow_pages_inv:
  assumes "cow_inv ext src v done s" "distinct ps" "set ps \<subseteq> {..<MEM_PAGES}" "set ps \<inter> done = {}"
  shows "cow_inv ext src v (done \<union> set ps) (foldl (cow_page alloc) s ps)"
  using assms
proof (induction ps arbitrary: s "done")
  case (Cons p ps)
  have "cow_inv ext src v (insert p done) (cow_page alloc s p)"
    using Cons.prems by (intro cow_page_inv) auto
  then show ?case using Cons.IH [of "insert p done" "cow_page alloc s p"] Cons.prems by auto
qed simp

lemma cow_page_next [simp]: "mem_next_page (cs_src (cow_page alloc s p)) = mem_next_page (cs_src s)"
  by (simp add: cow_page_def Let_def case_prod_beta split: option.splits)

lemma cow_loop_visit:
  "cow_loop alloc s page limit = foldl (cow_page alloc) s (visit (mem_next_page (cs_src s)) page limit)"
proof (induction alloc s page limit rule: cow_loop.induct)
  case (1 alloc s page limit)
  then show ?case
    by (simp add: cow_loop.simps [of alloc s page limit] pt.visit_unfold [of "cs_src s" page limit] Let_def)
qed

lemma mem_pt_mem_init [simp]: "mem_pt mem_init q = None"
  by (simp add: mem_init_def mem_pt_def walk_l3_def walk_l2_def walk_l1_def)

lemma pgdir_mem_init [simp]: "pgdir mem_init = Some (\<lambda>_. None)"
  by (simp add: mem_init_def)

lemma refs_mem_init [simp]: "refs mem_init d = 0"
  by (simp add: refs_def page_ref_def)

lemma cow_whole_space:
  fixes alloc
  assumes "vm_ok ext src v"
  defines "s \<equiv> cow_loop alloc \<lparr>cs_src = src, cs_dst = mem_init, cs_vm = v, cs_copied = 0\<rparr> 0 MEM_PAGES"
  shows "vm_ok (\<lambda>d. ext d + refs (cs_dst s) d) (cs_src s) (cs_vm s)" "bytes_from v (cs_vm s)"
    "\<And>q. q < MEM_PAGES \<Longrightarrow> mem_pt (cs_src s) q = map_option cowed (mem_pt src q)"
    "\<And>q. q < MEM_PAGES \<Longrightarrow> mem_pt (cs_dst s) q = map_option cowed (mem_pt src q)"
proof -
  let ?ps = "visit (mem_next_page src) 0 MEM_PAGES"
  have "cow_inv ext src v {} \<lparr>cs_src = src, cs_dst = mem_init, cs_vm = v, cs_copied = 0\<rparr>"
    using assms(1) by (simp add: cow_inv_def)
  moreover have "distinct ?ps"
    using pt.visit_sorted [of src 0 MEM_PAGES] by (simp add: strict_sorted_iff)
  moreover have "set ?ps \<subseteq> {..<MEM_PAGES}" using visit_bound [of MEM_PAGES] by auto
  ultimately have inv: "cow_inv ext src v (set ?ps) s"
    using cow_pages_inv [of ext src v "{}" _ ?ps alloc] by (simp add: s_def cow_loop_visit)
  then show "vm_ok (\<lambda>d. ext d + refs (cs_dst s) d) (cs_src s) (cs_vm s)" "bytes_from v (cs_vm s)"
    by (simp_all add: cow_inv_def)
  fix q :: nat assume q: "q < MEM_PAGES"
  have "q \<in> set ?ps \<or> mem_pt src q = None" using pt.visit_complete [of 0 q MEM_PAGES src] q by auto
  then show "mem_pt (cs_src s) q = map_option cowed (mem_pt src q)"
    "mem_pt (cs_dst s) q = map_option cowed (mem_pt src q)"
    using inv q by (auto simp: cow_inv_def)
qed

section \<open>A small address space\<close>

text \<open>One page mapped, private and copy-on-write, whose block is also mapped elsewhere.\<close>

definition small_entry :: pt_entry where
  "small_entry = \<lparr>pt_data = Some 0, pt_offset = 0, pt_flags = P_WRITE OR P_COW\<rparr>"

definition small_mem :: mem where
  "small_mem = mem_pt_new mem_init 5 (\<lambda>_. small_entry)"

definition small_vm :: vm where
  "small_vm = \<lparr>vm_blocks = (\<lambda>_. None)(0 := Some \<lparr>db_bytes = (\<lambda>_. 7), db_size = 4096, db_refcount = 2,
     db_fd = None, db_file_offset = 0\<rparr>), vm_next = 1, anon_page_count = 0, vm_fds_released = []\<rparr>"

definition small_ext :: "nat \<Rightarrow> nat" where
  "small_ext = (\<lambda>_. 0)(0 := 1)"

lemma small_mem_pt: "mem_pt small_mem q = (if same_slot 5 q then Some small_entry else None)"
  by (simp add: small_mem_def mem_pt_new_lookup small_entry_def)

lemma small_refs: "refs small_mem d = (if d = 0 then 1 else 0)"
proof -
  have "refs small_mem d = (if d = 0 then refs mem_init 0 + 1 else refs mem_init d)"
    by (rule refs_add [of 5 mem_init]) (auto simp: page_ref_def small_mem_pt same_slot_eq small_entry_def)
  then show ?thesis by simp
qed

lemma small_ok: "vm_ok small_ext small_mem small_vm"
proof -
  have "pgdir small_mem \<noteq> None" by (simp add: small_mem_def)
  then show ?thesis by (auto simp: vm_ok_def db_count_def small_refs small_vm_def small_ext_def)
qed

definition quiet_env :: fault_env where
  "quiet_env = \<lparr>fe_in_jit = False, fe_trylock = True, fe_stack_limit = RLIM_INFINITY, fe_mmap_ok = True,
     fe_data_ok = True, fe_copy_ok = True, fe_alloc = (\<lambda>_. True), fe_others = id, fe_others_cow = id,
     fe_res_node = Some\<rparr>"

section \<open>Properties\<close>

text \<open>C22: unmapping a range of the address space leaves no page of it mapped and no page of it
  reserved, changes no page outside, keeps every block's reference count equal to the number of
  pages that map it (so a block is freed exactly when its last page goes), and always succeeds.\<close>

theorem pt_unmap_always_correct:
  assumes "vm_ok ext m v" "start + pages \<le> MEM_PAGES" "\<And>r. alloc r"
  shows "\<exists>m' v'. pt_unmap_always alloc (m, v) start pages = (0, m', v') \<and> vm_ok ext m' v' \<and>
    (\<forall>q < MEM_PAGES.
       mem_pt m' q = (if start \<le> q \<and> q < start + pages then None else mem_pt m q) \<and>
       res_at (reservations m') q =
         (if start \<le> q \<and> q < start + pages then None else res_at (reservations m) q))"
proof -
  obtain r m' v' where u: "pt_unmap_always alloc (m, v) start pages = (r, m', v')" by (metis prod_cases3)
  have e: "page_range_end start pages = start + pages"
    using assms(2) by (cases "pages = 0") (simp_all add: page_range_end_simps)
  have "res_at (mem_remove_reservations alloc (reservations m) start pages) q =
      (if start \<le> q \<and> q < start + pages then None else res_at (reservations m) q)" for q
    using res_removed_at [of alloc "reservations m" start pages q] assms(3) e by simp
  then show ?thesis
    using u pt_unmap_always_frame [OF u] pt_unmap_always_lookup [OF assms(2) _ u]
      vm_ok_unmap_always [OF assms(1,2) u] by auto
qed

theorem pt_unmap_always_correct_witness:
  "\<exists>m' v'. pt_unmap_always (\<lambda>_. True) (small_mem, small_vm) 4 3 = (0, m', v') \<and> mem_pt m' 5 = None \<and>
    vm_ok small_ext m' v'"
  using pt_unmap_always_correct [OF small_ok, of 4 3 "\<lambda>_. True"] by auto

text \<open>C23: mapping host memory over a range makes every page of it map the new block at its place,
  replaces what was mapped there, changes no page outside, and keeps the reference counts exact.\<close>

theorem pt_map_correct:
  assumes "vm_ok ext m v" "start + pages \<le> MEM_PAGES"
  shows "\<exists>m' v'. pt_map True alloc (m, v) start pages (Inr bytes) offset fl = (0, m', v') \<and>
    vm_ok ext m' v' \<and>
    (\<forall>q < MEM_PAGES. mem_pt m' q =
      (if start \<le> q \<and> q < start + pages
       then Some \<lparr>pt_data = Some (vm_next v), pt_offset = (q - start) * 4096 + offset, pt_flags = fl\<rparr>
       else mem_pt m q))"
proof -
  obtain r m' v' where u: "pt_map True alloc (m, v) start pages (Inr bytes) offset fl = (r, m', v')"
    by (metis prod_cases3)
  show ?thesis using u pt_map_law [OF assms u] by (simp add: mapped_entry_def)
qed

theorem pt_map_correct_witness:
  "\<exists>m' v'. pt_map True (\<lambda>_. True) (small_mem, small_vm) 5 2 (Inr (\<lambda>_. 9)) 0 P_READ = (0, m', v') \<and>
    mem_pt m' 6 = Some \<lparr>pt_data = Some 1, pt_offset = 4096, pt_flags = P_READ\<rparr>"
  using pt_map_correct [OF small_ok, of 5 2 "\<lambda>_. True" "\<lambda>_. 9" 0 P_READ] by (auto simp: small_vm_def)

text \<open>C1: after a fork, a write of the guest through a private copy-on-write page is isolated: the
  pointer \<^verbatim>\<open>mem_ptr\<close> returns leads to a fresh copy, so that storing a byte through it changes that
  byte of this address space and no other byte of it, and no byte of any other address space
  whose blocks are counted in \<^verbatim>\<open>ext\<close>.\<close>

theorem cow_write_isolated:
  assumes "vm_ok ext m v" "addr < 2 ^ 48" "mem_pt m (PAGE addr) = Some e"
    "pt_flags e AND P_WRITE \<noteq> 0" "pt_flags e AND P_COW \<noteq> 0"
    "fe_others_cow env = id" "fe_copy_ok env" "fe_data_ok env"
    "\<And>p e' d. mem_pt other p = Some e' \<Longrightarrow> pt_data e' = Some d \<Longrightarrow> 0 < ext d"
  shows "\<exists>ptr m' v'. mem_ptr env (m, v) addr MEM_WRITE = Some (Some ptr, m', v') \<and>
    guest_byte (vm_store v' ptr x) m' addr = Some x \<and>
    (\<forall>a < 2 ^ 48. a \<noteq> addr \<longrightarrow> guest_byte (vm_store v' ptr x) m' a = guest_byte v m a) \<and>
    (\<forall>a. guest_byte (vm_store v' ptr x) other a = guest_byte v other a)"
proof -
  note p = PAGE_bound [OF assms(2)]
  obtain m' v' where ptr: "mem_ptr env (m, v) addr MEM_WRITE = Some (Some (vm_next v, PGOFFSET addr), m', v')"
    and ok': "vm_ok ext m' v'" and from': "bytes_from v v'"
    and pt': "\<And>q. q < MEM_PAGES \<Longrightarrow> mem_pt m' q = (if q = PAGE addr
       then Some (mapped_entry (vm_next v) (PAGE addr) 0 (pt_flags e AND NOT P_COW) q) else mem_pt m q)"
    and copy: "map_option db_bytes (vm_blocks v' (vm_next v)) = page_bytes v e"
    using cow_write_fault [OF assms(1) p assms(3-8)] by blast
  obtain d where d: "pt_data e = Some d" using assms(3) by (auto simp: mem_pt_Some_raw)
  obtain b where b: "vm_blocks v d = Some b" using vm_ok_mapped_alive(1) [OF assms(1) p assms(3) d] by auto
  obtain c where c: "vm_blocks v' (vm_next v) = Some c"
    "db_bytes c = (\<lambda>i. if i < PAGE_SIZE then db_bytes b (pt_offset e + i) else 0)"
    using copy d b by (auto simp: page_bytes_def)
  let ?w = "vm_store v' (vm_next v, PGOFFSET addr) x"
  have w: "vm_blocks ?w (vm_next v) = Some (c\<lparr>db_bytes := (db_bytes c)(PGOFFSET addr := x)\<rparr>)"
    using c(1) by (simp add: vm_store_def)
  have same: "guest_byte ?w m' a = guest_byte v m a" if a: "a < 2 ^ 48" "a \<noteq> addr" for a
  proof (cases "PAGE a = PAGE addr")
    case True
    moreover have "PGOFFSET a < PAGE_SIZE" by (simp add: PGOFFSET_def)
    ultimately show ?thesis using page_offset_inj [of a addr] a(2) pt' [OF p] w c(2) assms(3) d b
      by (auto simp: guest_byte_def mapped_entry_def)
  next
    case False
    note pa = PAGE_bound [OF a(1)]
    have eq: "mem_pt m' (PAGE a) = mem_pt m (PAGE a)" using pt' [OF pa] False by simp
    have "guest_byte ?w m a = guest_byte v m a"
      by (rule guest_byte_store_elsewhere [OF assms(1) from'])
         (use vm_ok_mapped_alive(1) [OF assms(1) pa] vm_ok_mapped_alive(1) [OF ok' pa] eq in auto)
    then show ?thesis using guest_byte_target [of m' a m ?w] eq by simp
  qed
  have others: "guest_byte ?w other a = guest_byte v other a" for a
    by (rule guest_byte_store_elsewhere [OF assms(1) from'])
       (use assms(9) vm_ok_alive [OF assms(1)] vm_ok_alive [OF ok'] in auto)
  have "guest_byte ?w m' addr = Some x"
    using pt' [OF p] w by (simp add: guest_byte_def mapped_entry_def)
  then show ?thesis using ptr same others by blast
qed

theorem cow_write_isolated_witness:
  "\<exists>ptr m' v'. mem_ptr quiet_env (small_mem, small_vm) 20487 MEM_WRITE = Some (Some ptr, m', v') \<and>
    guest_byte (vm_store v' ptr 1) m' 20487 = Some 1 \<and>
    guest_byte (vm_store v' ptr 1) small_mem 20487 = guest_byte small_vm small_mem 20487"
proof -
  have "0 < small_ext d" if "mem_pt small_mem p = Some e'" "pt_data e' = Some d" for p e' d
    using that by (auto simp: small_mem_pt small_entry_def small_ext_def split: if_splits)
  then show ?thesis
    using cow_write_isolated [of small_ext small_mem small_vm 20487 small_entry quiet_env small_mem 1]
    by (simp add: small_ok small_mem_pt quiet_env_def PAGE_def same_slot_def) (simp add: small_entry_def, blast)
qed



section \<open>What goes wrong when the demand mapping fails or races\<close>

text \<open>When the host cannot supply the page for a fault on a lazily reserved page, the fault is
  reported and nothing is mapped, but the global count of anonymous pages has been raised and is not
  lowered again, so each failed fault uses up part of the limit for good.\<close>

theorem failed_fault_leaks_anon_count:
  assumes "mem_pt m (PAGE addr) = None" "MEM_PAGES \<le> next_mapped m (PAGE addr)"
    "mem_find_reservation (reservations m) (PAGE addr) = Some res"
    "\<not> fe_in_jit env" "\<not> fe_mmap_ok env" "fe_others env = id" "fe_res_node env = Some"
  shows "mem_ptr env (m, v) addr type = Some (None, m, v\<lparr>anon_page_count := anon_page_count v + 1\<rparr>)"
  using assms
  by (simp add: mem_ptr_def fault_in_def demand_map_def pt_map_nothing_def write_fault_def mem_ptr_nofault_def)

text \<open>The fault handler keeps its pointer to the reservation across the lock upgrade: if another
  thread unmaps the reservation in between, which frees the node, and the page is still unmapped,
  the handler reads the freed node.\<close>

theorem reservation_used_after_free:
  assumes "mem_pt m (PAGE addr) = None" "MEM_PAGES \<le> next_mapped m (PAGE addr)"
    "mem_find_reservation (reservations m) (PAGE addr) = Some res" "\<not> fe_in_jit env"
    "fe_others env = (\<lambda>mv. snd (pt_unmap_always alloc mv (res_start res) (res_pages res)))"
    "fe_res_node env res = None" "PAGE addr < MEM_PAGES" "res_start res + res_pages res \<le> MEM_PAGES"
  shows "mem_ptr env (m, v) addr type = None"
proof -
  obtain r m' v' where u: "pt_unmap_always alloc (m, v) (res_start res) (res_pages res) = (r, m', v')"
    by (metis prod_cases3)
  have "mem_pt m' (PAGE addr) = None"
    using pt_unmap_always_lookup [OF assms(8,7) u] assms(1) by simp
  then show ?thesis using assms u by (simp add: mem_ptr_def fault_in_def Let_def)
qed

text \<open>An address space that only has a reservation, for the two properties above.\<close>

definition reserved_mem :: mem where
  "reserved_mem = mem_init\<lparr>reservations := [\<lparr>res_start = 16, res_pages = 4, res_flags = P_WRITE OR P_ANONYMOUS\<rparr>]\<rparr>"

lemma reserved_next_mapped: "next_mapped reserved_mem 16 = MEM_PAGES"
proof -
  have "next_page_loop reserved_mem p = MEM_PAGES" if "p \<le> MEM_PAGES" for p
    using that
  proof (induction p rule: next_page_induct)
    case (step p)
    have "skip_region 27 p \<le> MEM_PAGES" if "p < MEM_PAGES"
      using that by (simp add: skip_region_def)
    then show ?case using step
      by (subst next_page_loop.simps) (auto simp: walk_l1_def reserved_mem_def mem_init_def)
  qed
  then have "mem_next_page reserved_mem 16 = MEM_PAGES"
    by (simp add: mem_next_page_def)
  then show ?thesis by (subst next_mapped.simps) simp
qed

theorem failed_fault_leaks_anon_count_witness:
  "mem_ptr (quiet_env\<lparr>fe_mmap_ok := False\<rparr>) (reserved_mem, small_vm) 65536 MEM_READ
     = Some (None, reserved_mem, small_vm\<lparr>anon_page_count := 1\<rparr>)"
  using failed_fault_leaks_anon_count [of reserved_mem 65536 _ "quiet_env\<lparr>fe_mmap_ok := False\<rparr>" small_vm MEM_READ]
  by (simp add: PAGE_def reserved_next_mapped quiet_env_def)
     (simp add: reserved_mem_def small_vm_def res_end_def page_range_end_def)

theorem reservation_used_after_free_witness:
  "mem_ptr (quiet_env\<lparr>fe_others := (\<lambda>mv. snd (pt_unmap_always (\<lambda>_. True) mv 16 4)), fe_res_node := (\<lambda>_. None)\<rparr>)
     (reserved_mem, small_vm) 65536 MEM_READ = None"
  by (rule reservation_used_after_free [where alloc="\<lambda>_. True" and
        res="\<lparr>res_start = 16, res_pages = 4, res_flags = P_WRITE OR P_ANONYMOUS\<rparr>"])
     (simp_all add: PAGE_def reserved_next_mapped quiet_env_def,
      simp_all add: reserved_mem_def res_end_def page_range_end_def)

end
