(* ===== verification/Mmap_Calls.thy ===== *)
theory Mmap_Calls
  imports Address_Space_Laws
begin

text \<open>
  The memory-management system calls of kernel/mmap.c on top of the address-space operations:
  mmap, munmap, mremap, mprotect, madvise, brk, and the creation and copying of \<^verbatim>\<open>struct mm\<close>.
  Addresses and lengths are the 64-bit (or 32-bit, where the C prototype has \<^verbatim>\<open>dword_t\<close>) arguments
  as natural numbers; a result is the C return value as an integer (an address, or a negative
  error number).  The file system's \<^verbatim>\<open>mmap\<close> operation of a descriptor is an argument.
\<close>

section \<open>Arguments and environment\<close>

abbreviation MMAP_SHARED :: flags32 where "MMAP_SHARED \<equiv> 1"
abbreviation MMAP_PRIVATE :: flags32 where "MMAP_PRIVATE \<equiv> 2"
abbreviation MMAP_FIXED :: flags32 where "MMAP_FIXED \<equiv> 16"
abbreviation MMAP_ANONYMOUS :: flags32 where "MMAP_ANONYMOUS \<equiv> 32"
abbreviation MMAP_NORESERVE :: flags32 where "MMAP_NORESERVE \<equiv> 16384"

type_synonym fd_mmap_op =
  "mem \<times> vm \<Rightarrow> nat \<Rightarrow> nat \<Rightarrow> nat \<Rightarrow> flags32 \<Rightarrow> flags32 \<Rightarrow> int \<times> mem \<times> vm"

record mmap_env =
  me_mmap_ok :: bool
  me_data_ok :: bool
  me_res_ok :: bool
  me_alloc :: "mem_reservation \<Rightarrow> bool"
  me_fd :: "int \<Rightarrow> (nat \<times> fd_mmap_op option) option"

definition is_prot_none :: "flags32 \<Rightarrow> bool" where
  "is_prot_none prot \<longleftrightarrow> prot AND P_READ = 0 \<and> prot AND P_WRITE = 0 \<and> prot AND P_EXEC = 0"

definition set_data_fd :: "mem \<times> vm \<Rightarrow> nat \<Rightarrow> nat \<Rightarrow> nat \<Rightarrow> vm" where
  "set_data_fd mv page fd offset =
    (case Option.bind (mem_pt (fst mv) page) pt_data of
       None \<Rightarrow> snd mv
     | Some d \<Rightarrow>
         (case vm_blocks (snd mv) d of
            None \<Rightarrow> snd mv
          | Some b \<Rightarrow> (snd mv)\<lparr>vm_blocks := (vm_blocks (snd mv))
              (d := Some (b\<lparr>db_fd := Some fd, db_file_offset := offset\<rparr>))\<rparr>))"

definition add_anon :: "vm \<Rightarrow> int \<Rightarrow> vm" where
  "add_anon v n = v\<lparr>anon_page_count := anon_page_count v + n\<rparr>"

section \<open>mmap\<close>

text \<open>Placement: the page the mapping goes to and whether the caller's address was used, or an error.\<close>

definition mmap_place ::
  "mem \<Rightarrow> nat \<Rightarrow> nat \<Rightarrow> flags32 \<Rightarrow> int + (nat \<times> bool \<times> mem)" where
  "mmap_place m addr pages fl =
    (let search = (let (page, m') = (if fl AND MMAP_NORESERVE \<noteq> 0 \<and> pages \<ge> 65536
                                     then (pt_find_hole_high m pages, m) else pt_find_hole m pages)
                   in if page = BAD_PAGE then Inl ENOMEM else Inr (page, False, m'))
     in if addr = 0 then search
        else if PGOFFSET addr \<noteq> 0 then Inl EINVAL
        else let page = PAGE addr in
          if page > USER_ADDR_MAX_PAGE \<or> pages > USER_ADDR_MAX_PAGE - page \<or>
             (page < 1048576 \<and> page + pages > STACK_TOP_PAGE)
          then if fl AND MMAP_FIXED \<noteq> 0 then Inl ENOMEM else search
          else if fl AND MMAP_FIXED = 0 \<and> \<not> pt_is_hole m page pages then search
          else if fl AND MMAP_FIXED = 0 \<and> mem_range_has_reservation (reservations m) page pages then search
          else Inr (page, True, m))"

definition mmap_lazy :: "mmap_env \<Rightarrow> mem \<times> vm \<Rightarrow> nat \<Rightarrow> nat \<Rightarrow> bool \<Rightarrow> flags32 \<Rightarrow> int \<times> mem \<times> vm" where
  "mmap_lazy env mv page pages hint_used prot =
    (let m = fst mv;
         align_pages = (if pages > 262144 then 262144 else pages);
         aligned = (page div align_pages) * align_pages;
         page = (if \<not> hint_used \<and> aligned \<ge> MMAP_HOLE_END \<and> pt_is_hole m aligned pages \<and>
                    \<not> mem_range_has_reservation (reservations m) aligned pages
                 then aligned else page)
     in if \<not> pt_is_hole m page pages \<or> mem_range_has_reservation (reservations m) page pages
        then (ENOMEM, mv)
        else case pt_map_lazy (me_res_ok env) m page pages prot of
          (err, m') \<Rightarrow> if err < 0 then (err, m', snd mv) else (int (page * 4096), m', snd mv))"

definition mmap_anon :: "mmap_env \<Rightarrow> mem \<times> vm \<Rightarrow> nat \<Rightarrow> nat \<Rightarrow> flags32 \<Rightarrow> int \<times> mem \<times> vm" where
  "mmap_anon env mv page pages prot =
    (let v = snd mv; none = is_prot_none prot in
     if \<not> none \<and> anon_page_count v + int pages > ANON_MMAP_LIMIT_PAGES then (ENOMEM, mv)
     else let v1 = (if none then v else add_anon v (int pages)) in
       case pt_map_nothing (me_mmap_ok env) (me_data_ok env) (me_alloc env) (fst mv, v1) page pages prot of
         (err, mv') \<Rightarrow>
           if err < 0 then (err, fst mv', if none then snd mv' else add_anon (snd mv') (- int pages))
           else (int (page * 4096), mv'))"

definition mmap_file ::
  "mmap_env \<Rightarrow> mem \<times> vm \<Rightarrow> nat \<Rightarrow> nat \<Rightarrow> flags32 \<Rightarrow> flags32 \<Rightarrow> int \<Rightarrow> nat \<Rightarrow> int \<times> mem \<times> vm" where
  "mmap_file env mv page pages prot fl fd_no offset =
    (case me_fd env fd_no of
       None \<Rightarrow> (EBADF, mv)
     | Some (fd, None) \<Rightarrow> (ENODEV, mv)
     | Some (fd, Some op) \<Rightarrow>
         case op mv page pages offset prot fl of
           (err, mv') \<Rightarrow>
             if err < 0 then (err, mv')
             else (int (page * 4096), fst mv', set_data_fd mv' page fd offset))"

definition do_mmap ::
  "mmap_env \<Rightarrow> mem \<times> vm \<Rightarrow> nat \<Rightarrow> nat \<Rightarrow> flags32 \<Rightarrow> flags32 \<Rightarrow> int \<Rightarrow> nat \<Rightarrow> int \<times> mem \<times> vm" where
  "do_mmap env mv addr len prot fl fd_no offset =
    (let pages = PAGE_ROUND_UP len in
     if pages = 0 then (EINVAL, mv)
     else case mmap_place (fst mv) addr pages fl of
       Inl err \<Rightarrow> (err, mv)
     | Inr (page, hint_used, m) \<Rightarrow>
         let mv = (m, snd mv);
             prot = (if fl AND MMAP_SHARED \<noteq> 0 then prot OR P_SHARED else prot)
         in if fl AND MMAP_ANONYMOUS \<noteq> 0 then
              if fl AND MMAP_NORESERVE \<noteq> 0 \<and> pages \<ge> 65536
              then mmap_lazy env mv page pages hint_used prot
              else mmap_anon env mv page pages prot
            else mmap_file env mv page pages prot fl fd_no offset)"

text \<open>\<^verbatim>\<open>sys_mmap64\<close>; the offset is truncated to 32 bits before it reaches \<^verbatim>\<open>do_mmap\<close>.\<close>

definition sys_mmap64 ::
  "mmap_env \<Rightarrow> mem \<times> vm \<Rightarrow> nat \<Rightarrow> nat \<Rightarrow> flags32 \<Rightarrow> flags32 \<Rightarrow> int \<Rightarrow> nat \<Rightarrow> int \<times> mem \<times> vm" where
  "sys_mmap64 env mv addr len prot fl fd_no offset =
    (if len = 0 then (EINVAL, mv)
     else if prot AND NOT P_RWX \<noteq> 0 then (EINVAL, mv)
     else if fl AND MMAP_PRIVATE \<noteq> 0 \<and> fl AND MMAP_SHARED \<noteq> 0 then (EINVAL, mv)
     else do_mmap env mv addr len prot fl fd_no (offset mod 2 ^ 32))"

definition sys_mmap2 ::
  "mmap_env \<Rightarrow> mem \<times> vm \<Rightarrow> nat \<Rightarrow> nat \<Rightarrow> flags32 \<Rightarrow> flags32 \<Rightarrow> int \<Rightarrow> nat \<Rightarrow> int \<times> mem \<times> vm" where
  "sys_mmap2 env mv addr len prot fl fd_no offset =
    (if len = 0 then (EINVAL, mv)
     else if prot AND NOT P_RWX \<noteq> 0 then (EINVAL, mv)
     else if fl AND MMAP_PRIVATE \<noteq> 0 \<and> fl AND MMAP_SHARED \<noteq> 0 then (EINVAL, mv)
     else do_mmap env mv addr len prot fl fd_no (offset * 4096 mod 2 ^ 32))"

section \<open>munmap, mremap, mprotect\<close>

definition sys_munmap :: "(mem_reservation \<Rightarrow> bool) \<Rightarrow> mem \<times> vm \<Rightarrow> nat \<Rightarrow> nat \<Rightarrow> int \<times> mem \<times> vm" where
  "sys_munmap alloc mv addr len =
    (let pages = PAGE_ROUND_UP len in
     if PGOFFSET addr \<noteq> 0 then (EINVAL, mv)
     else if len = 0 then (EINVAL, mv)
     else case pt_unmap_always alloc mv (PAGE addr) pages of
       (err, mv') \<Rightarrow> if err < 0 then (EINVAL, mv') else (0, mv'))"

text \<open>\<^verbatim>\<open>PAGE_ROUND_UP\<close> on a 32-bit argument: the sum wraps at 2 ^ 32.\<close>

definition PAGE_ROUND_UP32 :: "nat \<Rightarrow> nat" where
  "PAGE_ROUND_UP32 bytes = ((bytes + 4095) mod 2 ^ 32) div 4096"

fun same_flags_loop :: "mem \<Rightarrow> flags32 \<Rightarrow> nat \<Rightarrow> nat \<Rightarrow> bool" where
  "same_flags_loop m fl page 0 = True"
| "same_flags_loop m fl page (Suc n) =
    (case mem_pt m page of
       None \<Rightarrow> False
     | Some e \<Rightarrow> if pt_flags e \<noteq> fl then False else same_flags_loop m fl (page + 1) n)"

text \<open>The page copy of a moving \<^verbatim>\<open>mremap\<close>: \<^verbatim>\<open>memcpy\<close> of each old page to the new place.\<close>

definition copy_page :: "mem \<Rightarrow> vm \<Rightarrow> nat \<Rightarrow> nat \<Rightarrow> vm option" where
  "copy_page m v src dst = do {
     se \<leftarrow> mem_pt m src;
     de \<leftarrow> mem_pt m dst;
     bytes \<leftarrow> page_bytes v se;
     d \<leftarrow> pt_data de;
     b \<leftarrow> vm_blocks v d;
     Some (v\<lparr>vm_blocks := (vm_blocks v)(d := Some (b\<lparr>db_bytes :=
       (\<lambda>i. if pt_offset de \<le> i \<and> i < pt_offset de + PAGE_SIZE then bytes (i - pt_offset de) else db_bytes b i)\<rparr>))\<rparr>)
   }"

fun copy_pages :: "mem \<Rightarrow> nat \<Rightarrow> nat \<Rightarrow> nat \<Rightarrow> vm \<Rightarrow> vm option" where
  "copy_pages m src dst 0 v = Some v"
| "copy_pages m src dst (Suc n) v = Option.bind (copy_page m v src dst) (copy_pages m (src + 1) (dst + 1) n)"

definition mremap_anon ::
  "mmap_env \<Rightarrow> mem \<times> vm \<Rightarrow> nat \<Rightarrow> nat \<Rightarrow> flags32 \<Rightarrow> int \<times> mem \<times> vm" where
  "mremap_anon env mv start pages fl =
    (let v = snd mv; none = is_prot_none fl in
     if \<not> none \<and> anon_page_count v + int pages > ANON_MMAP_LIMIT_PAGES then (ENOMEM, mv)
     else let v1 = (if none then v else add_anon v (int pages)) in
       case pt_map_nothing (me_mmap_ok env) (me_data_ok env) (me_alloc env) (fst mv, v1) start pages fl of
         (err, mv') \<Rightarrow>
           if err < 0 then (err, fst mv', if none then snd mv' else add_anon (snd mv') (- int pages))
           else (0, mv'))"

definition mremap_grow ::
  "mmap_env \<Rightarrow> mem \<times> vm \<Rightarrow> nat \<Rightarrow> nat \<Rightarrow> nat \<Rightarrow> flags32 \<Rightarrow> flags32 \<Rightarrow> (int \<times> mem \<times> vm) option" where
  "mremap_grow env mv start old_pages new_pages fl pt_fl =
    (if pt_is_hole (fst mv) (start + old_pages) (new_pages - old_pages) then
       case mremap_anon env mv (start + old_pages) (new_pages - old_pages) pt_fl of
         (err, mv') \<Rightarrow> Some (if err < 0 then err else int (start * 4096), mv')
     else if fl AND 1 = 0 then Some (ENOMEM, mv)
     else case pt_find_hole (fst mv) new_pages of
       (new_start, m) \<Rightarrow>
         if new_start = BAD_PAGE then Some (ENOMEM, m, snd mv)
         else case mremap_anon env (m, snd mv) new_start new_pages pt_fl of
           (err, m', v') \<Rightarrow>
             if err < 0 then Some (err, m', v')
             else do {
               v2 \<leftarrow> (if is_prot_none pt_fl then Some v' else copy_pages m' start new_start old_pages v');
               let (r, mv2) = pt_unmap_always (me_alloc env) (m', v2) start old_pages;
               Some (int (new_start * 4096), mv2)
             })"

text \<open>\<^term>\<open>None\<close> is a copy through a page that is not mapped.\<close>

definition sys_mremap ::
  "mmap_env \<Rightarrow> mem \<times> vm \<Rightarrow> nat \<Rightarrow> nat \<Rightarrow> nat \<Rightarrow> flags32 \<Rightarrow> (int \<times> mem \<times> vm) option" where
  "sys_mremap env mv addr old_len new_len fl =
    (if PGOFFSET addr \<noteq> 0 then Some (EINVAL, mv)
     else if old_len = 0 \<or> new_len = 0 then Some (EINVAL, mv)
     else if fl AND NOT 3 \<noteq> 0 then Some (EINVAL, mv)
     else if fl AND 2 \<noteq> 0 then Some (EINVAL, mv)
     else
       let start = PAGE addr; old_pages = PAGE_ROUND_UP32 old_len; new_pages = PAGE_ROUND_UP32 new_len in
       if new_pages \<le> old_pages then
         case pt_unmap (me_alloc env) mv (start + new_pages) (old_pages - new_pages) of
           (err, mv') \<Rightarrow> Some (if err < 0 then EFAULT else int addr, mv')
       else case mem_pt (fst mv) start of
         None \<Rightarrow> Some (EFAULT, mv)
       | Some entry \<Rightarrow>
           if \<not> same_flags_loop (fst mv) (pt_flags entry) start old_pages then Some (EFAULT, mv)
           else if pt_flags entry AND P_ANONYMOUS = 0 then Some (EFAULT, mv)
           else mremap_grow env mv start old_pages new_pages fl (pt_flags entry))"

definition sys_mprotect ::
  "(nat \<Rightarrow> int) \<Rightarrow> (mem_reservation \<Rightarrow> bool) \<Rightarrow> mem \<Rightarrow> nat \<Rightarrow> nat \<Rightarrow> flags32 \<Rightarrow> int \<times> mem" where
  "sys_mprotect mprotect_err alloc m addr len prot =
    (if PGOFFSET addr \<noteq> 0 then (EINVAL, m)
     else if prot AND NOT P_RWX \<noteq> 0 then (EINVAL, m)
     else pt_set_flags mprotect_err alloc m (PAGE addr) (PAGE_ROUND_UP len) prot)"

section \<open>madvise\<close>

text \<open>\<^verbatim>\<open>memset(ptr, 0, PAGE_SIZE)\<close>; \<^term>\<open>None\<close> when it runs past the end of the block.\<close>

definition clear_host_page :: "vm \<Rightarrow> nat \<times> nat \<Rightarrow> vm option" where
  "clear_host_page v ptr = do {
     b \<leftarrow> vm_blocks v (fst ptr);
     if snd ptr + PAGE_SIZE > db_size b then None
     else Some (v\<lparr>vm_blocks := (vm_blocks v)(fst ptr := Some (b\<lparr>db_bytes :=
       (\<lambda>i. if snd ptr \<le> i \<and> i < snd ptr + PAGE_SIZE then 0 else db_bytes b i)\<rparr>))\<rparr>)
   }"

text \<open>The loop with \<^verbatim>\<open>n\<close> iterations allowed; \<^term>\<open>None\<close> also when they do not suffice.\<close>

fun madvise_loop :: "fault_env \<Rightarrow> nat \<Rightarrow> nat \<Rightarrow> nat \<Rightarrow> mem \<times> vm \<Rightarrow> (mem \<times> vm) option" where
  "madvise_loop env 0 p e mv = (if p < e then None else Some mv)"
| "madvise_loop env (Suc n) p e mv =
    (if p < e then
       if mem_pt (fst mv) (PAGE p) = None then madvise_loop env n (add64 p PAGE_SIZE) e mv
       else do {
         (ptr, m', v') \<leftarrow> mem_ptr env mv p MEM_WRITE;
         case ptr of
           None \<Rightarrow> madvise_loop env n (add64 p PAGE_SIZE) e (m', v')
         | Some host \<Rightarrow> do {
             v2 \<leftarrow> clear_host_page v' host;
             madvise_loop env n (add64 p PAGE_SIZE) e (m', v2)
           }
       }
     else Some mv)"

definition sys_madvise :: "fault_env \<Rightarrow> nat \<Rightarrow> mem \<times> vm \<Rightarrow> nat \<Rightarrow> nat \<Rightarrow> nat \<Rightarrow> (int \<times> mem \<times> vm) option" where
  "sys_madvise env fuel mv addr len advice =
    (if advice = 4 \<or> advice = 8
     then map_option (\<lambda>mv'. (0, mv')) (madvise_loop env fuel addr (add64 addr len) mv)
     else Some (0, mv))"

section \<open>brk and struct mm\<close>

record mm =
  mm_refcount :: nat
  mm_mem :: mem
  mm_start_brk :: nat
  mm_brk :: nat
  mm_exefile :: "nat option"

definition sys_brk :: "mmap_env \<Rightarrow> mm \<Rightarrow> vm \<Rightarrow> nat \<Rightarrow> nat \<times> mm \<times> vm" where
  "sys_brk env mm v new_brk =
    (let old_brk = mm_brk mm; fail = (old_brk, mm, v) in
     if new_brk < mm_start_brk mm then fail
     else if new_brk > old_brk then
       let start = PAGE_ROUND_UP old_brk; pages = sub64 (PAGE_ROUND_UP new_brk) (PAGE_ROUND_UP old_brk) in
       if \<not> pt_is_hole (mm_mem mm) start pages then fail
       else if anon_page_count v + int pages > ANON_MMAP_LIMIT_PAGES then fail
       else case pt_map_nothing (me_mmap_ok env) (me_data_ok env) (me_alloc env)
                   (mm_mem mm, add_anon v (int pages)) start pages P_WRITE of
         (err, m', v') \<Rightarrow>
           if err < 0 then (old_brk, mm\<lparr>mm_mem := m'\<rparr>, add_anon v' (- int pages))
           else (new_brk, mm\<lparr>mm_mem := m', mm_brk := new_brk\<rparr>, v')
     else if new_brk < old_brk then
       let first = PAGE_ROUND_UP new_brk; last = PAGE_ROUND_UP old_brk in
       if first < last then
         case pt_unmap_always (me_alloc env) (mm_mem mm, v) first (last - first) of
           (err, m', v') \<Rightarrow> (new_brk, mm\<lparr>mm_mem := m', mm_brk := new_brk\<rparr>, v')
       else (new_brk, mm\<lparr>mm_brk := new_brk\<rparr>, v)
     else (new_brk, mm\<lparr>mm_brk := new_brk\<rparr>, v))"

definition mm_new :: mm where
  "mm_new = \<lparr>mm_refcount = 1, mm_mem = mem_init, mm_start_brk = 0, mm_brk = 0, mm_exefile = None\<rparr>"

definition mm_copy :: "(mem_reservation \<Rightarrow> bool) \<Rightarrow> mm \<Rightarrow> vm \<Rightarrow> mm \<times> mm \<times> vm" where
  "mm_copy alloc mm v =
    (case pt_copy_on_write alloc (mm_mem mm) mem_init v 0 MEM_PAGES of
       (r, src', dst', v') \<Rightarrow>
         (mm\<lparr>mm_mem := src'\<rparr>, mm\<lparr>mm_refcount := 1, mm_mem := dst'\<rparr>, v'))"

definition mm_retain :: "mm \<Rightarrow> mm" where
  "mm_retain mm = mm\<lparr>mm_refcount := mm_refcount mm + 1\<rparr>"

text \<open>The result says whether the structure was destroyed; the executable's descriptor is then released.\<close>

definition mm_release :: "(mem_reservation \<Rightarrow> bool) \<Rightarrow> mm \<Rightarrow> vm \<Rightarrow> bool \<times> mm \<times> vm" where
  "mm_release alloc mm v =
    (let mm = mm\<lparr>mm_refcount := mm_refcount mm - 1\<rparr> in
     if mm_refcount mm = 0 then
       let v = (case mm_exefile mm of None \<Rightarrow> v | Some fd \<Rightarrow> v\<lparr>vm_fds_released := fd # vm_fds_released v\<rparr>);
           (m', v') = mem_destroy alloc (mm_mem mm, v)
       in (True, mm\<lparr>mm_mem := m'\<rparr>, v')
     else (False, mm, v))"

section \<open>Behaviour of the calls\<close>

lemma is_hole_free:
  assumes "pt_is_hole m page pages" "page + pages \<le> MEM_PAGES"
  shows "is_free m page pages"
  using assms pt_is_hole_iff [of page pages m] is_freeI by blast

lemma mmap_place_free:
  assumes "mmap_place m addr pages fl = Inr (page, hint, m')" "fl AND MMAP_FIXED = 0" "fl AND MMAP_NORESERVE = 0"
    "0 < pages"
  shows "is_free m page pages \<and> page + pages \<le> USER_ADDR_MAX_PAGE \<and> m' = m\<lparr>mmap_hint := mmap_hint m'\<rparr>"
proof -
  have "pt_find_hole m pages = (page, m') \<and> page \<noteq> BAD_PAGE \<or>
    m' = m \<and> pt_is_hole m page pages \<and> page \<le> USER_ADDR_MAX_PAGE \<and> pages \<le> USER_ADDR_MAX_PAGE - page"
    using assms(1,2,3) unfolding mmap_place_def Let_def
    by (cases "pt_find_hole m pages") (simp split: if_splits)
  then show ?thesis
  proof (elim disjE conjE)
    assume "pt_find_hole m pages = (page, m')" "page \<noteq> BAD_PAGE"
    then show ?thesis using pt_find_hole_free assms(4) by blast
  next
    assume "m' = m" "pt_is_hole m page pages" "page \<le> USER_ADDR_MAX_PAGE" "pages \<le> USER_ADDR_MAX_PAGE - page"
    then show ?thesis using is_hole_free [of m page pages] by simp
  qed
qed

lemma mmap_place_error: "mmap_place m addr pages fl = Inl r \<Longrightarrow> r < 0"
  by (auto simp: mmap_place_def Let_def split: if_splits prod.splits)

lemma vm_ok_hint [simp]: "vm_ok ext (m\<lparr>mmap_hint := h\<rparr>) v = vm_ok ext m v"
  by (simp add: vm_ok_def refs_def page_ref_def)

lemma vm_ok_add_anon [simp]: "vm_ok ext m (add_anon v n) = vm_ok ext m v"
  by (simp add: add_anon_def)

lemma vm_next_add_anon [simp]: "vm_next (add_anon v n) = vm_next v"
  by (simp add: add_anon_def)

lemma pt_map_nothing_law:
  assumes "vm_ok ext m v" "start + pages \<le> MEM_PAGES" "0 < pages"
    "pt_map_nothing mmap_ok data_ok alloc (m, v) start pages fl = (r, m', v')"
  shows "r < 0 \<and> m' = m \<and> v' = v \<or> r = 0 \<and> vm_ok ext m' v' \<and>
    (\<forall>q < MEM_PAGES. mem_pt m' q = (if start \<le> q \<and> q < start + pages
       then Some (mapped_entry (vm_next v) start 0 (fl OR P_ANONYMOUS) q) else mem_pt m q)) \<and>
    (\<exists>b. vm_blocks v' (vm_next v) = Some b \<and> db_bytes b = (\<lambda>_. 0))"
proof (cases "mmap_ok \<and> data_ok")
  case True
  then have map: "pt_map True alloc (m, v) start pages (Inr (\<lambda>_. 0)) 0 (fl OR P_ANONYMOUS) = (r, m', v')"
    using assms(3,4) by (simp add: pt_map_nothing_def)
  note L = pt_map_law [OF assms(1,2) map]
  have "start < MEM_PAGES" "mem_pt m' start = Some (mapped_entry (vm_next v) start 0 (fl OR P_ANONYMOUS) start)"
    using L(4) [of start] assms(2,3) by auto
  then have "vm_blocks v' (vm_next v) \<noteq> None"
    by (rule vm_ok_mapped_alive(1) [OF L(2)]) (simp add: mapped_entry_def)
  then show ?thesis using L by auto
qed (use assms(3,4) in \<open>auto simp: pt_map_nothing_def pt_map_def split: if_splits\<close>)

lemma guest_byte_zero:
  assumes "mem_pt m (PAGE a) = Some (mapped_entry d start 0 fl (PAGE a))" "vm_blocks v d = Some b" "db_bytes b = (\<lambda>_. 0)"
  shows "guest_byte v m a = Some 0"
  using assms by (simp add: guest_byte_def mapped_entry_def)


lemma small_mem_reservations: "reservations small_mem = []"
  by (simp add: small_mem_def) (simp add: mem_init_def)

definition ok_env :: mmap_env where
  "ok_env = \<lparr>me_mmap_ok = True, me_data_ok = True, me_res_ok = True, me_alloc = (\<lambda>_. True), me_fd = (\<lambda>_. None)\<rparr>"

lemma small_place: "mmap_place small_mem 65536 2 34 = Inr (16, True, small_mem)"
proof -
  have "pt_is_hole small_mem 16 2"
    by (auto simp: pt_is_hole_iff is_unmapped_def small_mem_pt same_slot_eq mem_range_has_reservation_def
        page_range_end_def small_mem_reservations)
  then show ?thesis by (simp add: mmap_place_def PGOFFSET_def PAGE_def pt_is_hole_def)
qed

lemma two_pages: "PAGE_ROUND_UP 8192 = 2"
  by (simp add: PAGE_ROUND_UP_def add64_def sub64_def)

lemma small_mmap_run:
  assumes "prot = 0 \<or> prot = P_READ"
  shows "\<exists>m' v'. sys_mmap64 ok_env (small_mem, small_vm) 65536 8192 prot 34 (- 1) 0 = (65536, m', v')"
proof -
  define w where "w = (if is_prot_none prot then small_vm else add_anon small_vm 2)"
  obtain err m' v' where map: "pt_map_nothing True True (\<lambda>_. True) (small_mem, w) 16 2 prot = (err, m', v')"
    by (metis prod_cases3)
  have "err = 0" using map by (simp add: pt_map_nothing_def pt_map_def Let_def)
  then show ?thesis using small_place map assms
    by (auto simp: sys_mmap64_def do_mmap_def two_pages Let_def mmap_anon_def is_prot_none_def ok_env_def
        small_vm_def w_def)
qed


section \<open>munmap and addresses beyond 48 bits\<close>

text \<open>\<^verbatim>\<open>munmap\<close> of a page whose address lies above the 48-bit address space is not refused: it
  succeeds, and unmaps the page 2 ^ 48 bytes below, because the page table only looks at 36 bits
  of the page number and the call does not check the range.\<close>

theorem munmap_beyond_address_space:
  assumes "addr < 2 ^ 48" "PGOFFSET addr = 0"
  shows "\<exists>m' v'. sys_munmap alloc (m, v) (addr + 2 ^ 48) 4096 = (0, m', v') \<and> mem_pt m' (PAGE addr) = None"
proof -
  have pg: "PAGE (addr + 2 ^ 48) = PAGE addr + MEM_PAGES" by (simp add: PAGE_def)
  have off: "PGOFFSET (addr + 2 ^ 48) = 0" using assms(2) mod_mult_self2 [of addr 4096 MEM_PAGES] by (simp add: PGOFFSET_def)
  have one: "PAGE_ROUND_UP 4096 = 1" by (simp add: PAGE_ROUND_UP_def add64_def sub64_def)
  define p where "p = PAGE addr + MEM_PAGES"
  obtain m' v' where u: "pt_unmap_always alloc (m, v) p 1 = (0, m', v')"
    by (simp add: pt_unmap_always_eq Let_def)
  have slot: "same_slot p (PAGE addr)" by (simp add: same_slot_iff p_def)
  have "add64 p 1 = p + 1" using assms(1) by (simp add: PAGE_def p_def add64_no_wrap)
  then have "mem_pt m' (PAGE addr) = None"
    using u slot by (auto simp: pt_unmap_always_eq visit_one [simplified] pt_unmap_page_lookup Let_def)
  then show ?thesis using u unfolding sys_munmap_def pg off one p_def Let_def by simp
qed

theorem munmap_beyond_address_space_witness:
  "\<exists>m' v'. sys_munmap (\<lambda>_. True) (small_mem, small_vm) (20480 + 2 ^ 48) 4096 = (0, m', v') \<and>
    mem_pt m' 5 = None \<and> mem_pt small_mem 5 \<noteq> None"
  using munmap_beyond_address_space [of 20480 "\<lambda>_. True" small_mem small_vm]
  by (simp add: PGOFFSET_def PAGE_def small_mem_pt same_slot_def)

section \<open>The count of anonymous pages\<close>

definition anon_page :: "mem \<Rightarrow> nat \<Rightarrow> bool" where
  "anon_page m p \<longleftrightarrow> (case mem_pt m p of None \<Rightarrow> False | Some e \<Rightarrow> pt_flags e AND P_ANONYMOUS \<noteq> 0)"

lemma anon_count_release [simp]: "anon_page_count (data_release v d) = anon_page_count v"
  by (simp add: data_release_def split: option.splits)

lemma anon_count_retain [simp]: "anon_page_count (data_retain v d) = anon_page_count v"
  by (simp add: data_retain_def split: option.splits)

lemma anon_count_unmap_page:
  "anon_page_count (snd (pt_unmap_page mv p)) = anon_page_count (snd mv) - (if anon_page (fst mv) p then 1 else 0)"
  by (auto simp: pt_unmap_page_def anon_page_def Let_def split: option.splits)

lemma anon_count_unmap_pages:
  assumes "distinct ps" "set ps \<subseteq> {..<MEM_PAGES}"
  shows "anon_page_count (snd (foldl pt_unmap_page mv ps)) =
    anon_page_count (snd mv) - int (card {p \<in> set ps. anon_page (fst mv) p})"
  using assms
proof (induction ps arbitrary: mv)
  case (Cons p ps)
  have same: "anon_page (fst (pt_unmap_page mv p)) q = anon_page (fst mv) q" if "q \<in> set ps" for q
    using that Cons.prems by (auto simp: anon_page_def pt_unmap_page_lookup same_slot_eq)
  have "{q \<in> set (p # ps). anon_page (fst mv) q} =
      (if anon_page (fst mv) p then insert p {q \<in> set ps. anon_page (fst mv) q} else {q \<in> set ps. anon_page (fst mv) q})"
    by auto
  then have "int (card {q \<in> set (p # ps). anon_page (fst mv) q}) =
      (if anon_page (fst mv) p then 1 else 0) + int (card {q \<in> set ps. anon_page (fst mv) q})"
    using Cons.prems(1) by simp
  then show ?case using Cons same by (simp add: anon_count_unmap_page cong: conj_cong)
qed simp

lemma anon_count_unmap:
  assumes "start + pages \<le> MEM_PAGES" "pt_unmap_always alloc (m, v) start pages = (r, m', v')"
  shows "anon_page_count v' = anon_page_count v - int (card {p. start \<le> p \<and> p < start + pages \<and> anon_page m p})"
proof -
  let ?ps = "visit (mem_next_page m) start (start + pages)"
  have e: "add64 start pages = start + pages" using assms(1) by (simp add: add64_no_wrap)
  have d: "distinct ?ps" using pt.visit_sorted [of m start "start + pages"] by (simp add: strict_sorted_iff)
  have s: "set ?ps \<subseteq> {..<MEM_PAGES}" using visit_bound [OF assms(1)] by auto
  have "{p \<in> set ?ps. anon_page m p} = {p. start \<le> p \<and> p < start + pages \<and> anon_page m p}"
    using pt.visit_range [of _ m start "start + pages"] pt.visit_complete [of start _ "start + pages" m] assms(1)
    by (auto simp: anon_page_def split: option.splits)
  then show ?thesis
    using assms(2) anon_count_unmap_pages [OF d s, of "(unmap_prep alloc m start pages, v)"]
    by (auto simp: pt_unmap_always_eq e Let_def anon_page_def)
qed

lemma anon_count_map_free:
  assumes "is_unmapped m page n" "page + n \<le> MEM_PAGES" "pgdir m \<noteq> None"
  shows "anon_page_count (snd (pt_map_loop alloc d start offset fl page n (m, v))) = anon_page_count v"
  using assms
proof (induction n arbitrary: page m v)
  case (Suc n)
  let ?m = "mem_pt_new m page (\<lambda>_. mapped_entry d start offset fl page)"
  have none: "mem_pt m page = None" using Suc.prems(1) by (simp add: is_unmapped_def)
  then have "clear_page alloc (m, v) page = (m, v)" by (simp add: clear_page_def)
  moreover have "is_unmapped ?m (page + 1) n"
    using Suc.prems by (auto simp: is_unmapped_def mem_pt_new_lookup same_slot_eq mapped_entry_def)
  ultimately show ?case using Suc.IH [of ?m "page + 1" "data_retain v d"] Suc.prems(2,3)
    by (simp only: pt_map_loop_step Let_def prod.case) simp
qed simp

lemma pt_map_nothing_anon:
  assumes "is_unmapped m start pages" "start + pages \<le> MEM_PAGES" "pgdir m \<noteq> None"
    "pt_map_nothing mmap_ok data_ok alloc (m, v) start pages fl = (r, m', v')"
  shows "anon_page_count v' = anon_page_count v"
  using assms(4) anon_count_map_free [OF assms(1-3), of alloc "vm_next v" start 0]
  by (auto simp: pt_map_nothing_def pt_map_def Let_def add64_no_wrap assms(2) split: if_splits)
     (use assms(2) in \<open>simp add: add64_no_wrap\<close>)

text \<open>Mapping anonymous memory without access (PROT_NONE) is not counted against the limit of
  anonymous pages, but unmapping it is: one such cycle lowers the global count by the number of
  pages, so the limit can be bypassed.\<close>

theorem prot_none_cycle_lowers_count:
  assumes "vm_ok ext m v" "fl AND MMAP_ANONYMOUS \<noteq> 0" "fl AND MMAP_FIXED = 0" "fl AND MMAP_NORESERVE = 0"
    "fl AND MMAP_SHARED = 0" "sys_mmap64 env (m, v) addr len 0 fl fd_no offset = (r, m1, v1)" "0 \<le> r"
    "sys_munmap alloc (m1, v1) (nat r) len = (r2, m2, v2)"
  shows "r2 = 0 \<and> anon_page_count v2 = anon_page_count v - int (PAGE_ROUND_UP len)"
proof -
  let ?n = "PAGE_ROUND_UP len"
  obtain page hint m0 where pl: "mmap_place m addr ?n fl = Inr (page, hint, m0)" and n: "0 < ?n"
    and anon: "mmap_anon env (m0, v) page ?n 0 = (r, m1, v1)" and len: "len \<noteq> 0"
    using assms(2-7) mmap_place_error [of m addr ?n fl r]
    by (auto simp: sys_mmap64_def do_mmap_def Let_def split: if_splits sum.splits prod.splits)
  have free: "is_free m page ?n" "page + ?n \<le> USER_ADDR_MAX_PAGE" "m0 = m\<lparr>mmap_hint := mmap_hint m0\<rparr>"
    using mmap_place_free [OF pl assms(3,4) n] by auto
  have pt0: "mem_pt m0 = mem_pt m" "pgdir m0 = pgdir m" using free(3) by (metis mem_pt_fields(1), metis mem.select_convs(1) mem.surjective mem.update_convs(3))
  have bound: "page + ?n \<le> MEM_PAGES" using free(2) by simp
  have un: "is_unmapped m0 page ?n" "pgdir m0 \<noteq> None"
    using free(1) pt0 assms(1) by (auto simp: is_free_def is_unmapped_def vm_ok_def)
  have ok0: "vm_ok ext m0 v" using free(3) assms(1) by (metis vm_ok_hint)
  obtain err where map: "pt_map_nothing (me_mmap_ok env) (me_data_ok env) (me_alloc env) (m0, v) page ?n 0 = (err, m1, v1)"
    "0 \<le> err" "r = int (page * 4096)"
    using anon assms(7) by (auto simp: mmap_anon_def is_prot_none_def split: prod.splits if_splits)
  have all: "{p. page \<le> p \<and> p < page + ?n \<and> anon_page m1 p} = {page..<page + ?n}"
    using pt_map_nothing_law [OF ok0 bound n map(1)] map(2) bound
    by (auto simp: anon_page_def mapped_entry_def)
  have "pt_unmap_always alloc (m1, v1) page ?n = (0, m2, v2)" "r2 = 0"
    using assms(8) map(3) len
    by (auto simp: sys_munmap_def Let_def PGOFFSET_def PAGE_def nat_mult_distrib pt_unmap_always_eq split: if_splits)
  then show ?thesis using anon_count_unmap [OF bound] all pt_map_nothing_anon [OF un(1) bound un(2) map(1)]
    by fastforce
qed

theorem prot_none_cycle_lowers_count_witness:
  "\<exists>m1 v1 m2 v2. sys_mmap64 ok_env (small_mem, small_vm) 65536 8192 0 34 (- 1) 0 = (65536, m1, v1) \<and>
    sys_munmap (\<lambda>_. True) (m1, v1) 65536 8192 = (0, m2, v2) \<and> anon_page_count v2 = - 2"
proof -
  obtain m1 v1 where run: "sys_mmap64 ok_env (small_mem, small_vm) 65536 8192 0 34 (- 1) 0 = (65536, m1, v1)"
    using small_mmap_run by blast
  obtain r2 m2 v2 where un: "sys_munmap (\<lambda>_. True) (m1, v1) (nat 65536) 8192 = (r2, m2, v2)"
    by (metis prod_cases3)
  show ?thesis using prot_none_cycle_lowers_count [OF small_ok _ _ _ _ run _ un] run un
    by (simp add: two_pages small_vm_def)
qed

section \<open>mremap with a large size\<close>

text \<open>An \<^verbatim>\<open>mremap\<close> that asks for a size within a page of 2 ^ 32 bytes does not grow the mapping:
  rounding the 32-bit size up to pages wraps to 0, so the call unmaps the whole old mapping and
  reports success.\<close>

theorem mremap_size_wraps:
  assumes "PGOFFSET addr = 0" "2 ^ 32 - 4096 < new_len" "new_len < 2 ^ 32" "old_len \<noteq> 0"
    "PAGE addr + PAGE_ROUND_UP32 old_len \<le> MEM_PAGES"
    "pages_all_mapped m (PAGE addr) (PAGE_ROUND_UP32 old_len)" "fl \<in> {0, 1}"
  shows "\<exists>m' v'. sys_mremap env (m, v) addr old_len new_len fl = Some (int addr, m', v') \<and>
    (\<forall>q. PAGE addr \<le> q \<and> q < PAGE addr + PAGE_ROUND_UP32 old_len \<longrightarrow> mem_pt m' q = None)"
proof -
  obtain k where "new_len + 4095 = 2 ^ 32 + k" "k < 4096"
    by (rule that [of "new_len + 4095 - 2 ^ 32"]) (use assms(2,3) in auto)
  then have new: "PAGE_ROUND_UP32 new_len = 0" by (simp add: PAGE_ROUND_UP32_def)
  obtain r m' v' where u: "pt_unmap_always (me_alloc env) (m, v) (PAGE addr) (PAGE_ROUND_UP32 old_len) = (r, m', v')"
    by (metis prod_cases3)
  have "r = 0" using u by (simp add: pt_unmap_always_eq Let_def)
  then have "sys_mremap env (m, v) addr old_len new_len fl = Some (int addr, m', v')"
    using assms new u by (auto simp: sys_mremap_def pt_unmap_def add64_no_wrap)
  then show ?thesis using pt_unmap_always_lookup [OF assms(5) _ u] assms(5) by auto
qed

theorem mremap_size_wraps_witness:
  "\<exists>m' v'. sys_mremap ok_env (small_mem, small_vm) 20480 4096 4294967295 1 = Some (20480, m', v') \<and>
    mem_pt m' 5 = None"
proof -
  have "pages_all_mapped small_mem 5 1" by (simp add: small_mem_pt same_slot_def)
  then show ?thesis
    using mremap_size_wraps [of 20480 4294967295 4096 small_mem 1 ok_env small_vm]
    by (simp add: PGOFFSET_def PAGE_def PAGE_ROUND_UP32_def) fastforce
qed

section \<open>brk\<close>

lemma PAGE_ROUND_UP_le: "a \<le> b \<Longrightarrow> b < 2 ^ 48 \<Longrightarrow> PAGE_ROUND_UP a \<le> PAGE_ROUND_UP b"
  by (simp add: PAGE_ROUND_UP_def add64_no_wrap sub64_no_wrap div_le_mono)

lemma PAGE_ROUND_UP_bound: "a < 2 ^ 48 \<Longrightarrow> PAGE_ROUND_UP a \<le> MEM_PAGES"
  by (simp add: PAGE_ROUND_UP_def add64_no_wrap sub64_no_wrap)

lemma sub64_pages:
  assumes "a \<le> b" "b < 2 ^ 48"
  shows "sub64 (PAGE_ROUND_UP b) (PAGE_ROUND_UP a) = PAGE_ROUND_UP b - PAGE_ROUND_UP a"
  using PAGE_ROUND_UP_le [OF assms] PAGE_ROUND_UP_bound [OF assms(2)] by (simp add: sub64_no_wrap)

definition brk_pages :: "mem \<Rightarrow> nat \<Rightarrow> nat \<Rightarrow> mem \<Rightarrow> bool" where
  "brk_pages m old new m' \<longleftrightarrow> (\<forall>q < MEM_PAGES. mem_pt m' q \<noteq> None \<longleftrightarrow>
     (PAGE_ROUND_UP old \<le> q \<and> q < PAGE_ROUND_UP new) \<or>
     (mem_pt m q \<noteq> None \<and> \<not> (PAGE_ROUND_UP new \<le> q \<and> q < PAGE_ROUND_UP old)))"

lemma brk_pages_same: "brk_pages m b b m"
  by (auto simp: brk_pages_def)

lemma brk_grow:
  assumes "vm_ok ext m v" "old < new" "new < 2 ^ 48"
    "pt_map_nothing ok1 ok2 alloc (m, v) (PAGE_ROUND_UP old) (PAGE_ROUND_UP new - PAGE_ROUND_UP old) fl = (r, m', v')"
  shows "vm_ok ext m' v' \<and> (if r < 0 then m' = m else brk_pages m old new m')"
proof -
  have le: "PAGE_ROUND_UP old \<le> PAGE_ROUND_UP new" "PAGE_ROUND_UP new \<le> MEM_PAGES"
    using PAGE_ROUND_UP_le [of old new] PAGE_ROUND_UP_bound [of new] assms(2,3) by simp_all
  show ?thesis
  proof (cases "PAGE_ROUND_UP new - PAGE_ROUND_UP old = 0")
    case True
    then have "PAGE_ROUND_UP new = PAGE_ROUND_UP old" using le by simp
    then show ?thesis using assms by (auto simp: pt_map_nothing_def brk_pages_def)
  next
    case False
    then show ?thesis using pt_map_nothing_law [OF assms(1) _ _ assms(4)] le assms(1) by (auto simp: brk_pages_def)
  qed
qed

lemma brk_shrink:
  assumes "vm_ok ext m v" "new < old" "old < 2 ^ 48"
    "pt_unmap_always alloc (m, v) (PAGE_ROUND_UP new) (PAGE_ROUND_UP old - PAGE_ROUND_UP new) = (r, m', v')"
  shows "vm_ok ext m' v' \<and> brk_pages m old new m'"
proof -
  have le: "PAGE_ROUND_UP new \<le> PAGE_ROUND_UP old" "PAGE_ROUND_UP old \<le> MEM_PAGES"
    using PAGE_ROUND_UP_le [of new old] PAGE_ROUND_UP_bound [of old] assms(2,3) by simp_all
  then have sum: "PAGE_ROUND_UP new + (PAGE_ROUND_UP old - PAGE_ROUND_UP new) = PAGE_ROUND_UP old" by simp
  show ?thesis using le vm_ok_unmap_always [OF assms(1) _ assms(4)] pt_unmap_always_lookup [OF _ _ assms(4)]
    by (auto simp: brk_pages_def sum)
qed



text \<open>
  One round per page is enough for \<^verbatim>\<open>madvise\<close>: further rounds change nothing, provided the end is not in the last page of the address
  space, where the address of the next page wraps around.
\<close>

lemma madvise_loop_enough:
  "e \<le> 2 ^ 64 - PAGE_SIZE \<Longrightarrow> e \<le> p + n * PAGE_SIZE \<Longrightarrow> madvise_loop env (n + k) p e mv = madvise_loop env n p e mv"
proof (induction n arbitrary: p mv)
  case 0
  then show ?case by (cases k) simp_all
next
  case (Suc n)
  show ?case
  proof (cases "p < e")
    case True
    then have "add64 p PAGE_SIZE = p + PAGE_SIZE" using Suc.prems by (intro add64_no_wrap) simp
    then have "madvise_loop env (n + k) (add64 p PAGE_SIZE) e w = madvise_loop env n (add64 p PAGE_SIZE) e w" for w
      using Suc.IH [of "p + PAGE_SIZE" w] Suc.prems by simp
    note more = this
    show ?thesis unfolding add_Suc madvise_loop.simps more by (rule refl)
  qed simp
qed

end
