(* ===== verification/File_Lock.thy ===== *)
theory File_Lock
  imports Ish_Prelude
begin

text \<open>
  POSIX record locks of fs/lock.c.  The locks of an inode are the list \<^verbatim>\<open>posix_locks\<close> in order.  The
  theorems read the list pointwise: \<^verbatim>\<open>held_by ls o x t\<close> says that owner \<^verbatim>\<open>o\<close> holds byte \<^verbatim>\<open>x\<close> with type \<^verbatim>\<open>t\<close>.
  Offsets are 64-bit signed; arithmetic that the C code leaves unchecked is reduced with \<^term>\<open>s64\<close>.
\<close>

section \<open>Data\<close>

abbreviation (input) F_RDLCK :: int where "F_RDLCK \<equiv> 0"
abbreviation (input) F_WRLCK :: int where "F_WRLCK \<equiv> 1"
abbreviation (input) F_UNLCK :: int where "F_UNLCK \<equiv> 2"
abbreviation (input) OFF_T_MAX :: int where "OFF_T_MAX \<equiv> 9223372036854775807"
abbreviation (input) LSEEK_SET :: int where "LSEEK_SET \<equiv> 0"
abbreviation (input) LSEEK_CUR :: int where "LSEEK_CUR \<equiv> 1"
abbreviation (input) LSEEK_END :: int where "LSEEK_END \<equiv> 2"

record file_lock =
  fl_start :: int
  fl_end :: int
  fl_type :: int
  fl_owner :: nat
  fl_pid :: int

record flock_arg =
  fa_type :: int
  fa_whence :: int
  fa_start :: int
  fa_len :: int
  fa_pid :: int

section \<open>Operations\<close>

definition file_locks_overlap :: "file_lock \<Rightarrow> file_lock \<Rightarrow> bool" where
  "file_locks_overlap a b \<longleftrightarrow> fl_end a \<ge> fl_start b \<and> fl_end b \<ge> fl_start a"

definition file_locks_conflict :: "file_lock \<Rightarrow> file_lock \<Rightarrow> bool" where
  "file_locks_conflict a b =
    (if fl_owner a = fl_owner b then False
     else if \<not> file_locks_overlap a b then False
     else if fl_type a = F_WRLCK \<or> fl_type b = F_WRLCK then True
     else False)"

definition file_locks_adjacent :: "file_lock \<Rightarrow> file_lock \<Rightarrow> bool" where
  "file_locks_adjacent a b \<longleftrightarrow> fl_end a = s64 (fl_start b - 1) \<or> fl_end b = s64 (fl_start a - 1)"

definition file_lock_test :: "file_lock list \<Rightarrow> file_lock \<Rightarrow> file_lock option" where
  "file_lock_test ls request = find (\<lambda>l. file_locks_conflict l request) ls"

text \<open>The second loop of \<^verbatim>\<open>file_lock_acquire\<close>: the locks before the place where the new lock goes, the
  request as extended by merging, the locks from that place on, and whether waiters are notified.\<close>

fun acquire_loop ::
  "bool \<Rightarrow> file_lock \<Rightarrow> file_lock list \<Rightarrow> file_lock list \<times> file_lock \<times> file_lock list \<times> bool" where
  "acquire_loop found request [] = ([], request, [], False)"
| "acquire_loop found request (lock # locks) =
    (if fl_owner lock \<noteq> fl_owner request then
       if found then ([], request, lock # locks, False)
       else case acquire_loop False request locks of (pre, r, rest, n) \<Rightarrow> (lock # pre, r, rest, n)
     else if fl_type request = fl_type lock then
       if \<not> file_locks_overlap lock request \<and> \<not> file_locks_adjacent request lock
       then case acquire_loop True request locks of (pre, r, rest, n) \<Rightarrow> (lock # pre, r, rest, n)
       else acquire_loop True
              (request\<lparr>fl_start := (if fl_start lock < fl_start request then fl_start lock else fl_start request),
                       fl_end := (if fl_end lock > fl_end request then fl_end lock else fl_end request)\<rparr>) locks
     else if \<not> file_locks_overlap lock request
     then case acquire_loop True request locks of (pre, r, rest, n) \<Rightarrow> (lock # pre, r, rest, n)
     else
       case acquire_loop True request locks of (pre, r, rest, n) \<Rightarrow>
         if fl_start request > fl_start lock \<and> fl_end request < fl_end lock
         then (lock\<lparr>fl_end := s64 (fl_start request - 1)\<rparr> # lock\<lparr>fl_start := s64 (fl_end request + 1)\<rparr> # pre, r, rest, True)
         else if fl_start request \<le> fl_start lock \<and> fl_end request \<ge> fl_end lock
         then (pre, r, rest, True)
         else if fl_start lock < fl_start request
         then (lock\<lparr>fl_end := s64 (fl_start request - 1)\<rparr> # pre, r, rest, True)
         else if fl_end lock > fl_end request
         then (lock\<lparr>fl_start := s64 (fl_end request + 1)\<rparr> # pre, r, rest, True)
         else (lock # pre, r, rest, True))"

definition file_lock_acquire :: "file_lock list \<Rightarrow> file_lock \<Rightarrow> int \<times> file_lock list" where
  "file_lock_acquire ls request =
    (if fl_type request \<noteq> F_UNLCK \<and> (\<exists>l \<in> set ls. file_locks_conflict l request) then (EAGAIN, ls)
     else case acquire_loop False request ls of (pre, r, rest, n) \<Rightarrow>
       (0, if fl_type request \<noteq> F_UNLCK then pre @ [r] @ rest else pre @ rest))"

text \<open>The position of the descriptor and the size of the file are arguments: the result of \<^verbatim>\<open>lseek\<close> if
  the descriptor has it, and the result of \<^verbatim>\<open>fstat\<close> (an error, or the size).\<close>

definition file_lock_from_flock ::
  "int option \<Rightarrow> int + int \<Rightarrow> nat \<Rightarrow> int \<Rightarrow> flock_arg \<Rightarrow> int + file_lock" where
  "file_lock_from_flock lseek_cur fstat_size owner pid fa =
    (let offset = (if fa_whence fa = LSEEK_SET then Inr 0
                   else if fa_whence fa = LSEEK_CUR then
                     (case lseek_cur of None \<Rightarrow> Inr 0 | Some off \<Rightarrow> if off < 0 then Inl off else Inr off)
                   else if fa_whence fa = LSEEK_END then fstat_size
                   else Inl EINVAL)
     in case offset of
          Inl err \<Rightarrow> Inl err
        | Inr off \<Rightarrow>
            let start = s64 (fa_start fa + off);
                (s, e) = (if fa_len fa > 0 then (start, s64 (start + fa_len fa - 1))
                          else if fa_len fa < 0 then (s64 (s64 (start - 1) + fa_len fa + 1), s64 (start - 1))
                          else (start, OFF_T_MAX))
            in Inr \<lparr>fl_start = s, fl_end = e, fl_type = fa_type fa, fl_owner = owner, fl_pid = pid\<rparr>)"

definition flock_from_file_lock :: "file_lock \<Rightarrow> flock_arg" where
  "flock_from_file_lock l =
    \<lparr>fa_type = fl_type l, fa_whence = LSEEK_SET, fa_start = fl_start l,
     fa_len = (if fl_end l \<noteq> OFF_T_MAX then s64 (fl_end l - fl_start l + 1) else 0), fa_pid = fl_pid l\<rparr>"

definition fcntl_getlk ::
  "int option \<Rightarrow> int + int \<Rightarrow> nat \<Rightarrow> int \<Rightarrow> file_lock list \<Rightarrow> flock_arg \<Rightarrow> int \<times> flock_arg" where
  "fcntl_getlk lseek_cur fstat_size owner pid ls fa =
    (if fa_type fa \<noteq> F_RDLCK \<and> fa_type fa \<noteq> F_WRLCK then (EINVAL, fa)
     else case file_lock_from_flock lseek_cur fstat_size owner pid fa of
       Inl err \<Rightarrow> (err, fa)
     | Inr request \<Rightarrow>
         (case file_lock_test ls request of
            Some l \<Rightarrow> (0, flock_from_file_lock l)
          | None \<Rightarrow> (0, fa\<lparr>fa_type := F_UNLCK\<rparr>)))"

text \<open>The wait loop of \<^verbatim>\<open>fcntl_setlk\<close>.  Each wait is given by its result and by the locks the inode has when it
  returns; \<^term>\<open>None\<close> is a caller that is still waiting after all of them.\<close>

fun setlk_loop :: "bool \<Rightarrow> (int \<times> file_lock list) list \<Rightarrow> file_lock list \<Rightarrow> file_lock \<Rightarrow> (int \<times> file_lock list) option" where
  "setlk_loop blocking waits ls request =
    (case file_lock_acquire ls request of (err, ls') \<Rightarrow>
       if err \<noteq> EAGAIN then Some (err, ls')
       else if \<not> blocking then Some (err, ls')
       else case waits of
         [] \<Rightarrow> None
       | (werr, wls) # ws \<Rightarrow> if werr < 0 then Some (werr, wls) else setlk_loop blocking ws wls request)"

definition fcntl_setlk ::
  "int option \<Rightarrow> int + int \<Rightarrow> nat \<Rightarrow> int \<Rightarrow> flags32 \<Rightarrow> bool \<Rightarrow> (int \<times> file_lock list) list \<Rightarrow> file_lock list \<Rightarrow> flock_arg \<Rightarrow>
   (int \<times> file_lock list) option" where
  "fcntl_setlk lseek_cur fstat_size owner pid fd_flags blocking waits ls fa =
    (let fd_mode = fd_flags AND 3 in
     if fa_type fa \<noteq> F_RDLCK \<and> fa_type fa \<noteq> F_WRLCK \<and> fa_type fa \<noteq> F_UNLCK then Some (EINVAL, ls)
     else if fa_type fa = F_RDLCK \<and> fd_mode = 1 then Some (EBADF, ls)
     else if fa_type fa = F_WRLCK \<and> fd_mode = 0 then Some (EBADF, ls)
     else case file_lock_from_flock lseek_cur fstat_size owner pid fa of
       Inl err \<Rightarrow> Some (err, ls)
     | Inr request \<Rightarrow> setlk_loop blocking waits ls request)"

definition file_lock_remove_owned_by :: "file_lock list \<Rightarrow> nat \<Rightarrow> file_lock list" where
  "file_lock_remove_owned_by ls owner = filter (\<lambda>l. fl_owner l \<noteq> owner) ls"

section \<open>Pointwise meaning and invariant\<close>

definition covers :: "file_lock \<Rightarrow> int \<Rightarrow> bool" where
  "covers l x \<longleftrightarrow> fl_start l \<le> x \<and> x \<le> fl_end l"

definition held_by :: "file_lock list \<Rightarrow> nat \<Rightarrow> int \<Rightarrow> int \<Rightarrow> bool" where
  "held_by ls p x t \<longleftrightarrow> (\<exists>l \<in> set ls. fl_owner l = p \<and> covers l x \<and> fl_type l = t)"

definition lock_ok :: "file_lock \<Rightarrow> bool" where
  "lock_ok l \<longleftrightarrow> - (2 ^ 63) < fl_start l \<and> fl_start l \<le> fl_end l \<and> fl_end l < 2 ^ 63"

definition own_disjoint :: "file_lock list \<Rightarrow> bool" where
  "own_disjoint = sorted_wrt (\<lambda>a b. fl_owner a = fl_owner b \<longrightarrow> \<not> file_locks_overlap a b)"

fun grouped :: "file_lock list \<Rightarrow> bool" where
  "grouped [] = True"
| "grouped (l # ls) =
    (grouped ls \<and> (fl_owner l \<in> fl_owner ` set ls \<longrightarrow> ls \<noteq> [] \<and> fl_owner (hd ls) = fl_owner l))"

definition no_conflicts :: "file_lock list \<Rightarrow> bool" where
  "no_conflicts ls \<longleftrightarrow> (\<forall>a \<in> set ls. \<forall>b \<in> set ls. \<not> file_locks_conflict a b)"

definition locks_inv :: "file_lock list \<Rightarrow> bool" where
  "locks_inv ls \<longleftrightarrow> list_all lock_ok ls \<and> own_disjoint ls \<and> grouped ls \<and> no_conflicts ls \<and>
     list_all (\<lambda>l. fl_type l = F_RDLCK \<or> fl_type l = F_WRLCK) ls"

lemma overlap_iff: "lock_ok a \<Longrightarrow> lock_ok b \<Longrightarrow> file_locks_overlap a b \<longleftrightarrow> (\<exists>x. covers a x \<and> covers b x)"
  unfolding file_locks_overlap_def covers_def lock_ok_def
  by (metis dual_order.trans linorder_le_cases)

lemma held_by_Nil [simp]: "\<not> held_by [] p x t"
  by (simp add: held_by_def)

lemma held_by_Cons: "held_by (l # ls) p x t \<longleftrightarrow> fl_owner l = p \<and> covers l x \<and> fl_type l = t \<or> held_by ls p x t"
  by (auto simp: held_by_def)

lemma held_by_append: "held_by (as @ bs) p x t \<longleftrightarrow> held_by as p x t \<or> held_by bs p x t"
  by (auto simp: held_by_def)

text \<open>A lock \<^verbatim>\<open>b\<close> that is a piece of \<^verbatim>\<open>a\<close>.\<close>

definition piece_of :: "file_lock \<Rightarrow> file_lock \<Rightarrow> bool" where
  "piece_of b a \<longleftrightarrow> fl_owner b = fl_owner a \<and> fl_type b = fl_type a \<and> fl_start a \<le> fl_start b \<and> fl_end b \<le> fl_end a"

lemma piece_refl [simp]: "piece_of a a"
  by (simp add: piece_of_def)

lemma piece_no_overlap:
  "piece_of a' a \<Longrightarrow> piece_of b' b \<Longrightarrow> \<not> file_locks_overlap a b \<Longrightarrow> \<not> file_locks_overlap a' b'"
  by (auto simp: piece_of_def file_locks_overlap_def)

definition merged :: "file_lock \<Rightarrow> file_lock \<Rightarrow> file_lock" where
  "merged r l = r\<lparr>fl_start := (if fl_start l < fl_start r then fl_start l else fl_start r),
                  fl_end := (if fl_end l > fl_end r then fl_end l else fl_end r)\<rparr>"

definition cut :: "file_lock \<Rightarrow> file_lock \<Rightarrow> file_lock list" where
  "cut l r =
    (if fl_start r > fl_start l \<and> fl_end r < fl_end l
     then [l\<lparr>fl_end := fl_start r - 1\<rparr>, l\<lparr>fl_start := fl_end r + 1\<rparr>]
     else if fl_start r \<le> fl_start l \<and> fl_end r \<ge> fl_end l then []
     else if fl_start l < fl_start r then [l\<lparr>fl_end := fl_start r - 1\<rparr>]
     else if fl_end l > fl_end r then [l\<lparr>fl_start := fl_end r + 1\<rparr>]
     else [l])"

lemma cut_facts:
  assumes "lock_ok l" "lock_ok r" "file_locks_overlap l r"
  shows "list_all lock_ok (cut l r)" "own_disjoint (cut l r)"
    "\<And>c. c \<in> set (cut l r) \<Longrightarrow> piece_of c l"
    "held_by (cut l r) p x t \<longleftrightarrow> p = fl_owner l \<and> t = fl_type l \<and> covers l x \<and> \<not> covers r x"
  using assms
  by (auto simp: cut_def lock_ok_def file_locks_overlap_def own_disjoint_def piece_of_def held_by_def covers_def
      split: if_splits)

lemma merged_facts:
  assumes "lock_ok l" "lock_ok r" "file_locks_overlap l r \<or> file_locks_adjacent r l"
  shows "lock_ok (merged r l)" "covers (merged r l) x \<longleftrightarrow> covers l x \<or> covers r x"
  using assms
  by (auto simp: merged_def lock_ok_def file_locks_overlap_def file_locks_adjacent_def covers_def s64_id)

lemma merged_sel [simp]: "fl_owner (merged r l) = fl_owner r" "fl_type (merged r l) = fl_type r" "fl_pid (merged r l) = fl_pid r"
  by (simp_all add: merged_def)

text \<open>One step of the loop, with the three outcomes named.\<close>

lemma acquire_loop_own:
  assumes "fl_owner l = fl_owner r" "lock_ok l" "lock_ok r"
  shows "acquire_loop found r (l # ls) =
    (if fl_type r = fl_type l \<and> (file_locks_overlap l r \<or> file_locks_adjacent r l) then acquire_loop True (merged r l) ls
     else case acquire_loop True r ls of (pre, r', rest, n) \<Rightarrow>
       (if fl_type r \<noteq> fl_type l \<and> file_locks_overlap l r then (cut l r @ pre, r', rest, True) else (l # pre, r', rest, n)))"
  using assms
  by (cases "acquire_loop True r ls") (auto simp: merged_def cut_def lock_ok_def s64_id)

lemma acquire_loop_other:
  "fl_owner l \<noteq> fl_owner r \<Longrightarrow> acquire_loop found r (l # ls) =
    (if found then ([], r, l # ls, False)
     else case acquire_loop False r ls of (pre, r', rest, n) \<Rightarrow> (l # pre, r', rest, n))"
  by simp

lemma own_disjoint_Cons:
  "own_disjoint (l # ls) \<longleftrightarrow> (\<forall>b \<in> set ls. fl_owner l = fl_owner b \<longrightarrow> \<not> file_locks_overlap l b) \<and> own_disjoint ls"
  by (simp add: own_disjoint_def)

lemma own_disjoint_append:
  "own_disjoint (as @ bs) \<longleftrightarrow> own_disjoint as \<and> own_disjoint bs \<and>
    (\<forall>a \<in> set as. \<forall>b \<in> set bs. fl_owner a = fl_owner b \<longrightarrow> \<not> file_locks_overlap a b)"
  by (auto simp: own_disjoint_def sorted_wrt_append)

text \<open>What the loop leaves: \<^verbatim>\<open>loop_post r ls r' ls'\<close> relates the request and the locks before and after.\<close>

definition loop_post :: "file_lock \<Rightarrow> file_lock list \<Rightarrow> file_lock \<Rightarrow> file_lock list \<Rightarrow> bool" where
  "loop_post r ls r' ls' \<longleftrightarrow>
    lock_ok r' \<and> fl_owner r' = fl_owner r \<and> fl_type r' = fl_type r \<and>
    (\<forall>x. covers r x \<longrightarrow> covers r' x) \<and>
    (\<forall>x. covers r' x \<longrightarrow> \<not> covers r x \<longrightarrow> held_by ls (fl_owner r) x (fl_type r)) \<and>
    (\<forall>x t. held_by ls' (fl_owner r) x t \<longleftrightarrow> held_by ls (fl_owner r) x t \<and> \<not> covers r' x) \<and>
    (\<forall>p x t. p \<noteq> fl_owner r \<longrightarrow> held_by ls' p x t \<longleftrightarrow> held_by ls p x t) \<and>
    list_all lock_ok ls' \<and> own_disjoint ls' \<and> (\<forall>b \<in> set ls'. \<exists>a \<in> set ls. piece_of b a)"

lemma loop_post_nothing:
  assumes "list_all lock_ok ls" "lock_ok r" "own_disjoint ls" "fl_owner r \<notin> fl_owner ` set ls"
  shows "loop_post r ls r ls"
proof -
  have "\<forall>l \<in> set ls. fl_owner l \<noteq> fl_owner r" using assms(4) by (metis image_eqI)
  then show ?thesis using assms(1-3) by (auto simp: loop_post_def held_by_def intro: piece_refl)
qed

lemma own_not_covered:
  assumes "\<forall>b \<in> set ls. fl_owner l = fl_owner b \<longrightarrow> \<not> file_locks_overlap l b" "list_all lock_ok ls" "lock_ok l"
    "covers l x"
  shows "\<not> held_by ls (fl_owner l) x t"
  using assms overlap_iff unfolding held_by_def list_all_iff by metis

lemma loop_post_skip:
  assumes post: "loop_post r ls r' ls'" and l: "lock_ok l" "list_all lock_ok ls" "own_disjoint (l # ls)"
    and no: "fl_owner l = fl_owner r \<Longrightarrow> lock_ok r \<and> \<not> file_locks_overlap l r"
  shows "loop_post r (l # ls) r' (l # ls')"
proof -
  have nb: "\<forall>b \<in> set ls. fl_owner l = fl_owner b \<longrightarrow> \<not> file_locks_overlap l b" using l(3) by (simp add: own_disjoint_Cons)
  have out: "\<not> covers r' x" if "fl_owner l = fl_owner r" "covers l x" for x
    using own_not_covered [OF nb l(2,1) that(2)] post that no [OF that(1)] overlap_iff [OF l(1), of r]
    by (auto simp: loop_post_def)
  have "\<forall>b \<in> set ls'. fl_owner l = fl_owner b \<longrightarrow> \<not> file_locks_overlap l b"
    using post nb piece_no_overlap [OF piece_refl] unfolding loop_post_def piece_of_def
    by (metis (no_types, opaque_lifting) piece_no_overlap piece_of_def piece_refl)
  then show ?thesis using post l(1) out
    by (auto simp: loop_post_def held_by_Cons own_disjoint_Cons)
qed

lemma loop_post_merge:
  assumes post: "loop_post (merged r l) ls r' ls'" and l: "lock_ok l" "lock_ok r" "fl_owner l = fl_owner r" "fl_type l = fl_type r"
    and m: "file_locks_overlap l r \<or> file_locks_adjacent r l"
  shows "loop_post r (l # ls) r' ls'"
  using post merged_facts(2) [OF l(1,2) m] l(3,4) by (auto simp: loop_post_def held_by_Cons)

lemma loop_post_cut:
  assumes post: "loop_post r ls r' ls'" and l: "lock_ok l" "lock_ok r" "list_all lock_ok ls" "own_disjoint (l # ls)"
    and own: "fl_owner l = fl_owner r" and ov: "file_locks_overlap l r"
  shows "loop_post r (l # ls) r' (cut l r @ ls')"
proof -
  note c = cut_facts [OF l(1,2) ov]
  have nb: "\<forall>b \<in> set ls. fl_owner l = fl_owner b \<longrightarrow> \<not> file_locks_overlap l b" using l(4) by (simp add: own_disjoint_Cons)
  have out: "covers l x \<Longrightarrow> \<not> covers r x \<Longrightarrow> \<not> covers r' x" for x
    using own_not_covered [OF nb l(3,1), of x] post own by (auto simp: loop_post_def)
  have "\<not> file_locks_overlap a b" if ab: "a \<in> set (cut l r)" "b \<in> set ls'" "fl_owner a = fl_owner b" for a b
  proof -
    obtain b0 where b0: "b0 \<in> set ls" "piece_of b b0" using post ab(2) by (auto simp: loop_post_def)
    show ?thesis using b0 c(3) [OF ab(1)] nb ab(3) piece_no_overlap [of a l b b0] by (auto simp: piece_of_def)
  qed
  then have dis: "own_disjoint (cut l r @ ls')" using c(2) post by (auto simp: own_disjoint_append loop_post_def)
  have pieces: "\<forall>b \<in> set (cut l r @ ls'). \<exists>a \<in> set (l # ls). piece_of b a"
    using c(3) post by (auto simp: loop_post_def)
  show ?thesis using post c(1,4) own out dis pieces
    by (auto simp: loop_post_def held_by_Cons held_by_append)
qed

lemma acquire_loop_post:
  assumes "acquire_loop found r ls = (pre, r', rest, n)" "list_all lock_ok ls" "lock_ok r" "own_disjoint ls" "grouped ls"
    "found \<Longrightarrow> fl_owner r \<in> fl_owner ` set ls \<Longrightarrow> fl_owner (hd ls) = fl_owner r"
  shows "loop_post r ls r' (pre @ rest)"
  using assms
proof (induction ls arbitrary: found r pre r' rest n)
  case Nil
  then show ?case by (auto intro: loop_post_nothing)
next
  case (Cons l ls)
  note prems = Cons.prems
  have hd: "fl_owner r \<in> fl_owner ` set ls \<Longrightarrow> fl_owner (hd ls) = fl_owner r" if "fl_owner l = fl_owner r"
    using prems(5) that by auto
  show ?case
  proof (cases "fl_owner l = fl_owner r")
    case False
    show ?thesis
    proof (cases found)
      case True
      then have "fl_owner r \<notin> fl_owner ` set (l # ls)" using prems(6) False by auto
      then show ?thesis using prems True False loop_post_nothing [of "l # ls" r] by (auto simp: acquire_loop_other)
    next
      case nf: False
      obtain pre0 where rec: "acquire_loop False r ls = (pre0, r', rest, n)" "pre = l # pre0"
        using prems(1) False nf by (auto simp: acquire_loop_other split: prod.splits)
      have "loop_post r ls r' (pre0 @ rest)"
        by (rule Cons.IH [OF rec(1)]) (use prems in \<open>auto simp: own_disjoint_Cons\<close>)
      then show ?thesis using loop_post_skip [of r ls r' "pre0 @ rest" l] prems False rec(2) by simp
    qed
  next
    case own: True
    have lok: "lock_ok l" using prems(2) by simp
    consider (merge) "fl_type r = fl_type l" "file_locks_overlap l r \<or> file_locks_adjacent r l"
      | (cut) "fl_type r \<noteq> fl_type l" "file_locks_overlap l r"
      | (skip) "\<not> file_locks_overlap l r" "\<not> (fl_type r = fl_type l \<and> file_locks_adjacent r l)"
      by blast
    then show ?thesis
    proof cases
      case merge
      then have rec: "acquire_loop True (merged r l) ls = (pre, r', rest, n)"
        using prems(1) acquire_loop_own [OF own lok prems(3)] by simp
      have "loop_post (merged r l) ls r' (pre @ rest)"
        by (rule Cons.IH [OF rec]) (use prems hd [OF own] merged_facts(1) [OF lok prems(3) merge(2)] in \<open>auto simp: own_disjoint_Cons\<close>)
      then show ?thesis using loop_post_merge lok prems(3) own merge by simp
    next
      case cut
      obtain pre0 n0 where rec: "acquire_loop True r ls = (pre0, r', rest, n0)" "pre = cut l r @ pre0"
        using prems(1) acquire_loop_own [OF own lok prems(3), of found ls] cut by (auto split: prod.splits)
      have "loop_post r ls r' (pre0 @ rest)"
        by (rule Cons.IH [OF rec(1)]) (use prems hd [OF own] in \<open>auto simp: own_disjoint_Cons\<close>)
      then show ?thesis using loop_post_cut [of r ls r' "pre0 @ rest" l] lok prems own cut rec(2) by simp
    next
      case skip
      obtain pre0 where rec: "acquire_loop True r ls = (pre0, r', rest, n)" "pre = l # pre0"
        using prems(1) acquire_loop_own [OF own lok prems(3), of found ls] skip by (auto split: prod.splits if_splits)
      have "loop_post r ls r' (pre0 @ rest)"
        by (rule Cons.IH [OF rec(1)]) (use prems hd [OF own] in \<open>auto simp: own_disjoint_Cons\<close>)
      then show ?thesis using loop_post_skip [of r ls r' "pre0 @ rest" l] lok prems skip rec(2) by simp
    qed
  qed
qed

text \<open>The locks of one owner stay together in the list, which is what lets the loop stop early.\<close>

abbreviation owners :: "file_lock list \<Rightarrow> nat set" where "owners ls \<equiv> fl_owner ` set ls"

lemma grouped_Cons: "grouped (a # ls) \<longleftrightarrow> grouped ls \<and> (fl_owner a \<notin> owners ls \<or> fl_owner (hd ls) = fl_owner a)"
  by auto

lemma grouped_appendD: "grouped (as @ bs) \<Longrightarrow> grouped as \<and> grouped bs"
proof (induction as)
  case (Cons a as)
  show ?case
  proof (cases "as = []")
    case False
    then show ?thesis using Cons unfolding append_Cons grouped_Cons by (metis UnI1 hd_append2 image_Un set_append)
  qed (use Cons in \<open>simp add: grouped_Cons del: grouped.simps(2)\<close>)
qed simp

lemma grouped_disjoint: "grouped as \<Longrightarrow> grouped bs \<Longrightarrow> owners as \<inter> owners bs = {} \<Longrightarrow> grouped (as @ bs)"
proof (induction as)
  case (Cons a as)
  have "grouped (as @ bs)" "fl_owner a \<notin> owners bs" using Cons by (auto simp only: grouped_Cons list.set)
  moreover have "fl_owner (hd (as @ bs)) = fl_owner a" if "fl_owner a \<in> owners as"
    using Cons.prems(1) that unfolding grouped_Cons by (metis empty_iff hd_append2 image_empty list.set(1))
  ultimately show ?case unfolding append_Cons grouped_Cons set_append image_Un by blast
qed simp

lemma grouped_same: "\<forall>l \<in> set ls. fl_owner l = p \<Longrightarrow> grouped ls"
proof (induction ls)
  case (Cons a ls)
  then show ?case unfolding grouped_Cons by (metis empty_iff empty_set hd_in_set image_empty list.set_intros)
qed simp

lemma grouped_middle:
  assumes "grouped (as @ bs @ cs)" "bs \<noteq> []" "\<forall>l \<in> set bs. fl_owner l = p" "p \<notin> owners as" "p \<notin> owners cs"
  shows "owners as \<inter> owners cs = {}"
  using assms
proof (induction as)
  case (Cons a as)
  note IH = Cons.IH and prems = Cons.prems
  have rec: "owners as \<inter> owners cs = {}" using IH prems by (simp only: append_Cons grouped_Cons) simp
  have "fl_owner a \<notin> owners cs"
  proof
    assume a: "fl_owner a \<in> owners cs"
    then have hd: "fl_owner (hd (as @ bs @ cs)) = fl_owner a"
      using prems(1) unfolding append_Cons grouped_Cons set_append image_Un by blast
    show False
    proof (cases "as = []")
      case True
      then have "fl_owner a = p" using hd prems(2,3) by simp
      then show False using prems(4) by simp
    next
      case False
      then have "fl_owner a \<in> owners as" using hd by (metis hd_append2 hd_in_set image_eqI)
      then show False using rec a by blast
    qed
  qed
  then show ?case using rec by simp
qed simp

lemma acquire_loop_own_step:
  assumes "fl_owner l = fl_owner r" "lock_ok l" "lock_ok r" "acquire_loop found r (l # ls) = (pre, r', rest, n)"
  shows "\<exists>r0 pre0 n0 cs. acquire_loop True r0 ls = (pre0, r', rest, n0) \<and> pre = cs @ pre0 \<and> lock_ok r0 \<and>
    fl_owner r0 = fl_owner r \<and> (\<forall>c \<in> set cs. fl_owner c = fl_owner r)"
proof (cases "fl_type r = fl_type l \<and> (file_locks_overlap l r \<or> file_locks_adjacent r l)")
  case True
  then show ?thesis using assms acquire_loop_own [OF assms(1-3), of found ls] merged_facts(1) [OF assms(2,3)]
    by (intro exI [of _ "merged r l"] exI [of _ pre] exI [of _ n] exI [of _ "[]"]) auto
next
  case False
  obtain pre0 r0 rest0 n0 where rec: "acquire_loop True r ls = (pre0, r0, rest0, n0)" by (metis prod_cases3)
  have "\<forall>c \<in> set (cut l r). fl_owner c = fl_owner r" if "file_locks_overlap l r"
    using cut_facts(3) [OF assms(2,3) that] assms(1) by (auto simp: piece_of_def)
  moreover have "pre = (if file_locks_overlap l r then cut l r else [l]) @ pre0 \<and> r' = r0 \<and> rest = rest0"
    using assms(4) False rec unfolding acquire_loop_own [OF assms(1-3)] by (auto split: if_splits)
  ultimately show ?thesis using assms(1,3) rec
    by (intro exI [of _ r] exI [of _ pre0] exI [of _ n0] exI [of _ "if file_locks_overlap l r then cut l r else [l]"]) auto
qed

lemma acquire_loop_shape:
  assumes "acquire_loop found r ls = (pre, r', rest, n)" "lock_ok r" "list_all lock_ok ls" "grouped ls"
    "found \<Longrightarrow> fl_owner r \<in> owners ls \<Longrightarrow> fl_owner (hd ls) = fl_owner r"
  shows "\<exists>as bs bs'. ls = as @ bs @ rest \<and> pre = as @ bs' \<and> (found \<longrightarrow> as = []) \<and> (bs = [] \<longrightarrow> found \<or> rest = []) \<and>
    fl_owner r \<notin> owners as \<and> fl_owner r \<notin> owners rest \<and> (\<forall>l \<in> set (bs @ bs'). fl_owner l = fl_owner r)"
  using assms
proof (induction ls arbitrary: found r pre r' rest n)
  case Nil
  then show ?case by simp
next
  case (Cons l ls)
  note prems = Cons.prems
  have g: "grouped ls" using prems(4) unfolding grouped_Cons by simp
  show ?case
  proof (cases "fl_owner l = fl_owner r")
    case False
    show ?thesis
    proof (cases found)
      case True
      then have "fl_owner r \<notin> owners (l # ls)" using prems(5) False by auto
      then show ?thesis using prems(1) True False by (auto simp: acquire_loop_other)
    next
      case nf: False
      obtain pre0 where rec: "acquire_loop False r ls = (pre0, r', rest, n)" "pre = l # pre0"
        using prems(1) False nf by (auto simp: acquire_loop_other split: prod.splits)
      have "\<exists>as bs bs'. ls = as @ bs @ rest \<and> pre0 = as @ bs' \<and> (bs = [] \<longrightarrow> rest = []) \<and>
        fl_owner r \<notin> owners as \<and> fl_owner r \<notin> owners rest \<and> (\<forall>l \<in> set (bs @ bs'). fl_owner l = fl_owner r)"
        using Cons.IH [OF rec(1) prems(2) _ g] prems(3) by simp
      then obtain as bs bs' where sh: "ls = as @ bs @ rest" "pre0 = as @ bs'" "bs = [] \<longrightarrow> rest = []"
        "fl_owner r \<notin> owners as" "fl_owner r \<notin> owners rest" "\<forall>l \<in> set (bs @ bs'). fl_owner l = fl_owner r" by blast
      show ?thesis using sh rec(2) False nf
        by (intro exI [of _ "l # as"] exI [of _ bs] exI [of _ bs']) auto
    qed
  next
    case own: True
    have lok: "lock_ok l" using prems(3) by simp
    have hd: "fl_owner r \<in> owners ls \<Longrightarrow> fl_owner (hd ls) = fl_owner r"
      using prems(4) own unfolding grouped_Cons by auto
    obtain r0 pre0 n0 cs where rec: "acquire_loop True r0 ls = (pre0, r', rest, n0)" "pre = cs @ pre0" "lock_ok r0"
      "fl_owner r0 = fl_owner r" "\<forall>c \<in> set cs. fl_owner c = fl_owner r"
      using acquire_loop_own_step [OF own lok prems(2,1)] by blast
    have lsok: "list_all lock_ok ls" using prems(3) by simp
    obtain bs where "ls = bs @ rest" "fl_owner r \<notin> owners rest" "\<forall>l \<in> set (bs @ pre0). fl_owner l = fl_owner r"
      using Cons.IH [OF rec(1,3) lsok g] hd unfolding rec(4) by (metis append_Nil)
    then show ?thesis using own rec(2,5) by (intro exI [of _ "[]"] exI [of _ "l # bs"] exI [of _ pre]) auto
  qed
qed

lemma acquire_loop_grouped:
  assumes "acquire_loop False r ls = (pre, r', rest, n)" "lock_ok r" "list_all lock_ok ls" "grouped ls" "fl_owner r' = fl_owner r"
  shows "grouped (pre @ rest) \<and> grouped (pre @ [r'] @ rest)"
proof -
  obtain as bs bs' where sh: "ls = as @ bs @ rest" "pre = as @ bs'" "bs = [] \<longrightarrow> rest = []"
    "fl_owner r \<notin> owners as" "fl_owner r \<notin> owners rest" "\<forall>l \<in> set (bs @ bs'). fl_owner l = fl_owner r"
    using acquire_loop_shape [OF assms(1-4)] by blast
  have g: "grouped as" "grouped rest" using grouped_appendD assms(4) sh(1) by metis+
  have dis: "owners as \<inter> owners rest = {}"
    using sh grouped_middle [of as bs rest "fl_owner r"] assms(4) by (cases "bs = []") auto
  have "grouped (as @ cs @ rest)" if cs: "\<forall>l \<in> set cs. fl_owner l = fl_owner r" for cs
  proof (intro grouped_disjoint g)
    show "grouped cs" using grouped_same [OF cs] .
    show "owners cs \<inter> owners rest = {}" using cs sh(5) by auto
    show "owners as \<inter> owners (cs @ rest) = {}" using cs sh(4) dis by (auto simp: image_iff)
  qed
  from this [of bs'] this [of "bs' @ [r']"] show ?thesis using sh(2,6) assms(5) by simp
qed

lemma held_unique:
  assumes "own_disjoint ls" "list_all lock_ok ls" "held_by ls p x t" "held_by ls p x t'"
  shows "t = t'"
  using assms
proof (induction ls)
  case (Cons l ls)
  have nb: "\<forall>b \<in> set ls. fl_owner l = fl_owner b \<longrightarrow> \<not> file_locks_overlap l b" using Cons.prems(1) by (simp add: own_disjoint_Cons)
  show ?case using Cons own_not_covered [OF nb, of x] unfolding own_disjoint_Cons held_by_Cons by auto
qed simp

lemma conflict_piece: "file_locks_conflict b' a' \<Longrightarrow> piece_of b' b \<Longrightarrow> piece_of a' a \<Longrightarrow> file_locks_conflict b a"
  unfolding file_locks_conflict_def using piece_no_overlap by (auto simp: piece_of_def split: if_splits)

lemma no_conflicts_pieces:
  assumes "no_conflicts ls" "\<forall>b \<in> set ls'. \<exists>a \<in> set ls. piece_of b a"
  shows "no_conflicts ls'"
  unfolding no_conflicts_def
proof (intro ballI notI)
  fix a b assume "a \<in> set ls'" "b \<in> set ls'" "file_locks_conflict a b"
  moreover then obtain a0 b0 where "a0 \<in> set ls" "piece_of a a0" "b0 \<in> set ls" "piece_of b b0" using assms(2) by blast
  ultimately show False using conflict_piece assms(1) unfolding no_conflicts_def by blast
qed

lemma overlap_commute: "file_locks_overlap a b \<longleftrightarrow> file_locks_overlap b a"
  by (simp only: file_locks_overlap_def conj_commute)

lemma conflict_commute: "file_locks_conflict a b \<longleftrightarrow> file_locks_conflict b a"
  unfolding file_locks_conflict_def overlap_commute [of a b] by (metis (full_types))

lemma loop_postD:
  assumes "loop_post r ls r' ls'"
  shows loop_post_request: "lock_ok r'" "fl_owner r' = fl_owner r" "fl_type r' = fl_type r"
    and loop_post_extended: "covers r' x \<Longrightarrow> \<not> covers r x \<Longrightarrow> held_by ls (fl_owner r) x (fl_type r)"
    and loop_post_locks: "list_all lock_ok ls'" "own_disjoint ls'" "\<forall>b \<in> set ls'. \<exists>a \<in> set ls. piece_of b a"
  using assms unfolding loop_post_def by blast+

lemma conflictI:
  "lock_ok a \<Longrightarrow> lock_ok b \<Longrightarrow> covers a x \<Longrightarrow> covers b x \<Longrightarrow> fl_owner a \<noteq> fl_owner b \<Longrightarrow>
   fl_type a = F_WRLCK \<or> fl_type b = F_WRLCK \<Longrightarrow> file_locks_conflict a b"
  unfolding file_locks_conflict_def using overlap_iff by metis

lemma extended_no_conflict:
  assumes post: "loop_post r ls r' ls'" and inv: "locks_inv ls" "lock_ok r" and free: "\<forall>l \<in> set ls. \<not> file_locks_conflict l r"
    and b: "b \<in> set ls'"
  shows "\<not> file_locks_conflict b r'"
proof
  assume c: "file_locks_conflict b r'"
  note lo = loop_postD [OF post]
  obtain a where a: "a \<in> set ls" "piece_of b a" using lo(7) b by blast
  have ok: "\<forall>l \<in> set ls. lock_ok l" using inv(1) by (simp add: locks_inv_def list_all_iff)
  have "lock_ok b" using lo(5) b by (simp add: list_all_iff)
  then obtain x where x: "covers b x" "covers r' x"
    using c overlap_iff [OF _ lo(1), of b] unfolding file_locks_conflict_def by meson
  have ax: "covers a x" using a(2) x(1) by (auto simp: piece_of_def covers_def)
  have own: "fl_owner a \<noteq> fl_owner r" "fl_type a = F_WRLCK \<or> fl_type r = F_WRLCK"
    using c a(2) lo(2,3) unfolding file_locks_conflict_def piece_of_def by metis+
  show False
  proof (cases "covers r x")
    case True
    then have "file_locks_conflict a r" using conflictI own ax ok a(1) inv(2) by blast
    then show False using free a(1) by blast
  next
    case False
    then obtain l where l: "l \<in> set ls" "fl_owner l = fl_owner r" "covers l x" "fl_type l = fl_type r"
      using lo(4) x(2) unfolding held_by_def by blast
    then have "file_locks_conflict a l" using conflictI own ax ok a(1) by metis
    then show False using inv(1) a(1) l(1) unfolding locks_inv_def no_conflicts_def by blast
  qed
qed

lemma no_conflicts_insert:
  assumes "no_conflicts (as @ bs)" "\<forall>b \<in> set (as @ bs). \<not> file_locks_conflict b l"
  shows "no_conflicts (as @ [l] @ bs)"
proof -
  have "\<not> file_locks_conflict l l" by (simp add: file_locks_conflict_def)
  moreover have "\<forall>b \<in> set (as @ bs). \<not> file_locks_conflict l b" using assms(2) conflict_commute by blast
  moreover have "set (as @ [l] @ bs) = insert l (set (as @ bs))" by auto
  ultimately show ?thesis using assms unfolding no_conflicts_def by (metis insert_iff)
qed

lemma own_disjoint_insert:
  assumes "own_disjoint (as @ bs)" "\<forall>b \<in> set (as @ bs). fl_owner b = fl_owner l \<longrightarrow> \<not> file_locks_overlap b l"
  shows "own_disjoint (as @ [l] @ bs)"
proof -
  have "\<forall>b \<in> set bs. fl_owner l = fl_owner b \<longrightarrow> \<not> file_locks_overlap l b"
    using assms(2) overlap_commute [of l] by (metis UnCI set_append)
  then show ?thesis using assms by (auto simp: own_disjoint_append own_disjoint_Cons)
qed

lemma types_of_pieces:
  "list_all (\<lambda>l. fl_type l = F_RDLCK \<or> fl_type l = F_WRLCK) ls \<Longrightarrow> \<forall>b \<in> set ls'. \<exists>a \<in> set ls. piece_of b a \<Longrightarrow>
   list_all (\<lambda>l. fl_type l = F_RDLCK \<or> fl_type l = F_WRLCK) ls'"
  by (fastforce simp: list_all_iff piece_of_def)

lemma unlock_result:
  assumes inv: "locks_inv ls" "lock_ok r" and loop: "acquire_loop False r ls = (pre, r', rest, n)" "loop_post r ls r' (pre @ rest)"
    and u: "fl_type r = F_UNLCK"
  shows "locks_inv (pre @ rest) \<and> (\<forall>p x t. held_by (pre @ rest) p x t \<longleftrightarrow>
    held_by ls p x t \<and> \<not> (p = fl_owner r \<and> covers r x))"
proof -
  note post = loop(2) [unfolded loop_post_def]
  have nou: "\<not> held_by ls p x F_UNLCK" for p x using inv(1) by (auto simp: locks_inv_def held_by_def list_all_iff)
  then have same: "covers r' x \<longleftrightarrow> covers r x" for x using post u by metis
  have "grouped (pre @ rest)" using acquire_loop_grouped [OF loop(1)] inv post by (auto simp: locks_inv_def)
  moreover have "no_conflicts (pre @ rest)" using no_conflicts_pieces [of ls] inv(1) post by (auto simp: locks_inv_def)
  moreover have "list_all (\<lambda>l. fl_type l = F_RDLCK \<or> fl_type l = F_WRLCK) (pre @ rest)"
    using types_of_pieces inv(1) post unfolding locks_inv_def by blast
  ultimately have "locks_inv (pre @ rest)" using post unfolding locks_inv_def by blast
  then show ?thesis using post same by metis
qed

lemma lock_inv:
  assumes inv: "locks_inv ls" "lock_ok r" and loop: "acquire_loop False r ls = (pre, r', rest, n)" "loop_post r ls r' (pre @ rest)"
    and free: "\<forall>l \<in> set ls. \<not> file_locks_conflict l r" and ty: "fl_type r = F_RDLCK \<or> fl_type r = F_WRLCK"
  shows "locks_inv (pre @ [r'] @ rest)"
proof -
  note lo = loop_postD [OF loop(2)]
  have ok: "no_conflicts ls" "list_all lock_ok ls" "grouped ls" using inv(1) by (auto simp: locks_inv_def)
  have g: "grouped (pre @ [r'] @ rest)" using acquire_loop_grouped [OF loop(1) inv(2) ok(2,3) lo(2)] by blast
  have c: "no_conflicts (pre @ [r'] @ rest)"
    using no_conflicts_insert no_conflicts_pieces [OF ok(1) lo(7)] extended_no_conflict [OF loop(2) inv free] by blast
  have "\<not> file_locks_overlap b r'" if "b \<in> set (pre @ rest)" "fl_owner b = fl_owner r'" for b
  proof -
    have "lock_ok b" using that(1) lo(5) unfolding list_all_iff by blast
    moreover have "covers b x \<Longrightarrow> \<not> covers r' x" for x
      using that lo(2) loop(2) unfolding held_by_def loop_post_def by metis
    ultimately show ?thesis using overlap_iff [OF _ lo(1)] by blast
  qed
  then have d: "own_disjoint (pre @ [r'] @ rest)" using own_disjoint_insert [OF lo(6)] by blast
  have "list_all (\<lambda>l. fl_type l = F_RDLCK \<or> fl_type l = F_WRLCK) (pre @ rest)"
    using types_of_pieces inv(1) lo(7) unfolding locks_inv_def by blast
  then show ?thesis using g c d ty lo(1,3,5) by (simp add: locks_inv_def)
qed

lemma lock_result:
  assumes inv: "locks_inv ls" and post: "loop_post r ls r' (pre @ rest)"
  shows "held_by (pre @ [r'] @ rest) p x t \<longleftrightarrow> (if p = fl_owner r \<and> covers r x then t = fl_type r else held_by ls p x t)"
proof -
  have ok: "own_disjoint ls" "list_all lock_ok ls" using inv by (auto simp: locks_inv_def)
  have sp: "held_by (pre @ [r'] @ rest) p x t \<longleftrightarrow> (p = fl_owner r \<and> covers r' x \<and> t = fl_type r) \<or> held_by (pre @ rest) p x t"
    unfolding held_by_append held_by_Cons using loop_postD(2,3) [OF post] by auto
  show ?thesis
  proof (cases "p = fl_owner r")
    case False
    then show ?thesis using sp post unfolding loop_post_def by metis
  next
    case own: True
    then have h: "held_by (pre @ rest) p x t \<longleftrightarrow> held_by ls p x t \<and> \<not> covers r' x" "covers r x \<Longrightarrow> covers r' x"
      using post unfolding loop_post_def by metis+
    moreover have "held_by ls p x t \<longleftrightarrow> t = fl_type r" if "covers r' x" "\<not> covers r x"
      using loop_postD(4) [OF post that] held_unique [OF ok] own by metis
    ultimately show ?thesis using sp own by metis
  qed
qed

section \<open>Properties\<close>

text \<open>C11: \<^verbatim>\<open>file_lock_acquire\<close> on a well-formed lock list.  A request that conflicts with a lock of another owner
  returns EAGAIN and changes nothing.  Any other request succeeds and leaves a well-formed list; on the bytes of the request
  its owner then holds exactly the requested type (nothing after an unlock), and every other byte and every
  other owner is as before, however the existing locks were merged, split, shortened or removed on the way.\<close>

theorem file_lock_acquire_correct:
  assumes inv: "locks_inv ls" and r: "lock_ok r" "fl_type r \<in> {F_RDLCK, F_WRLCK, F_UNLCK}"
  shows "if fl_type r \<noteq> F_UNLCK \<and> (\<exists>l \<in> set ls. file_locks_conflict l r) then file_lock_acquire ls r = (EAGAIN, ls)
    else fst (file_lock_acquire ls r) = 0 \<and> locks_inv (snd (file_lock_acquire ls r)) \<and>
      (\<forall>p x t. held_by (snd (file_lock_acquire ls r)) p x t \<longleftrightarrow>
        (if p = fl_owner r \<and> covers r x then t = fl_type r \<and> t \<noteq> F_UNLCK else held_by ls p x t))"
proof (cases "fl_type r \<noteq> F_UNLCK \<and> (\<exists>l \<in> set ls. file_locks_conflict l r)")
  case True
  then show ?thesis by (simp add: file_lock_acquire_def)
next
  case False
  obtain pre r' rest n where loop: "acquire_loop False r ls = (pre, r', rest, n)" by (metis prod_cases3)
  have ok: "list_all lock_ok ls" "own_disjoint ls" "grouped ls" using inv by (auto simp: locks_inv_def)
  have post: "loop_post r ls r' (pre @ rest)" using acquire_loop_post [OF loop ok(1) r(1) ok(2,3)] by simp
  have acq: "file_lock_acquire ls r = (0, if fl_type r \<noteq> F_UNLCK then pre @ [r'] @ rest else pre @ rest)"
    using False loop by (auto simp: file_lock_acquire_def)
  show ?thesis
  proof (cases "fl_type r = F_UNLCK")
    case True
    then show ?thesis using acq False unlock_result [OF inv r(1) loop post] by simp
  next
    case lock: False
    then show ?thesis using acq False r(2) lock_inv [OF inv r(1) loop post] lock_result [OF inv post] by auto
  qed
qed

theorem file_lock_acquire_correct_witness:
  "let mk = (\<lambda>s e t p. \<lparr>fl_start = s, fl_end = e, fl_type = t, fl_owner = p, fl_pid = 7\<rparr>);
       ls = [mk 0 9 F_WRLCK 1, mk 20 29 F_RDLCK 2]
   in locks_inv ls \<and> fst (file_lock_acquire ls (mk 3 5 F_UNLCK 1)) = 0 \<and>
      held_by (snd (file_lock_acquire ls (mk 3 5 F_UNLCK 1))) 1 2 F_WRLCK \<and>
      \<not> held_by (snd (file_lock_acquire ls (mk 3 5 F_UNLCK 1))) 1 4 F_WRLCK"
proof -
  define mk where "mk = (\<lambda>s e t p. \<lparr>fl_start = s, fl_end = e, fl_type = t, fl_owner = p, fl_pid = 7\<rparr>)"
  define ls where "ls = [mk 0 9 F_WRLCK 1, mk 20 29 F_RDLCK 2]"
  have inv: "locks_inv ls"
    by (simp add: ls_def mk_def locks_inv_def lock_ok_def own_disjoint_def no_conflicts_def file_locks_conflict_def file_locks_overlap_def)
  have "lock_ok (mk 3 5 F_UNLCK 1)" "fl_type (mk 3 5 F_UNLCK 1) \<in> {F_RDLCK, F_WRLCK, F_UNLCK}" by (simp_all add: mk_def lock_ok_def)
  from file_lock_acquire_correct [OF inv this]
  have "fst (file_lock_acquire ls (mk 3 5 F_UNLCK 1)) = 0 \<and>
      held_by (snd (file_lock_acquire ls (mk 3 5 F_UNLCK 1))) 1 2 F_WRLCK \<and>
      \<not> held_by (snd (file_lock_acquire ls (mk 3 5 F_UNLCK 1))) 1 4 F_WRLCK"
    by (simp add: mk_def covers_def) (simp add: ls_def mk_def held_by_def covers_def)
  then show ?thesis using inv by (simp add: Let_def ls_def mk_def)
qed

lemma flock_round_trip:
  assumes "lock_ok l" "0 \<le> fl_start l"
  shows "file_lock_from_flock lc fs (fl_owner l) (fl_pid l) (flock_from_file_lock l) = Inr l"
proof -
  have "s64 (fl_start l) = fl_start l" using assms by (intro s64_id) (auto simp: lock_ok_def)
  moreover have "s64 (fl_end l - fl_start l + 1) = fl_end l - fl_start l + 1" if "fl_end l \<noteq> OFF_T_MAX"
    using assms that by (intro s64_id) (auto simp: lock_ok_def)
  moreover have "s64 (fl_end l) = fl_end l" using assms by (intro s64_id) (auto simp: lock_ok_def)
  ultimately show ?thesis using assms
    by (cases "fl_end l = OFF_T_MAX") (simp_all add: file_lock_from_flock_def flock_from_file_lock_def lock_ok_def Let_def)
qed

text \<open>F_GETLK agrees with F_SETLK.  If some lock of another owner conflicts with the range asked about, the
  answer describes a conflicting lock exactly (reading the answer back as a lock gives that lock, the range up
  to the end of the file included); otherwise the answer is F_UNLCK and setting the lock would succeed.\<close>

theorem fcntl_getlk_reports_conflict:
  assumes "locks_inv ls" "\<forall>l \<in> set ls. 0 \<le> fl_start l" "fa_type fa \<in> {F_RDLCK, F_WRLCK}"
    "file_lock_from_flock lc fs owner pid fa = Inr request"
  shows "\<exists>fa'. fcntl_getlk lc fs owner pid ls fa = (0, fa') \<and>
    ((\<exists>l \<in> set ls. file_locks_conflict l request \<and> file_lock_from_flock lc fs (fl_owner l) (fl_pid l) fa' = Inr l) \<or>
     fa' = fa\<lparr>fa_type := F_UNLCK\<rparr> \<and> fst (file_lock_acquire ls request) = 0)"
proof (cases "file_lock_test ls request")
  case None
  then have "\<not> (\<exists>l \<in> set ls. file_locks_conflict l request)" by (auto simp: file_lock_test_def find_None_iff)
  then have "fst (file_lock_acquire ls request) = 0" by (auto simp: file_lock_acquire_def split: prod.splits)
  then show ?thesis using None assms(3,4) by (auto simp: fcntl_getlk_def)
next
  case (Some l)
  then have l: "l \<in> set ls" "file_locks_conflict l request" by (auto simp: file_lock_test_def find_Some_iff)
  then have "lock_ok l" "0 \<le> fl_start l" using assms(1,2) by (auto simp: locks_inv_def list_all_iff)
  then show ?thesis using Some l assms(3,4) flock_round_trip by (auto simp: fcntl_getlk_def)
qed

theorem fcntl_getlk_reports_conflict_witness:
  "\<exists>fa'. fcntl_getlk None (Inr 100) 2 8 [\<lparr>fl_start = 10, fl_end = OFF_T_MAX, fl_type = F_WRLCK, fl_owner = 1, fl_pid = 7\<rparr>]
     \<lparr>fa_type = F_RDLCK, fa_whence = LSEEK_END, fa_start = 0, fa_len = 5, fa_pid = 0\<rparr> = (0, fa')"
  using fcntl_getlk_reports_conflict [of "[\<lparr>fl_start = 10, fl_end = OFF_T_MAX, fl_type = F_WRLCK, fl_owner = 1, fl_pid = 7\<rparr>]"
     "\<lparr>fa_type = F_RDLCK, fa_whence = LSEEK_END, fa_start = 0, fa_len = 5, fa_pid = 0\<rparr>" None "Inr 100" 2 8
     "\<lparr>fl_start = 100, fl_end = 104, fl_type = F_RDLCK, fl_owner = 2, fl_pid = 8\<rparr>"]
  by (simp add: locks_inv_def lock_ok_def own_disjoint_def no_conflicts_def file_locks_conflict_def file_lock_from_flock_def s64_id) blast

end
