(* ===== verification/Fd_Table.thy ===== *)
theory Fd_Table
  imports File_Lock "HOL-Library.Monad_Syntax"
begin

text \<open>
  Descriptor tables: util/bits.h, fs/fd.c and the reference counts of fs/inode.c and fs/mount.c that closing a
  descriptor releases.  Objects reached by pointers (open files, tables, inodes, mounts) live in a store indexed by
  numbers; a freed object is absent.  A result \<^term>\<open>None\<close> is an execution the C code does not
  define: an access outside an array, a use of a freed object or a failed assertion.  Tables are locked by their own
  lock during each operation, so an operation is one step.  \<^verbatim>\<open>poll_cleanup_fd\<close> and the filesystems' close
  operations only contribute their results.
\<close>

section \<open>Bit sets\<close>

definition BITS_SIZE :: "nat \<Rightarrow> nat" where
  "BITS_SIZE bits = (if bits = 0 then (2 ^ 32 - 1) div 8 + 1 else (bits - 1) div 8 + 1)"

definition bit_test :: "nat \<Rightarrow> byte list \<Rightarrow> bool option" where
  "bit_test i data =
    (if i div 8 < length data then Some (data ! (i div 8) AND push_bit (i mod 8) 1 \<noteq> 0) else None)"

definition bit_set :: "nat \<Rightarrow> byte list \<Rightarrow> byte list option" where
  "bit_set i data =
    (if i div 8 < length data then Some (data[i div 8 := data ! (i div 8) OR push_bit (i mod 8) 1]) else None)"

definition bit_clear :: "nat \<Rightarrow> byte list \<Rightarrow> byte list option" where
  "bit_clear i data =
    (if i div 8 < length data then Some (data[i div 8 := data ! (i div 8) AND NOT (push_bit (i mod 8) 1)]) else None)"

section \<open>Data\<close>

text \<open>\<^verbatim>\<open>fd_ops_close\<close> is what the close operation of the file returns, if it has one, and \<^verbatim>\<open>fd_fs_close\<close>
  what the close operation of its filesystem returns, if that exists and is another one.  \<^verbatim>\<open>fd_own_flags\<close> says that
  the file implements its own flags.\<close>

record fd =
  fd_refcount :: nat
  fd_flags :: flags32
  fd_inode :: "nat option"
  fd_mount :: "nat option"
  fd_ops_close :: "int option"
  fd_fs_close :: "int option"
  fd_own_flags :: bool

record fdtable =
  ft_refcount :: nat
  ft_files :: "nat option list"
  ft_cloexec :: "byte list"

record inode_data =
  in_refcount :: nat
  in_mount :: nat
  in_locks :: "file_lock list"

record file_state =
  fds :: "nat \<Rightarrow> fd option"
  tables :: "nat \<Rightarrow> fdtable option"
  inodes :: "nat \<Rightarrow> inode_data option"
  mount_refs :: "nat \<Rightarrow> nat"

text \<open>What the calls depend on besides the tables: whether \<^verbatim>\<open>malloc\<close> succeeds for a table
  and for an array of a size, the NOFILE limit, the
  flag operations of files that have their own, and the parameters of the record locks.\<close>

record fd_env =
  alloc_table :: bool
  alloc :: "nat \<Rightarrow> bool"
  rlimit_nofile :: nat
  ops_getflags :: "nat \<Rightarrow> int"
  ops_setflags :: "nat \<Rightarrow> flags32 \<Rightarrow> int"
  lseek_cur :: "int option"
  fstat_size :: "int + int"
  cur_pid :: int
  lock_waits :: "(int \<times> file_lock list) list"

abbreviation (input) O_APPEND :: flags32 where "O_APPEND \<equiv> 1024"
abbreviation (input) O_NONBLOCK :: flags32 where "O_NONBLOCK \<equiv> 2048"
abbreviation (input) O_CLOEXEC :: flags32 where "O_CLOEXEC \<equiv> 524288"

section \<open>Reference counts\<close>

definition mount_retain :: "file_state \<Rightarrow> nat \<Rightarrow> file_state" where
  "mount_retain s m = s\<lparr>mount_refs := (mount_refs s)(m := mount_refs s m + 1)\<rparr>"

definition mount_release :: "file_state \<Rightarrow> nat \<Rightarrow> file_state" where
  "mount_release s m = s\<lparr>mount_refs := (mount_refs s)(m := mount_refs s m - 1)\<rparr>"

definition inode_retain :: "file_state \<Rightarrow> nat \<Rightarrow> file_state option" where
  "inode_retain s n = do {
     ino \<leftarrow> inodes s n;
     Some (s\<lparr>inodes := (inodes s)(n \<mapsto> ino\<lparr>in_refcount := in_refcount ino + 1\<rparr>)\<rparr>) }"

definition inode_release :: "file_state \<Rightarrow> nat \<Rightarrow> file_state option" where
  "inode_release s n = do {
     ino \<leftarrow> inodes s n;
     if in_refcount ino = 1
     then Some (mount_release (s\<lparr>inodes := (inodes s)(n := None)\<rparr>) (in_mount ino))
     else Some (s\<lparr>inodes := (inodes s)(n \<mapsto> ino\<lparr>in_refcount := in_refcount ino - 1\<rparr>)\<rparr>) }"

definition fd_retain :: "file_state \<Rightarrow> nat \<Rightarrow> file_state option" where
  "fd_retain s i = do {
     fd \<leftarrow> fds s i;
     Some (s\<lparr>fds := (fds s)(i \<mapsto> fd\<lparr>fd_refcount := fd_refcount fd + 1\<rparr>)\<rparr>) }"

definition fd_close :: "file_state \<Rightarrow> nat \<Rightarrow> (int \<times> file_state) option" where
  "fd_close s i = do {
     fd \<leftarrow> fds s i;
     if fd_refcount fd = 1 then do {
       let err = (case fd_ops_close fd of Some e \<Rightarrow> e | None \<Rightarrow> 0);
       let err = (case (fd_mount fd, fd_fs_close fd) of (Some m, Some e) \<Rightarrow> if e < 0 then e else err | _ \<Rightarrow> err);
       s \<leftarrow> (case fd_inode fd of Some n \<Rightarrow> inode_release s n | None \<Rightarrow> Some s);
       let s = (case fd_mount fd of Some m \<Rightarrow> mount_release s m | None \<Rightarrow> s);
       Some (err, s\<lparr>fds := (fds s)(i := None)\<rparr>)
     } else Some (0, s\<lparr>fds := (fds s)(i \<mapsto> fd\<lparr>fd_refcount := fd_refcount fd - 1\<rparr>)\<rparr>) }"

section \<open>Tables\<close>

definition put_table :: "file_state \<Rightarrow> nat \<Rightarrow> fdtable \<Rightarrow> file_state" where
  "put_table s tid t = s\<lparr>tables := (tables s)(tid \<mapsto> t)\<rparr>"

definition fdtable_resize :: "fd_env \<Rightarrow> fdtable \<Rightarrow> nat \<Rightarrow> (int \<times> fdtable) option" where
  "fdtable_resize E t sz =
    (if \<not> sz > length (ft_files t) then None
     else if \<not> alloc E (8 * sz) then Some (ENOMEM, t)
     else if \<not> alloc E (BITS_SIZE sz) then Some (ENOMEM, t)
     else do {
       cloexec \<leftarrow> (if ft_cloexec t = [] then Some (replicate (BITS_SIZE sz) 0)
                    else do {
                      old \<leftarrow> buf_load (ft_cloexec t) 0 (BITS_SIZE (length (ft_files t)));
                      buf_store (replicate (BITS_SIZE sz) 0) 0 old });
       Some (0, t\<lparr>ft_files := ft_files t @ replicate (sz - length (ft_files t)) None, ft_cloexec := cloexec\<rparr>) })"

definition fdtable_new :: "fd_env \<Rightarrow> int \<Rightarrow> (int + fdtable) option" where
  "fdtable_new E sz =
    (if \<not> alloc_table E then Some (Inl ENOMEM)
     else do {
       (err, t) \<leftarrow> fdtable_resize E \<lparr>ft_refcount = 1, ft_files = [], ft_cloexec = []\<rparr> (u32 sz);
       if err < 0 then Some (Inl err) else Some (Inr t) })"

definition fdtable_expand :: "fd_env \<Rightarrow> fdtable \<Rightarrow> int \<Rightarrow> (int \<times> fdtable) option" where
  "fdtable_expand E t max_fd =
    (let sz = u32 (max_fd + 1) in
     if sz > rlimit_nofile E then Some (EMFILE, t)
     else if length (ft_files t) \<ge> sz then Some (0, t)
     else fdtable_resize E t (u32 (max_fd + 1)))"

text \<open>The bound checked is that of the current task's table \<^verbatim>\<open>cur\<close>, whatever table is read.\<close>

definition fdtable_get :: "file_state \<Rightarrow> nat \<Rightarrow> nat \<Rightarrow> int \<Rightarrow> nat option option" where
  "fdtable_get s cur tid f = do {
     c \<leftarrow> tables s cur;
     t \<leftarrow> tables s tid;
     if f < 0 \<or> nat f \<ge> length (ft_files c) then Some None
     else if nat f < length (ft_files t) then Some (ft_files t ! nat f) else None }"

definition f_get :: "file_state \<Rightarrow> nat \<Rightarrow> int \<Rightarrow> nat option option" where
  "f_get s cur f = fdtable_get s cur cur f"

definition fdtable_close :: "file_state \<Rightarrow> nat \<Rightarrow> nat \<Rightarrow> int \<Rightarrow> (int \<times> file_state) option" where
  "fdtable_close s cur tid f = do {
     r \<leftarrow> fdtable_get s cur tid f;
     case r of
       None \<Rightarrow> Some (EBADF, s)
     | Some i \<Rightarrow> do {
         fd \<leftarrow> fds s i;
         s \<leftarrow> (case fd_inode fd of
                  None \<Rightarrow> Some s
                | Some n \<Rightarrow> do {
                    ino \<leftarrow> inodes s n;
                    Some (s\<lparr>inodes := (inodes s)(n \<mapsto> ino\<lparr>in_locks := file_lock_remove_owned_by (in_locks ino) tid\<rparr>)\<rparr>) });
         (err, s) \<leftarrow> fd_close s i;
         t \<leftarrow> tables s tid;
         cl \<leftarrow> bit_clear (nat f) (ft_cloexec t);
         Some (err, put_table s tid (t\<lparr>ft_files := (ft_files t)[nat f := None], ft_cloexec := cl\<rparr>)) } }"

text \<open>Closing the descriptors \<^verbatim>\<open>f, f+1, ..., f+n-1\<close> for which \<^verbatim>\<open>sel\<close> holds of the state at that time.\<close>

fun close_each :: "(file_state \<Rightarrow> nat \<Rightarrow> bool option) \<Rightarrow> file_state \<Rightarrow> nat \<Rightarrow> nat \<Rightarrow> nat \<Rightarrow> nat \<Rightarrow> file_state option" where
  "close_each sel s cur tid f 0 = Some s"
| "close_each sel s cur tid f (Suc n) = do {
     b \<leftarrow> sel s f;
     s \<leftarrow> (if b then map_option snd (fdtable_close s cur tid (int f)) else Some s);
     close_each sel s cur tid (f + 1) n }"

definition fdtable_release :: "file_state \<Rightarrow> nat \<Rightarrow> nat \<Rightarrow> file_state option" where
  "fdtable_release s cur tid = do {
     t \<leftarrow> tables s tid;
     let t = t\<lparr>ft_refcount := ft_refcount t - 1\<rparr>;
     let s = put_table s tid t;
     if ft_refcount t = 0 then do {
       s \<leftarrow> close_each (\<lambda>s f. Some True) s cur tid 0 (length (ft_files t));
       Some (s\<lparr>tables := (tables s)(tid := None)\<rparr>)
     } else Some s }"

fun retain_files :: "file_state \<Rightarrow> nat option list \<Rightarrow> file_state option" where
  "retain_files s [] = Some s"
| "retain_files s (None # fs) = retain_files s fs"
| "retain_files s (Some i # fs) = do { s \<leftarrow> fd_retain s i; retain_files s fs }"

text \<open>\<^verbatim>\<open>new_tid\<close> is the address of the new table.\<close>

definition fdtable_copy :: "fd_env \<Rightarrow> file_state \<Rightarrow> nat \<Rightarrow> nat \<Rightarrow> (int \<times> file_state) option" where
  "fdtable_copy E s tid new_tid = do {
     t \<leftarrow> tables s tid;
     r \<leftarrow> fdtable_new E (int (length (ft_files t)));
     case r of
       Inl err \<Rightarrow> Some (err, s)
     | Inr nt \<Rightarrow> do {
         s \<leftarrow> retain_files s (ft_files t);
         bits \<leftarrow> buf_load (ft_cloexec t) 0 (BITS_SIZE (length (ft_files t)));
         cl \<leftarrow> buf_store (ft_cloexec nt) 0 bits;
         Some (0, put_table s new_tid (nt\<lparr>ft_files := ft_files t, ft_cloexec := cl\<rparr>)) } }"

definition fdtable_do_cloexec :: "file_state \<Rightarrow> nat \<Rightarrow> nat \<Rightarrow> file_state option" where
  "fdtable_do_cloexec s cur tid = do {
     t \<leftarrow> tables s tid;
     close_each (\<lambda>s f. do { t \<leftarrow> tables s tid; bit_test f (ft_cloexec t) }) s cur tid 0 (length (ft_files t)) }"

section \<open>Calls\<close>

definition fd_getflags :: "fd_env \<Rightarrow> file_state \<Rightarrow> nat \<Rightarrow> int option" where
  "fd_getflags E s i = do {
     fd \<leftarrow> fds s i;
     Some (if fd_own_flags fd then ops_getflags E i else sint (fd_flags fd)) }"

abbreviation (input) FD_ALLOWED_FLAGS :: flags32 where "FD_ALLOWED_FLAGS \<equiv> O_APPEND OR O_NONBLOCK"

definition fd_setflags :: "fd_env \<Rightarrow> file_state \<Rightarrow> nat \<Rightarrow> flags32 \<Rightarrow> (int \<times> file_state) option" where
  "fd_setflags E s i flags = do {
     fd \<leftarrow> fds s i;
     if fd_own_flags fd then Some (ops_setflags E i flags, s)
     else Some (0, s\<lparr>fds := (fds s)(i \<mapsto> fd\<lparr>fd_flags :=
       (fd_flags fd AND NOT FD_ALLOWED_FLAGS) OR (flags AND FD_ALLOWED_FLAGS)\<rparr>)\<rparr>) }"

function free_slot :: "nat option list \<Rightarrow> nat \<Rightarrow> nat \<Rightarrow> nat" where
  "free_slot files f sz = (if f < sz then if files ! f = None then f else free_slot files (f + 1) sz else f)"
  by auto
termination by (relation "measure (\<lambda>(files, f, sz). sz - f)") auto

declare free_slot.simps [simp del]

definition f_install_start :: "fd_env \<Rightarrow> file_state \<Rightarrow> nat \<Rightarrow> nat \<Rightarrow> int \<Rightarrow> (int \<times> file_state) option" where
  "f_install_start E s cur i start =
    (if \<not> start \<ge> 0 then None
     else do {
       t \<leftarrow> tables s cur;
       let sz = rlimit_nofile E mod 2 ^ 32;
       let sz = (if sz > length (ft_files t) then length (ft_files t) else sz);
       let f = free_slot (ft_files t) (nat start) sz;
       (f, t) \<leftarrow> (if f \<ge> sz then do {
                       (err, t) \<leftarrow> fdtable_expand E t (int f);
                       Some (if err < 0 then err else int f, t) }
                    else Some (int f, t));
       if f \<ge> 0 then
         if nat f < length (ft_files t) then do {
           cl \<leftarrow> bit_clear (nat f) (ft_cloexec t);
           Some (f, put_table s cur (t\<lparr>ft_files := (ft_files t)[nat f := Some i], ft_cloexec := cl\<rparr>))
         } else None
       else do {
         (_, s) \<leftarrow> fd_close (put_table s cur t) i;
         Some (f, s) } })"

definition set_cloexec :: "file_state \<Rightarrow> nat \<Rightarrow> int \<Rightarrow> file_state option" where
  "set_cloexec s tid f = do {
     t \<leftarrow> tables s tid;
     cl \<leftarrow> bit_set (u64 f) (ft_cloexec t);
     Some (put_table s tid (t\<lparr>ft_cloexec := cl\<rparr>)) }"

definition f_install :: "fd_env \<Rightarrow> file_state \<Rightarrow> nat \<Rightarrow> nat \<Rightarrow> flags32 \<Rightarrow> (int \<times> file_state) option" where
  "f_install E s cur i flags = do {
     (f, s) \<leftarrow> f_install_start E s cur i 0;
     if f \<ge> 0 then do {
       s \<leftarrow> (if flags AND O_CLOEXEC \<noteq> 0 then set_cloexec s cur f else Some s);
       (_, s) \<leftarrow> (if flags AND O_NONBLOCK \<noteq> 0 then fd_setflags E s i O_NONBLOCK else Some (0, s));
       Some (f, s)
     } else Some (f, s) }"

definition f_close :: "file_state \<Rightarrow> nat \<Rightarrow> int \<Rightarrow> (int \<times> file_state) option" where
  "f_close s cur f = fdtable_close s cur cur f"

definition sys_close :: "file_state \<Rightarrow> nat \<Rightarrow> int \<Rightarrow> (int \<times> file_state) option" where
  "sys_close s cur f = f_close s cur f"

abbreviation (input) CLOSE_RANGE_UNSHARE :: flags32 where "CLOSE_RANGE_UNSHARE \<equiv> 2"
abbreviation (input) CLOSE_RANGE_CLOEXEC :: flags32 where "CLOSE_RANGE_CLOEXEC \<equiv> 4"

fun cloexec_each :: "file_state \<Rightarrow> nat \<Rightarrow> nat \<Rightarrow> nat \<Rightarrow> file_state option" where
  "cloexec_each s tid f 0 = Some s"
| "cloexec_each s tid f (Suc n) = do {
     t \<leftarrow> tables s tid;
     s \<leftarrow> (if ft_files t ! f \<noteq> None then set_cloexec s tid (int f) else Some s);
     cloexec_each s tid (f + 1) n }"

definition sys_close_range :: "file_state \<Rightarrow> nat \<Rightarrow> nat \<Rightarrow> nat \<Rightarrow> flags32 \<Rightarrow> (int \<times> file_state) option" where
  "sys_close_range s cur first last_f flags =
    (if flags AND NOT (CLOSE_RANGE_UNSHARE OR CLOSE_RANGE_CLOEXEC) \<noteq> 0 then Some (EINVAL, s)
     else if first > last_f then Some (EINVAL, s)
     else do {
       t \<leftarrow> tables s cur;
       let sz = length (ft_files t);
       if sz = 0 then Some (0, s)
       else do {
         let capped_last = (if last_f \<ge> sz then sz - 1 else last_f);
         if first \<ge> sz \<or> first > capped_last then Some (0, s)
         else if flags AND CLOSE_RANGE_CLOEXEC \<noteq> 0 then do {
           s \<leftarrow> cloexec_each s cur first (capped_last + 1 - first);
           Some (0, s) }
         else do {
           s \<leftarrow> close_each (\<lambda>s f. do { t \<leftarrow> tables s cur; Some (ft_files t ! f \<noteq> None) }) s cur cur first (capped_last + 1 - first);
           Some (0, s) } } })"

definition sys_dup :: "fd_env \<Rightarrow> file_state \<Rightarrow> nat \<Rightarrow> int \<Rightarrow> (int \<times> file_state) option" where
  "sys_dup E s cur f = do {
     r \<leftarrow> f_get s cur f;
     case r of
       None \<Rightarrow> Some (EBADF, s)
     | Some i \<Rightarrow> do { s \<leftarrow> fd_retain s i; f_install E s cur i 0 } }"

definition sys_dup3 :: "fd_env \<Rightarrow> file_state \<Rightarrow> nat \<Rightarrow> int \<Rightarrow> int \<Rightarrow> flags32 \<Rightarrow> (int \<times> file_state) option" where
  "sys_dup3 E s cur f new_f flags = do {
     r \<leftarrow> f_get s cur f;
     case r of
       None \<Rightarrow> Some (EBADF, s)
     | Some i \<Rightarrow> do {
         t \<leftarrow> tables s cur;
         (err, t) \<leftarrow> fdtable_expand E t new_f;
         let s = put_table s cur t;
         if err < 0 then Some (err, s)
         else do {
           s \<leftarrow> fd_retain s i;
           (_, s) \<leftarrow> f_close s cur new_f;
           t \<leftarrow> tables s cur;
           if 0 \<le> new_f \<and> nat new_f < length (ft_files t) then do {
             let s = put_table s cur (t\<lparr>ft_files := (ft_files t)[nat new_f := Some i]\<rparr>);
             s \<leftarrow> (if flags AND O_CLOEXEC \<noteq> 0 then set_cloexec s cur new_f else Some s);
             Some (new_f, s)
           } else None } } }"

definition sys_dup2 :: "fd_env \<Rightarrow> file_state \<Rightarrow> nat \<Rightarrow> int \<Rightarrow> int \<Rightarrow> (int \<times> file_state) option" where
  "sys_dup2 E s cur f new_f = sys_dup3 E s cur f new_f 0"

text \<open>A descriptor without inode (a pipe, a socket) makes the lock calls dereference a null pointer once their
  checks have passed.  \<^verbatim>\<open>fd_setlk\<close> gives \<^verbatim>\<open>Some None\<close> when the caller is still waiting.\<close>

definition fd_getlk :: "fd_env \<Rightarrow> file_state \<Rightarrow> nat \<Rightarrow> nat \<Rightarrow> flock_arg \<Rightarrow> (int \<times> flock_arg) option" where
  "fd_getlk E s cur i fa = do {
     fd \<leftarrow> fds s i;
     case fd_inode fd of
       Some n \<Rightarrow> do {
         ino \<leftarrow> inodes s n;
         Some (fcntl_getlk (lseek_cur E) (fstat_size E) cur (cur_pid E) (in_locks ino) fa) }
     | None \<Rightarrow> if fa_type fa \<noteq> F_RDLCK \<and> fa_type fa \<noteq> F_WRLCK then Some (EINVAL, fa) else None }"

definition fd_setlk :: "fd_env \<Rightarrow> file_state \<Rightarrow> nat \<Rightarrow> nat \<Rightarrow> flock_arg \<Rightarrow> bool \<Rightarrow> (int \<times> file_state) option option" where
  "fd_setlk E s cur i fa blocking = do {
     fd \<leftarrow> fds s i;
     flags \<leftarrow> fd_getflags E s i;
     case fd_inode fd of
       Some n \<Rightarrow> do {
         ino \<leftarrow> inodes s n;
         Some (map_option (\<lambda>(err, ls). (err, s\<lparr>inodes := (inodes s)(n \<mapsto> ino\<lparr>in_locks := ls\<rparr>)\<rparr>))
           (fcntl_setlk (lseek_cur E) (fstat_size E) cur (cur_pid E) (word_of_int flags) blocking (lock_waits E) (in_locks ino) fa)) }
     | None \<Rightarrow>
         if fa_type fa \<noteq> F_RDLCK \<and> fa_type fa \<noteq> F_WRLCK \<and> fa_type fa \<noteq> F_UNLCK then Some (Some (EINVAL, s))
         else if fa_type fa = F_RDLCK \<and> (word_of_int flags :: flags32) AND 3 = 1 then Some (Some (EBADF, s))
         else if fa_type fa = F_WRLCK \<and> (word_of_int flags :: flags32) AND 3 = 0 then Some (Some (EBADF, s))
         else None }"

abbreviation (input) F_DUPFD :: nat where "F_DUPFD \<equiv> 0"
abbreviation (input) F_GETFD :: nat where "F_GETFD \<equiv> 1"
abbreviation (input) F_SETFD :: nat where "F_SETFD \<equiv> 2"
abbreviation (input) F_GETFL :: nat where "F_GETFL \<equiv> 3"
abbreviation (input) F_SETFL :: nat where "F_SETFL \<equiv> 4"
abbreviation (input) F_GETLK :: nat where "F_GETLK \<equiv> 5"
abbreviation (input) F_SETLK :: nat where "F_SETLK \<equiv> 6"
abbreviation (input) F_SETLKW :: nat where "F_SETLKW \<equiv> 7"
abbreviation (input) F_GETLK64 :: nat where "F_GETLK64 \<equiv> 12"
abbreviation (input) F_SETLK64 :: nat where "F_SETLK64 \<equiv> 13"
abbreviation (input) F_SETLKW64 :: nat where "F_SETLKW64 \<equiv> 14"
abbreviation (input) F_DUPFD_CLOEXEC :: nat where "F_DUPFD_CLOEXEC \<equiv> 1030"

text \<open>The narrowing of the answer to the 32-bit structure of the caller.\<close>

definition flock32_of :: "flock_arg \<Rightarrow> flock_arg" where
  "flock32_of fa = fa\<lparr>fa_start := fa_start fa mod 2 ^ 32, fa_len := fa_len fa mod 2 ^ 32\<rparr>"

text \<open>How a call of \<^verbatim>\<open>fcntl\<close> ends: undefined behaviour, still waiting for a lock, or a result with the state and
  the structure written to the caller's memory, if one is.\<close>

datatype fcntl_result = Undefined | Waiting | Returns int file_state "flock_arg option"

definition returns :: "(int \<times> file_state) option \<Rightarrow> fcntl_result" where
  "returns r = (case r of None \<Rightarrow> Undefined | Some (v, s) \<Rightarrow> Returns v s None)"

definition locked :: "(int \<times> file_state) option option \<Rightarrow> fcntl_result" where
  "locked r = (case r of None \<Rightarrow> Undefined | Some None \<Rightarrow> Waiting | Some (Some (v, s)) \<Rightarrow> Returns v s None)"

text \<open>\<^verbatim>\<open>uflock\<close> is the lock structure read from the argument (\<^term>\<open>None\<close> for a fault) and \<^verbatim>\<open>uwrite\<close> says
  whether writing it back succeeds.\<close>

definition sys_fcntl ::
  "fd_env \<Rightarrow> file_state \<Rightarrow> nat \<Rightarrow> int \<Rightarrow> nat \<Rightarrow> nat \<Rightarrow> flock_arg option \<Rightarrow> bool \<Rightarrow> fcntl_result" where
  "sys_fcntl E s cur f cmd arg uflock uwrite =
    (case f_get s cur f of
       None \<Rightarrow> Undefined
     | Some None \<Rightarrow> Returns EBADF s None
     | Some (Some i) \<Rightarrow>
         if cmd = F_DUPFD then
           returns (do { s \<leftarrow> fd_retain s i; f_install_start E s cur i (s32 (int arg)) })
         else if cmd = F_DUPFD_CLOEXEC then
           returns (do {
             s \<leftarrow> fd_retain s i;
             (new_f, s) \<leftarrow> f_install_start E s cur i (s32 (int arg));
             s \<leftarrow> set_cloexec s cur new_f;
             Some (new_f, s) })
         else if cmd = F_GETFD then
           returns (do {
             t \<leftarrow> tables s cur;
             b \<leftarrow> bit_test (nat f) (ft_cloexec t);
             Some (of_bool b, s) })
         else if cmd = F_SETFD then
           returns (do {
             t \<leftarrow> tables s cur;
             cl \<leftarrow> (if (of_nat arg :: 64 word) AND 1 \<noteq> 0 then bit_set (nat f) (ft_cloexec t) else bit_clear (nat f) (ft_cloexec t));
             Some (0, put_table s cur (t\<lparr>ft_cloexec := cl\<rparr>)) })
         else if cmd = F_GETFL then returns (do { v \<leftarrow> fd_getflags E s i; Some (v, s) })
         else if cmd = F_SETFL then returns (fd_setflags E s i (of_nat arg))
         else if cmd = F_GETLK then
           (case uflock of
              None \<Rightarrow> Returns EFAULT s None
            | Some fa \<Rightarrow>
                (case fd_getlk E s cur i fa of
                   None \<Rightarrow> Undefined
                 | Some (err, fa') \<Rightarrow>
                     if err \<ge> 0 then if uwrite then Returns err s (Some (flock32_of fa')) else Returns EFAULT s None
                     else Returns err s None))
         else if cmd = F_GETLK64 then
           (case uflock of
              None \<Rightarrow> Returns EFAULT s None
            | Some fa \<Rightarrow>
                (case fd_getlk E s cur i fa of
                   None \<Rightarrow> Undefined
                 | Some (err, fa') \<Rightarrow>
                     if err \<ge> 0 then if uwrite then Returns err s (Some fa') else Returns EFAULT s None
                     else Returns err s None))
         else if cmd = F_SETLK \<or> cmd = F_SETLKW then
           (case uflock of
              None \<Rightarrow> Returns EFAULT s None
            | Some fa \<Rightarrow> locked (fd_setlk E s cur i fa (cmd = F_SETLKW64)))
         else if cmd = F_SETLK64 \<or> cmd = F_SETLKW64 then
           (case uflock of
              None \<Rightarrow> Returns EFAULT s None
            | Some fa \<Rightarrow> locked (fd_setlk E s cur i fa (cmd = F_SETLKW)))
         else Returns EINVAL s None)"

definition sys_fcntl32 ::
  "fd_env \<Rightarrow> file_state \<Rightarrow> nat \<Rightarrow> int \<Rightarrow> nat \<Rightarrow> nat \<Rightarrow> flock_arg option \<Rightarrow> bool \<Rightarrow> fcntl_result" where
  "sys_fcntl32 E s cur f cmd arg uflock uwrite =
    (if cmd \<in> {F_GETLK64, F_SETLK64, F_SETLKW64} then Returns EINVAL s None
     else sys_fcntl E s cur f cmd arg uflock uwrite)"

end
