(* ===== verification/Refcounts.thy ===== *)
theory Refcounts
  imports "HOL-Library.Monad_Syntax" "HOL-Library.Word"
begin

text \<open>
  Reference counting in general: \<^verbatim>\<open>refs_of g v\<close> is the number of places that refer to the object \<^verbatim>\<open>v\<close>, for a
  partial function \<^verbatim>\<open>g\<close> from places to objects.  A rule for each way of changing one place relates the counts
  before and after.  \<^verbatim>\<open>gives m P\<close> says that the partial computation \<^verbatim>\<open>m\<close> is defined and that its result
  satisfies \<^verbatim>\<open>P\<close>; its rules drive the proofs about code in the option monad.
\<close>

section \<open>Counting references\<close>

definition refs_of :: "('k \<Rightarrow> 'v option) \<Rightarrow> 'v \<Rightarrow> nat" where
  "refs_of g v = card {k. g k = Some v}"

lemma finite_refs: "finite (dom g) \<Longrightarrow> finite {k. g k = Some v}"
  by (rule finite_subset [of _ "dom g"]) auto

lemma refs_of_change:
  assumes "finite (dom g)"
  shows "refs_of (g(k := x)) v + of_bool (g k = Some v) = refs_of g v + of_bool (x = Some v)"
proof -
  let ?S = "{k. g k = Some v}"
  have "{k'. (g(k := x)) k' = Some v} = (if x = Some v then insert k ?S else ?S - {k})" by auto
  then show ?thesis using finite_refs [OF assms, of v] card_Suc_Diff1 [of ?S k]
    by (cases "x = Some v"; cases "g k = Some v") (auto simp: refs_of_def card_insert_if insert_absorb)
qed

lemma refs_of_pos: "finite (dom g) \<Longrightarrow> g k = Some v \<Longrightarrow> 0 < refs_of g v"
  using card_gt_0_iff [of "{k. g k = Some v}"] finite_refs [of g v] by (auto simp: refs_of_def)

lemma refs_of_set: "finite (dom g) \<Longrightarrow> g k = None \<Longrightarrow> refs_of (g(k \<mapsto> w)) v = refs_of g v + of_bool (v = w)"
  using refs_of_change [of g k "Some w" v] by auto

lemma refs_of_clear: "finite (dom g) \<Longrightarrow> g k = Some w \<Longrightarrow> refs_of (g(k := None)) v = refs_of g v - of_bool (v = w)"
  using refs_of_change [of g k None v] by auto

lemma refs_of_empty [simp]: "refs_of (\<lambda>_. None) v = 0"
  by (simp add: refs_of_def)

section \<open>Defined computations\<close>

definition gives :: "'a option \<Rightarrow> ('a \<Rightarrow> bool) \<Rightarrow> bool" where
  "gives m P \<longleftrightarrow> (\<exists>x. m = Some x \<and> P x)"

lemma gives_Some [simp]: "gives (Some x) P \<longleftrightarrow> P x"
  by (simp add: gives_def)

lemma gives_None [simp]: "\<not> gives None P"
  by (simp add: gives_def)

lemma gives_bind: "gives m Q \<Longrightarrow> (\<And>x. Q x \<Longrightarrow> gives (f x) P) \<Longrightarrow> gives (m \<bind> f) P"
  by (auto simp: gives_def)

lemma gives_bind_Some: "m = Some x \<Longrightarrow> gives (f x) P \<Longrightarrow> gives (m \<bind> f) P"
  by simp

lemma gives_mono: "gives m Q \<Longrightarrow> (\<And>x. Q x \<Longrightarrow> P x) \<Longrightarrow> gives m P"
  by (auto simp: gives_def)

lemma gives_map_option [simp]: "gives (map_option f m) P \<longleftrightarrow> gives m (\<lambda>x. P (f x))"
  by (auto simp: gives_def)

lemma gives_if: "(b \<Longrightarrow> gives m P) \<Longrightarrow> (\<not> b \<Longrightarrow> gives m' P) \<Longrightarrow> gives (if b then m else m') P"
  by simp

lemma givesE: "gives m P \<Longrightarrow> (\<And>x. m = Some x \<Longrightarrow> P x \<Longrightarrow> thesis) \<Longrightarrow> thesis"
  by (auto simp: gives_def)

end
