(* ===== verification/Fd_Table_Laws.thy ===== *)
theory Fd_Table_Laws
  imports Fd_Table Refcounts
begin

text \<open>
  The reference-count invariant of descriptor tables.  Every open file is counted once for each table slot that holds it
  plus once for each reference held elsewhere (\<^verbatim>\<open>ext\<close>); every inode once for each open file on it plus
  \<^verbatim>\<open>extn\<close>.  Objects without references are freed.  Under the invariant the calls on the current table are
  defined and keep it, with the exceptions shown at the end.
\<close>

section \<open>Bit sets\<close>

definition bits_of :: "byte list \<Rightarrow> nat set" where
  "bits_of data = {i. i div 8 < length data \<and> bit (data ! (i div 8)) (i mod 8)}"

lemma mask_bit: "j < 8 \<Longrightarrow> bit (2 ^ j :: byte) k \<longleftrightarrow> k = j"
  by (auto simp: bit_simps)

lemma and_mask: "j < 8 \<Longrightarrow> (c :: byte) AND push_bit j 1 = 0 \<longleftrightarrow> \<not> bit c j"
proof (rule iffI)
  assume j: "j < 8" and "c AND push_bit j 1 = 0"
  then have "\<not> bit (c AND push_bit j 1) j" by simp
  then show "\<not> bit c j" using j by (simp add: bit_and_iff mask_bit)
next
  assume "j < 8" "\<not> bit c j"
  then show "c AND push_bit j 1 = 0" by (intro bit_eqI) (auto simp: bit_and_iff mask_bit)
qed

lemma same_bit: "i div 8 = x div 8 \<Longrightarrow> x mod 8 = i mod 8 \<Longrightarrow> x = (i :: nat)"
  by (metis div_mult_mod_eq)

lemma bit_test_bits: "i div 8 < length data \<Longrightarrow> bit_test i data = Some (i \<in> bits_of data)"
  using and_mask [of "i mod 8"] by (simp add: bit_test_def bits_of_def)

lemma bit_set_bits:
  assumes "i div 8 < length data"
  shows "\<exists>data'. bit_set i data = Some data' \<and> length data' = length data \<and> bits_of data' = insert i (bits_of data)"
  using assms by (auto simp: bit_set_def bits_of_def nth_list_update bit_or_iff mask_bit split: if_splits
      dest: same_bit)

lemma bit_clear_bits:
  assumes "i div 8 < length data"
  shows "\<exists>data'. bit_clear i data = Some data' \<and> length data' = length data \<and> bits_of data' = bits_of data - {i}"
  using assms by (auto simp: bit_clear_def bits_of_def nth_list_update bit_and_iff bit_not_iff mask_bit split: if_splits
      dest: same_bit)

section \<open>The invariant\<close>

definition table_ok :: "fdtable \<Rightarrow> bool" where
  "table_ok t \<longleftrightarrow> ft_files t \<noteq> [] \<and> length (ft_files t) \<le> 2 ^ 31 \<and> length (ft_cloexec t) = BITS_SIZE (length (ft_files t))"

definition slot :: "file_state \<Rightarrow> nat \<times> nat \<Rightarrow> nat option" where
  "slot s = (\<lambda>(tid, f). case tables s tid of None \<Rightarrow> None | Some t \<Rightarrow> if f < length (ft_files t) then ft_files t ! f else None)"

definition file_inode :: "file_state \<Rightarrow> nat \<Rightarrow> nat option" where
  "file_inode s i = (case fds s i of None \<Rightarrow> None | Some fd \<Rightarrow> fd_inode fd)"

definition fd_count :: "file_state \<Rightarrow> nat \<Rightarrow> nat" where
  "fd_count s i = (case fds s i of None \<Rightarrow> 0 | Some fd \<Rightarrow> fd_refcount fd)"

definition in_count :: "file_state \<Rightarrow> nat \<Rightarrow> nat" where
  "in_count s n = (case inodes s n of None \<Rightarrow> 0 | Some ino \<Rightarrow> in_refcount ino)"

definition files_inv :: "(nat \<Rightarrow> nat) \<Rightarrow> (nat \<Rightarrow> nat) \<Rightarrow> file_state \<Rightarrow> bool" where
  "files_inv ext extn s \<longleftrightarrow>
    finite (dom (fds s)) \<and> finite (dom (tables s)) \<and>
    (\<forall>tid t. tables s tid = Some t \<longrightarrow> table_ok t) \<and>
    (\<forall>i. fd_count s i = refs_of (slot s) i + ext i) \<and>
    (\<forall>i fd. fds s i = Some fd \<longrightarrow> 0 < fd_refcount fd) \<and>
    (\<forall>n. in_count s n = refs_of (file_inode s) n + extn n) \<and>
    (\<forall>n ino. inodes s n = Some ino \<longrightarrow> 0 < in_refcount ino)"

lemma finite_slot: "files_inv ext extn s \<Longrightarrow> finite (dom (slot s))"
proof -
  assume "files_inv ext extn s"
  then have fin: "finite (dom (tables s))" by (simp add: files_inv_def)
  have "dom (slot s) \<subseteq> (\<Union>tid \<in> dom (tables s). {tid} \<times> {..<length (ft_files (the (tables s tid)))})"
    by (auto simp: slot_def dom_def split: option.splits if_splits)
  moreover have "finite (\<Union>tid \<in> dom (tables s). {tid} \<times> {..<length (ft_files (the (tables s tid)))})"
    using fin by simp
  ultimately show ?thesis by (rule finite_subset)
qed

lemma finite_file_inode: "files_inv ext extn s \<Longrightarrow> finite (dom (file_inode s))"
  by (rule finite_subset [of _ "dom (fds s)"]) (auto simp: files_inv_def file_inode_def dom_def split: option.splits)

lemma slot_put_table:
  assumes "tables s tid = Some t" "length (ft_files t') = length (ft_files t)" "ft_files t' = (ft_files t)[f := x]" "f < length (ft_files t)"
  shows "slot (put_table s tid t') = (slot s)((tid, f) := x)"
  using assms by (auto simp: slot_def put_table_def fun_eq_iff nth_list_update split: option.splits)

lemma tables_fields [simp]:
  "tables (mount_release s m) = tables s" "tables (mount_retain s m) = tables s" "fds (mount_release s m) = fds s"
  "inodes (mount_release s m) = inodes s"
  "fds (put_table s tid t) = fds s" "inodes (put_table s tid t) = inodes s" "tables (put_table s tid t) = (tables s)(tid \<mapsto> t)"
  "mount_refs (put_table s tid t) = mount_refs s"
  by (simp_all add: mount_release_def mount_retain_def put_table_def)

lemma slot_fields [simp]:
  "slot (s\<lparr>fds := x\<rparr>) = slot s" "slot (s\<lparr>inodes := y\<rparr>) = slot s" "slot (mount_release s m) = slot s"
  "file_inode (put_table s tid t) = file_inode s" "fd_count (put_table s tid t) = fd_count s"
  "in_count (put_table s tid t) = in_count s"
  "file_inode (mount_release s m) = file_inode s" "in_count (mount_release s m) = in_count s"
  "file_inode (s\<lparr>inodes := y\<rparr>) = file_inode s" "in_count (s\<lparr>fds := x\<rparr>) = in_count s"
  by (simp_all add: slot_def file_inode_def fd_count_def in_count_def fun_eq_iff)

text \<open>Storing a reference in an empty slot takes it from the ones held elsewhere; clearing a slot gives it back.\<close>

lemma files_inv_store:
  assumes inv: "files_inv ext extn s" and t: "tables s tid = Some t" "f < length (ft_files t)" "ft_files t ! f = None"
    and t': "ft_files t' = (ft_files t)[f := Some i]" "length (ft_cloexec t') = length (ft_cloexec t)" and ext: "0 < ext i"
  shows "files_inv (ext(i := ext i - 1)) extn (put_table s tid t')"
proof -
  have "slot s (tid, f) = None" using t by (simp add: slot_def)
  then have "refs_of (slot (put_table s tid t')) j = refs_of (slot s) j + of_bool (j = i)" for j
    using refs_of_set [OF finite_slot [OF inv]] slot_put_table [OF t(1) _ t'(1) t(2)] t'(1) by simp
  then show ?thesis using inv t t' ext by (auto simp: files_inv_def table_ok_def)
qed

lemma files_inv_clear:
  assumes inv: "files_inv ext extn s" and t: "tables s tid = Some t" "f < length (ft_files t)" "ft_files t ! f = Some i"
    and t': "ft_files t' = (ft_files t)[f := None]" "length (ft_cloexec t') = length (ft_cloexec t)"
  shows "files_inv (ext(i := ext i + 1)) extn (put_table s tid t')"
proof -
  have sl: "slot s (tid, f) = Some i" using t by (simp add: slot_def)
  then have "refs_of (slot (put_table s tid t')) j = refs_of (slot s) j - of_bool (j = i)" for j
    using refs_of_clear [OF finite_slot [OF inv]] slot_put_table [OF t(1) _ t'(1) t(2)] t'(1) by simp
  moreover have "0 < refs_of (slot s) i" using refs_of_pos [OF finite_slot [OF inv] sl] .
  ultimately show ?thesis using inv t t' by (auto simp: files_inv_def table_ok_def)
qed

section \<open>Retain and close\<close>

lemma live_fd: "files_inv ext extn s \<Longrightarrow> 0 < refs_of (slot s) i + ext i \<Longrightarrow> \<exists>fd. fds s i = Some fd"
  by (cases "fds s i") (force simp: files_inv_def fd_count_def dest: spec [of _ i])+

lemma live_slot:
  assumes "files_inv ext extn s" "tables s tid = Some t" "f < length (ft_files t)" "ft_files t ! f = Some i"
  shows "\<exists>fd. fds s i = Some fd"
proof -
  have "slot s (tid, f) = Some i" using assms by (simp add: slot_def)
  then show ?thesis using refs_of_pos [OF finite_slot [OF assms(1)]] live_fd [OF assms(1), of i] by fastforce
qed

lemma live_inode:
  assumes "files_inv ext extn s" "fds s i = Some fd" "fd_inode fd = Some n"
  shows "\<exists>ino. inodes s n = Some ino"
proof -
  have "file_inode s i = Some n" using assms by (simp add: file_inode_def)
  then have "0 < refs_of (file_inode s) n" using refs_of_pos [OF finite_file_inode [OF assms(1)]] by blast
  moreover have "in_count s n = refs_of (file_inode s) n + extn n" using assms(1) by (simp add: files_inv_def)
  ultimately show ?thesis by (cases "inodes s n") (auto simp: in_count_def)
qed

text \<open>Changing fields of an open file that the invariant does not mention, or the locks of an inode.\<close>

lemma file_inode_upd: "fds s i = Some fd \<Longrightarrow> fd_inode fd' = fd_inode fd \<Longrightarrow> file_inode (s\<lparr>fds := (fds s)(i \<mapsto> fd')\<rparr>) = file_inode s"
  by (auto simp: file_inode_def fun_eq_iff)

lemma files_inv_locks:
  "files_inv ext extn s \<Longrightarrow> inodes s n = Some ino \<Longrightarrow> files_inv ext extn (s\<lparr>inodes := (inodes s)(n \<mapsto> ino\<lparr>in_locks := ls\<rparr>)\<rparr>)"
  by (auto simp: files_inv_def fd_count_def in_count_def split: option.splits)

lemma files_inv_flags:
  assumes "files_inv ext extn s" "fds s i = Some fd"
  shows "files_inv ext extn (s\<lparr>fds := (fds s)(i \<mapsto> fd\<lparr>fd_flags := fl\<rparr>)\<rparr>)"
  using assms file_inode_upd [OF assms(2), of "fd\<lparr>fd_flags := fl\<rparr>"]
  by (auto simp: files_inv_def fd_count_def split: option.splits)

lemma fd_retain_law:
  assumes inv: "files_inv ext extn s" and i: "fds s i = Some fd"
  shows "gives (fd_retain s i) (\<lambda>s'. files_inv (ext(i := ext i + 1)) extn s' \<and> tables s' = tables s)"
  using inv i file_inode_upd [OF i, of "fd\<lparr>fd_refcount := fd_refcount fd + 1\<rparr>"]
  by (auto simp: fd_retain_def files_inv_def fd_count_def split: option.splits)

lemma inode_release_law:
  assumes "in_count s n = k" "0 < k" "\<forall>n ino. inodes s n = Some ino \<longrightarrow> 0 < in_refcount ino"
  shows "gives (inode_release s n) (\<lambda>s'. fds s' = fds s \<and> tables s' = tables s \<and>
    (\<forall>m. in_count s' m = in_count s m - of_bool (m = n)) \<and> (\<forall>n ino. inodes s' n = Some ino \<longrightarrow> 0 < in_refcount ino))"
  using assms by (cases "inodes s n") (auto simp: inode_release_def in_count_def mount_release_def split: option.splits)

text \<open>The state after the last reference to an open file is dropped: its inode reference goes with it.\<close>

lemma files_inv_free:
  assumes inv: "files_inv ext extn s" and i: "fds s i = Some fd" "fd_refcount fd = 1" "0 < ext i"
    and s': "fds s' = (fds s)(i := None)" "tables s' = tables s"
      "\<And>m. in_count s' m = in_count s m - of_bool (Some m = fd_inode fd)" "\<forall>n ino. inodes s' n = Some ino \<longrightarrow> 0 < in_refcount ino"
  shows "files_inv (ext(i := ext i - 1)) extn s'"
proof -
  have cnt: "fd_count s j = refs_of (slot s) j + ext j" "in_count s n = refs_of (file_inode s) n + extn n" for j n
    using inv by (auto simp: files_inv_def)
  have one: "refs_of (slot s) i = 0" "ext i = 1" using cnt(1) [of i] i by (auto simp: fd_count_def)
  have sl: "slot s' = slot s" using s'(2) by (simp add: slot_def fun_eq_iff)
  have fi: "file_inode s' = (file_inode s)(i := None)" using s'(1) by (auto simp: file_inode_def fun_eq_iff)
  have fin: "finite (dom (file_inode s))" using finite_file_inode [OF inv] .
  have ref: "in_count s' n = refs_of (file_inode s') n + extn n" for n
  proof (cases "fd_inode fd = Some n")
    case True
    then have k: "file_inode s i = Some n" using i by (simp add: file_inode_def)
    show ?thesis using s'(3) [of n] cnt(2) [of n] True refs_of_clear [OF fin k, of n] refs_of_pos [OF fin k] fi by simp
  next
    case False
    then have k: "file_inode s i \<noteq> Some n" using i by (simp add: file_inode_def)
    show ?thesis using s'(3) [of n] cnt(2) [of n] False refs_of_change [OF fin, of i None n] k fi by auto
  qed
  have "fd_count s' j = refs_of (slot s') j + (ext(i := ext i - 1)) j" for j
    using cnt(1) [of j] one sl s'(1) by (auto simp: fd_count_def)
  then show ?thesis using inv s' ref by (auto simp: files_inv_def split: if_splits)
qed

lemma fd_close_law:
  assumes inv: "files_inv ext extn s" and e: "0 < ext i"
  shows "gives (fd_close s i) (\<lambda>(err, s'). files_inv (ext(i := ext i - 1)) extn s' \<and> tables s' = tables s)"
proof -
  obtain fd where fd: "fds s i = Some fd" using live_fd [OF inv] e by fastforce
  show ?thesis
  proof (cases "fd_refcount fd = 1")
    case False
    have "1 < fd_refcount fd" using inv fd False by (auto simp: files_inv_def dest: spec [of _ i])
    then show ?thesis using inv fd False e file_inode_upd [OF fd, of "fd\<lparr>fd_refcount := fd_refcount fd - 1\<rparr>"]
      by (auto simp: fd_close_def files_inv_def fd_count_def split: option.splits)
  next
    case one: True
    have pos: "\<forall>n ino. inodes s n = Some ino \<longrightarrow> 0 < in_refcount ino" using inv by (simp add: files_inv_def)
    define rel where "rel = (case fd_inode fd of Some n \<Rightarrow> inode_release s n | None \<Rightarrow> Some s)"
    have "gives rel (\<lambda>s'. fds s' = fds s \<and> tables s' = tables s \<and>
      (\<forall>m. in_count s' m = in_count s m - of_bool (Some m = fd_inode fd)) \<and> (\<forall>n ino. inodes s' n = Some ino \<longrightarrow> 0 < in_refcount ino))"
    proof (cases "fd_inode fd")
      case (Some n)
      obtain ino where "inodes s n = Some ino" using live_inode [OF inv fd Some] by blast
      then have "0 < in_count s n" using pos by (simp add: in_count_def)
      then show ?thesis using inode_release_law [OF refl _ pos] Some by (simp add: rel_def)
    qed (use pos in \<open>simp add: rel_def\<close>)
    then obtain s1 where s1: "rel = Some s1" "fds s1 = fds s" "tables s1 = tables s"
      "\<And>m. in_count s1 m = in_count s m - of_bool (Some m = fd_inode fd)" "\<forall>n ino. inodes s1 n = Some ino \<longrightarrow> 0 < in_refcount ino"
      by (rule givesE) blast
    have "files_inv (ext(i := ext i - 1)) extn (s1\<lparr>fds := (fds s1)(i := None)\<rparr>)"
      by (rule files_inv_free [OF inv fd one e]) (use s1 in auto)
    moreover have "files_inv (ext(i := ext i - 1)) extn (mount_release s1 m\<lparr>fds := (fds s1)(i := None)\<rparr>)" for m
      by (rule files_inv_free [OF inv fd one e]) (use s1 in auto)
    ultimately show ?thesis using fd one s1(1,3) by (auto simp: fd_close_def Let_def rel_def split: option.splits)
  qed
qed

lemma inode_release_tables: "inode_release s n = Some s' \<Longrightarrow> tables s' = tables s"
  by (auto simp: inode_release_def split: Option.bind_splits if_splits)

lemma fd_close_tables: "fd_close s i = Some r \<Longrightarrow> tables (snd r) = tables s"
  by (auto simp: fd_close_def Let_def dest: inode_release_tables split: Option.bind_splits if_splits option.splits)

lemma put_table_commute:
  "put_table (s\<lparr>fds := x\<rparr>) tid t = put_table s tid t\<lparr>fds := x\<rparr>"
  "put_table (s\<lparr>inodes := y\<rparr>) tid t = put_table s tid t\<lparr>inodes := y\<rparr>"
  "put_table (mount_release s m) tid t = mount_release (put_table s tid t) m"
  by (simp_all add: put_table_def mount_release_def)

lemma inode_release_put_table:
  "inode_release (put_table s tid t) n = map_option (\<lambda>s. put_table s tid t) (inode_release s n)"
  by (cases "inodes s n") (auto simp: inode_release_def put_table_commute)

lemma fd_close_put_table:
  "fd_close (put_table s tid t) i = map_option (\<lambda>(err, s). (err, put_table s tid t)) (fd_close s i)"
  by (cases "fds s i") (auto simp: fd_close_def Let_def inode_release_put_table put_table_commute bind_map_option
      split: option.splits Option.bind_splits)

section \<open>Table operations\<close>

lemma table_ok_bits: "table_ok t \<Longrightarrow> f < length (ft_files t) \<Longrightarrow> f div 8 < length (ft_cloexec t)"
proof -
  assume "table_ok t" "f < length (ft_files t)"
  moreover from this have "f div 8 \<le> (length (ft_files t) - 1) div 8" by (intro div_le_mono) simp
  ultimately show ?thesis by (simp add: table_ok_def BITS_SIZE_def)
qed

lemma inv_table_ok: "files_inv ext extn s \<Longrightarrow> tables s tid = Some t \<Longrightarrow> table_ok t"
  by (simp add: files_inv_def)

lemma inv_same_slots:
  assumes "files_inv ext extn s" "tables s tid = Some t" "ft_files t' = ft_files t" "length (ft_cloexec t') = length (ft_cloexec t)"
  shows "files_inv ext extn (put_table s tid t')"
proof -
  have "slot (put_table s tid t') = slot s" using assms(2,3) by (auto simp: slot_def fun_eq_iff split: option.splits)
  then show ?thesis using assms by (auto simp: files_inv_def table_ok_def)
qed

definition closed_slot :: "nat \<Rightarrow> fdtable \<Rightarrow> fdtable \<Rightarrow> bool" where
  "closed_slot f t t' \<longleftrightarrow> ft_refcount t' = ft_refcount t \<and> ft_files t' = (ft_files t)[f := None] \<and>
    length (ft_cloexec t') = length (ft_cloexec t) \<and>
    bits_of (ft_cloexec t') = (if f < length (ft_files t) \<and> ft_files t ! f \<noteq> None then bits_of (ft_cloexec t) - {f} else bits_of (ft_cloexec t))"

lemma closed_slot_refl: "f < length (ft_files t) \<longrightarrow> ft_files t ! f = None \<Longrightarrow> closed_slot f t t"
  by (cases "f < length (ft_files t)") (simp_all add: closed_slot_def list_update_beyond, metis list_update_id)

lemma fdtable_close_bad:
  assumes "tables s cur = Some t" "f < 0 \<or> length (ft_files t) \<le> nat f \<or> ft_files t ! nat f = None"
  shows "fdtable_close s cur cur f = Some (EBADF, s)"
  using assms by (auto simp: fdtable_close_def fdtable_get_def)

lemma fdtable_close_law:
  assumes inv: "files_inv ext extn s" and t: "tables s cur = Some t"
  shows "gives (fdtable_close s cur cur (int f)) (\<lambda>(err, s'). files_inv ext extn s' \<and>
    (\<exists>t'. tables s' = (tables s)(cur \<mapsto> t') \<and> closed_slot f t t'))"
proof (cases "f < length (ft_files t) \<and> ft_files t ! f \<noteq> None")
  case False
  then have "closed_slot f t t" by (auto intro: closed_slot_refl)
  moreover have "tables s = (tables s)(cur \<mapsto> t)" using t by auto
  moreover have "fdtable_close s cur cur (int f) = Some (EBADF, s)" using fdtable_close_bad [OF t, of "int f"] False by auto
  ultimately show ?thesis using inv by fastforce
next
  case True
  then obtain i where i: "f < length (ft_files t)" "ft_files t ! f = Some i" by blast
  obtain fd where fd: "fds s i = Some fd" using live_slot [OF inv t i] by blast
  define s1 where "s1 = (case fd_inode fd of None \<Rightarrow> Some s | Some n \<Rightarrow> do { ino \<leftarrow> inodes s n;
    Some (s\<lparr>inodes := (inodes s)(n \<mapsto> ino\<lparr>in_locks := file_lock_remove_owned_by (in_locks ino) cur\<rparr>)\<rparr>) })"
  have "gives s1 (\<lambda>s'. files_inv ext extn s' \<and> tables s' = tables s)"
    using files_inv_locks [OF inv] live_inode [OF inv fd] inv by (cases "fd_inode fd") (auto simp: s1_def)
  then obtain s2 where s2: "s1 = Some s2" "files_inv ext extn s2" "tables s2 = tables s" by (rule givesE) blast
  obtain cl where cl: "bit_clear f (ft_cloexec t) = Some cl" "length cl = length (ft_cloexec t)" "bits_of cl = bits_of (ft_cloexec t) - {f}"
    using bit_clear_bits [OF table_ok_bits [OF inv_table_ok [OF inv t] i(1)]] by blast
  define t' where "t' = t\<lparr>ft_files := (ft_files t)[f := None], ft_cloexec := cl\<rparr>"
  have inv2: "files_inv (ext(i := ext i + 1)) extn (put_table s2 cur t')"
    by (rule files_inv_clear [OF s2(2) _ i]) (use s2(3) t cl(2) in \<open>simp_all add: t'_def\<close>)
  have pos: "0 < (ext(i := ext i + 1)) i" by simp
  have bk: "(ext(i := ext i + 1))(i := (ext(i := ext i + 1)) i - 1) = ext" by simp
  obtain r where r: "fd_close s2 i = Some r" "files_inv ext extn (put_table (snd r) cur t')"
    using fd_close_law [OF inv2 pos] unfolding bk by (auto simp: fd_close_put_table gives_def simp del: fun_upd_apply split: prod.splits)
  have "tables (snd r) = tables s"
    using fd_close_tables [OF r(1)] s2(3) by simp
  then have "fdtable_close s cur cur (int f) = Some (fst r, put_table (snd r) cur t')"
    using i t fd s2(1) r(1) cl(1) unfolding s1_def
    by (simp add: fdtable_close_def fdtable_get_def t'_def split_beta)
  moreover have "closed_slot f t t'" using True cl by (simp add: closed_slot_def t'_def)
  ultimately show ?thesis using r(2) \<open>tables (snd r) = tables s\<close> by auto
qed

lemma fdtable_close_law_int:
  assumes inv: "files_inv ext extn s" and t: "tables s cur = Some t"
  shows "gives (fdtable_close s cur cur f) (\<lambda>(err, s'). files_inv ext extn s' \<and>
    (\<exists>t'. tables s' = (tables s)(cur \<mapsto> t') \<and> (0 \<le> f \<longrightarrow> closed_slot (nat f) t t')))"
proof (cases "f < 0")
  case True
  moreover have "tables s = (tables s)(cur \<mapsto> t)" using t by auto
  moreover have "fdtable_close s cur cur f = Some (EBADF, s)" using fdtable_close_bad [OF t, of f] True by auto
  ultimately show ?thesis using inv by fastforce
next
  case False
  then show ?thesis using fdtable_close_law [OF inv t, of "nat f"] by simp
qed

text \<open>Closing the selected descriptors one after the other: the table after \<^verbatim>\<open>n\<close> steps has exactly the
  selected ones closed, where the selection only depends on the slot itself.\<close>

definition closed_where :: "(nat \<Rightarrow> bool) \<Rightarrow> fdtable \<Rightarrow> fdtable \<Rightarrow> bool" where
  "closed_where P t t' \<longleftrightarrow> ft_refcount t' = ft_refcount t \<and> length (ft_files t') = length (ft_files t) \<and>
    length (ft_cloexec t') = length (ft_cloexec t) \<and>
    (\<forall>f < length (ft_files t). ft_files t' ! f = (if P f then None else ft_files t ! f)) \<and>
    bits_of (ft_cloexec t') = {f \<in> bits_of (ft_cloexec t). \<not> (f < length (ft_files t) \<and> P f \<and> ft_files t ! f \<noteq> None)}"

lemma closed_where_refl: "(\<And>f. f < length (ft_files t) \<Longrightarrow> P f \<Longrightarrow> ft_files t ! f = None) \<Longrightarrow> closed_where P t t"
  by (auto simp: closed_where_def)

lemma closed_where_step:
  assumes u: "closed_where (\<lambda>g. P g \<and> g < f) t u" and u': "closed_slot f u u'" and f: "P f" "f < length (ft_files t)"
  shows "closed_where (\<lambda>g. P g \<and> g < Suc f) t u'"
proof -
  have "ft_files u ! f = ft_files t ! f" using u f by (simp add: closed_where_def)
  then have "bits_of (ft_cloexec u') = (if ft_files t ! f \<noteq> None then bits_of (ft_cloexec u) - {f} else bits_of (ft_cloexec u))"
    using u u' f by (simp add: closed_where_def closed_slot_def)
  moreover have "g < Suc f \<longleftrightarrow> g < f \<or> g = f" for g by auto
  ultimately have "bits_of (ft_cloexec u') =
    {g \<in> bits_of (ft_cloexec t). \<not> (g < length (ft_files t) \<and> (P g \<and> g < Suc f) \<and> ft_files t ! g \<noteq> None)}"
    using u f unfolding closed_where_def by auto
  moreover have "ft_files u' ! g = (if P g \<and> g < Suc f then None else ft_files t ! g)" if "g < length (ft_files t)" for g
    using u u' f that by (cases "g = f") (auto simp: closed_where_def closed_slot_def)
  ultimately show ?thesis using u u' by (simp add: closed_where_def closed_slot_def)
qed

lemma closed_where_skip:
  assumes "closed_where (\<lambda>g. P g \<and> g < f) t u" "\<not> P f"
  shows "closed_where (\<lambda>g. P g \<and> g < Suc f) t u"
  using assms unfolding closed_where_def by (auto simp: less_Suc_eq)

lemma close_each_law:
  assumes "files_inv ext extn s" "tables s cur = Some u" "closed_where (\<lambda>g. P g \<and> g < f) t u"
    "f + n \<le> length (ft_files t)"
    and sel: "\<And>s u g. tables s cur = Some u \<Longrightarrow> closed_where (\<lambda>h. P h \<and> h < g) t u \<Longrightarrow> f \<le> g \<Longrightarrow> g < f + n \<Longrightarrow>
      sel s g = Some (P g)"
  shows "gives (close_each sel s cur cur f n) (\<lambda>s'. files_inv ext extn s' \<and>
    (\<exists>u'. tables s' = (tables s)(cur \<mapsto> u') \<and> closed_where (\<lambda>g. P g \<and> g < f + n) t u'))"
  using assms
proof (induction n arbitrary: s u f)
  case 0
  then show ?case by (auto simp: fun_upd_idem intro!: exI [of _ u])
next
  case (Suc n)
  have b: "sel s f = Some (P f)" using Suc.prems(2,3,5) by simp
  have "gives (if P f then map_option snd (fdtable_close s cur cur (int f)) else Some s) (\<lambda>s1. files_inv ext extn s1 \<and>
    (\<exists>u1. tables s1 = (tables s)(cur \<mapsto> u1) \<and> closed_where (\<lambda>g. P g \<and> g < Suc f) t u1))"
  proof (cases "P f")
    case True
    then show ?thesis using fdtable_close_law [OF Suc.prems(1,2), of f] closed_where_step [OF Suc.prems(3)] Suc.prems(4)
      by (auto elim!: gives_mono)
  next
    case False
    then show ?thesis using Suc.prems(1,2) closed_where_skip [OF Suc.prems(3)] by (auto simp: fun_upd_idem intro!: exI [of _ u])
  qed
  then show ?case
  proof (rule givesE)
    fix s1 assume s1: "(if P f then map_option snd (fdtable_close s cur cur (int f)) else Some s) = Some s1"
      "files_inv ext extn s1 \<and> (\<exists>u1. tables s1 = (tables s)(cur \<mapsto> u1) \<and> closed_where (\<lambda>g. P g \<and> g < Suc f) t u1)"
    then obtain u1 where u1: "tables s1 = (tables s)(cur \<mapsto> u1)" "closed_where (\<lambda>g. P g \<and> g < Suc f) t u1" by blast
    have "gives (close_each sel s1 cur cur (Suc f) n) (\<lambda>s'. files_inv ext extn s' \<and>
      (\<exists>u'. tables s' = (tables s1)(cur \<mapsto> u') \<and> closed_where (\<lambda>g. P g \<and> g < Suc f + n) t u'))"
      by (rule Suc.IH) (use s1 u1 Suc.prems(4,5) in auto)
    moreover have "(tables s1)(cur \<mapsto> u') = (tables s)(cur \<mapsto> u')" for u' using u1(1) by simp
    ultimately show ?thesis using b s1(1) by (simp del: fun_upd_apply)
  qed
qed

lemma closed_where_total: "closed_where (\<lambda>g. P g \<and> g < length (ft_files t)) t u \<longleftrightarrow> closed_where P t u"
  by (auto simp: closed_where_def)

lemma closed_where_none: "closed_where (\<lambda>g. P g \<and> g < 0) t t"
  by (simp add: closed_where_refl)

lemma cloexec_selected:
  assumes "table_ok t" "closed_where (\<lambda>h. P h \<and> h < g) t u" "g < length (ft_files t)"
  shows "bit_test g (ft_cloexec u) = Some (g \<in> bits_of (ft_cloexec t))"
proof -
  have "g div 8 < length (ft_cloexec u)" using table_ok_bits [OF assms(1,3)] assms(2) by (simp add: closed_where_def)
  then show ?thesis using assms(2) by (simp add: bit_test_bits closed_where_def)
qed

lemma fdtable_do_cloexec_law:
  assumes inv: "files_inv ext extn s" and t: "tables s cur = Some t"
  shows "gives (fdtable_do_cloexec s cur cur) (\<lambda>s'. files_inv ext extn s' \<and>
    (\<exists>t'. tables s' = (tables s)(cur \<mapsto> t') \<and> closed_where (\<lambda>f. f \<in> bits_of (ft_cloexec t)) t t'))"
  using close_each_law [OF inv t closed_where_none, where n = "length (ft_files t)" and P = "\<lambda>f. f \<in> bits_of (ft_cloexec t)"
      and sel = "\<lambda>s f. do { t \<leftarrow> tables s cur; bit_test f (ft_cloexec t) }"] cloexec_selected [OF inv_table_ok [OF inv t]] t
  by (simp add: fdtable_do_cloexec_def closed_where_total del: fun_upd_apply)

lemma inv_drop_table:
  assumes inv: "files_inv ext extn s" and t: "tables s tid = Some t" "\<And>f. f < length (ft_files t) \<Longrightarrow> ft_files t ! f = None"
  shows "files_inv ext extn (s\<lparr>tables := (tables s)(tid := None)\<rparr>)"
proof -
  have "slot (s\<lparr>tables := (tables s)(tid := None)\<rparr>) = slot s"
    using t by (auto simp: slot_def fun_eq_iff split: option.splits)
  moreover have "finite (dom ((tables s)(tid := None)))" using inv by (simp add: files_inv_def)
  ultimately show ?thesis using inv
    by (auto simp: files_inv_def fd_count_def in_count_def file_inode_def [abs_def] split: if_splits)
qed

lemma fdtable_release_law:
  assumes inv: "files_inv ext extn s" and t: "tables s cur = Some t"
  shows "gives (fdtable_release s cur cur) (\<lambda>s'. files_inv ext extn s' \<and>
    tables s' = (tables s)(cur := if ft_refcount t \<le> 1 then None else Some (t\<lparr>ft_refcount := ft_refcount t - 1\<rparr>)))"
proof -
  define u where "u = t\<lparr>ft_refcount := ft_refcount t - 1\<rparr>"
  have inv1: "files_inv ext extn (put_table s cur u)" using inv_same_slots [OF inv t, of u] by (simp add: u_def)
  have tu: "tables (put_table s cur u) cur = Some u" by simp
  have "gives (close_each (\<lambda>s f. Some True) (put_table s cur u) cur cur 0 (length (ft_files u))) (\<lambda>s'. files_inv ext extn s' \<and>
    (\<exists>t'. tables s' = (tables (put_table s cur u))(cur \<mapsto> t') \<and> closed_where (\<lambda>f. True) u t'))"
    using close_each_law [OF inv1 tu closed_where_none, where P = "\<lambda>f. True" and n = "length (ft_files u)" and sel = "\<lambda>s f. Some True"]
      closed_where_total [of "\<lambda>f. True"]
    by (simp del: fun_upd_apply)
  then have "gives (do { s \<leftarrow> close_each (\<lambda>s f. Some True) (put_table s cur u) cur cur 0 (length (ft_files u));
      Some (s\<lparr>tables := (tables s)(cur := None)\<rparr>) }) (\<lambda>s'. files_inv ext extn s' \<and> tables s' = (tables s)(cur := None))"
    by (rule gives_bind) (auto simp: closed_where_def intro: inv_drop_table)
  then show ?thesis using inv1 t by (auto simp: fdtable_release_def u_def Let_def)
qed

section \<open>Growing and copying a table\<close>

text \<open>\<^verbatim>\<open>grown t t'\<close>: the table \<^verbatim>\<open>t'\<close> is \<^verbatim>\<open>t\<close> with empty slots added at its end.\<close>

definition grown :: "fdtable \<Rightarrow> fdtable \<Rightarrow> bool" where
  "grown t t' \<longleftrightarrow> ft_refcount t' = ft_refcount t \<and> (\<exists>n. ft_files t' = ft_files t @ replicate n None) \<and>
    table_ok t' \<and> bits_of (ft_cloexec t') = bits_of (ft_cloexec t)"

lemma grown_refl: "table_ok t \<Longrightarrow> grown t t"
  by (auto simp: grown_def intro: exI [of _ 0])

lemma files_inv_grown:
  assumes "files_inv ext extn s" "tables s tid = Some t" "grown t t'"
  shows "files_inv ext extn (put_table s tid t')"
proof -
  have "slot (put_table s tid t') = slot s"
    using assms(2,3) by (auto simp: slot_def grown_def fun_eq_iff nth_append split: option.splits)
  then show ?thesis using assms by (auto simp: files_inv_def grown_def)
qed

lemma bits_of_padded: "bits_of (xs @ replicate n 0) = bits_of xs"
proof -
  have "bit ((xs @ replicate n 0) ! k) j \<and> k < length xs + n \<longleftrightarrow> k < length xs \<and> bit (xs ! k) j" for k j
    by (cases "k < length xs") (auto simp: nth_append)
  then show ?thesis by (auto simp: bits_of_def)
qed

lemma BITS_SIZE_mono: "0 < a \<Longrightarrow> a \<le> b \<Longrightarrow> BITS_SIZE a \<le> BITS_SIZE b"
  by (simp add: BITS_SIZE_def div_le_mono)

lemma fdtable_resize_law:
  assumes ok: "table_ok t" and sz: "length (ft_files t) < sz" "sz \<le> 2 ^ 31"
  shows "\<exists>err t'. fdtable_resize E t sz = Some (err, t') \<and> grown t t' \<and>
    (err = 0 \<and> length (ft_files t') = sz \<or> err = ENOMEM \<and> t' = t \<and> \<not> (alloc E (8 * sz) \<and> alloc E (BITS_SIZE sz)))"
proof (cases "alloc E (8 * sz) \<and> alloc E (BITS_SIZE sz)")
  case False
  then show ?thesis using sz(1) grown_refl [OF ok] by (auto simp: fdtable_resize_def)
next
  case True
  let ?n = "length (ft_files t)"
  have le: "BITS_SIZE ?n \<le> BITS_SIZE sz" "BITS_SIZE ?n = length (ft_cloexec t)" "ft_cloexec t \<noteq> []"
    using BITS_SIZE_mono [of ?n sz] ok sz(1) by (auto simp: table_ok_def BITS_SIZE_def)
  have "buf_store (replicate (BITS_SIZE sz) 0) 0 (ft_cloexec t) = Some (ft_cloexec t @ replicate (BITS_SIZE sz - BITS_SIZE ?n) 0)"
    using le by (simp add: buf_store_def)
  then have r: "fdtable_resize E t sz = Some (0, t\<lparr>ft_files := ft_files t @ replicate (sz - ?n) None,
      ft_cloexec := ft_cloexec t @ replicate (BITS_SIZE sz - BITS_SIZE ?n) 0\<rparr>)"
    using True sz(1) le(2,3) by (simp add: fdtable_resize_def buf_load_def)
  show ?thesis unfolding r using sz le ok by (auto simp: grown_def table_ok_def bits_of_padded)
qed

lemma u32_id: "0 \<le> x \<Longrightarrow> x < 2 ^ 32 \<Longrightarrow> u32 x = nat x"
  by (simp add: u32_def)

lemma fdtable_expand_law:
  assumes ok: "table_ok t" and lim: "rlimit_nofile E \<le> 2 ^ 31"
  shows "\<exists>err t'. fdtable_expand E t (int f) = Some (err, t') \<and> grown t t' \<and>
    (err = 0 \<and> f < rlimit_nofile E \<and> f < length (ft_files t') \<or>
     t' = t \<and> (err = EMFILE \<and> rlimit_nofile E \<le> f \<or> err = ENOMEM \<and> length (ft_files t) \<le> f)) \<or> 2 ^ 32 \<le> f + 1"
proof (cases "f + 1 < 2 ^ 32")
  case True
  then have u: "u32 (int f + 1) = f + 1" by (simp add: u32_def nat_add_distrib)
  consider "rlimit_nofile E \<le> f" | "f < rlimit_nofile E" "f < length (ft_files t)" | "f < rlimit_nofile E" "length (ft_files t) \<le> f"
    by linarith
  then show ?thesis
  proof cases
    case 3
    then show ?thesis using fdtable_resize_law [OF ok, of "f + 1" E] lim by (auto simp: fdtable_expand_def Let_def u)
  qed (use grown_refl [OF ok] in \<open>auto simp: fdtable_expand_def Let_def u\<close>)
qed simp

lemma grownD:
  assumes "grown t t'"
  shows "table_ok t'" "\<And>g. g < length (ft_files t) \<Longrightarrow> ft_files t' ! g = ft_files t ! g"
    "\<And>g. length (ft_files t) \<le> g \<Longrightarrow> g < length (ft_files t') \<Longrightarrow> ft_files t' ! g = None"
    "length (ft_files t) \<le> length (ft_files t')" "bits_of (ft_cloexec t') = bits_of (ft_cloexec t)"
  using assms by (auto simp: grown_def nth_append)

section \<open>Installing a file\<close>

definition slot_at :: "fdtable \<Rightarrow> nat \<Rightarrow> nat option" where
  "slot_at t f = (if f < length (ft_files t) then ft_files t ! f else None)"

lemma free_slot_spec:
  "f \<le> free_slot files f sz \<and> (free_slot files f sz < sz \<longrightarrow> files ! free_slot files f sz = None) \<and>
   (\<forall>g. f \<le> g \<and> g < free_slot files f sz \<longrightarrow> g < sz \<and> files ! g \<noteq> None)"
proof (induction files f sz rule: free_slot.induct)
  case (1 files f sz)
  show ?case
  proof (cases "f < sz \<and> files ! f \<noteq> None")
    case True
    then have "free_slot files f sz = free_slot files (f + 1) sz" by (auto simp: free_slot.simps [of files f])
    moreover have "f \<le> g \<longleftrightarrow> g = f \<or> Suc f \<le> g" for g by auto
    ultimately show ?thesis using 1 True by (simp del: not_None_eq) blast
  qed (auto simp: free_slot.simps [of files f])
qed

definition installed :: "fdtable \<Rightarrow> nat \<Rightarrow> nat \<Rightarrow> fdtable \<Rightarrow> bool" where
  "installed t f i t' \<longleftrightarrow> ft_refcount t' = ft_refcount t \<and> table_ok t' \<and>
    (\<forall>g. slot_at t' g = (if g = f then Some i else slot_at t g)) \<and> bits_of (ft_cloexec t') = bits_of (ft_cloexec t) - {f}"

lemma store_fd_law:
  assumes inv: "files_inv ext extn s" and t: "tables s cur = Some t" "grown t t'" "f < length (ft_files t')" "slot_at t f = None" and e: "0 < ext i"
  shows "gives (do { cl \<leftarrow> bit_clear f (ft_cloexec t'); Some (r, put_table s cur (t'\<lparr>ft_files := (ft_files t')[f := Some i], ft_cloexec := cl\<rparr>)) })
    (\<lambda>(r', s'). r' = r \<and> files_inv (ext(i := ext i - 1)) extn s' \<and> (\<exists>u. tables s' = (tables s)(cur \<mapsto> u) \<and> installed t f i u))"
proof -
  note g = grownD [OF t(2)]
  obtain cl where cl: "bit_clear f (ft_cloexec t') = Some cl" "length cl = length (ft_cloexec t')" "bits_of cl = bits_of (ft_cloexec t') - {f}"
    using bit_clear_bits [OF table_ok_bits [OF g(1) t(3)]] by blast
  define u where "u = t'\<lparr>ft_files := (ft_files t')[f := Some i], ft_cloexec := cl\<rparr>"
  have none: "ft_files t' ! f = None" using t(3,4) g(2,3) by (cases "f < length (ft_files t)") (auto simp: slot_at_def)
  have inv1: "files_inv ext extn (put_table s cur t')" using files_inv_grown [OF inv t(1,2)] .
  have tt: "tables (put_table s cur t') cur = Some t'" by simp
  have same: "put_table (put_table s cur t') cur u = put_table s cur u" by (simp add: put_table_def)
  have inv2: "files_inv (ext(i := ext i - 1)) extn (put_table s cur u)"
    using files_inv_store [OF inv1 tt t(3) none, of u i] e cl(2) unfolding same by (simp add: u_def del: fun_upd_apply)
  have "slot_at u g = (if g = f then Some i else slot_at t g)" for g
    using g(2,3,4) t(3) by (auto simp: slot_at_def u_def nth_list_update)
  then have "installed t f i u" using g(1,5) t(2) cl by (auto simp: installed_def u_def grown_def table_ok_def)
  then show ?thesis using cl(1) inv2 by (auto simp: u_def simp del: fun_upd_apply)
qed

text \<open>The outcome of an install: the lowest free descriptor from \<^verbatim>\<open>start\<close> on, below the limit, or an error with the
  table unchanged.\<close>

definition install_result :: "fd_env \<Rightarrow> fdtable \<Rightarrow> nat \<Rightarrow> nat \<Rightarrow> int \<Rightarrow> fdtable \<Rightarrow> bool" where
  "install_result E t i start r t' \<longleftrightarrow>
    (if r \<ge> 0 then installed t (nat r) i t' \<and> start \<le> nat r \<and> nat r < rlimit_nofile E \<and> slot_at t (nat r) = None \<and>
       (\<forall>g. start \<le> g \<and> g < nat r \<longrightarrow> slot_at t g \<noteq> None)
     else t' = t \<and> (r = ENOMEM \<or> r = EMFILE \<and> (\<forall>g. start \<le> g \<and> g < rlimit_nofile E \<longrightarrow> slot_at t g \<noteq> None)))"

lemma free_slot_bound: "free_slot files f sz \<le> f \<or> free_slot files f sz \<le> sz"
proof (rule ccontr)
  assume "\<not> ?thesis"
  then have "f \<le> free_slot files f sz - 1" "free_slot files f sz - 1 < free_slot files f sz" "sz \<le> free_slot files f sz - 1" by auto
  then show False using free_slot_spec [of f files sz] by (meson not_less)
qed

lemma f_install_start_law:
  assumes inv: "files_inv ext extn s" and t: "tables s cur = Some t" and e: "0 < ext i"
    and start: "0 \<le> start" "start < 2 ^ 31" and lim: "rlimit_nofile E \<le> 2 ^ 31"
  shows "gives (f_install_start E s cur i start) (\<lambda>(r, s'). files_inv (ext(i := ext i - 1)) extn s' \<and>
    (\<exists>t'. tables s' = (tables s)(cur \<mapsto> t') \<and> install_result E t i (nat start) r t'))"
proof -
  note ok = inv_table_ok [OF inv t]
  define sz where "sz = min (rlimit_nofile E) (length (ft_files t))"
  define f where "f = free_slot (ft_files t) (nat start) sz"
  have spec: "nat start \<le> f" "f < sz \<Longrightarrow> ft_files t ! f = None" "\<And>g. nat start \<le> g \<Longrightarrow> g < f \<Longrightarrow> g < sz \<and> ft_files t ! g \<noteq> None"
    using free_slot_spec [of "nat start" "ft_files t" sz] by (auto simp: f_def)
  have fb: "f \<le> 2 ^ 31" using free_slot_bound [of "ft_files t" "nat start" sz] start(2) lim by (auto simp: f_def sz_def)
  have low: "\<forall>g. nat start \<le> g \<and> g < f \<longrightarrow> slot_at t g \<noteq> None" using spec(3) by (auto simp: slot_at_def sz_def)
  obtain err t1 where ex: "(if sz \<le> f then fdtable_expand E t (int f) else Some (0, t)) = Some (err, t1)" "grown t t1"
    "err = 0 \<and> f < rlimit_nofile E \<and> f < length (ft_files t1) \<or> t1 = t \<and> (err = EMFILE \<and> rlimit_nofile E \<le> f \<or> err = ENOMEM)"
    using fdtable_expand_law [OF ok lim, of f] fb grown_refl [OF ok] by (cases "sz \<le> f") (auto simp: sz_def)
  have sz: "(if rlimit_nofile E mod 2 ^ 32 > length (ft_files t) then length (ft_files t) else rlimit_nofile E mod 2 ^ 32) = sz"
    using lim by (simp add: sz_def min_def)
  have run: "f_install_start E s cur i start =
    (if err < 0 then do { (_, s') \<leftarrow> fd_close (put_table s cur t1) i; Some (err, s') }
     else if f < length (ft_files t1) then do { cl \<leftarrow> bit_clear f (ft_cloexec t1);
       Some (int f, put_table s cur (t1\<lparr>ft_files := (ft_files t1)[f := Some i], ft_cloexec := cl\<rparr>)) }
     else None)"
    unfolding f_install_start_def t Option.bind.simps Let_def sz f_def [symmetric]
    using start(1) ex(1) by (cases "sz \<le> f") auto
  show ?thesis
  proof (cases "err = 0")
    case True
    then have fr: "f < rlimit_nofile E" "f < length (ft_files t1)" using ex(3) by auto
    have none: "slot_at t f = None" using spec(2) fr(1) by (auto simp: slot_at_def sz_def)
    show ?thesis unfolding run using True fr store_fd_law [OF inv t ex(2) fr(2) none e, of "int f"] none low spec(1)
      by (auto simp: install_result_def elim!: gives_mono simp del: fun_upd_apply)
  next
    case False
    then have er: "t1 = t" "err = EMFILE \<and> rlimit_nofile E \<le> f \<or> err = ENOMEM" using ex(3) by auto
    have same: "put_table s cur t = s" "tables s = (tables s)(cur \<mapsto> t)" using t by (simp_all add: put_table_def fun_upd_idem)
    obtain a b where c: "fd_close s i = Some (a, b)" "files_inv (ext(i := ext i - 1)) extn b" "tables b = tables s"
      using fd_close_law [OF inv e] by (auto simp: gives_def simp del: fun_upd_apply)
    have "install_result E t i (nat start) err t" using er low by (auto simp: install_result_def)
    moreover have "f_install_start E s cur i start = Some (err, b)" unfolding run using er c(1) same(1) by auto
    ultimately show ?thesis using c(2,3) same(2) by (auto simp del: fun_upd_apply)
  qed
qed

lemma set_cloexec_law:
  assumes inv: "files_inv ext extn s" and t: "tables s cur = Some t" "0 \<le> f" "nat f < length (ft_files t)"
  shows "gives (set_cloexec s cur f) (\<lambda>s'. files_inv ext extn s' \<and> (\<exists>t'. tables s' = (tables s)(cur \<mapsto> t') \<and> tables s' cur = Some t' \<and> fds s' = fds s \<and>
    ft_files t' = ft_files t \<and> ft_refcount t' = ft_refcount t \<and> bits_of (ft_cloexec t') = insert (nat f) (bits_of (ft_cloexec t))))"
proof -
  have "length (ft_files t) \<le> 2 ^ 31" using inv_table_ok [OF inv t(1)] by (simp add: table_ok_def)
  then have u: "u64 f = nat f" using t(2,3) by (simp add: u64_def)
  obtain cl where "bit_set (nat f) (ft_cloexec t) = Some cl" "length cl = length (ft_cloexec t)" "bits_of cl = insert (nat f) (bits_of (ft_cloexec t))"
    using bit_set_bits [OF table_ok_bits [OF inv_table_ok [OF inv t(1)] t(3)]] by blast
  then show ?thesis using inv_same_slots [OF inv t(1), of "t\<lparr>ft_cloexec := cl\<rparr>"] t(1)
    by (auto simp: set_cloexec_def u intro!: exI [of _ "t\<lparr>ft_cloexec := cl\<rparr>"])
qed

lemma slot_at_length: "slot_at t f = Some i \<Longrightarrow> f < length (ft_files t) \<and> ft_files t ! f = Some i"
  by (auto simp: slot_at_def split: if_splits)

lemma fd_setflags_law:
  assumes inv: "files_inv ext extn s" and i: "fds s i = Some fd"
  shows "gives (fd_setflags E s i fl) (\<lambda>(r, s'). files_inv ext extn s' \<and> tables s' = tables s)"
  using inv i files_inv_flags [OF inv i] by (simp add: fd_setflags_def)

lemma installed_slot: "installed t f i t' \<Longrightarrow> f < length (ft_files t') \<and> ft_files t' ! f = Some i"
  by (metis installed_def slot_at_length)

text \<open>\<^verbatim>\<open>keeps cur\<close>: a call whose result keeps the invariant and the current table alive.\<close>

definition keeps :: "(nat \<Rightarrow> nat) \<Rightarrow> (nat \<Rightarrow> nat) \<Rightarrow> nat \<Rightarrow> (int \<times> file_state) option \<Rightarrow> bool" where
  "keeps ext extn cur m \<longleftrightarrow> gives m (\<lambda>(r, s'). files_inv ext extn s' \<and> tables s' cur \<noteq> None)"

lemma f_install_law:
  assumes inv: "files_inv ext extn s" and t: "tables s cur = Some t" and e: "0 < ext i" and lim: "rlimit_nofile E \<le> 2 ^ 31"
  shows "keeps (ext(i := ext i - 1)) extn cur (f_install E s cur i fl)"
proof -
  obtain r s1 t1 where r: "f_install_start E s cur i 0 = Some (r, s1)" "files_inv (ext(i := ext i - 1)) extn s1"
    "tables s1 = (tables s)(cur \<mapsto> t1)" "install_result E t i 0 r t1"
    using f_install_start_law [OF inv t e, of 0 E] lim by (auto simp: gives_def simp del: fun_upd_apply)
  show ?thesis
  proof (cases "r \<ge> 0")
    case False
    then show ?thesis using r by (simp add: keeps_def f_install_def)
  next
    case True
    then have sl: "nat r < length (ft_files t1)" "ft_files t1 ! nat r = Some i" using r(4) installed_slot [of t "nat r" i t1] by (auto simp: install_result_def)
    have t1: "tables s1 cur = Some t1" using r(3) by simp
    obtain s2 t2 where s2: "(if fl AND O_CLOEXEC \<noteq> 0 then set_cloexec s1 cur r else Some s1) = Some s2" "files_inv (ext(i := ext i - 1)) extn s2"
      "tables s2 cur = Some t2" "fds s2 = fds s1"
      using set_cloexec_law [OF r(2) t1 True sl(1)] r(2) t1 by (cases "fl AND O_CLOEXEC \<noteq> 0") (auto simp: gives_def simp del: fun_upd_apply)
    obtain fd where fd: "fds s2 i = Some fd" using live_slot [OF r(2) t1 sl] s2(4) by auto
    obtain q s3 where "(if fl AND O_NONBLOCK \<noteq> 0 then fd_setflags E s2 i O_NONBLOCK else Some (0, s2)) = Some (q, s3)"
      "files_inv (ext(i := ext i - 1)) extn s3" "tables s3 = tables s2"
      using fd_setflags_law [OF s2(2) fd, of E O_NONBLOCK] s2(2) by (cases "fl AND O_NONBLOCK \<noteq> 0") (auto simp: gives_def simp del: fun_upd_apply)
    then show ?thesis using r(1) True s2(1,3) by (simp add: keeps_def f_install_def del: fun_upd_apply)
  qed
qed

lemma f_get_law: "tables s cur = Some t \<Longrightarrow> f_get s cur f = Some (if f < 0 then None else slot_at t (nat f))"
  by (auto simp: f_get_def fdtable_get_def slot_at_def)

lemma retained_install:
  assumes inv: "files_inv ext extn s" and t: "tables s cur = Some t" "slot_at t f = Some i"
  shows "\<exists>s1. fd_retain s i = Some s1 \<and> files_inv (ext(i := ext i + 1)) extn s1 \<and> tables s1 = tables s"
proof -
  obtain fd where "fds s i = Some fd" using live_slot [OF inv t(1)] slot_at_length [OF t(2)] by blast
  then show ?thesis using fd_retain_law [OF inv] by (auto simp: gives_def simp del: fun_upd_apply)
qed

lemma unretain: "P ((ext(i := ext i + 1))(i := (ext(i := ext i + 1)) i - 1)) \<Longrightarrow> P (ext :: nat \<Rightarrow> nat)"
  by simp

lemma sys_dup_law:
  assumes inv: "files_inv ext extn s" and t: "tables s cur = Some t" and lim: "rlimit_nofile E \<le> 2 ^ 31"
  shows "keeps ext extn cur (sys_dup E s cur f)"
proof (cases "f < 0 \<or> slot_at t (nat f) = None")
  case True
  then show ?thesis using f_get_law [OF t, of f] inv t by (auto simp: sys_dup_def keeps_def)
next
  case False
  then obtain i where i: "slot_at t (nat f) = Some i" "\<not> f < 0" by auto
  obtain s1 where s1: "fd_retain s i = Some s1" "files_inv (ext(i := ext i + 1)) extn s1" "tables s1 cur = Some t"
    using retained_install [OF inv t i(1)] t by auto
  have "keeps ext extn cur (f_install E s1 cur i 0)" by (rule unretain [where P = "\<lambda>e. keeps e extn cur m" for m]) (rule f_install_law [OF s1(2,3) _ lim], simp)
  then show ?thesis using f_get_law [OF t, of f] i s1(1) by (simp add: sys_dup_def)
qed

lemma closed_then_stored:
  assumes "closed_slot f t u" "f < length (ft_files t)" "table_ok t" "u' = u\<lparr>ft_files := (ft_files u)[f := Some i]\<rparr>"
  shows "\<forall>g. slot_at u' g = (if g = f then Some i else slot_at t g)" "table_ok u'" "f < length (ft_files u)" "ft_files u ! f = None"
  using assms by (auto simp: closed_slot_def slot_at_def table_ok_def nth_list_update)

text \<open>What \<^verbatim>\<open>dup3\<close> leaves in the table: the new descriptor refers to the same file and every other one is unchanged.\<close>

definition duplicated :: "fdtable \<Rightarrow> nat \<Rightarrow> nat \<Rightarrow> fdtable \<Rightarrow> bool" where
  "duplicated t f i t' \<longleftrightarrow> table_ok t' \<and> (\<forall>g. slot_at t' g = (if g = f then Some i else slot_at t g))"

lemma slot_at_grown: "grown t t' \<Longrightarrow> slot_at t' = slot_at t"
  by (auto simp: grown_def slot_at_def fun_eq_iff nth_append)

lemma sys_dup3_law:
  assumes inv: "files_inv ext extn s" and t: "tables s cur = Some t" and lim: "rlimit_nofile E \<le> 2 ^ 31"
    and new: "new_f < 2 ^ 31"
  shows "gives (sys_dup3 E s cur f (int new_f) fl) (\<lambda>(r, s'). files_inv ext extn s' \<and>
    (\<exists>t'. tables s' = (tables s)(cur \<mapsto> t') \<and> tables s' cur = Some t' \<and>
      (if f < 0 \<or> slot_at t (nat f) = None then r = EBADF \<and> t' = t
       else if r \<ge> 0 then r = int new_f \<and> duplicated t new_f (the (slot_at t (nat f))) t'
       else slot_at t' = slot_at t)))"
proof (cases "f < 0 \<or> slot_at t (nat f) = None")
  case True
  then show ?thesis using f_get_law [OF t, of f] inv t by (auto simp: sys_dup3_def fun_upd_idem intro!: exI [of _ t])
next
  case False
  then obtain i where i: "slot_at t (nat f) = Some i" "\<not> f < 0" by auto
  obtain err t1 where ex: "fdtable_expand E t (int new_f) = Some (err, t1)" "grown t t1"
    "err = 0 \<and> new_f < length (ft_files t1) \<or> err < 0"
    using fdtable_expand_law [OF inv_table_ok [OF inv t] lim, of new_f] new by auto
  have inv1: "files_inv ext extn (put_table s cur t1)" using files_inv_grown [OF inv t ex(2)] .
  have t1: "tables (put_table s cur t1) cur = Some t1" "slot_at t1 = slot_at t" using slot_at_grown [OF ex(2)] by simp_all
  show ?thesis
  proof (cases "err < 0")
    case True
    then show ?thesis using f_get_law [OF t, of f] i t ex(1) inv1 t1 by (auto simp: sys_dup3_def)
  next
    case False
    then have lt: "new_f < length (ft_files t1)" using ex(3) by auto
    obtain s2 where s2: "fd_retain (put_table s cur t1) i = Some s2" "files_inv (ext(i := ext i + 1)) extn s2" "tables s2 = tables (put_table s cur t1)"
      using retained_install [OF inv1 t1(1), of "nat f" i] t1(2) i(1) by auto
    have t2: "tables s2 cur = Some t1" using s2(3) by simp
    obtain e3 s3 u where s3: "f_close s2 cur (int new_f) = Some (e3, s3)" "files_inv (ext(i := ext i + 1)) extn s3"
      "tables s3 = (tables s2)(cur \<mapsto> u)" "closed_slot new_f t1 u"
      using fdtable_close_law [OF s2(2) t2, of new_f] unfolding f_close_def by (auto simp: gives_def simp del: fun_upd_apply)
    define u' where "u' = u\<lparr>ft_files := (ft_files u)[new_f := Some i]\<rparr>"
    note c = closed_then_stored [OF s3(4) lt inv_table_ok [OF inv1 t1(1)] u'_def]
    have t3: "tables s3 cur = Some u" using s3(3) by simp
    have inv4: "files_inv ext extn (put_table s3 cur u')"
      by (rule unretain [where P = "\<lambda>e. files_inv e extn m" for m], rule files_inv_store [OF s3(2) t3 c(3,4)]) (simp_all add: u'_def)
    have t4: "tables (put_table s3 cur u') cur = Some u'" "nat (int new_f) < length (ft_files u')" using c(3) by (simp_all add: u'_def)
    obtain s5 t5 where s5: "(if fl AND O_CLOEXEC \<noteq> 0 then set_cloexec (put_table s3 cur u') cur (int new_f) else Some (put_table s3 cur u')) = Some s5"
      "files_inv ext extn s5" "tables s5 = (tables (put_table s3 cur u'))(cur \<mapsto> t5)" "ft_files t5 = ft_files u'"
      using set_cloexec_law [OF inv4 t4(1) _ t4(2)] inv4 by (cases "fl AND O_CLOEXEC \<noteq> 0") (auto simp: gives_def)
    have t5: "tables s5 cur = Some t5" "tables s5 = (tables s)(cur \<mapsto> t5)" using s5(3) s3(3) s2(3) by simp_all
    have "slot_at t5 = slot_at u'" using s5(4) by (simp add: slot_at_def fun_eq_iff)
    then have "duplicated t new_f i t5" using c(1) t1(2) inv_table_ok [OF s5(2) t5(1)] by (simp add: duplicated_def)
    moreover have "sys_dup3 E s cur f (int new_f) fl = Some (int new_f, s5)"
      unfolding sys_dup3_def using f_get_law [OF t, of f] i t ex(1) False s2(1) s3(1) t3 c(3) s5(1) by (auto simp: Let_def u'_def [symmetric] split: if_splits)
    ultimately show ?thesis using s5(2) t5 i by auto
  qed
qed

lemma cloexec_each_law:
  assumes "files_inv ext extn s" "tables s cur = Some t" "f + n \<le> length (ft_files t)"
  shows "gives (cloexec_each s cur f n) (\<lambda>s'. files_inv ext extn s' \<and> (\<exists>t'. tables s' = (tables s)(cur \<mapsto> t') \<and> ft_files t' = ft_files t))"
  using assms
proof (induction n arbitrary: s t f)
  case 0
  then show ?case by (auto simp: fun_upd_idem intro!: exI [of _ t])
next
  case (Suc n)
  have "0 \<le> int f" "nat (int f) < length (ft_files t)" using Suc.prems(3) by auto
  from set_cloexec_law [OF Suc.prems(1,2) this]
  obtain s1 t1 where s1: "(if ft_files t ! f \<noteq> None then set_cloexec s cur (int f) else Some s) = Some s1" "files_inv ext extn s1"
    "tables s1 = (tables s)(cur \<mapsto> t1)" "ft_files t1 = ft_files t"
    using Suc.prems(1) fun_upd_idem [of "tables s" cur, OF Suc.prems(2), symmetric]
    by (cases "ft_files t ! f = None") (auto simp: gives_def simp del: fun_upd_apply)
  have "gives (cloexec_each s1 cur (Suc f) n) (\<lambda>s'. files_inv ext extn s' \<and> (\<exists>t'. tables s' = (tables s1)(cur \<mapsto> t') \<and> ft_files t' = ft_files t1))"
    by (rule Suc.IH) (use s1 Suc.prems(3) in auto)
  moreover have "(tables s1)(cur \<mapsto> t') = (tables s)(cur \<mapsto> t')" for t' using s1(3) by simp
  ultimately show ?case using Suc.prems(2) s1(1,4) by (simp del: fun_upd_apply)
qed

lemma closed_where_cong:
  assumes "\<And>g. g < length (ft_files t) \<Longrightarrow> ft_files t ! g \<noteq> None \<Longrightarrow> P g \<longleftrightarrow> Q g"
  shows "closed_where P t u \<longleftrightarrow> closed_where Q t u"
proof -
  have "(if P g then None else ft_files t ! g) = (if Q g then None else ft_files t ! g)" if "g < length (ft_files t)" for g
    using assms [OF that] by (cases "ft_files t ! g") auto
  moreover have "(g < length (ft_files t) \<and> P g \<and> ft_files t ! g \<noteq> None) = (g < length (ft_files t) \<and> Q g \<and> ft_files t ! g \<noteq> None)" for g
    using assms by blast
  ultimately show ?thesis unfolding closed_where_def by simp
qed

lemma range_selected:
  assumes "closed_where (\<lambda>h. (f0 \<le> h \<and> h < k \<and> slot_at t h \<noteq> None) \<and> h < g) t u" "f0 \<le> g" "g < k" "k \<le> length (ft_files t)"
  shows "ft_files u ! g \<noteq> None \<longleftrightarrow> slot_at t g \<noteq> None"
  using assms by (simp add: closed_where_def slot_at_def)

text \<open>\<^verbatim>\<open>close_range\<close> closes exactly the descriptors of its range.\<close>

lemma close_range_each:
  assumes inv: "files_inv ext extn s" and t: "tables s cur = Some t" and k: "f0 < k" "k \<le> length (ft_files t)"
  shows "gives (close_each (\<lambda>s f. do { t \<leftarrow> tables s cur; Some (ft_files t ! f \<noteq> None) }) s cur cur f0 (k - f0))
    (\<lambda>s'. files_inv ext extn s' \<and> (\<exists>t'. tables s' = (tables s)(cur \<mapsto> t') \<and> closed_where (\<lambda>g. f0 \<le> g \<and> g < k) t t'))"
proof -
  let ?P = "\<lambda>h. f0 \<le> h \<and> h < k \<and> slot_at t h \<noteq> None"
  have start: "closed_where (\<lambda>h. ?P h \<and> h < f0) t t" by (rule closed_where_refl) auto
  have fin: "closed_where (\<lambda>h. ?P h \<and> h < f0 + (k - f0)) t u \<longleftrightarrow> closed_where (\<lambda>g. f0 \<le> g \<and> g < k) t u" for u
    using k by (intro closed_where_cong) (auto simp: slot_at_def)
  have sel: "do { t \<leftarrow> tables s cur; Some (ft_files t ! g \<noteq> None) } = Some (?P g)"
    if "tables s cur = Some u" "closed_where (\<lambda>h. ?P h \<and> h < g) t u" "f0 \<le> g" "g < f0 + (k - f0)" for s u g
    using range_selected [OF that(2,3) _ k(2)] that k by auto
  show ?thesis unfolding fin [symmetric] by (rule close_each_law [OF inv t start]) (use k in simp, rule sel)
qed

lemma sys_close_range_law:
  assumes inv: "files_inv ext extn s" and t: "tables s cur = Some t"
  shows "keeps ext extn cur (sys_close_range s cur f l fl)"
proof -
  define k where "k = (if l \<ge> length (ft_files t) then length (ft_files t) - 1 else l) + 1"
  have ne: "length (ft_files t) \<noteq> 0" using inv_table_ok [OF inv t] by (simp add: table_ok_def)
  then have k: "k \<le> length (ft_files t)" by (auto simp: k_def)
  have run: "sys_close_range s cur f l fl =
    (if fl AND NOT (CLOSE_RANGE_UNSHARE OR CLOSE_RANGE_CLOEXEC) \<noteq> 0 \<or> f > l then Some (EINVAL, s)
     else if f \<ge> k then Some (0, s)
     else if fl AND CLOSE_RANGE_CLOEXEC \<noteq> 0 then do { s \<leftarrow> cloexec_each s cur f (k - f); Some (0, s) }
     else do { s \<leftarrow> close_each (\<lambda>s f. do { t \<leftarrow> tables s cur; Some (ft_files t ! f \<noteq> None) }) s cur cur f (k - f); Some (0, s) })"
    unfolding sys_close_range_def t Option.bind.simps Let_def k_def using ne by (auto simp: not_less)
  show ?thesis unfolding run keeps_def
    using inv t k cloexec_each_law [OF inv t, of f "k - f"] close_range_each [OF inv t, of f k]
    by (auto simp: gives_def)
qed

section \<open>Copying a table\<close>

definition add_refs :: "nat option list \<Rightarrow> nat \<Rightarrow> fd \<Rightarrow> fd" where
  "add_refs fs i fd = fd\<lparr>fd_refcount := fd_refcount fd + count_list fs (Some i)\<rparr>"

lemma retain_files_law:
  assumes "\<And>i. Some i \<in> set fs \<Longrightarrow> fds s i \<noteq> None"
  shows "retain_files s fs = Some (s\<lparr>fds := \<lambda>i. map_option (add_refs fs i) (fds s i)\<rparr>)"
  using assms
proof (induction fs arbitrary: s)
  case Nil
  then show ?case by (simp add: add_refs_def option.map_ident)
next
  case (Cons x fs)
  show ?case
  proof (cases x)
    case None
    then show ?thesis using Cons by (simp add: add_refs_def)
  next
    case (Some i)
    then obtain fd where fd: "fds s i = Some fd" using Cons.prems [of i] by auto
    let ?s = "s\<lparr>fds := (fds s)(i \<mapsto> fd\<lparr>fd_refcount := fd_refcount fd + 1\<rparr>)\<rparr>"
    have "retain_files ?s fs = Some (?s\<lparr>fds := \<lambda>i. map_option (add_refs fs i) (fds ?s i)\<rparr>)"
      by (rule Cons.IH) (use Cons.prems in auto)
    then show ?thesis using Some fd
      by (auto simp: fd_retain_def fun_eq_iff add_refs_def [abs_def] intro!: arg_cong [where f = "\<lambda>x. s\<lparr>fds := x\<rparr>"])
  qed
qed

lemma refs_of_new_table:
  assumes fin: "finite (dom (slot s))" and new: "tables s new_tid = None"
  shows "refs_of (slot (put_table s new_tid t)) i = refs_of (slot s) i + count_list (ft_files t) (Some i)"
proof -
  let ?new = "{f. f < length (ft_files t) \<and> ft_files t ! f = Some i}"
  have eq: "{k. slot (put_table s new_tid t) k = Some i} = {k. slot s k = Some i} \<union> Pair new_tid ` ?new"
    using new by (auto simp: slot_def split: option.splits if_splits)
  have "{k. slot s k = Some i} \<inter> Pair new_tid ` ?new = {}" using new by (auto simp: slot_def)
  moreover have "card (Pair new_tid ` ?new) = card ?new" by (rule card_image) (simp add: inj_on_def)
  moreover have "card ?new = count_list (ft_files t) (Some i)"
    by (simp add: count_list_eq_length_filter length_filter_conv_card eq_commute [of "Some i"])
  ultimately show ?thesis unfolding refs_of_def eq using finite_refs [OF fin] by (simp add: card_Un_disjoint)
qed

lemma fdtable_new_law:
  assumes "0 < n" "n \<le> 2 ^ 31"
  shows "\<exists>r. fdtable_new E (int n) = Some r \<and> (r = Inl ENOMEM \<or> (\<exists>t. r = Inr t \<and> ft_refcount t = 1 \<and>
    length (ft_files t) = n \<and> length (ft_cloexec t) = BITS_SIZE n))"
proof -
  have "u32 (int n) = n" using assms(2) by (simp add: u32_def)
  then show ?thesis using assms(1) by (auto simp: fdtable_new_def fdtable_resize_def)
qed

lemma files_inv_copy:
  assumes inv: "files_inv ext extn s" and t: "table_ok t'" "tables s new_tid = None"
    and s': "s' = put_table (s\<lparr>fds := \<lambda>i. map_option (add_refs (ft_files t') i) (fds s i)\<rparr>) new_tid t'"
    and live: "\<And>i. Some i \<in> set (ft_files t') \<Longrightarrow> fds s i \<noteq> None"
  shows "files_inv ext extn s'"
proof -
  have sl: "refs_of (slot s') i = refs_of (slot s) i + count_list (ft_files t') (Some i)" for i
  proof -
    have "slot s' = slot (put_table s new_tid t')" by (simp add: s' slot_def put_table_def)
    then show ?thesis using refs_of_new_table [OF finite_slot [OF inv] t(2)] by simp
  qed
  have c: "fd_count s' i = fd_count s i + count_list (ft_files t') (Some i)" for i
    using live [of i] by (cases "fds s i") (auto simp: s' fd_count_def add_refs_def count_list_0_iff)
  have f: "file_inode s' = file_inode s" by (auto simp: s' file_inode_def fun_eq_iff add_refs_def split: option.splits)
  have d: "dom (fds s') = dom (fds s)" by (auto simp: s')
  have "0 < fd_refcount fd" if "fds s' i = Some fd" for i fd
    using inv that by (auto simp: files_inv_def s' add_refs_def)
  then show ?thesis using inv t(1) sl c f d by (auto simp: files_inv_def s' in_count_def split: if_splits)
qed

lemma fdtable_copy_law:
  assumes inv: "files_inv ext extn s" and t: "tables s tid = Some t" and new: "tables s new_tid = None"
  shows "gives (fdtable_copy E s tid new_tid) (\<lambda>(r, s'). files_inv ext extn s' \<and>
    (r = ENOMEM \<and> s' = s \<or>
     r = 0 \<and> (\<exists>t'. tables s' = (tables s)(new_tid \<mapsto> t') \<and> ft_refcount t' = 1 \<and> ft_files t' = ft_files t \<and> ft_cloexec t' = ft_cloexec t)))"
proof -
  have ok: "0 < length (ft_files t)" "length (ft_files t) \<le> 2 ^ 31" "length (ft_cloexec t) = BITS_SIZE (length (ft_files t))"
    using inv_table_ok [OF inv t] by (auto simp: table_ok_def)
  obtain r where r: "fdtable_new E (int (length (ft_files t))) = Some r" "r = Inl ENOMEM \<or> (\<exists>u. r = Inr u \<and> ft_refcount u = 1 \<and>
    length (ft_files u) = length (ft_files t) \<and> length (ft_cloexec u) = BITS_SIZE (length (ft_files t)))"
    using fdtable_new_law [OF ok(1,2)] by blast
  have live: "Some i \<in> set (ft_files t) \<Longrightarrow> fds s i \<noteq> None" for i
    using live_slot [OF inv t] by (fastforce simp: in_set_conv_nth)
  show ?thesis
  proof (cases r)
    case (Inl e)
    then show ?thesis using r inv t by (auto simp: fdtable_copy_def)
  next
    case (Inr u)
    then have u: "ft_refcount u = 1" "length (ft_cloexec u) = length (ft_cloexec t)" using r(2) ok(3) by auto
    define t' where "t' = u\<lparr>ft_files := ft_files t, ft_cloexec := ft_cloexec t\<rparr>"
    have t': "table_ok t'" using inv_table_ok [OF inv t] by (simp add: t'_def table_ok_def)
    have "fdtable_copy E s tid new_tid = Some (0, put_table (s\<lparr>fds := \<lambda>i. map_option (add_refs (ft_files t') i) (fds s i)\<rparr>) new_tid t')"
      unfolding fdtable_copy_def using t r(1) Inr retain_files_law [OF live] ok(3) u(2)
      by (simp add: buf_load_def buf_store_def t'_def)
    moreover have "files_inv ext extn (put_table (s\<lparr>fds := \<lambda>i. map_option (add_refs (ft_files t') i) (fds s i)\<rparr>) new_tid t')"
      by (rule files_inv_copy [OF inv t' new refl]) (use live in \<open>simp add: t'_def\<close>)
    ultimately show ?thesis using u(1) by (auto simp: t'_def intro!: exI [of _ t'])
  qed
qed

section \<open>Calls as steps\<close>

text \<open>A call of a task whose table is \<^verbatim>\<open>cur\<close>.  \<^verbatim>\<open>Fork\<close> copies the table to a new address, \<^verbatim>\<open>Exec\<close> closes the
  close-on-exec descriptors and \<^verbatim>\<open>Exit\<close> gives the table up.\<close>

datatype file_call =
  Close int | Close_range nat nat flags32 | Dup int | Dup3 int int flags32 | Fork nat | Exec | Exit

definition file_call_ok :: "file_state \<Rightarrow> file_call \<Rightarrow> bool" where
  "file_call_ok s c = (case c of
     Dup3 f new_f fl \<Rightarrow> 0 \<le> new_f \<and> new_f < 2 ^ 31
   | Fork new_tid \<Rightarrow> tables s new_tid = None
   | _ \<Rightarrow> True)"

definition run_file_call :: "fd_env \<Rightarrow> nat \<Rightarrow> file_call \<Rightarrow> file_state \<Rightarrow> file_state option" where
  "run_file_call E cur c s = (case c of
     Close f \<Rightarrow> map_option snd (sys_close s cur f)
   | Close_range f l fl \<Rightarrow> map_option snd (sys_close_range s cur f l fl)
   | Dup f \<Rightarrow> map_option snd (sys_dup E s cur f)
   | Dup3 f new_f fl \<Rightarrow> map_option snd (sys_dup3 E s cur f new_f fl)
   | Fork new_tid \<Rightarrow> map_option snd (fdtable_copy E s cur new_tid)
   | Exec \<Rightarrow> fdtable_do_cloexec s cur cur
   | Exit \<Rightarrow> fdtable_release s cur cur)"

inductive file_step :: "fd_env \<Rightarrow> file_state \<Rightarrow> file_state \<Rightarrow> bool" for E where
  "tables s cur \<noteq> None \<Longrightarrow> file_call_ok s c \<Longrightarrow> run_file_call E cur c s = Some s' \<Longrightarrow> file_step E s s'"

inductive_cases file_stepE: "file_step E s s'"

lemma run_file_call_law:
  assumes inv: "files_inv ext extn s" and t: "tables s cur = Some t" and ok: "file_call_ok s c" and lim: "rlimit_nofile E \<le> 2 ^ 31"
  shows "gives (run_file_call E cur c s) (files_inv ext extn)"
proof (cases c)
  case (Close f)
  then show ?thesis using fdtable_close_law_int [OF inv t, of f]
    by (auto simp: run_file_call_def sys_close_def f_close_def elim!: gives_mono)
next
  case (Close_range f l fl)
  then show ?thesis using sys_close_range_law [OF inv t, of f l fl]
    by (auto simp: run_file_call_def keeps_def elim!: gives_mono)
next
  case (Dup f)
  then show ?thesis using sys_dup_law [OF inv t lim, of f] by (auto simp: run_file_call_def keeps_def elim!: gives_mono)
next
  case (Dup3 f new_f fl)
  then have "0 \<le> new_f" "nat new_f < 2 ^ 31" using ok by (auto simp: file_call_ok_def)
  then show ?thesis using Dup3 sys_dup3_law [OF inv t lim, of "nat new_f" f fl] by (auto simp: run_file_call_def elim!: gives_mono)
next
  case (Fork new_tid)
  then show ?thesis using fdtable_copy_law [OF inv t, of new_tid E] ok by (auto simp: run_file_call_def file_call_ok_def elim!: gives_mono)
next
  case Exec
  then show ?thesis using fdtable_do_cloexec_law [OF inv t] by (auto simp: run_file_call_def elim!: gives_mono)
next
  case Exit
  then show ?thesis using fdtable_release_law [OF inv t] by (auto simp: run_file_call_def elim!: gives_mono)
qed

lemma file_step_inv: "file_step E s s' \<Longrightarrow> files_inv ext extn s \<Longrightarrow> rlimit_nofile E \<le> 2 ^ 31 \<Longrightarrow> files_inv ext extn s'"
  by (elim file_stepE) (use run_file_call_law in \<open>fastforce simp: gives_def\<close>)

lemma file_steps_inv: "(file_step E)\<^sup>*\<^sup>* s s' \<Longrightarrow> files_inv ext extn s \<Longrightarrow> rlimit_nofile E \<le> 2 ^ 31 \<Longrightarrow> files_inv ext extn s'"
  by (induction rule: rtranclp_induct) (auto intro: file_step_inv)

section \<open>An example state\<close>

text \<open>One table of two slots; descriptor 0 is a file with an inode, open read-write, marked close-on-exec.\<close>

definition small_files :: file_state where
  "small_files = \<lparr>
    fds = [0 \<mapsto> \<lparr>fd_refcount = 1, fd_flags = 2, fd_inode = Some 5, fd_mount = None, fd_ops_close = Some 0, fd_fs_close = None, fd_own_flags = False\<rparr>],
    tables = [1 \<mapsto> \<lparr>ft_refcount = 1, ft_files = [Some 0, None], ft_cloexec = [1]\<rparr>],
    inodes = [5 \<mapsto> \<lparr>in_refcount = 1, in_mount = 0, in_locks = [\<lparr>fl_start = 0, fl_end = 9, fl_type = F_WRLCK, fl_owner = 77, fl_pid = 3\<rparr>]\<rparr>],
    mount_refs = (\<lambda>_. 1)\<rparr>"

definition small_env :: fd_env where
  "small_env = \<lparr>alloc_table = True, alloc = (\<lambda>_. True), rlimit_nofile = 3, ops_getflags = (\<lambda>_. 0), ops_setflags = (\<lambda>_ _. 0),
    lseek_cur = None, fstat_size = Inr 0, cur_pid = 4, lock_waits = []\<rparr>"

lemma small_slot: "slot small_files = [(1, 0) \<mapsto> 0]"
  by (auto simp: small_files_def slot_def fun_eq_iff less_Suc_eq)

lemma small_inode: "file_inode small_files = [0 \<mapsto> 5]"
  by (auto simp: small_files_def file_inode_def fun_eq_iff)

lemma refs_of_single: "refs_of [k \<mapsto> v] w = of_bool (w = v)"
  using refs_of_set [of "\<lambda>_. None" k v w] by simp

lemma small_files_inv: "files_inv (\<lambda>_. 0) (\<lambda>_. 0) small_files"
  unfolding files_inv_def small_slot small_inode refs_of_single
  by (auto simp: small_files_def table_ok_def BITS_SIZE_def fd_count_def in_count_def)

lemma small_tables: "tables small_files 1 = Some \<lparr>ft_refcount = 1, ft_files = [Some 0, None], ft_cloexec = [1]\<rparr>"
  by (simp add: small_files_def)

section \<open>Properties\<close>



text \<open>C25: installing a file gives the lowest free descriptor from \<^verbatim>\<open>start\<close> on that is below the limit, without close-on-exec, and
  leaves every other descriptor alone; it fails only when memory runs out or every descriptor from
  \<^verbatim>\<open>start\<close> up to the limit is used, and then the table is unchanged and the file's reference is dropped.\<close>

theorem f_install_lowest:
  assumes "files_inv ext extn s" "tables s cur = Some t" "0 < ext i" "0 \<le> start" "start < 2 ^ 31" "rlimit_nofile E \<le> 2 ^ 31"
  shows "\<exists>r s' t'. f_install_start E s cur i start = Some (r, s') \<and> files_inv (ext(i := ext i - 1)) extn s' \<and>
    tables s' = (tables s)(cur \<mapsto> t') \<and> install_result E t i (nat start) r t'"
  using f_install_start_law [OF assms] unfolding gives_def by (elim exE conjE) (simp add: split_beta, metis prod.collapse)

theorem f_install_lowest_witness:
  "\<exists>s1 r s' t'. fd_retain small_files 0 = Some s1 \<and> f_install_start small_env s1 1 0 0 = Some (r, s') \<and>
     install_result small_env \<lparr>ft_refcount = 1, ft_files = [Some 0, None], ft_cloexec = [1]\<rparr> 0 0 r t'"
proof -
  obtain s1 where s1: "fd_retain small_files 0 = Some s1" "files_inv ((\<lambda>_. 0)(0 := 0 + 1)) (\<lambda>_. 0) s1" "tables s1 = tables small_files"
    using retained_install [OF small_files_inv small_tables, of 0 0] by (auto simp: slot_at_def)
  then show ?thesis using f_install_lowest [OF s1(2), of 1 _ 0 0 small_env] small_tables by (auto simp: small_env_def)
qed

text \<open>\<^verbatim>\<open>exec\<close> closes exactly the descriptors marked close-on-exec: afterwards a slot is empty if it was marked, and
  otherwise it is what it was.\<close>

theorem exec_closes_cloexec:
  assumes "files_inv ext extn s" "tables s cur = Some t"
  shows "\<exists>s' t'. fdtable_do_cloexec s cur cur = Some s' \<and> files_inv ext extn s' \<and> tables s' = (tables s)(cur \<mapsto> t') \<and>
    (\<forall>f < length (ft_files t). slot_at t' f = (if bit_test f (ft_cloexec t) = Some True then None else slot_at t f))"
proof -
  obtain s' t' where s': "fdtable_do_cloexec s cur cur = Some s'" "files_inv ext extn s'" "tables s' = (tables s)(cur \<mapsto> t')"
    "closed_where (\<lambda>f. f \<in> bits_of (ft_cloexec t)) t t'"
    using fdtable_do_cloexec_law [OF assms] unfolding gives_def by blast
  have "slot_at t' f = (if bit_test f (ft_cloexec t) = Some True then None else slot_at t f)" if "f < length (ft_files t)" for f
    using s'(4) that bit_test_bits [OF table_ok_bits [OF inv_table_ok [OF assms] that]] by (simp add: closed_where_def slot_at_def)
  then show ?thesis using s'(1-3) by blast
qed

theorem exec_closes_cloexec_witness:
  "\<exists>s' t'. fdtable_do_cloexec small_files 1 1 = Some s' \<and> tables s' = (tables small_files)(1 \<mapsto> t') \<and> slot_at t' 0 = None"
  using exec_closes_cloexec [OF small_files_inv small_tables] by (fastforce simp: bit_test_def)

text \<open>\<^verbatim>\<open>dup2(f, -1)\<close> on an open descriptor writes outside the table: \<^verbatim>\<open>fdtable_expand\<close> takes -1 as a table of size
  0, which always fits, closing -1 only gives an ignored EBADF, and the store goes to \<^verbatim>\<open>files[-1]\<close>.\<close>

theorem dup2_minus_one_out_of_bounds:
  assumes "files_inv ext extn s" "tables s cur = Some t" "0 \<le> f" "slot_at t (nat f) \<noteq> None"
  shows "sys_dup2 E s cur f (- 1) = None"
proof -
  obtain i where i: "slot_at t (nat f) = Some i" using assms(4) by blast
  have g: "f_get s cur f = Some (Some i)" using f_get_law [OF assms(2), of f] i assms(3) by simp
  have e: "fdtable_expand E t (- 1) = Some (0, t)" by (simp add: fdtable_expand_def u32_def)
  have same: "put_table s cur t = s" using assms(2) by (simp add: put_table_def fun_upd_idem)
  obtain s1 where s1: "fd_retain s i = Some s1" "tables s1 = tables s" using retained_install [OF assms(1,2) i] by blast
  have c: "f_close s1 cur (- 1) = Some (EBADF, s1)"
    unfolding f_close_def using fdtable_close_bad [of s1 cur t "- 1"] s1(2) assms(2) by simp
  show ?thesis unfolding sys_dup2_def sys_dup3_def using g e same s1 c assms(2) by simp
qed

theorem dup2_minus_one_out_of_bounds_witness: "sys_dup2 small_env small_files 1 0 (- 1) = None"
  using dup2_minus_one_out_of_bounds [OF small_files_inv small_tables, of 0 small_env] by (simp add: slot_at_def)

text \<open>No lock request made through \<^verbatim>\<open>fcntl\<close> ever waits.  F_SETLKW passes the test for F_SETLKW64 and the other way
  round, so both blocking commands run as non-blocking ones and return EAGAIN on a conflict.\<close>

theorem fcntl_setlkw_never_waits: "sys_fcntl E s cur f cmd arg uflock uwrite \<noteq> Waiting"
proof -
  have "fd_setlk E s cur i fa False \<noteq> Some None" for i fa
    by (auto simp: fd_setlk_def fcntl_setlk_def Let_def split: Option.bind_splits option.splits sum.splits prod.splits if_splits)
  then have l: "locked (fd_setlk E s cur i fa False) \<noteq> Waiting" for i fa
    by (auto simp: locked_def split: option.splits)
  have r: "returns m \<noteq> Waiting" for m by (auto simp: returns_def split: option.splits)
  show ?thesis unfolding sys_fcntl_def using l r
    by (auto split: option.split prod.split)
qed

text \<open>Further calls that are undefined: a lock call on a descriptor without inode, F_DUPFD_CLOEXEC when the limit is reached, and
  reading a slot of another task's shorter table.\<close>

lemma fcntl_getlk_null_inode:
  assumes "tables s cur = Some t" "0 \<le> f" "slot_at t (nat f) = Some i" "fds s i = Some fd" "fd_inode fd = None" "fa_type fa = F_RDLCK"
  shows "sys_fcntl E s cur f F_GETLK arg (Some fa) uwrite = Undefined"
  using f_get_law [OF assms(1), of f] assms by (simp add: sys_fcntl_def fd_getlk_def)

lemma fdtable_get_other_table:
  assumes "tables s cur = Some c" "tables s tid = Some t" "length (ft_files t) \<le> f" "f < length (ft_files c)"
  shows "fdtable_get s cur tid (int f) = None"
  using assms by (simp add: fdtable_get_def)

lemma dupfd_cloexec_undefined:
  assumes inv: "files_inv ext extn s" and t: "tables s cur = Some t" and f: "0 \<le> f" "slot_at t (nat f) = Some i"
    and full: "rlimit_nofile E \<le> arg" "arg < 2 ^ 31"
  shows "sys_fcntl E s cur f F_DUPFD_CLOEXEC arg uflock uwrite = Undefined"
proof -
  obtain s1 where s1: "fd_retain s i = Some s1" "files_inv (ext(i := ext i + 1)) extn s1" "tables s1 cur = Some t"
    using retained_install [OF inv t f(2)] t by auto
  have st: "s32 (int arg) = int arg" using full(2) by (intro s32_id) auto
  obtain r s2 t2 where r: "f_install_start E s1 cur i (int arg) = Some (r, s2)" "tables s2 cur = Some t2" "install_result E t i arg r t2"
    using f_install_start_law [OF s1(2,3), of i "int arg" E] full by (auto simp: gives_def)
  have e: "r = ENOMEM \<or> r = EMFILE" "t2 = t" using r(3) full by (auto simp: install_result_def split: if_splits)
  have "length (ft_cloexec t) \<le> 2 ^ 31" using inv_table_ok [OF inv t] by (auto simp: table_ok_def BITS_SIZE_def)
  then have "set_cloexec s2 cur r = None" using e r(2) by (auto simp: set_cloexec_def bit_set_def u64_def)
  then show ?thesis using f_get_law [OF t, of f] f s1(1) r(1) st by (simp add: sys_fcntl_def returns_def)
qed

end
