(* ===== verification/Signals.thy ===== *)
theory Signals
  imports Ish_Prelude "HOL-Library.Monad_Syntax"
begin

text \<open>
  Signals: kernel/signal.c and kernel/signal.h in the configuration for ARM64 guests, with the look-up of tasks of
  kernel/task.c.  A task holds its mask, its pending set, its queue, its alternate stack and its registers; the tables of actions
  and the thread groups are reached by number, as the C code reaches them by pointer.  Each operation
  runs under the lock the C code takes, so it is one step.  A result \<^term>\<open>None\<close> is an execution the C code
  does not define: a failed assertion, an index outside the table of actions or a missing object.
\<close>

section \<open>Signal sets\<close>

type_synonym sigset = "64 word"

abbreviation (input) NUM_SIGS :: nat where "NUM_SIGS \<equiv> 64"
abbreviation (input) SIGTRAP :: nat where "SIGTRAP \<equiv> 5"
abbreviation (input) SIGILL :: nat where "SIGILL \<equiv> 4"
abbreviation (input) SIGABRT :: nat where "SIGABRT \<equiv> 6"
abbreviation (input) SIGBUS :: nat where "SIGBUS \<equiv> 7"
abbreviation (input) SIGFPE :: nat where "SIGFPE \<equiv> 8"
abbreviation (input) SIGKILL :: nat where "SIGKILL \<equiv> 9"
abbreviation (input) SIGSEGV :: nat where "SIGSEGV \<equiv> 11"
abbreviation (input) SIGCHLD :: nat where "SIGCHLD \<equiv> 17"
abbreviation (input) SIGCONT :: nat where "SIGCONT \<equiv> 18"
abbreviation (input) SIGSTOP :: nat where "SIGSTOP \<equiv> 19"
abbreviation (input) SIGTSTP :: nat where "SIGTSTP \<equiv> 20"
abbreviation (input) SIGTTIN :: nat where "SIGTTIN \<equiv> 21"
abbreviation (input) SIGTTOU :: nat where "SIGTTOU \<equiv> 22"
abbreviation (input) SIGURG :: nat where "SIGURG \<equiv> 23"
abbreviation (input) SIGWINCH :: nat where "SIGWINCH \<equiv> 28"
abbreviation (input) SIGIO :: nat where "SIGIO \<equiv> 29"

definition sig_mask :: "nat \<Rightarrow> sigset option" where
  "sig_mask sig = (if sig \<ge> 1 \<and> sig < NUM_SIGS then Some (push_bit (sig - 1) 1) else None)"

definition sigset_has :: "sigset \<Rightarrow> nat \<Rightarrow> bool option" where
  "sigset_has ss sig = do { m \<leftarrow> sig_mask sig; Some (ss AND m \<noteq> 0) }"

definition sigset_add :: "sigset \<Rightarrow> nat \<Rightarrow> sigset option" where
  "sigset_add ss sig = do { m \<leftarrow> sig_mask sig; Some (ss OR m) }"

definition sigset_del :: "sigset \<Rightarrow> nat \<Rightarrow> sigset option" where
  "sigset_del ss sig = do { m \<leftarrow> sig_mask sig; Some (ss AND NOT m) }"

section \<open>Data\<close>

text \<open>The union of \<^verbatim>\<open>siginfo_\<close> is kept as the words it overlays: \<^verbatim>\<open>si_pid\<close> and \<^verbatim>\<open>si_uid\<close> are also the two halves of
  the fault address.\<close>

record siginfo =
  si_sig :: nat
  si_errno :: int
  si_code :: int
  si_pid :: "32 word"
  si_uid :: "32 word"
  si_status :: "32 word"
  si_utime :: "64 word"
  si_stime :: "64 word"

abbreviation (input) SI_USER :: int where "SI_USER \<equiv> 0"
abbreviation (input) SI_TIMER :: int where "SI_TIMER \<equiv> - 2"
abbreviation (input) SI_TKILL :: int where "SI_TKILL \<equiv> - 6"
abbreviation (input) SI_KERNEL :: int where "SI_KERNEL \<equiv> 128"

definition SIGINFO_NIL :: siginfo where
  "SIGINFO_NIL = \<lparr>si_sig = 0, si_errno = 0, si_code = SI_KERNEL, si_pid = 0, si_uid = 0, si_status = 0, si_utime = 0, si_stime = 0\<rparr>"

record sigaction =
  sa_handler :: "64 word"
  sa_flags :: "32 word"
  sa_restorer :: "64 word"
  sa_mask :: sigset

abbreviation (input) SIG_DFL :: "64 word" where "SIG_DFL \<equiv> 0"
abbreviation (input) SIG_IGN :: "64 word" where "SIG_IGN \<equiv> 1"
abbreviation (input) SA_NODEFER :: "32 word" where "SA_NODEFER \<equiv> 0x40000000"
abbreviation (input) SA_RESETHAND :: "32 word" where "SA_RESETHAND \<equiv> 0x80000000"

definition default_action :: sigaction where
  "default_action = \<lparr>sa_handler = SIG_DFL, sa_flags = 0, sa_restorer = 0, sa_mask = 0\<rparr>"

record sighand =
  sh_refcount :: nat
  sh_action :: "sigaction list"

record cpu_state =
  regs :: "64 word list"
  cpu_sp :: "64 word"
  cpu_pc :: "64 word"
  cpu_nf :: bool
  cpu_zf :: bool
  cpu_cf :: bool
  cpu_vf :: bool
  cpu_nzcv :: "32 word"
  cpu_fp :: "128 word list"
  cpu_fpcr :: "32 word"
  cpu_fpsr :: "32 word"
  segfault_addr :: "64 word"
  excl_addr :: "64 word"
  excl_pair_addr :: "64 word"
  excl_pair_size :: "32 word"

record stack_t =
  ss_stack :: "64 word"
  ss_flags :: "32 word"
  ss_size :: "64 word"

record fpsimd_context =
  fps_magic :: "32 word"
  fps_size :: "32 word"
  fps_fpsr :: "32 word"
  fps_fpcr :: "32 word"
  fps_vregs :: "128 word list"

record sigcontext =
  sc_fault_address :: "64 word"
  sc_regs :: "64 word list"
  sc_sp :: "64 word"
  sc_pc :: "64 word"
  sc_pstate :: "64 word"
  sc_fpsimd :: fpsimd_context

record rt_sigframe =
  sf_restorer :: "64 word"
  sf_sig :: nat
  sf_pinfo :: "64 word"
  sf_puc :: "64 word"
  sf_info :: siginfo
  sf_stack :: stack_t
  sf_sigmask :: sigset
  sf_mcontext :: sigcontext

text \<open>\<^verbatim>\<open>frames\<close> is the part of user memory that the signal code writes and reads back: the frame stored at an address, if the
  bytes there are one.\<close>

record task =
  pid :: nat
  tgid :: nat
  uid :: nat
  euid :: nat
  suid :: nat
  cpu :: cpu_state
  group :: nat
  parent :: nat
  exit_signal :: nat
  zombie :: bool
  exiting :: bool
  task_sighand :: "nat option"
  altstack :: "64 word"
  altstack_size :: "32 word"
  blocked :: sigset
  pending :: sigset
  waiting :: sigset
  queue :: "siginfo list"
  saved_mask :: sigset
  has_saved_mask :: bool
  traced :: bool
  ptrace_stopped :: bool
  ptrace_signal :: nat
  ptrace_info :: siginfo
  frames :: "64 word \<Rightarrow> rt_sigframe option"

record tgroup =
  leader :: nat
  pgid :: nat
  stopped :: bool
  group_exit_code :: nat

text \<open>Tasks by process id and, for each process group, its thread groups in order.\<close>

record sig_state =
  tasks :: "nat \<Rightarrow> task option"
  sighands :: "nat \<Rightarrow> sighand option"
  groups :: "nat \<Rightarrow> tgroup option"
  pgroups :: "nat \<Rightarrow> nat list"
  sessions :: "nat \<Rightarrow> nat list"

text \<open>What the operations depend on besides: whether a native process takes the signal instead, whether user memory at an address
  can be written, the address of the sigreturn trampoline, the two sizes set by the x86 tracer, and what the other
  tasks do to the state while a traced task is stopped (\<^term>\<open>None\<close> when it is killed meanwhile).\<close>

record sig_env =
  native_offload_forward_signal :: "task \<Rightarrow> nat \<Rightarrow> bool"
  frame_writable :: "64 word \<Rightarrow> bool"
  sigreturn_trampoline :: "64 word"
  xsave_extra :: "64 word"
  fxsave_extra :: "64 word"
  ptrace_wait :: "nat \<Rightarrow> sig_state \<Rightarrow> sig_state option"

section \<open>Actions\<close>

definition signal_is_blockable :: "nat \<Rightarrow> bool" where
  "signal_is_blockable sig \<longleftrightarrow> sig \<noteq> SIGKILL \<and> sig \<noteq> SIGSTOP"

definition UNBLOCKABLE_MASK :: sigset where
  "UNBLOCKABLE_MASK = push_bit (SIGKILL - 1) 1 OR push_bit (SIGSTOP - 1) 1"

datatype action_type = SIGNAL_IGNORE | SIGNAL_KILL | SIGNAL_CALL_HANDLER | SIGNAL_STOP

definition default_of :: "nat \<Rightarrow> action_type" where
  "default_of sig =
    (if sig \<in> {SIGURG, SIGCONT, SIGCHLD, SIGIO, SIGWINCH} then SIGNAL_IGNORE
     else if sig \<in> {SIGSTOP, SIGTSTP, SIGTTIN, SIGTTOU} then SIGNAL_STOP
     else SIGNAL_KILL)"

definition signal_action :: "sighand \<Rightarrow> nat \<Rightarrow> action_type option" where
  "signal_action sh sig =
    (if signal_is_blockable sig then
       if sig < length (sh_action sh) then
         let h = sa_handler (sh_action sh ! sig) in
         Some (if h = SIG_IGN then SIGNAL_IGNORE else if h \<noteq> SIG_DFL then SIGNAL_CALL_HANDLER else default_of sig)
       else None
     else Some (default_of sig))"

definition put_task :: "sig_state \<Rightarrow> nat \<Rightarrow> task \<Rightarrow> sig_state" where
  "put_task s p t = s\<lparr>tasks := (tasks s)(p \<mapsto> t)\<rparr>"

section \<open>Delivery\<close>

text \<open>Waking the target is not a change of the state.\<close>

definition deliver_signal_unlocked :: "task \<Rightarrow> nat \<Rightarrow> siginfo \<Rightarrow> task option" where
  "deliver_signal_unlocked t sig info = do {
     has \<leftarrow> sigset_has (pending t) sig;
     if has then Some t
     else do {
       pend \<leftarrow> sigset_add (pending t) sig;
       Some (t\<lparr>pending := pend, queue := queue t @ [info\<lparr>si_sig := sig\<rparr>]\<rparr>) } }"

definition deliver_signal :: "sig_state \<Rightarrow> nat \<Rightarrow> nat \<Rightarrow> siginfo \<Rightarrow> sig_state option" where
  "deliver_signal s p sig info = do {
     t \<leftarrow> tasks s p;
     if task_sighand t = None then Some s
     else do { t' \<leftarrow> deliver_signal_unlocked t sig info; Some (put_task s p t') } }"

definition send_signal :: "sig_env \<Rightarrow> sig_state \<Rightarrow> nat \<Rightarrow> nat \<Rightarrow> siginfo \<Rightarrow> sig_state option" where
  "send_signal E s p sig info = do {
     t \<leftarrow> tasks s p;
     if sig = 0 then Some s
     else if zombie t \<or> exiting t then Some s
     else if native_offload_forward_signal E t sig then Some s
     else (case task_sighand t of
         None \<Rightarrow> Some s
       | Some h \<Rightarrow> do {
           sh \<leftarrow> sighands s h;
           act \<leftarrow> signal_action sh sig;
           s \<leftarrow> (if act \<noteq> SIGNAL_IGNORE then do { t' \<leftarrow> deliver_signal_unlocked t sig info; Some (put_task s p t') } else Some s);
           if sig = SIGCONT \<or> sig = SIGKILL then do {
             g \<leftarrow> groups s (group t);
             Some (s\<lparr>groups := (groups s)(group t \<mapsto> g\<lparr>stopped := False\<rparr>)\<rparr>) }
           else Some s }) }"

definition try_self_signal :: "sig_state \<Rightarrow> nat \<Rightarrow> nat \<Rightarrow> (bool \<times> sig_state) option" where
  "try_self_signal s cur sig =
    (if sig \<noteq> SIGTTIN \<and> sig \<noteq> SIGTTOU then None
     else do {
       t \<leftarrow> tasks s cur;
       h \<leftarrow> task_sighand t;
       sh \<leftarrow> sighands s h;
       act \<leftarrow> signal_action sh sig;
       b \<leftarrow> sigset_has (blocked t) sig;
       let can_send = (act \<noteq> SIGNAL_IGNORE \<and> \<not> b);
       if can_send then do { t' \<leftarrow> deliver_signal_unlocked t sig SIGINFO_NIL; Some (True, put_task s cur t') }
       else Some (False, s) })"

section \<open>Looking up tasks\<close>

abbreviation (input) MAX_PID :: nat where "MAX_PID \<equiv> 32768"

definition pid_empty :: "sig_state \<Rightarrow> nat \<Rightarrow> bool" where
  "pid_empty s p \<longleftrightarrow> tasks s p = None \<and> sessions s p = [] \<and> pgroups s p = []"

text \<open>The array has \<^verbatim>\<open>MAX_PID + 1\<close> entries and the check lets the index one past the last one through.\<close>

definition pid_get :: "sig_state \<Rightarrow> nat \<Rightarrow> bool option" where
  "pid_get s p =
    (if p > MAX_PID + 1 then Some False
     else if p = MAX_PID + 1 then None
     else Some (\<not> pid_empty s p))"

definition pid_get_task_zombie :: "sig_state \<Rightarrow> nat \<Rightarrow> task option option" where
  "pid_get_task_zombie s p = do { found \<leftarrow> pid_get s p; Some (if found then tasks s p else None) }"

definition pid_get_task :: "sig_state \<Rightarrow> nat \<Rightarrow> task option option" where
  "pid_get_task s p = do {
     r \<leftarrow> pid_get_task_zombie s p;
     Some (case r of None \<Rightarrow> None | Some t \<Rightarrow> if zombie t then None else Some t) }"

definition task_is_leader :: "sig_state \<Rightarrow> task \<Rightarrow> bool option" where
  "task_is_leader s t = do { g \<leftarrow> groups s (group t); Some (leader g = pid t) }"

fun signal_leaders :: "sig_env \<Rightarrow> sig_state \<Rightarrow> nat list \<Rightarrow> nat \<Rightarrow> siginfo \<Rightarrow> sig_state option" where
  "signal_leaders E s [] sig info = Some s"
| "signal_leaders E s (g # gs) sig info = do {
     tg \<leftarrow> groups s g;
     s \<leftarrow> send_signal E s (leader tg) sig info;
     signal_leaders E s gs sig info }"

definition send_group_signal :: "sig_env \<Rightarrow> sig_state \<Rightarrow> nat \<Rightarrow> nat \<Rightarrow> siginfo \<Rightarrow> (int \<times> sig_state) option" where
  "send_group_signal E s pg sig info = do {
     found \<leftarrow> pid_get s pg;
     if \<not> found then Some (ESRCH, s)
     else do { s \<leftarrow> signal_leaders E s (pgroups s pg) sig info; Some (0, s) } }"

section \<open>The signal frame\<close>

abbreviation (input) FPSIMD_MAGIC :: "32 word" where "FPSIMD_MAGIC \<equiv> 0x46508001"
abbreviation (input) MINSIGSTKSZ :: nat where "MINSIGSTKSZ \<equiv> 6144"
abbreviation (input) SS_ONSTACK :: "32 word" where "SS_ONSTACK \<equiv> 1"
abbreviation (input) SS_DISABLE :: "32 word" where "SS_DISABLE \<equiv> 2"

text \<open>The size of \<^verbatim>\<open>struct rt_sigframe_\<close> and the offsets of its fields \<^verbatim>\<open>info\<close> and \<^verbatim>\<open>uc\<close>.\<close>

abbreviation (input) rt_sigframe_size :: "64 word" where "rt_sigframe_size \<equiv> 4736"
abbreviation (input) info_offset :: "64 word" where "info_offset \<equiv> 32"
abbreviation (input) uc_offset :: "64 word" where "uc_offset \<equiv> 160"

definition is_on_altstack :: "64 word \<Rightarrow> task \<Rightarrow> bool" where
  "is_on_altstack sp t \<longleftrightarrow> altstack t \<noteq> 0 \<and> sp > altstack t \<and> sp \<le> altstack t + ucast (altstack_size t)"

definition altstack_to_user :: "task \<Rightarrow> stack_t" where
  "altstack_to_user t =
    \<lparr>ss_stack = altstack t,
     ss_flags = (if altstack t = 0 then SS_DISABLE else 0) OR (if is_on_altstack (cpu_sp (cpu t)) t then SS_ONSTACK else 0),
     ss_size = ucast (altstack_size t)\<rparr>"

definition setup_sigcontext :: "cpu_state \<Rightarrow> sigcontext" where
  "setup_sigcontext c =
    \<lparr>sc_fault_address = segfault_addr c, sc_regs = regs c, sc_sp = cpu_sp c, sc_pc = cpu_pc c, sc_pstate = ucast (cpu_nzcv c),
     sc_fpsimd = \<lparr>fps_magic = FPSIMD_MAGIC, fps_size = 528, fps_fpsr = cpu_fpsr c, fps_fpcr = cpu_fpcr c, fps_vregs = cpu_fp c\<rparr>\<rparr>"

definition arm64_set_nzcv :: "cpu_state \<Rightarrow> 32 word \<Rightarrow> cpu_state" where
  "arm64_set_nzcv c v = c\<lparr>cpu_nzcv := v, cpu_nf := bit v 31, cpu_zf := bit v 30, cpu_cf := bit v 29, cpu_vf := bit v 28\<rparr>"

definition restore_sigcontext :: "sigcontext \<Rightarrow> cpu_state \<Rightarrow> cpu_state" where
  "restore_sigcontext sc c =
    (let c = c\<lparr>regs := sc_regs sc, cpu_sp := sc_sp sc, cpu_pc := sc_pc sc\<rparr>;
         c = arm64_set_nzcv c (ucast (sc_pstate sc));
         f = sc_fpsimd sc
     in if fps_magic f = FPSIMD_MAGIC then c\<lparr>cpu_fpsr := fps_fpsr f, cpu_fpcr := fps_fpcr f, cpu_fp := fps_vregs f\<rparr> else c)"

definition setup_rt_sigframe :: "sig_env \<Rightarrow> task \<Rightarrow> siginfo \<Rightarrow> rt_sigframe" where
  "setup_rt_sigframe E t info =
    \<lparr>sf_restorer = sigreturn_trampoline E, sf_sig = si_sig info, sf_pinfo = 0, sf_puc = 0, sf_info = info,
     sf_stack = altstack_to_user t, sf_sigmask = blocked t, sf_mcontext = setup_sigcontext (cpu t)\<rparr>"

text \<open>Where the frame goes.\<close>

definition frame_sp :: "sig_env \<Rightarrow> task \<Rightarrow> 64 word" where
  "frame_sp E t =
    (let sp = cpu_sp (cpu t);
         sp = (if altstack t \<noteq> 0 \<and> \<not> is_on_altstack sp t then altstack t + ucast (altstack_size t) else sp);
         sp = (if xsave_extra E \<noteq> 0 then ((sp - xsave_extra E) AND NOT 0x3f) - fxsave_extra E else sp)
     in (sp - rt_sigframe_size) AND NOT 0xf)"

section \<open>Receiving signals\<close>

text \<open>How receiving a signal ends.  \<^verbatim>\<open>Deadlock\<close>: the task takes the lock of its table of actions while it holds it.\<close>

datatype recv = Continue sig_state | Exit_group nat sig_state | Deadlock sig_state

definition kill_status :: "task \<Rightarrow> nat \<Rightarrow> nat" where
  "kill_status t sig =
    (if sig = SIGTRAP then 256
     else if sig = SIGABRT then 256
     else if (sig = SIGILL \<or> sig = SIGBUS) \<and> cpu_pc (cpu t) \<ge> 0xb0000000 \<and> cpu_pc (cpu t) < 0xf0000000 then 256
     else sig)"

definition call_handler :: "sig_env \<Rightarrow> task \<Rightarrow> sigaction \<Rightarrow> siginfo \<Rightarrow> task option" where
  "call_handler E t action info = do {
     let sp = frame_sp E t;
     let frame = (setup_rt_sigframe E t info)\<lparr>sf_pinfo := sp + info_offset, sf_puc := sp + uc_offset\<rparr>;
     mask \<leftarrow> (if sa_flags action AND SA_NODEFER = 0 then sigset_add (blocked t) (si_sig info) else Some (blocked t));
     let c = (cpu t)\<lparr>excl_addr := - 1, excl_pair_addr := - 1, excl_pair_size := 0, cpu_pc := sa_handler action, cpu_sp := sp,
       regs := (regs (cpu t))[0 := of_nat (si_sig info), 1 := sf_pinfo frame, 2 := sf_puc frame, 30 := sf_restorer frame]\<rparr>;
     Some (t\<lparr>cpu := c, blocked := mask OR sa_mask action, frames := (frames t)(sp \<mapsto> frame)\<rparr>) }"

definition receive_signal :: "sig_env \<Rightarrow> sig_state \<Rightarrow> nat \<Rightarrow> nat \<Rightarrow> siginfo \<Rightarrow> recv option" where
  "receive_signal E s cur h info = do {
     let sig = si_sig info;
     t \<leftarrow> tasks s cur;
     sh \<leftarrow> sighands s h;
     act \<leftarrow> signal_action sh sig;
     case act of
       SIGNAL_IGNORE \<Rightarrow> Some (Continue s)
     | SIGNAL_STOP \<Rightarrow> do {
         g \<leftarrow> groups s (group t);
         Some (Continue (s\<lparr>groups := (groups s)(group t \<mapsto> g\<lparr>stopped := True, group_exit_code := sig * 256 + 127\<rparr>)\<rparr>)) }
     | SIGNAL_KILL \<Rightarrow> Some (Exit_group (kill_status t sig) s)
     | SIGNAL_CALL_HANDLER \<Rightarrow>
         if sig < length (sh_action sh) then do {
           let action = sh_action sh ! sig;
           t' \<leftarrow> call_handler E t action info;
           if \<not> frame_writable E (frame_sp E t) then Some (Deadlock (put_task s cur (t'\<lparr>frames := frames t\<rparr>)))
           else do {
             let s = put_task s cur t';
             Some (Continue (if sa_flags action AND SA_RESETHAND \<noteq> 0
               then s\<lparr>sighands := (sighands s)(h \<mapsto> sh\<lparr>sh_action := (sh_action sh)[sig := default_action]\<rparr>)\<rparr> else s)) }
         } else None }"

definition signal_delivery_stop :: "sig_env \<Rightarrow> sig_state \<Rightarrow> nat \<Rightarrow> nat \<Rightarrow> siginfo \<Rightarrow> recv option" where
  "signal_delivery_stop E s cur sig info = do {
     t \<leftarrow> tasks s cur;
     let s = put_task s cur (t\<lparr>ptrace_stopped := True, ptrace_signal := sig, ptrace_info := info\<rparr>);
     g \<leftarrow> groups s (group t);
     lead \<leftarrow> tasks s (leader g);
     s \<leftarrow> send_signal E s (parent t) (exit_signal lead) SIGINFO_NIL;
     Some (case ptrace_wait E cur s of None \<Rightarrow> Exit_group SIGKILL s | Some s' \<Rightarrow> Continue s') }"

text \<open>The loop over the queue: \<^verbatim>\<open>bl\<close> is the mask computed before the loop and the list is the queue at that time.\<close>

fun receive_loop :: "sig_env \<Rightarrow> sig_state \<Rightarrow> nat \<Rightarrow> nat \<Rightarrow> sigset \<Rightarrow> siginfo list \<Rightarrow> recv option" where
  "receive_loop E s cur h bl [] = Some (Continue s)"
| "receive_loop E s cur h bl (info # todo) = do {
     let sig = si_sig info;
     has \<leftarrow> sigset_has bl sig;
     if has then receive_loop E s cur h bl todo
     else do {
       t \<leftarrow> tasks s cur;
       pend \<leftarrow> sigset_del (pending t) sig;
       let s = put_task s cur (t\<lparr>queue := remove1 info (queue t), pending := pend\<rparr>);
       r \<leftarrow> (if traced t \<and> sig \<noteq> SIGKILL then signal_delivery_stop E s cur sig info
             else receive_signal E s cur h info);
       case r of Continue s \<Rightarrow> receive_loop E s cur h bl todo | _ \<Rightarrow> Some r } }"

definition receive_signals :: "sig_env \<Rightarrow> sig_state \<Rightarrow> nat \<Rightarrow> recv option" where
  "receive_signals E s cur = do {
     t \<leftarrow> tasks s cur;
     g \<leftarrow> groups s (group t);
     let was_stopped = stopped g;
     case task_sighand t of
       None \<Rightarrow> Some (Continue s)
     | Some h \<Rightarrow> do {
         let bl = (if has_saved_mask t then blocked t AND saved_mask t else blocked t);
         let s = (if has_saved_mask t then put_task s cur (t\<lparr>has_saved_mask := False, blocked := saved_mask t\<rparr>) else s);
         r \<leftarrow> receive_loop E s cur h bl (queue t);
         case r of
           Continue s \<Rightarrow>
             if was_stopped then Some (Continue s)
             else do {
               g \<leftarrow> groups s (group t);
               if stopped g then do {
                 lead \<leftarrow> tasks s (leader g);
                 s \<leftarrow> send_signal E s (parent t) (exit_signal lead) SIGINFO_NIL;
                 Some (Continue s) }
               else Some (Continue s) }
         | _ \<Rightarrow> Some r } }"

section \<open>Masks\<close>

definition sigmask_set :: "task \<Rightarrow> sigset \<Rightarrow> task" where
  "sigmask_set t m = t\<lparr>blocked := m AND NOT UNBLOCKABLE_MASK\<rparr>"

definition sigmask_set_temp :: "task \<Rightarrow> sigset \<Rightarrow> task" where
  "sigmask_set_temp t m = sigmask_set (t\<lparr>saved_mask := blocked t, has_saved_mask := True\<rparr>) m"

abbreviation (input) SIG_BLOCK :: nat where "SIG_BLOCK \<equiv> 0"
abbreviation (input) SIG_UNBLOCK :: nat where "SIG_UNBLOCK \<equiv> 1"
abbreviation (input) SIG_SETMASK :: nat where "SIG_SETMASK \<equiv> 2"

definition do_sigprocmask :: "task \<Rightarrow> nat \<Rightarrow> sigset \<Rightarrow> int \<times> task" where
  "do_sigprocmask t how m =
    (if how = SIG_BLOCK then (0, sigmask_set t (blocked t OR m))
     else if how = SIG_UNBLOCK then (0, sigmask_set t (blocked t AND NOT m))
     else if how = SIG_SETMASK then (0, sigmask_set t m)
     else (EINVAL, t))"

section \<open>User memory\<close>

text \<open>Reads of user memory by address (\<^term>\<open>None\<close> for a fault) and whether a write of some length succeeds.\<close>

record sig_user =
  um_read64 :: "64 word \<Rightarrow> 64 word option"
  um_stack :: "64 word \<Rightarrow> stack_t option"
  um_writable :: "64 word \<Rightarrow> nat \<Rightarrow> bool"

definition sigset_size_valid :: "nat \<Rightarrow> bool" where
  "sigset_size_valid sz \<longleftrightarrow> sz \<ge> 8 \<and> sz mod 8 = 0"

definition user_get_sigset :: "sig_user \<Rightarrow> 64 word \<Rightarrow> nat \<Rightarrow> int + sigset" where
  "user_get_sigset U addr sz =
    (if \<not> sigset_size_valid sz then Inl EINVAL
     else case um_read64 U addr of None \<Rightarrow> Inl EFAULT | Some w \<Rightarrow> Inr w)"

text \<open>A write to user memory: the address and the bytes, least significant first.\<close>

type_synonym uwrite = "64 word \<times> byte list"

definition bytes64 :: "64 word \<Rightarrow> byte list" where
  "bytes64 w = map (\<lambda>i. ucast (drop_bit (8 * i) w)) [0..<8]"

function put_zeros :: "sig_user \<Rightarrow> 64 word \<Rightarrow> nat \<Rightarrow> int \<times> uwrite list" where
  "put_zeros U pos remaining =
    (if remaining > 0 then
       let chunk = (if remaining > 16 then 16 else remaining) in
       if \<not> um_writable U pos chunk then (EFAULT, [])
       else case put_zeros U (pos + of_nat chunk) (remaining - chunk) of (err, ws) \<Rightarrow> (err, (pos, replicate chunk 0) # ws)
     else (0, []))"
  by auto
termination by (relation "measure (\<lambda>(U, pos, remaining). remaining)") auto

declare put_zeros.simps [simp del]

definition user_put_sigset :: "sig_user \<Rightarrow> 64 word \<Rightarrow> nat \<Rightarrow> sigset \<Rightarrow> int \<times> uwrite list" where
  "user_put_sigset U addr sz m =
    (if \<not> sigset_size_valid sz then (EINVAL, [])
     else if \<not> um_writable U addr 8 then (EFAULT, [])
     else case put_zeros U (addr + 8) (sz - 8) of (err, ws) \<Rightarrow> (err, (addr, bytes64 m) # ws))"

definition user_get_sigaction_arm64 :: "sig_user \<Rightarrow> 64 word \<Rightarrow> nat \<Rightarrow> int + sigaction" where
  "user_get_sigaction_arm64 U addr sz =
    (case um_read64 U addr of
       None \<Rightarrow> Inl EFAULT
     | Some handler \<Rightarrow>
         (case um_read64 U (addr + 8) of
            None \<Rightarrow> Inl EFAULT
          | Some flags \<Rightarrow>
              (case um_read64 U (addr + 16) of
                 None \<Rightarrow> Inl EFAULT
               | Some restorer \<Rightarrow>
                   (case user_get_sigset U (addr + 24) sz of
                      Inl err \<Rightarrow> Inl err
                    | Inr m \<Rightarrow> Inr \<lparr>sa_handler = handler, sa_flags = ucast flags, sa_restorer = restorer, sa_mask = m\<rparr>))))"

definition user_put_sigaction_arm64 :: "sig_user \<Rightarrow> 64 word \<Rightarrow> nat \<Rightarrow> sigaction \<Rightarrow> int \<times> uwrite list" where
  "user_put_sigaction_arm64 U addr sz a =
    (if \<not> um_writable U addr 8 then (EFAULT, [])
     else if \<not> um_writable U (addr + 8) 8 then (EFAULT, [(addr, bytes64 (sa_handler a))])
     else if \<not> um_writable U (addr + 16) 8 then (EFAULT, [(addr, bytes64 (sa_handler a)), (addr + 8, bytes64 (ucast (sa_flags a)))])
     else case user_put_sigset U (addr + 24) sz (sa_mask a) of (err, ws) \<Rightarrow>
       (err, [(addr, bytes64 (sa_handler a)), (addr + 8, bytes64 (ucast (sa_flags a))), (addr + 16, bytes64 (sa_restorer a))] @ ws))"

definition sys_rt_sigprocmask ::
  "sig_user \<Rightarrow> sig_state \<Rightarrow> nat \<Rightarrow> nat \<Rightarrow> 64 word \<Rightarrow> 64 word \<Rightarrow> nat \<Rightarrow> (int \<times> sig_state \<times> uwrite list) option" where
  "sys_rt_sigprocmask U s cur how set_addr oldset_addr sz = do {
     t \<leftarrow> tasks s cur;
     if \<not> sigset_size_valid sz then Some (EINVAL, s, [])
     else (case (if set_addr \<noteq> 0 then user_get_sigset U set_addr sz else Inr 0) of
         Inl err \<Rightarrow> Some (err, s, [])
       | Inr m \<Rightarrow>
           (case (if oldset_addr \<noteq> 0 then user_put_sigset U oldset_addr sz (blocked t) else (0, [])) of (err, ws) \<Rightarrow>
              if err \<noteq> 0 then Some (err, s, ws)
              else if set_addr \<noteq> 0 then
                (case do_sigprocmask t how m of (err, t') \<Rightarrow> Some (if err < 0 then err else 0, put_task s cur t', ws))
              else Some (0, s, ws))) }"

definition sys_rt_sigpending :: "sig_user \<Rightarrow> sig_state \<Rightarrow> nat \<Rightarrow> 64 word \<Rightarrow> nat \<Rightarrow> (int \<times> uwrite list) option" where
  "sys_rt_sigpending U s cur addr sz = do {
     t \<leftarrow> tasks s cur;
     Some (user_put_sigset U addr sz (pending t AND blocked t)) }"

section \<open>Tables of actions\<close>

definition sighand_new :: "bool \<Rightarrow> sighand option" where
  "sighand_new malloc_ok = (if malloc_ok then Some \<lparr>sh_refcount = 1, sh_action = replicate NUM_SIGS default_action\<rparr> else None)"

definition sighand_copy :: "bool \<Rightarrow> sighand \<Rightarrow> sighand option" where
  "sighand_copy malloc_ok sh = (case sighand_new malloc_ok of None \<Rightarrow> None | Some n \<Rightarrow> Some (n\<lparr>sh_action := sh_action sh\<rparr>))"

definition sighand_release :: "sig_state \<Rightarrow> nat \<Rightarrow> sig_state option" where
  "sighand_release s h = do {
     sh \<leftarrow> sighands s h;
     Some (if sh_refcount sh = 1 then s\<lparr>sighands := (sighands s)(h := None)\<rparr>
           else s\<lparr>sighands := (sighands s)(h \<mapsto> sh\<lparr>sh_refcount := sh_refcount sh - 1\<rparr>)\<rparr>) }"

text \<open>The signal number is a signed integer here: a negative one passes both checks and indexes in front of the table.\<close>

definition do_sigaction :: "sig_state \<Rightarrow> nat \<Rightarrow> int \<Rightarrow> sigaction option \<Rightarrow> bool \<Rightarrow> (int \<times> sig_state \<times> sigaction option) option" where
  "do_sigaction s cur sig action want_old =
    (if sig \<ge> int NUM_SIGS then Some (EINVAL, s, None)
     else if sig = int SIGKILL \<or> sig = int SIGSTOP then Some (EINVAL, s, None)
     else do {
       t \<leftarrow> tasks s cur;
       h \<leftarrow> task_sighand t;
       sh \<leftarrow> sighands s h;
       if action = None \<and> \<not> want_old then Some (0, s, None)
       else if sig < 0 \<or> nat sig \<ge> length (sh_action sh) then None
       else Some (0,
         (case action of None \<Rightarrow> s | Some a \<Rightarrow> s\<lparr>sighands := (sighands s)(h \<mapsto> sh\<lparr>sh_action := (sh_action sh)[nat sig := a]\<rparr>)\<rparr>),
         if want_old then Some (sh_action sh ! nat sig) else None) })"

definition sys_rt_sigaction ::
  "sig_user \<Rightarrow> sig_state \<Rightarrow> nat \<Rightarrow> nat \<Rightarrow> 64 word \<Rightarrow> 64 word \<Rightarrow> nat \<Rightarrow> (int \<times> sig_state \<times> uwrite list) option" where
  "sys_rt_sigaction U s cur signum action_addr oldaction_addr sz =
    (if \<not> sigset_size_valid sz then Some (EINVAL, s, [])
     else case (if action_addr \<noteq> 0 then map_sum id Some (user_get_sigaction_arm64 U action_addr sz) else Inr None) of
         Inl err \<Rightarrow> Some (err, s, [])
       | Inr action \<Rightarrow> do {
           (err, s, old) \<leftarrow> do_sigaction s cur (s32 (int signum)) action (oldaction_addr \<noteq> 0);
           if err < 0 then Some (err, s, [])
           else (case old of
               None \<Rightarrow> Some (err, s, [])
             | Some a \<Rightarrow> (case user_put_sigaction_arm64 U oldaction_addr sz a of (e, ws) \<Rightarrow> Some (if e \<noteq> 0 then e else err, s, ws))) })"

definition sys_sigaction ::
  "sig_user \<Rightarrow> sig_state \<Rightarrow> nat \<Rightarrow> nat \<Rightarrow> 64 word \<Rightarrow> 64 word \<Rightarrow> (int \<times> sig_state \<times> uwrite list) option" where
  "sys_sigaction U s cur signum action_addr oldaction_addr = sys_rt_sigaction U s cur signum action_addr oldaction_addr 1"

section \<open>Returning from a handler\<close>

definition sys_rt_sigreturn :: "sig_state \<Rightarrow> nat \<Rightarrow> ((int + 64 word) \<times> sig_state) option" where
  "sys_rt_sigreturn s cur = do {
     t \<leftarrow> tasks s cur;
     let sp = cpu_sp (cpu t);
     case frames t sp of
       None \<Rightarrow> do { s \<leftarrow> deliver_signal s cur SIGSEGV SIGINFO_NIL; Some (Inl EFAULT, s) }
     | Some frame \<Rightarrow> do {
         let t = t\<lparr>cpu := restore_sigcontext (sf_mcontext frame) (cpu t)\<rparr>;
         let t = (if \<not> is_on_altstack sp t \<and> unat (ss_size (sf_stack frame)) \<ge> MINSIGSTKSZ
           then t\<lparr>altstack := ss_stack (sf_stack frame), altstack_size := ucast (ss_size (sf_stack frame))\<rparr> else t);
         let t = sigmask_set t (sf_sigmask frame);
         Some (Inr (regs (cpu t) ! 0), put_task s cur t) } }"

definition sys_sigaltstack :: "sig_user \<Rightarrow> sig_state \<Rightarrow> nat \<Rightarrow> 64 word \<Rightarrow> 64 word \<Rightarrow> (int \<times> sig_state \<times> stack_t option) option" where
  "sys_sigaltstack U s cur ss_addr old_ss_addr = do {
     t \<leftarrow> tasks s cur;
     if old_ss_addr \<noteq> 0 \<and> \<not> um_writable U old_ss_addr 24 then Some (EFAULT, s, None)
     else do {
       let old = (if old_ss_addr \<noteq> 0 then Some (altstack_to_user t) else None);
       if ss_addr = 0 then Some (0, s, old)
       else if is_on_altstack (cpu_sp (cpu t)) t then Some (EPERM, s, old)
       else (case um_stack U ss_addr of
           None \<Rightarrow> Some (EFAULT, s, old)
         | Some ss \<Rightarrow>
             if ss_flags ss AND SS_DISABLE \<noteq> 0 then Some (0, put_task s cur (t\<lparr>altstack := 0, altstack_size := 0\<rparr>), old)
             else if unat (ss_size ss) < MINSIGSTKSZ then Some (ENOMEM, s, old)
             else Some (0, put_task s cur (t\<lparr>altstack := ss_stack ss, altstack_size := ucast (ss_size ss)\<rparr>), old)) } }"

section \<open>Waiting\<close>

text \<open>What happens during the waits of a task: each event is a wake-up or a timeout, with the state the other tasks have left.
  \<^verbatim>\<open>wait_for\<close> consumes at most one event; \<^term>\<open>None\<close> is a task that is still waiting.\<close>

type_synonym events = "(bool \<times> sig_state) list"

definition is_signal_pending :: "sig_state \<Rightarrow> nat \<Rightarrow> bool" where
  "is_signal_pending s cur = (case tasks s cur of None \<Rightarrow> False | Some t \<Rightarrow> pending t AND NOT (blocked t) \<noteq> 0)"

fun wait_for :: "sig_state \<Rightarrow> nat \<Rightarrow> events \<Rightarrow> (int \<times> sig_state \<times> events) option" where
  "wait_for s cur evs =
    (if is_signal_pending s cur then Some (EINTR, s, evs)
     else case evs of
       [] \<Rightarrow> None
     | (timed_out, s') # evs' \<Rightarrow>
         if timed_out then Some (ETIMEDOUT, s', evs')
         else if is_signal_pending s' cur then Some (EINTR, s', evs')
         else Some (0, s', evs'))"

declare wait_for.simps [simp del]

lemma wait_for_consumes:
  "wait_for s cur evs = Some (err, s', evs') \<Longrightarrow> err \<noteq> EINTR \<Longrightarrow> length evs' < length evs"
  by (auto simp: wait_for.simps [of s] split: if_splits list.splits prod.splits)

text \<open>\<^verbatim>\<open>while (wait_for(...) != _EINTR)\<close> of sigsuspend and pause.\<close>

function wait_eintr :: "sig_state \<Rightarrow> nat \<Rightarrow> events \<Rightarrow> sig_state option" where
  "wait_eintr s cur evs =
    (case wait_for s cur evs of
       None \<Rightarrow> None
     | Some (err, s', evs') \<Rightarrow> if err \<noteq> EINTR then wait_eintr s' cur evs' else Some s')"
  by auto
termination by (relation "measure (\<lambda>(s, cur, evs). length evs)") (auto dest: wait_for_consumes)

declare wait_eintr.simps [simp del]

definition sys_rt_sigsuspend :: "sig_user \<Rightarrow> sig_state \<Rightarrow> nat \<Rightarrow> 64 word \<Rightarrow> nat \<Rightarrow> events \<Rightarrow> (int \<times> sig_state) option" where
  "sys_rt_sigsuspend U s cur mask_addr sz evs =
    (case user_get_sigset U mask_addr sz of
       Inl err \<Rightarrow> Some (err, s)
     | Inr m \<Rightarrow> do {
         t \<leftarrow> tasks s cur;
         s \<leftarrow> wait_eintr (put_task s cur (sigmask_set_temp t m)) cur evs;
         Some (EINTR, s) })"

definition sys_pause :: "sig_state \<Rightarrow> nat \<Rightarrow> events \<Rightarrow> (int \<times> sig_state) option" where
  "sys_pause s cur evs = do { s \<leftarrow> wait_eintr s cur evs; Some (EINTR, s) }"

function wait_nonzero :: "sig_state \<Rightarrow> nat \<Rightarrow> events \<Rightarrow> (int \<times> sig_state) option" where
  "wait_nonzero s cur evs =
    (case wait_for s cur evs of
       None \<Rightarrow> None
     | Some (err, s', evs') \<Rightarrow> if err = 0 then wait_nonzero s' cur evs' else Some (err, s'))"
  by auto
termination by (relation "measure (\<lambda>(s, cur, evs). length evs)") (auto dest: wait_for_consumes)

declare wait_nonzero.simps [simp del]

text \<open>\<^verbatim>\<open>info_ok\<close> says whether the result can be written to the caller.  The signal taken from the queue stays in the
  pending set.\<close>

definition sys_rt_sigtimedwait ::
  "sig_user \<Rightarrow> sig_state \<Rightarrow> nat \<Rightarrow> 64 word \<Rightarrow> nat \<Rightarrow> bool \<Rightarrow> bool \<Rightarrow> events \<Rightarrow> (int \<times> sig_state \<times> siginfo option) option" where
  "sys_rt_sigtimedwait U s cur set_addr sz timeout_ok info_ok evs =
    (case user_get_sigset U set_addr sz of
       Inl err \<Rightarrow> Some (err, s, None)
     | Inr m \<Rightarrow>
         if \<not> timeout_ok then Some (EFAULT, s, None)
         else do {
           t \<leftarrow> tasks s cur;
           if waiting t \<noteq> 0 then None
           else do {
             (err, s) \<leftarrow> wait_nonzero (put_task s cur (t\<lparr>waiting := m\<rparr>)) cur evs;
             t \<leftarrow> tasks s cur;
             let t = t\<lparr>waiting := 0\<rparr>;
             if err = ETIMEDOUT then Some (EAGAIN, put_task s cur t, None)
             else (case find (\<lambda>i. sigset_has m (si_sig i) = Some True) (queue t) of
                 None \<Rightarrow> Some (EINTR, put_task s cur t, None)
               | Some i \<Rightarrow> do {
                   let s = put_task s cur (t\<lparr>queue := remove1 i (queue t)\<rparr>);
                   if info_ok then Some (int (si_sig i), s, Some i) else Some (EFAULT, s, None) }) } })"

section \<open>signalfd\<close>

record signalfd_siginfo =
  so_signo :: "32 word"
  so_err :: int
  so_code :: int
  so_pid :: "32 word"
  so_uid :: "32 word"
  so_status :: "32 word"
  so_utime :: "64 word"
  so_stime :: "64 word"
  so_addr :: "64 word"

definition signalfd_fill_siginfo :: "siginfo \<Rightarrow> signalfd_siginfo" where
  "signalfd_fill_siginfo i =
    (let kill = si_code i \<in> {SI_USER, SI_TKILL, SI_TIMER};
         child = si_sig i = SIGCHLD;
         fault = si_sig i \<in> {SIGSEGV, SIGBUS, SIGILL, SIGFPE}
     in \<lparr>so_signo = of_nat (si_sig i), so_err = si_errno i, so_code = si_code i,
         so_pid = (if kill \<or> child then si_pid i else 0), so_uid = (if kill \<or> child then si_uid i else 0),
         so_status = (if child then si_status i else 0), so_utime = (if child then si_utime i else 0),
         so_stime = (if child then si_stime i else 0),
         so_addr = (if fault then ucast (si_pid i) OR push_bit 32 (ucast (si_uid i)) else 0)\<rparr>)"

definition signalfd_dequeue_locked :: "task \<Rightarrow> sigset \<Rightarrow> (siginfo \<times> task) option option" where
  "signalfd_dequeue_locked t m =
    (case find (\<lambda>i. sigset_has m (si_sig i) \<noteq> Some False) (queue t) of
       None \<Rightarrow> Some None
     | Some i \<Rightarrow> do {
         pend \<leftarrow> sigset_del (pending t) (si_sig i);
         Some (Some (i, t\<lparr>queue := remove1 i (queue t), pending := pend\<rparr>)) })"

text \<open>The loop of \<^verbatim>\<open>signalfd_read\<close> with an explicit number of iterations: a pending unblocked signal makes each wait return at
  once, so the loop need not end.  \<^verbatim>\<open>room\<close> is the size of the buffer and \<^verbatim>\<open>out\<close> the records copied so far.\<close>

fun signalfd_loop ::
  "nat \<Rightarrow> sig_state \<Rightarrow> nat \<Rightarrow> sigset \<Rightarrow> bool \<Rightarrow> nat \<Rightarrow> signalfd_siginfo list \<Rightarrow> events \<Rightarrow> (int \<times> signalfd_siginfo list \<times> sig_state) option" where
  "signalfd_loop 0 s cur m nonblock room out evs = None"
| "signalfd_loop (Suc fuel) s cur m nonblock room out evs = do {
     t \<leftarrow> tasks s cur;
     r \<leftarrow> signalfd_dequeue_locked t m;
     case r of
       Some (i, t') \<Rightarrow> do {
         let s = put_task s cur t';
         let out = out @ [signalfd_fill_siginfo i];
         if 128 * length out + 128 > room then Some (128 * int (length out), out, s)
         else signalfd_loop fuel s cur m nonblock room out evs }
     | None \<Rightarrow>
         if out \<noteq> [] then Some (128 * int (length out), out, s)
         else if nonblock then Some (EAGAIN, [], s)
         else do {
           (err, s, evs) \<leftarrow> wait_for s cur evs;
           if err < 0 \<and> err \<noteq> EINTR then Some (err, [], s)
           else signalfd_loop fuel s cur m nonblock room out evs } }"

definition signalfd_read ::
  "nat \<Rightarrow> sig_state \<Rightarrow> nat \<Rightarrow> sigset \<Rightarrow> bool \<Rightarrow> nat \<Rightarrow> events \<Rightarrow> (int \<times> signalfd_siginfo list \<times> sig_state) option" where
  "signalfd_read fuel s cur m nonblock bufsize evs =
    (if bufsize < 128 then Some (EINVAL, [], s) else signalfd_loop fuel s cur m nonblock bufsize [] evs)"

text \<open>The mask a signalfd gets.\<close>

definition signalfd_mask :: "sigset \<Rightarrow> sigset option" where
  "signalfd_mask m = do { m \<leftarrow> sigset_del m SIGKILL; sigset_del m SIGSTOP }"

section \<open>Sending signals to tasks\<close>

definition kill_task :: "sig_env \<Rightarrow> sig_state \<Rightarrow> nat \<Rightarrow> nat \<Rightarrow> nat \<Rightarrow> int \<Rightarrow> (int \<times> sig_state) option" where
  "kill_task E s cur p sig code = do {
     c \<leftarrow> tasks s cur;
     t \<leftarrow> tasks s p;
     if euid c \<noteq> 0 \<and> uid c \<noteq> uid t \<and> uid c \<noteq> suid t \<and> euid c \<noteq> uid t \<and> euid c \<noteq> suid t then Some (EPERM, s)
     else do {
       s \<leftarrow> send_signal E s p sig (SIGINFO_NIL\<lparr>si_code := code, si_pid := of_nat (pid c), si_uid := of_nat (uid c)\<rparr>);
       Some (0, s) } }"

fun kill_each :: "sig_env \<Rightarrow> sig_state \<Rightarrow> nat \<Rightarrow> nat list \<Rightarrow> nat \<Rightarrow> int \<Rightarrow> int \<Rightarrow> (int \<times> sig_state) option" where
  "kill_each E s cur [] sig code err = Some (err, s)"
| "kill_each E s cur (p # ps) sig code err = do {
     (kill_err, s) \<leftarrow> kill_task E s cur p sig code;
     kill_each E s cur ps sig code (if err = EPERM then kill_err else err) }"

fun leaders_of :: "sig_state \<Rightarrow> nat list \<Rightarrow> nat list option" where
  "leaders_of s [] = Some []"
| "leaders_of s (g # gs) = do { tg \<leftarrow> groups s g; ls \<leftarrow> leaders_of s gs; Some (leader tg # ls) }"

text \<open>When the group is not found the process table's lock is released here and once more in \<^verbatim>\<open>do_kill\<close>.\<close>

definition kill_group :: "sig_env \<Rightarrow> sig_state \<Rightarrow> nat \<Rightarrow> nat \<Rightarrow> nat \<Rightarrow> int \<Rightarrow> (int \<times> sig_state) option" where
  "kill_group E s cur pg sig code = do {
     found \<leftarrow> pid_get s pg;
     if \<not> found then Some (ESRCH, s)
     else do { ls \<leftarrow> leaders_of s (pgroups s pg); kill_each E s cur ls sig code EPERM } }"

definition kill_targets :: "sig_state \<Rightarrow> nat \<Rightarrow> nat list" where
  "kill_targets s cur = filter (\<lambda>i. case pid_get_task s i of Some (Some t) \<Rightarrow> i \<noteq> cur \<and> task_is_leader s t = Some True | _ \<Rightarrow> False) [2..<MAX_PID]"

definition kill_everything :: "sig_env \<Rightarrow> sig_state \<Rightarrow> nat \<Rightarrow> nat \<Rightarrow> int \<Rightarrow> (int \<times> sig_state) option" where
  "kill_everything E s cur sig code = kill_each E s cur (kill_targets s cur) sig code EPERM"

definition do_kill :: "sig_env \<Rightarrow> sig_state \<Rightarrow> nat \<Rightarrow> int \<Rightarrow> nat \<Rightarrow> int \<Rightarrow> int \<Rightarrow> (int \<times> sig_state) option" where
  "do_kill E s cur p sig tg code =
    (if sig \<ge> NUM_SIGS then Some (EINVAL, s)
     else do {
       c \<leftarrow> tasks s cur;
       g \<leftarrow> groups s (group c);
       let p = (if p = 0 then - int (pgid g) else p);
       if p = - 1 then kill_everything E s cur sig code
       else if p < 0 then kill_group E s cur (nat (- p)) sig code
       else do {
         r \<leftarrow> pid_get_task s (nat p);
         case r of
           None \<Rightarrow> Some (ESRCH, s)
         | Some t \<Rightarrow> if tg \<noteq> 0 \<and> int (tgid t) \<noteq> tg then Some (ESRCH, s) else kill_task E s cur (nat p) sig code } })"

definition sys_kill :: "sig_env \<Rightarrow> sig_state \<Rightarrow> nat \<Rightarrow> int \<Rightarrow> nat \<Rightarrow> (int \<times> sig_state) option" where
  "sys_kill E s cur p sig = do_kill E s cur p sig 0 SI_USER"

definition sys_tgkill :: "sig_env \<Rightarrow> sig_state \<Rightarrow> nat \<Rightarrow> int \<Rightarrow> int \<Rightarrow> nat \<Rightarrow> (int \<times> sig_state) option" where
  "sys_tgkill E s cur tg tid sig = (if tid \<le> 0 \<or> tg \<le> 0 then Some (EINVAL, s) else do_kill E s cur tid sig tg SI_TKILL)"

definition sys_tkill :: "sig_env \<Rightarrow> sig_state \<Rightarrow> nat \<Rightarrow> int \<Rightarrow> nat \<Rightarrow> (int \<times> sig_state) option" where
  "sys_tkill E s cur tid sig = (if tid \<le> 0 then Some (EINVAL, s) else do_kill E s cur tid sig 0 SI_TKILL)"

end
