(* ===== verification/Signal_Laws.thy ===== *)
theory Signal_Laws
  imports Signals Refcounts
begin

text \<open>
  Theorems about signals.  The invariant \<^verbatim>\<open>queue_ok\<close> says that the pending set of a task is the set of signals in its queue,
  each once; delivery, the kill calls, the mask and action calls, receiving and signalfd keep it, sigtimedwait does not.  A handler
  followed by sigreturn restores the registers and the mask, and SIGKILL ends the task that receives it.
\<close>

section \<open>Signal sets as bits\<close>

definition valid_sig :: "nat \<Rightarrow> bool" where
  "valid_sig sig \<longleftrightarrow> 1 \<le> sig \<and> sig < 64"

lemma bit_one_shifted: "j < 64 \<Longrightarrow> bit (2 ^ j :: 64 word) k \<longleftrightarrow> k = j"
  by (auto simp: bit_simps)

lemma and_one_shifted: "j < 64 \<Longrightarrow> (w :: 64 word) AND push_bit j 1 = 0 \<longleftrightarrow> \<not> bit w j"
proof (rule iffI)
  assume j: "j < 64" and "w AND push_bit j 1 = 0"
  then have "\<not> bit (w AND push_bit j 1) j" by simp
  then show "\<not> bit w j" using j by (simp add: bit_and_iff bit_one_shifted)
next
  assume "j < 64" "\<not> bit w j"
  then show "w AND push_bit j 1 = 0" by (intro bit_eqI) (auto simp: bit_and_iff bit_one_shifted)
qed

definition has_sig :: "sigset \<Rightarrow> nat \<Rightarrow> bool" where "has_sig w sig = bit w (sig - 1)"
definition add_sig :: "sigset \<Rightarrow> nat \<Rightarrow> sigset" where "add_sig w sig = set_bit (sig - 1) w"
definition del_sig :: "sigset \<Rightarrow> nat \<Rightarrow> sigset" where "del_sig w sig = unset_bit (sig - 1) w"

named_theorems sigset_simps

lemma sigset_has_bit [sigset_simps]: "valid_sig sig \<Longrightarrow> sigset_has w sig = Some (has_sig w sig)"
proof -
  assume v: "valid_sig sig"
  then have "sig - 1 < 64" by (auto simp: valid_sig_def)
  then show ?thesis using v and_one_shifted [of "sig - 1" w] by (simp add: valid_sig_def sigset_has_def sig_mask_def has_sig_def)
qed

lemma sigset_add_bit [sigset_simps]: "valid_sig sig \<Longrightarrow> sigset_add w sig = Some (add_sig w sig)"
  by (auto simp: valid_sig_def sigset_add_def sig_mask_def add_sig_def set_bit_eq_or)

lemma sigset_del_bit [sigset_simps]: "valid_sig sig \<Longrightarrow> sigset_del w sig = Some (del_sig w sig)"
  by (auto simp: valid_sig_def sigset_del_def sig_mask_def del_sig_def unset_bit_eq_and_not)

lemma sigset_invalid [sigset_simps]:
  "\<not> valid_sig sig \<Longrightarrow> sigset_has w sig = None" "\<not> valid_sig sig \<Longrightarrow> sigset_add w sig = None" "\<not> valid_sig sig \<Longrightarrow> sigset_del w sig = None"
  by (auto simp: sigset_has_def sigset_add_def sigset_del_def sig_mask_def valid_sig_def)

lemma has_add_del [sigset_simps]:
  assumes "valid_sig a" "valid_sig b"
  shows "has_sig (add_sig w a) b \<longleftrightarrow> b = a \<or> has_sig w b" "has_sig (del_sig w a) b \<longleftrightarrow> b \<noteq> a \<and> has_sig w b"
proof -
  have "b - 1 < 64" "a - 1 = b - 1 \<longleftrightarrow> a = b" using assms by (auto simp: valid_sig_def)
  then show "has_sig (add_sig w a) b \<longleftrightarrow> b = a \<or> has_sig w b" "has_sig (del_sig w a) b \<longleftrightarrow> b \<noteq> a \<and> has_sig w b"
    by (auto simp: has_sig_def add_sig_def del_sig_def bit_set_bit_iff bit_unset_bit_iff)
qed

lemma has_sig_bitwise [sigset_simps]:
  "has_sig (w OR v) sig \<longleftrightarrow> has_sig w sig \<or> has_sig v sig" "has_sig (w AND v) sig \<longleftrightarrow> has_sig w sig \<and> has_sig v sig"
  "valid_sig sig \<Longrightarrow> has_sig (NOT w) sig \<longleftrightarrow> \<not> has_sig w sig" "\<not> has_sig 0 sig"
  by (auto simp: has_sig_def bit_or_iff bit_and_iff bit_not_iff valid_sig_def)

section \<open>The queue and the pending set\<close>

definition queue_ok :: "task \<Rightarrow> bool" where
  "queue_ok t \<longleftrightarrow> (\<forall>i \<in> set (queue t). valid_sig (si_sig i)) \<and> distinct (map si_sig (queue t)) \<and>
    (\<forall>sig. valid_sig sig \<longrightarrow> has_sig (pending t) sig = (sig \<in> si_sig ` set (queue t)))"

lemma queue_ok_same: "queue_ok t \<Longrightarrow> queue t' = queue t \<Longrightarrow> pending t' = pending t \<Longrightarrow> queue_ok t'"
  by (simp add: queue_ok_def)

definition delivered :: "task \<Rightarrow> nat \<Rightarrow> siginfo \<Rightarrow> task" where
  "delivered t sig info = (if has_sig (pending t) sig then t
     else t\<lparr>pending := add_sig (pending t) sig, queue := queue t @ [info\<lparr>si_sig := sig\<rparr>]\<rparr>)"

lemma deliver_signal_unlocked_eq:
  "deliver_signal_unlocked t sig info = (if valid_sig sig then Some (delivered t sig info) else None)"
  by (simp add: deliver_signal_unlocked_def sigset_simps delivered_def)

lemma queue_ok_delivered:
  assumes "queue_ok t" "valid_sig sig"
  shows "queue_ok (delivered t sig info)"
proof (cases "has_sig (pending t) sig")
  case False
  then have "sig \<notin> si_sig ` set (queue t)" using assms by (auto simp: queue_ok_def)
  then show ?thesis using assms False by (auto simp: queue_ok_def delivered_def has_add_del)
qed (use assms in \<open>simp add: delivered_def\<close>)

lemma queue_ok_remove:
  assumes "queue_ok t" "i \<in> set (queue t)" "queue t' = remove1 i (queue t)" "pending t' = del_sig (pending t) (si_sig i)"
  shows "queue_ok t'"
proof -
  have v: "valid_sig (si_sig i)" using assms(1,2) by (simp add: queue_ok_def)
  have d: "distinct (queue t)" "inj_on si_sig (set (queue t))" using assms(1) by (auto simp: queue_ok_def distinct_map)
  then have s: "set (queue t') = set (queue t) - {i}" by (simp add: assms(3))
  have im: "si_sig ` (set (queue t) - {i}) = si_sig ` set (queue t) - {si_sig i}"
    using d(2) assms(2) by (auto simp: inj_on_def)
  have "distinct (map si_sig (queue t'))" using d unfolding assms(3) by (meson d(1,2) distinct_map distinct_remove1 inj_on_subset set_remove1_subset)
  moreover have "has_sig (pending t') sig = (sig \<in> si_sig ` set (queue t'))" if "valid_sig sig" for sig
    using assms(1) that by (auto simp: assms(4) has_add_del(2) [OF v that] s im queue_ok_def)
  ultimately show ?thesis using assms(1) by (auto simp: queue_ok_def s)
qed

definition sig_inv :: "sig_state \<Rightarrow> bool" where
  "sig_inv s \<longleftrightarrow> (\<forall>p t. tasks s p = Some t \<longrightarrow> queue_ok t)"

lemma put_task_fields [simp]:
  "tasks (put_task s p t) = (tasks s)(p \<mapsto> t)" "sighands (put_task s p t) = sighands s" "groups (put_task s p t) = groups s"
  "pgroups (put_task s p t) = pgroups s" "sessions (put_task s p t) = sessions s"
  by (simp_all add: put_task_def)

lemma put_task_twice [simp]: "put_task (put_task s p t) p t' = put_task s p t'"
  by (simp add: put_task_def)

lemma sig_inv_put: "sig_inv s \<Longrightarrow> queue_ok t \<Longrightarrow> sig_inv (put_task s p t)"
  by (simp add: sig_inv_def)

lemma sig_inv_task: "sig_inv s \<Longrightarrow> tasks s p = Some t \<Longrightarrow> queue_ok t"
  by (simp add: sig_inv_def)

lemma sig_inv_tables [simp]:
  "sig_inv (s\<lparr>groups := g\<rparr>) = sig_inv s" "sig_inv (s\<lparr>sighands := h\<rparr>) = sig_inv s"
  by (simp_all add: sig_inv_def)

text \<open>What sending a signal can change: the queue and the pending set of its target and the stopped flag of its group.\<close>

definition only_sent :: "nat \<Rightarrow> sig_state \<Rightarrow> sig_state \<Rightarrow> bool" where
  "only_sent p s s' \<longleftrightarrow> sighands s' = sighands s \<and> pgroups s' = pgroups s \<and> sessions s' = sessions s \<and>
    (\<forall>q. q \<noteq> p \<longrightarrow> tasks s' q = tasks s q) \<and>
    (\<forall>t. tasks s p = Some t \<longrightarrow> map_option (\<lambda>t. t\<lparr>queue := [], pending := 0\<rparr>) (tasks s' p) = Some (t\<lparr>queue := [], pending := 0\<rparr>) \<and>
      (\<forall>g. g \<noteq> group t \<longrightarrow> groups s' g = groups s g) \<and> map_option (\<lambda>g. g\<lparr>stopped := False\<rparr>) (groups s' (group t)) = map_option (\<lambda>g. g\<lparr>stopped := False\<rparr>) (groups s (group t)))"

lemma delivered_frame: "(delivered t sig info)\<lparr>queue := [], pending := 0\<rparr> = t\<lparr>queue := [], pending := 0\<rparr>"
  by (simp add: delivered_def)

lemma delivered_same [simp]:
  "group (delivered t sig info) = group t" "blocked (delivered t sig info) = blocked t" "task_sighand (delivered t sig info) = task_sighand t"
  "traced (delivered t sig info) = traced t" "cpu (delivered t sig info) = cpu t" "has_saved_mask (delivered t sig info) = has_saved_mask t"
  "saved_mask (delivered t sig info) = saved_mask t"
  by (simp_all add: delivered_def)

text \<open>Sending a signal as one equation.\<close>

definition cont_group :: "sig_state \<Rightarrow> nat \<Rightarrow> sig_state option" where
  "cont_group s g = do { tg \<leftarrow> groups s g; Some (s\<lparr>groups := (groups s)(g \<mapsto> tg\<lparr>stopped := False\<rparr>)\<rparr>) }"

lemma cont_group_frame:
  assumes "cont_group s g = Some s'"
  shows "tasks s' = tasks s" "sighands s' = sighands s" "pgroups s' = pgroups s" "sessions s' = sessions s"
    "\<And>h. h \<noteq> g \<Longrightarrow> groups s' h = groups s h" "map_option (\<lambda>g. g\<lparr>stopped := False\<rparr>) (groups s' g) = map_option (\<lambda>g. g\<lparr>stopped := False\<rparr>) (groups s g)"
  using assms by (auto simp: cont_group_def split: Option.bind_splits)

lemma send_signal_cases:
  assumes "send_signal E s p sig info = Some s'" "tasks s p = Some t"
  shows "s' = s \<or> (\<exists>s1. (s1 = s \<or> valid_sig sig \<and> s1 = put_task s p (delivered t sig info)) \<and> (s' = s1 \<or> cont_group s1 (group t) = Some s'))"
proof (cases "sig = 0 \<or> zombie t \<or> exiting t \<or> native_offload_forward_signal E t sig \<or> task_sighand t = None")
  case True
  then show ?thesis using assms by (auto simp: send_signal_def split: if_splits)
next
  case False
  then obtain h where h: "task_sighand t = Some h" by blast
  then obtain sh act s1 where a: "sighands s h = Some sh" "signal_action sh sig = Some act"
    "(if act \<noteq> SIGNAL_IGNORE then do { t' \<leftarrow> deliver_signal_unlocked t sig info; Some (put_task s p t') } else Some s) = Some s1"
    "(if sig = SIGCONT \<or> sig = SIGKILL then cont_group s1 (group t) else Some s1) = Some s'"
    using assms False unfolding send_signal_def cont_group_def by (auto split: Option.bind_splits)
  have "s1 = s \<or> valid_sig sig \<and> s1 = put_task s p (delivered t sig info)"
    using a(3) by (auto simp: deliver_signal_unlocked_eq split: if_splits)
  then show ?thesis using a(4) by (auto split: if_splits)
qed

lemma send_signal_task: "send_signal E s p sig info = Some s' \<Longrightarrow> \<exists>t. tasks s p = Some t"
  by (auto simp: send_signal_def split: Option.bind_splits)

lemma only_sent_refl: "only_sent p s s"
  by (auto simp: only_sent_def)

lemma send_signal_frame:
  assumes "send_signal E s p sig info = Some s'"
  shows "only_sent p s s'"
proof -
  obtain t where t: "tasks s p = Some t" using send_signal_task [OF assms] by blast
  have d: "only_sent p s (put_task s p (delivered t sig info))"
    using delivered_frame [of t sig info] t by (auto simp: only_sent_def)
  have "only_sent p s s'" if "only_sent p s s1" "s' = s1 \<or> cont_group s1 (group t) = Some s'" for s1
    using that cont_group_frame [of s1 "group t" s'] t unfolding only_sent_def by auto
  then show ?thesis using send_signal_cases [OF assms t] d only_sent_refl by blast
qed

lemma sig_inv_cont: "cont_group s g = Some s' \<Longrightarrow> sig_inv s' = sig_inv s"
  by (simp add: sig_inv_def cont_group_frame(1))

lemma send_signal_inv:
  assumes "send_signal E s p sig info = Some s'" "sig_inv s"
  shows "sig_inv s'"
proof -
  obtain t where t: "tasks s p = Some t" using send_signal_task [OF assms(1)] by blast
  show ?thesis using send_signal_cases [OF assms(1) t] assms(2) sig_inv_put [OF assms(2)] queue_ok_delivered [OF sig_inv_task [OF assms(2) t]]
    by (auto simp: sig_inv_cont)
qed

section \<open>Keeping the invariant\<close>

lemma deliver_signal_inv: "deliver_signal s p sig info = Some s' \<Longrightarrow> sig_inv s \<Longrightarrow> sig_inv s'"
  by (auto simp: deliver_signal_def deliver_signal_unlocked_eq intro!: sig_inv_put queue_ok_delivered intro: sig_inv_task
      split: Option.bind_splits if_splits)

lemma signal_leaders_inv: "signal_leaders E s gs sig info = Some s' \<Longrightarrow> sig_inv s \<Longrightarrow> sig_inv s'"
  by (induction gs arbitrary: s) (auto split: Option.bind_splits intro: send_signal_inv)

lemma send_group_signal_inv: "send_group_signal E s pg sig info = Some (r, s') \<Longrightarrow> sig_inv s \<Longrightarrow> sig_inv s'"
  by (auto simp: send_group_signal_def intro: signal_leaders_inv split: Option.bind_splits if_splits)

lemma kill_task_inv: "kill_task E s cur p sig code = Some (r, s') \<Longrightarrow> sig_inv s \<Longrightarrow> sig_inv s'"
  by (auto simp: kill_task_def intro: send_signal_inv split: Option.bind_splits if_splits)

lemma kill_each_inv: "kill_each E s cur ps sig code err = Some (r, s') \<Longrightarrow> sig_inv s \<Longrightarrow> sig_inv s'"
  by (induction ps arbitrary: s err) (auto split: Option.bind_splits dest: kill_task_inv)

lemma do_kill_inv: "do_kill E s cur p sig tg code = Some (r, s') \<Longrightarrow> sig_inv s \<Longrightarrow> sig_inv s'"
  by (auto simp: do_kill_def kill_everything_def kill_group_def Let_def dest: kill_each_inv kill_task_inv
      split: Option.bind_splits if_splits option.splits)

lemma sigmask_set_queue [simp]: "queue (sigmask_set t m) = queue t" "pending (sigmask_set t m) = pending t"
  "queue (sigmask_set_temp t m) = queue t" "pending (sigmask_set_temp t m) = pending t"
  by (simp_all add: sigmask_set_def sigmask_set_temp_def)

lemma sigprocmask_inv: "sys_rt_sigprocmask U s cur how a b sz = Some (r, s', ws) \<Longrightarrow> sig_inv s \<Longrightarrow> sig_inv s'"
  by (auto simp: sys_rt_sigprocmask_def do_sigprocmask_def intro!: sig_inv_put intro: queue_ok_same [OF sig_inv_task]
      split: Option.bind_splits if_splits sum.splits prod.splits)

lemma do_sigaction_inv: "do_sigaction s cur sig a w = Some (r, s', old) \<Longrightarrow> sig_inv s' = sig_inv s"
  by (auto simp: do_sigaction_def split: Option.bind_splits if_splits option.splits)

lemma sigaction_inv: "sys_rt_sigaction U s cur sig a b sz = Some (r, s', ws) \<Longrightarrow> sig_inv s \<Longrightarrow> sig_inv s'"
  by (auto simp: sys_rt_sigaction_def dest: do_sigaction_inv split: Option.bind_splits if_splits sum.splits option.splits prod.splits)

lemma sigaltstack_inv: "sys_sigaltstack U s cur a b = Some (r, s', old) \<Longrightarrow> sig_inv s \<Longrightarrow> sig_inv s'"
  by (auto simp: sys_sigaltstack_def Let_def intro!: sig_inv_put intro: queue_ok_same [OF sig_inv_task]
      split: Option.bind_splits if_splits option.splits)

lemma sigreturn_inv: "sys_rt_sigreturn s cur = Some (r, s') \<Longrightarrow> sig_inv s \<Longrightarrow> sig_inv s'"
  by (auto simp: sys_rt_sigreturn_def Let_def intro!: sig_inv_put intro: queue_ok_same [OF sig_inv_task] deliver_signal_inv
      split: Option.bind_splits if_splits option.splits)

lemma dequeue_inv:
  assumes "signalfd_dequeue_locked t m = Some (Some (i, t'))" "queue_ok t"
  shows "queue_ok t'"
proof -
  from assms(1) obtain pend where i: "find (\<lambda>i. sigset_has m (si_sig i) \<noteq> Some False) (queue t) = Some i"
    "sigset_del (pending t) (si_sig i) = Some pend" "t' = t\<lparr>queue := remove1 i (queue t), pending := pend\<rparr>"
    by (auto simp: signalfd_dequeue_locked_def split: option.splits Option.bind_splits)
  then have "i \<in> set (queue t)" by (auto simp: find_Some_iff)
  moreover have "valid_sig (si_sig i)" using assms(2) calculation by (simp add: queue_ok_def)
  ultimately show ?thesis using queue_ok_remove [OF assms(2), of i t'] i by (simp add: sigset_simps)
qed

text \<open>Receiving.  While a traced task is stopped, other tasks may do anything that keeps the invariant and the signals already in the
  queue.\<close>

definition wait_ok :: "sig_env \<Rightarrow> nat \<Rightarrow> bool" where
  "wait_ok E cur \<longleftrightarrow> (\<forall>s s' t. ptrace_wait E cur s = Some s' \<longrightarrow> sig_inv s \<longrightarrow> tasks s cur = Some t \<longrightarrow>
     sig_inv s' \<and> (\<exists>t'. tasks s' cur = Some t' \<and> set (queue t) \<subseteq> set (queue t')))"

fun recv_state :: "recv \<Rightarrow> sig_state" where
  "recv_state (Continue s) = s" | "recv_state (Exit_group v s) = s" | "recv_state (Deadlock s) = s"

definition recv_keeps :: "nat \<Rightarrow> siginfo set \<Rightarrow> recv \<Rightarrow> bool" where
  "recv_keeps cur Q r \<longleftrightarrow> sig_inv (recv_state r) \<and> (\<exists>t. tasks (recv_state r) cur = Some t \<and> Q \<subseteq> set (queue t))"

lemma call_handler_queue:
  "call_handler E t a info = Some t' \<Longrightarrow> queue t' = queue t \<and> pending t' = pending t \<and> group t' = group t"
  by (auto simp: call_handler_def Let_def split: Option.bind_splits if_splits)

lemma receive_signal_keeps:
  assumes "receive_signal E s cur h info = Some r" "sig_inv s" "tasks s cur = Some t"
  shows "recv_keeps cur (set (queue t)) r"
proof -
  have q: "queue_ok t" using sig_inv_task assms(2,3) .
  have c: "queue_ok t' \<and> queue t' = queue t \<and> pending t' = pending t" if "call_handler E t a info = Some t'" for t' a
    using call_handler_queue [OF that] queue_ok_same [OF q] by blast
  have fr: "queue_ok (t'\<lparr>frames := f\<rparr>) = queue_ok t'" for t' :: task and f by (simp add: queue_ok_def)
  show ?thesis using assms
    by (auto simp: receive_signal_def recv_keeps_def Let_def fr intro!: sig_inv_put dest!: c
        split: Option.bind_splits action_type.splits if_splits)
qed

lemma delivered_queue: "set (queue t) \<subseteq> set (queue (delivered t sig info))"
  by (auto simp: delivered_def)

lemma send_signal_queue:
  assumes "send_signal E s p sig info = Some s'" "tasks s q = Some t"
  shows "\<exists>t'. tasks s' q = Some t' \<and> set (queue t) \<subseteq> set (queue t')"
proof (cases "q = p")
  case False
  then show ?thesis using send_signal_frame [OF assms(1)] assms(2) by (auto simp: only_sent_def)
next
  case True
  then show ?thesis using send_signal_cases [OF assms(1), of t] assms(2) delivered_queue [of t sig info] cont_group_frame(1) by fastforce
qed

lemma delivery_stop_keeps:
  assumes "signal_delivery_stop E s cur sig info = Some r" "sig_inv s" "tasks s cur = Some t" "wait_ok E cur"
  shows "recv_keeps cur (set (queue t)) r"
proof -
  define t1 where "t1 = t\<lparr>ptrace_stopped := True, ptrace_signal := sig, ptrace_info := info\<rparr>"
  define s1 where "s1 = put_task s cur t1"
  have inv1: "sig_inv s1" unfolding s1_def by (intro sig_inv_put assms(2) queue_ok_same [OF sig_inv_task [OF assms(2,3)]]) (simp_all add: t1_def)
  have t1: "tasks s1 cur = Some t1" "queue t1 = queue t" by (simp_all add: s1_def t1_def)
  obtain x s2 where s2: "send_signal E s1 (parent t) x SIGINFO_NIL = Some s2"
    "r = (case ptrace_wait E cur s2 of None \<Rightarrow> Exit_group SIGKILL s2 | Some s' \<Rightarrow> Continue s')"
    using assms(1,3) unfolding signal_delivery_stop_def s1_def t1_def by (auto simp: Let_def split: Option.bind_splits)
  obtain t2 where t2: "tasks s2 cur = Some t2" "set (queue t) \<subseteq> set (queue t2)" using send_signal_queue [OF s2(1) t1(1)] t1(2) by auto
  have inv2: "sig_inv s2" using send_signal_inv [OF s2(1) inv1] .
  show ?thesis
  proof (cases "ptrace_wait E cur s2")
    case None
    then show ?thesis using s2(2) t2 inv2 by (auto simp: recv_keeps_def)
  next
    case (Some s3)
    then obtain t3 where "sig_inv s3" "tasks s3 cur = Some t3" "set (queue t2) \<subseteq> set (queue t3)"
      using assms(4) inv2 t2(1) unfolding wait_ok_def by blast
    then show ?thesis using s2(2) Some t2(2) by (auto simp: recv_keeps_def)
  qed
qed

text \<open>One round of the loop: the signal is skipped, or it leaves the queue and is received.\<close>

definition dequeued :: "task \<Rightarrow> siginfo \<Rightarrow> task" where
  "dequeued t info = t\<lparr>queue := remove1 info (queue t), pending := del_sig (pending t) (si_sig info)\<rparr>"

definition receive_one :: "sig_env \<Rightarrow> sig_state \<Rightarrow> nat \<Rightarrow> nat \<Rightarrow> task \<Rightarrow> siginfo \<Rightarrow> recv option" where
  "receive_one E s cur h t info =
    (if traced t \<and> si_sig info \<noteq> SIGKILL then signal_delivery_stop E (put_task s cur (dequeued t info)) cur (si_sig info) info
     else receive_signal E (put_task s cur (dequeued t info)) cur h info)"

lemma receive_loop_Cons:
  assumes "valid_sig (si_sig info)" "tasks s cur = Some t"
  shows "receive_loop E s cur h bl (info # todo) =
    (if has_sig bl (si_sig info) then receive_loop E s cur h bl todo
     else do { r \<leftarrow> receive_one E s cur h t info;
               case r of Continue s \<Rightarrow> receive_loop E s cur h bl todo | _ \<Rightarrow> Some r })"
  using assms by (simp add: sigset_simps receive_one_def dequeued_def Let_def)

lemma receive_one_keeps:
  assumes "receive_one E s cur h t info = Some r" "sig_inv s" "tasks s cur = Some t" "info \<in> set (queue t)" "wait_ok E cur"
  shows "recv_keeps cur (set (queue t) - {info}) r"
proof -
  have q: "queue_ok t" using sig_inv_task assms(2,3) .
  have d: "queue_ok (dequeued t info)" using queue_ok_remove [OF q assms(4)] by (simp add: dequeued_def)
  have "distinct (queue t)" using q by (auto simp: queue_ok_def distinct_map)
  then have set: "set (queue (dequeued t info)) = set (queue t) - {info}" by (simp add: dequeued_def)
  have inv: "sig_inv (put_task s cur (dequeued t info))" by (intro sig_inv_put assms(2) d)
  have t: "tasks (put_task s cur (dequeued t info)) cur = Some (dequeued t info)" by simp
  show ?thesis using assms(1) receive_signal_keeps [OF _ inv t] delivery_stop_keeps [OF _ inv t assms(5)]
    unfolding receive_one_def set by (auto split: if_splits)
qed

lemma receive_loop_keeps:
  assumes "receive_loop E s cur h bl todo = Some r" "sig_inv s" "tasks s cur = Some t" "set todo \<subseteq> set (queue t)" "distinct todo" "wait_ok E cur"
  shows "recv_keeps cur {} r"
  using assms
proof (induction todo arbitrary: s t)
  case Nil
  then show ?case by (auto simp: recv_keeps_def)
next
  case (Cons info todo)
  have v: "valid_sig (si_sig info)" using sig_inv_task [OF Cons.prems(2,3)] Cons.prems(4) by (auto simp: queue_ok_def)
  show ?case
  proof (cases "has_sig bl (si_sig info)")
    case True
    then show ?thesis using Cons receive_loop_Cons [OF v Cons.prems(3), of E h bl todo] by auto
  next
    case False
    then obtain r1 where r1: "receive_one E s cur h t info = Some r1"
      "(case r1 of Continue s \<Rightarrow> receive_loop E s cur h bl todo | _ \<Rightarrow> Some r1) = Some r"
      using Cons.prems(1) unfolding receive_loop_Cons [OF v Cons.prems(3)] by (auto split: Option.bind_splits)
    have k: "recv_keeps cur (set (queue t) - {info}) r1"
      using receive_one_keeps [OF r1(1) Cons.prems(2,3) _ Cons.prems(6)] Cons.prems(4) by simp
    then obtain t1 where t1: "sig_inv (recv_state r1)" "tasks (recv_state r1) cur = Some t1" "set (queue t) - {info} \<subseteq> set (queue t1)"
      by (auto simp: recv_keeps_def)
    show ?thesis
    proof (cases r1)
      case (Continue s1)
      have "set todo \<subseteq> set (queue t1)" using t1(3) Cons.prems(4,5) by auto
      then show ?thesis using Cons.IH [of s1 t1] r1(2) Continue t1(1,2) Cons.prems(5,6) by simp
    qed (use k r1(2) in \<open>auto simp: recv_keeps_def\<close>)
  qed
qed

lemma receive_signals_inv:
  assumes "receive_signals E s cur = Some r" "sig_inv s" "wait_ok E cur"
  shows "sig_inv (recv_state r)"
proof -
  obtain t g where t: "tasks s cur = Some t" "groups s (group t) = Some g" using assms(1) by (auto simp: receive_signals_def split: Option.bind_splits)
  show ?thesis
  proof (cases "task_sighand t")
    case None
    then show ?thesis using assms t by (auto simp: receive_signals_def)
  next
    case (Some h)
    define bl where "bl = (if has_saved_mask t then blocked t AND saved_mask t else blocked t)"
    define t1 where "t1 = (if has_saved_mask t then t\<lparr>has_saved_mask := False, blocked := saved_mask t\<rparr> else t)"
    define s1 where "s1 = (if has_saved_mask t then put_task s cur (t\<lparr>has_saved_mask := False, blocked := saved_mask t\<rparr>) else s)"
    have q: "queue_ok t" using sig_inv_task assms(2) t(1) .
    have t1: "tasks s1 cur = Some t1" "queue t1 = queue t" using t(1) by (auto simp: s1_def t1_def)
    have inv1: "sig_inv s1" unfolding s1_def using assms(2) q by (auto intro!: sig_inv_put intro: queue_ok_same)
    obtain r1 where r1: "receive_loop E s1 cur h bl (queue t) = Some r1"
      "(case r1 of Continue s \<Rightarrow> if stopped g then Some (Continue s) else do { g \<leftarrow> groups s (group t);
          if stopped g then do { lead \<leftarrow> tasks s (leader g); s \<leftarrow> send_signal E s (parent t) (exit_signal lead) SIGINFO_NIL; Some (Continue s) }
          else Some (Continue s) } | _ \<Rightarrow> Some r1) = Some r"
      using assms(1) t Some unfolding receive_signals_def s1_def bl_def by (auto simp: Let_def split: Option.bind_splits)
    have "distinct (queue t)" using q by (auto simp: queue_ok_def distinct_map)
    then have k: "sig_inv (recv_state r1)"
      using receive_loop_keeps [OF r1(1) inv1 t1(1) _ _ assms(3)] t1(2) by (simp add: recv_keeps_def)
    then show ?thesis using r1(2) send_signal_inv by (cases r1) (auto split: if_splits Option.bind_splits)
  qed
qed

section \<open>Steps\<close>

text \<open>A step of the system as far as signals go: a task makes one of the calls or receives its signals.\<close>

inductive sig_step :: "sig_env \<Rightarrow> sig_user \<Rightarrow> sig_state \<Rightarrow> sig_state \<Rightarrow> bool" for E U where
  kill: "sys_kill E s cur p sig = Some (r, s') \<Longrightarrow> sig_step E U s s'"
| tgkill: "sys_tgkill E s cur tg tid sig = Some (r, s') \<Longrightarrow> sig_step E U s s'"
| tkill: "sys_tkill E s cur tid sig = Some (r, s') \<Longrightarrow> sig_step E U s s'"
| group_signal: "send_group_signal E s pg sig info = Some (r, s') \<Longrightarrow> sig_step E U s s'"
| self_signal: "try_self_signal s cur sig = Some (b, s') \<Longrightarrow> sig_step E U s s'"
| procmask: "sys_rt_sigprocmask U s cur how a b sz = Some (r, s', ws) \<Longrightarrow> sig_step E U s s'"
| action: "sys_rt_sigaction U s cur n a b sz = Some (r, s', ws) \<Longrightarrow> sig_step E U s s'"
| altstack: "sys_sigaltstack U s cur a b = Some (r, s', old) \<Longrightarrow> sig_step E U s s'"
| sigreturn: "sys_rt_sigreturn s cur = Some (v, s') \<Longrightarrow> sig_step E U s s'"
| dequeue: "tasks s cur = Some t \<Longrightarrow> signalfd_dequeue_locked t m = Some (Some (i, t')) \<Longrightarrow> sig_step E U s (put_task s cur t')"
| receive: "receive_signals E s cur = Some r \<Longrightarrow> sig_step E U s (recv_state r)"

lemma try_self_signal_inv: "try_self_signal s cur sig = Some (b, s') \<Longrightarrow> sig_inv s \<Longrightarrow> sig_inv s'"
  by (auto simp: try_self_signal_def Let_def deliver_signal_unlocked_eq intro!: sig_inv_put queue_ok_delivered intro: sig_inv_task
      split: Option.bind_splits if_splits)

lemma sig_step_inv: "sig_step E U s s' \<Longrightarrow> (\<And>cur. wait_ok E cur) \<Longrightarrow> sig_inv s \<Longrightarrow> sig_inv s'"
proof (induction rule: sig_step.induct)
  case (dequeue s cur t m i t')
  then show ?case by (intro sig_inv_put dequeue_inv [of t m i t'] sig_inv_task)
qed (auto simp: sys_kill_def sys_tgkill_def sys_tkill_def split: if_splits
    intro: do_kill_inv send_group_signal_inv try_self_signal_inv sigprocmask_inv sigaction_inv sigaltstack_inv sigreturn_inv receive_signals_inv)

lemma sig_steps_inv: "(sig_step E U)\<^sup>*\<^sup>* s s' \<Longrightarrow> (\<And>cur. wait_ok E cur) \<Longrightarrow> sig_inv s \<Longrightarrow> sig_inv s'"
  by (induction rule: rtranclp_induct) (auto intro: sig_step_inv)

section \<open>SIGKILL\<close>

lemma valid_sigs [simp]: "valid_sig SIGKILL" "valid_sig SIGSTOP" "valid_sig SIGSEGV" "valid_sig SIGCONT"
  by (simp_all add: valid_sig_def)

lemma signal_action_kill [simp]: "signal_action sh SIGKILL = Some SIGNAL_KILL"
  by (simp add: signal_action_def signal_is_blockable_def default_of_def)

lemma receive_one_kill:
  assumes "si_sig info = SIGKILL" "receive_one E s cur h t info = Some r"
  shows "\<not> (\<exists>s'. r = Continue s')"
  using assms by (auto simp: receive_one_def receive_signal_def Let_def split: Option.bind_splits)

lemma receive_loop_kill:
  assumes "receive_loop E s cur h bl todo = Some r" "sig_inv s" "tasks s cur = Some t" "set todo \<subseteq> set (queue t)" "distinct todo" "wait_ok E cur"
    and kill: "info \<in> set todo" "si_sig info = SIGKILL" "\<not> has_sig bl SIGKILL"
  shows "\<not> (\<exists>s'. r = Continue s')"
  using assms
proof (induction todo arbitrary: s t)
  case (Cons i todo)
  have v: "valid_sig (si_sig i)" using sig_inv_task [OF Cons.prems(2,3)] Cons.prems(4) by (auto simp: queue_ok_def)
  show ?case
  proof (cases "has_sig bl (si_sig i)")
    case True
    then have "info \<in> set todo" using Cons.prems(7,8,9) by auto
    then show ?thesis using True Cons.IH [OF _ Cons.prems(2,3)] Cons.prems receive_loop_Cons [OF v Cons.prems(3), of E h bl todo] by auto
  next
    case False
    then obtain r1 where r1: "receive_one E s cur h t i = Some r1"
      "(case r1 of Continue s \<Rightarrow> receive_loop E s cur h bl todo | _ \<Rightarrow> Some r1) = Some r"
      using Cons.prems(1) unfolding receive_loop_Cons [OF v Cons.prems(3)] by (auto split: Option.bind_splits)
    obtain t1 where t1: "sig_inv (recv_state r1)" "tasks (recv_state r1) cur = Some t1" "set (queue t) - {i} \<subseteq> set (queue t1)"
      using receive_one_keeps [OF r1(1) Cons.prems(2,3) _ Cons.prems(6)] Cons.prems(4) by (auto simp: recv_keeps_def)
    show ?thesis
    proof (cases r1)
      case (Continue s1)
      then have "si_sig i \<noteq> SIGKILL" using receive_one_kill [OF _ r1(1)] by blast
      then have k: "info \<in> set todo" using Cons.prems(7,8) by auto
      have "set todo \<subseteq> set (queue t1)" using t1(3) Cons.prems(4,5) by auto
      then show ?thesis using Cons.IH [of s1 t1] r1(2) Continue t1(1,2) Cons.prems(5,6,8,9) k by simp
    qed (use r1(2) in auto)
  qed
qed simp

lemma receive_signals_kill:
  assumes r: "receive_signals E s cur = Some r" and inv: "sig_inv s" "wait_ok E cur"
    and t: "tasks s cur = Some t" "task_sighand t = Some h" "has_sig (pending t) SIGKILL"
      "\<not> has_sig (blocked t) SIGKILL \<or> has_saved_mask t \<and> \<not> has_sig (saved_mask t) SIGKILL"
  shows "\<not> (\<exists>s'. r = Continue s')"
proof -
  define bl where "bl = (if has_saved_mask t then blocked t AND saved_mask t else blocked t)"
  define s1 where "s1 = (if has_saved_mask t then put_task s cur (t\<lparr>has_saved_mask := False, blocked := saved_mask t\<rparr>) else s)"
  have q: "queue_ok t" using sig_inv_task inv(1) t(1) .
  obtain t1 where t1: "tasks s1 cur = Some t1" "queue t1 = queue t" using t(1) by (cases "has_saved_mask t") (auto simp: s1_def)
  have inv1: "sig_inv s1" unfolding s1_def using inv(1) q by (auto intro!: sig_inv_put intro: queue_ok_same)
  obtain info where i: "info \<in> set (queue t)" "si_sig info = SIGKILL"
    using q t(3) valid_sigs(1) unfolding queue_ok_def by (metis imageE)
  have bl: "\<not> has_sig bl SIGKILL" using t(4) by (auto simp: bl_def has_sig_bitwise)
  have d: "distinct (queue t)" using q by (auto simp: queue_ok_def distinct_map)
  obtain r1 where "receive_loop E s1 cur h bl (queue t) = Some r1" "\<not> (\<exists>s. r1 = Continue s) \<longrightarrow> r = r1"
    using r t(1,2) unfolding receive_signals_def s1_def bl_def by (auto simp: Let_def split: Option.bind_splits recv.splits)
  then show ?thesis using receive_loop_kill [OF _ inv1 t1(1) _ d inv(2) i bl, of h r1] t1(2) by auto
qed

section \<open>Handler calls\<close>

lemma call_handler_law:
  assumes "valid_sig (si_sig info)"
  shows "\<exists>t1. call_handler E t a info = Some t1 \<and> cpu_pc (cpu t1) = sa_handler a \<and> queue t1 = queue t \<and> pending t1 = pending t \<and>
    group t1 = group t \<and> traced t1 = traced t \<and> task_sighand t1 = task_sighand t \<and> has_saved_mask t1 = has_saved_mask t \<and>
    (\<forall>sig. valid_sig sig \<longrightarrow> has_sig (blocked t1) sig =
      (has_sig (blocked t) sig \<or> has_sig (sa_mask a) sig \<or> sa_flags a AND SA_NODEFER = 0 \<and> sig = si_sig info))"
  using assms by (auto simp: call_handler_def Let_def sigset_simps)

text \<open>A signal with a handler, with the frame written.\<close>

lemma receive_one_handler:
  assumes sh: "sighands s h = Some sh" "sig < length (sh_action sh)" and a: "a = sh_action sh ! sig" "sa_handler a \<noteq> SIG_DFL" "sa_handler a \<noteq> SIG_IGN"
      "sa_flags a AND SA_RESETHAND = 0"
    and sig: "sig = si_sig info" "valid_sig sig" "signal_is_blockable sig" and t: "\<not> traced t" "\<And>sp. frame_writable E sp"
  shows "\<exists>t1. receive_one E s cur h t info = Some (Continue (put_task s cur t1)) \<and> cpu_pc (cpu t1) = sa_handler a \<and>
    queue t1 = remove1 info (queue t) \<and> pending t1 = del_sig (pending t) sig \<and> group t1 = group t \<and> traced t1 = traced t \<and>
    task_sighand t1 = task_sighand t \<and>
    (\<forall>sg. valid_sig sg \<longrightarrow> has_sig (blocked t1) sg = (has_sig (blocked t) sg \<or> has_sig (sa_mask a) sg \<or> sa_flags a AND SA_NODEFER = 0 \<and> sg = sig))"
proof -
  obtain t1 where t1: "call_handler E (dequeued t info) a info = Some t1" "cpu_pc (cpu t1) = sa_handler a" "queue t1 = queue (dequeued t info)"
    "pending t1 = pending (dequeued t info)" "group t1 = group t" "traced t1 = traced t" "task_sighand t1 = task_sighand t"
    "\<forall>sg. valid_sig sg \<longrightarrow> has_sig (blocked t1) sg = (has_sig (blocked t) sg \<or> has_sig (sa_mask a) sg \<or> sa_flags a AND SA_NODEFER = 0 \<and> sg = sig)"
    using call_handler_law [of info E "dequeued t info" a] sig by (auto simp: dequeued_def)
  have act: "signal_action sh sig = Some SIGNAL_CALL_HANDLER" using sh a sig(3) by (simp add: signal_action_def Let_def)
  have "receive_one E s cur h t info = Some (Continue (put_task (put_task s cur (dequeued t info)) cur t1))"
    using t sh act t1(1) a(1,4) sig(1) unfolding receive_one_def receive_signal_def by (simp add: Let_def)
  then show ?thesis using t1 sig(1) by (intro exI [of _ t1]) (simp add: dequeued_def)
qed

section \<open>An example state\<close>

text \<open>Task 5 with parent 1; SIGUSR1 (10) has a handler that blocks every signal and SIGUSR2 (12) a handler that blocks none.\<close>

definition small_actions :: "sigaction list" where
  "small_actions = (replicate 64 default_action)
    [10 := \<lparr>sa_handler = 0x4000, sa_flags = 0, sa_restorer = 0, sa_mask = - 1\<rparr>,
     12 := \<lparr>sa_handler = 0x5000, sa_flags = 0, sa_restorer = 0, sa_mask = 0\<rparr>]"

definition small_cpu :: cpu_state where
  "small_cpu = \<lparr>regs = replicate 31 7, cpu_sp = 0x8000, cpu_pc = 0x1000, cpu_nf = False, cpu_zf = True, cpu_cf = False, cpu_vf = False,
    cpu_nzcv = 0x40000000, cpu_fp = replicate 32 0, cpu_fpcr = 0, cpu_fpsr = 0, segfault_addr = 0, excl_addr = 0, excl_pair_addr = 0, excl_pair_size = 0\<rparr>"

definition small_task :: "nat \<Rightarrow> task" where
  "small_task p = \<lparr>pid = p, tgid = p, uid = 0, euid = 0, suid = 0, cpu = small_cpu, group = p, parent = 1, exit_signal = 17,
    zombie = False, exiting = False, task_sighand = Some 2, altstack = 0, altstack_size = 0, blocked = 0, pending = 0, waiting = 0,
    queue = [], saved_mask = 0, has_saved_mask = False, traced = False, ptrace_stopped = False, ptrace_signal = 0,
    ptrace_info = SIGINFO_NIL, frames = (\<lambda>_. None)\<rparr>"

definition small_sig :: sig_state where
  "small_sig = \<lparr>tasks = [1 \<mapsto> small_task 1, 5 \<mapsto> small_task 5], sighands = [2 \<mapsto> \<lparr>sh_refcount = 2, sh_action = small_actions\<rparr>],
    groups = [1 \<mapsto> \<lparr>leader = 1, pgid = 1, stopped = False, group_exit_code = 0\<rparr>, 5 \<mapsto> \<lparr>leader = 5, pgid = 5, stopped = False, group_exit_code = 0\<rparr>],
    pgroups = (\<lambda>g. if g = 5 then [5] else []), sessions = (\<lambda>_. [])\<rparr>"

definition sig_quiet :: sig_env where
  "sig_quiet = \<lparr>native_offload_forward_signal = (\<lambda>_ _. False), frame_writable = (\<lambda>_. True), sigreturn_trampoline = 0x9000, xsave_extra = 0, fxsave_extra = 0,
    ptrace_wait = (\<lambda>_ s. Some s)\<rparr>"

lemma sig_quiet_waits: "wait_ok sig_quiet cur"
  by (auto simp: wait_ok_def sig_quiet_def)

lemma small_task_fields [simp]:
  "queue (small_task p) = []" "pending (small_task p) = 0" "blocked (small_task p) = 0" "task_sighand (small_task p) = Some 2"
  "group (small_task p) = p" "zombie (small_task p) = False" "exiting (small_task p) = False" "traced (small_task p) = False"
  "has_saved_mask (small_task p) = False" "euid (small_task p) = 0" "cpu (small_task p) = small_cpu" "parent (small_task p) = 1"
  by (simp_all add: small_task_def)

lemma small_queue_ok: "queue_ok (small_task p)"
  by (simp add: queue_ok_def has_sig_bitwise)

lemma small_sig_tasks: "tasks small_sig 5 = Some (small_task 5)" "sighands small_sig 2 = Some \<lparr>sh_refcount = 2, sh_action = small_actions\<rparr>"
  "groups small_sig 5 = Some \<lparr>leader = 5, pgid = 5, stopped = False, group_exit_code = 0\<rparr>"
  by (simp_all add: small_sig_def)

lemma small_sig_inv: "sig_inv small_sig"
  using small_queue_ok by (auto simp: sig_inv_def small_sig_def)

section \<open>Properties\<close>





text \<open>C26: a handler call followed by sigreturn restores the interrupted task.  If the handler returns with the stack pointer at the frame and the frame
  as it was written, then whatever it did to the registers, the general registers, stack pointer, program counter, flags, floating-point
  state and signal mask are those from before the signal, and the call returns the old x0.\<close>

theorem handler_round_trip:
  assumes call: "call_handler E t action info = Some t1" and m: "blocked t AND UNBLOCKABLE_MASK = 0"
    and ret: "tasks s cur = Some t2" "cpu_sp (cpu t2) = cpu_sp (cpu t1)" "frames t2 (cpu_sp (cpu t1)) = frames t1 (cpu_sp (cpu t1))"
  shows "\<exists>s' t3. sys_rt_sigreturn s cur = Some (Inr (regs (cpu t) ! 0), s') \<and> tasks s' cur = Some t3 \<and> blocked t3 = blocked t \<and>
    regs (cpu t3) = regs (cpu t) \<and> cpu_sp (cpu t3) = cpu_sp (cpu t) \<and> cpu_pc (cpu t3) = cpu_pc (cpu t) \<and> cpu_nzcv (cpu t3) = cpu_nzcv (cpu t) \<and>
    cpu_fp (cpu t3) = cpu_fp (cpu t) \<and> cpu_fpcr (cpu t3) = cpu_fpcr (cpu t) \<and> cpu_fpsr (cpu t3) = cpu_fpsr (cpu t)"
proof -
  have sp: "cpu_sp (cpu t1) = frame_sp E t"
    using call by (auto simp: call_handler_def Let_def split: Option.bind_splits)
  have fr: "\<exists>f. frames t1 (frame_sp E t) = Some f \<and> sf_sigmask f = blocked t \<and> sf_mcontext f = setup_sigcontext (cpu t)"
    using call by (auto simp: call_handler_def Let_def setup_rt_sigframe_def split: Option.bind_splits)
  then obtain f where f: "frames t2 (cpu_sp (cpu t2)) = Some f" "sf_sigmask f = blocked t" "sf_mcontext f = setup_sigcontext (cpu t)"
    using ret(2,3) sp by auto
  have k: "blocked t AND NOT UNBLOCKABLE_MASK = blocked t"
    using m by (simp add: bit_eq_iff bit_and_iff bit_not_iff) blast
  have n: "ucast (ucast w :: 64 word) = w" for w :: "32 word" by (simp add: bit_eq_iff bit_simps)
  show ?thesis using ret(1) f k by (auto simp: sys_rt_sigreturn_def Let_def sigmask_set_def restore_sigcontext_def setup_sigcontext_def arm64_set_nzcv_def n)
qed

theorem handler_round_trip_witness:
  "\<exists>t1 s'. call_handler sig_quiet (small_task 5) (small_actions ! 12) (SIGINFO_NIL\<lparr>si_sig := 12\<rparr>) = Some t1 \<and>
     sys_rt_sigreturn (put_task small_sig 5 (t1\<lparr>cpu := (cpu t1)\<lparr>regs := replicate 31 0\<rparr>\<rparr>)) 5 = Some (Inr 7, s')"
proof -
  obtain t1 where t1: "call_handler sig_quiet (small_task 5) (small_actions ! 12) (SIGINFO_NIL\<lparr>si_sig := 12\<rparr>) = Some t1"
    using call_handler_law [of "SIGINFO_NIL\<lparr>si_sig := 12\<rparr>" sig_quiet "small_task 5" "small_actions ! 12"] by (auto simp: valid_sig_def)
  have t2: "tasks (put_task small_sig 5 (t1\<lparr>cpu := (cpu t1)\<lparr>regs := replicate 31 0\<rparr>\<rparr>)) 5 = Some (t1\<lparr>cpu := (cpu t1)\<lparr>regs := replicate 31 0\<rparr>\<rparr>)" by simp
  show ?thesis using handler_round_trip [OF t1 _ t2] t1 by (auto simp: small_cpu_def)
qed

text \<open>A queued signal does not wait for the handler in front of it.  With two signals in the queue, both with handlers, receiving runs the second
  handler on top of the first even when the first one's action asks for the second signal to be blocked: the mask is computed once, before the
  first handler changes it.\<close>

theorem queued_signal_ignores_handler_mask:
  assumes inv: "sig_inv s" and t: "tasks s cur = Some t" "queue t = [a, b]" "\<not> traced t" "\<not> has_saved_mask t" "task_sighand t = Some h"
      "\<not> has_sig (blocked t) (si_sig a)" "\<not> has_sig (blocked t) (si_sig b)"
    and sh: "sighands s h = Some sh" "length (sh_action sh) = 64" and g: "groups s (group t) = Some g" "\<not> stopped g"
    and act: "\<And>i. i \<in> {a, b} \<Longrightarrow> signal_is_blockable (si_sig i) \<and> sa_handler (sh_action sh ! si_sig i) \<notin> {SIG_DFL, SIG_IGN} \<and>
        sa_flags (sh_action sh ! si_sig i) AND SA_RESETHAND = 0"
    and masked: "has_sig (sa_mask (sh_action sh ! si_sig a)) (si_sig b)" and w: "\<And>sp. frame_writable E sp"
  shows "\<exists>s' t'. receive_signals E s cur = Some (Continue s') \<and> tasks s' cur = Some t' \<and> queue t' = [] \<and>
    cpu_pc (cpu t') = sa_handler (sh_action sh ! si_sig b)"
proof -
  have v: "valid_sig (si_sig a)" "valid_sig (si_sig b)" "si_sig a \<noteq> si_sig b"
    using sig_inv_task [OF inv t(1)] t(2) by (auto simp: queue_ok_def)
  then have len: "si_sig a < length (sh_action sh)" "si_sig b < length (sh_action sh)" using sh(2) by (auto simp: valid_sig_def)
  obtain t1 where t1: "receive_one E s cur h t a = Some (Continue (put_task s cur t1))" "queue t1 = [b]" "\<not> traced t1" "group t1 = group t"
    using receive_one_handler [OF sh(1) len(1) refl _ _ _ refl v(1) _ t(3) w, of cur] act [of a] t(2,3) by auto
  have sh1: "sighands (put_task s cur t1) h = Some sh" using sh(1) by simp
  obtain t2 where t2: "receive_one E (put_task s cur t1) cur h t1 b = Some (Continue (put_task (put_task s cur t1) cur t2))" "queue t2 = []"
    "cpu_pc (cpu t2) = sa_handler (sh_action sh ! si_sig b)" "group t2 = group t"
    using receive_one_handler [OF sh1 len(2) refl _ _ _ refl v(2) _ t1(3) w, of cur] act [of b] t1(2,4) by auto
  have tt: "tasks (put_task s cur t1) cur = Some t1" by simp
  have "receive_loop E s cur h (blocked t) [a, b] = Some (Continue (put_task (put_task s cur t1) cur t2))"
    unfolding receive_loop_Cons [OF v(1) t(1)] using t1(1) receive_loop_Cons [OF v(2) tt, of E h "blocked t" "[]"] t2(1) t(6,7) by simp
  then have "receive_signals E s cur = Some (Continue (put_task (put_task s cur t1) cur t2))"
    unfolding receive_signals_def using t g by simp
  then show ?thesis using t2(2,3) by auto
qed

text \<open>SIGKILL can be blocked by a handler's mask.  The mask of the action is added to the mask of the task as it is, so a handler installed with a
  full mask runs with SIGKILL blocked; a SIGKILL sent then stays in the queue and the task continues.\<close>

theorem sigkill_blocked_by_handler_mask:
  assumes call: "call_handler E t0 action info = Some t1" "has_sig (sa_mask action) SIGKILL"
    and t: "tasks s cur = Some (delivered t1 SIGKILL i)" "queue t0 = []" "\<not> has_saved_mask t0" "task_sighand t0 = Some h"
    and g: "groups s (group t0) = Some g" "\<not> stopped g"
  shows "receive_signals E s cur = Some (Continue s)"
proof -
  have b: "has_sig (blocked t1) SIGKILL" using call by (auto simp: call_handler_def Let_def has_sig_bitwise split: Option.bind_splits)
  have t1: "queue t1 = []" "\<not> has_saved_mask t1" "task_sighand t1 = Some h" "group t1 = group t0"
    using call(1) t(2-4) by (auto simp: call_handler_def Let_def split: Option.bind_splits)
  have "queue (delivered t1 SIGKILL i) = [] \<or> (\<exists>j. queue (delivered t1 SIGKILL i) = [j] \<and> si_sig j = SIGKILL)"
    using t1(1) by (auto simp: delivered_def)
  then have "receive_loop E s cur h (blocked t1) (queue (delivered t1 SIGKILL i)) = Some (Continue s)"
    using b by (auto simp: Let_def sigset_simps)
  then show ?thesis unfolding receive_signals_def using t(1) t1 g by simp
qed

text \<open>Witnesses for the two: task 5 with SIGUSR1 and SIGUSR2 queued.\<close>

definition two_queued :: task where
  "two_queued = delivered (delivered (small_task 5) 10 SIGINFO_NIL) 12 SIGINFO_NIL"

lemma two_queued_fields:
  "queue two_queued = [SIGINFO_NIL\<lparr>si_sig := 10\<rparr>, SIGINFO_NIL\<lparr>si_sig := 12\<rparr>]" "blocked two_queued = 0" "\<not> traced two_queued"
  "\<not> has_saved_mask two_queued" "task_sighand two_queued = Some 2" "group two_queued = 5"
  by (simp_all add: two_queued_def delivered_def has_sig_bitwise has_add_del valid_sig_def)

lemma has_sig_full: "valid_sig sig \<Longrightarrow> has_sig (- 1) sig"
  by (auto simp: has_sig_def valid_sig_def)

theorem queued_signal_ignores_handler_mask_witness:
  "\<exists>s' t'. receive_signals sig_quiet (put_task small_sig 5 two_queued) 5 = Some (Continue s') \<and> tasks s' 5 = Some t' \<and> cpu_pc (cpu t') = 0x5000"
proof -
  have "queue_ok two_queued" unfolding two_queued_def by (intro queue_ok_delivered small_queue_ok) (simp_all add: valid_sig_def)
  then have inv: "sig_inv (put_task small_sig 5 two_queued)" by (intro sig_inv_put small_sig_inv)
  have t: "tasks (put_task small_sig 5 two_queued) 5 = Some two_queued" by simp
  let ?sh = "\<lparr>sh_refcount = 2, sh_action = small_actions\<rparr>"
  have act: "signal_is_blockable (si_sig i) \<and> sa_handler (sh_action ?sh ! si_sig i) \<notin> {SIG_DFL, SIG_IGN} \<and> sa_flags (sh_action ?sh ! si_sig i) AND SA_RESETHAND = 0"
    if "i \<in> {SIGINFO_NIL\<lparr>si_sig := 10\<rparr>, SIGINFO_NIL\<lparr>si_sig := 12\<rparr>}" for i
    using that by (auto simp: small_actions_def signal_is_blockable_def)
  have sh: "sighands (put_task small_sig 5 two_queued) 2 = Some ?sh" "length (sh_action ?sh) = 64"
    using small_sig_tasks(2) by (simp_all add: small_actions_def)
  have g: "groups (put_task small_sig 5 two_queued) (group two_queued) = Some \<lparr>leader = 5, pgid = 5, stopped = False, group_exit_code = 0\<rparr>"
    using small_sig_tasks(3) by (simp add: two_queued_fields)
  have "sa_handler (sh_action ?sh ! si_sig (SIGINFO_NIL\<lparr>si_sig := 12\<rparr>)) = 0x5000" by (simp add: small_actions_def)
  moreover have "has_sig (sa_mask (sh_action ?sh ! si_sig (SIGINFO_NIL\<lparr>si_sig := 10\<rparr>))) (si_sig (SIGINFO_NIL\<lparr>si_sig := 12\<rparr>))"
    by (simp add: small_actions_def has_sig_full valid_sig_def)
  moreover have "frame_writable sig_quiet sp" for sp by (simp add: sig_quiet_def)
  ultimately show ?thesis
    using queued_signal_ignores_handler_mask [OF inv t two_queued_fields(1,3,4,5) _ _ sh g _ act, of sig_quiet]
    by (auto simp: two_queued_fields has_sig_bitwise)
qed

theorem sigkill_blocked_by_handler_mask_witness:
  "\<exists>t1. call_handler sig_quiet (small_task 5) (small_actions ! 10) (SIGINFO_NIL\<lparr>si_sig := 10\<rparr>) = Some t1 \<and>
     receive_signals sig_quiet (put_task small_sig 5 (delivered t1 SIGKILL SIGINFO_NIL)) 5 = Some (Continue (put_task small_sig 5 (delivered t1 SIGKILL SIGINFO_NIL)))"
proof -
  obtain t1 where t1: "call_handler sig_quiet (small_task 5) (small_actions ! 10) (SIGINFO_NIL\<lparr>si_sig := 10\<rparr>) = Some t1"
    using call_handler_law [of "SIGINFO_NIL\<lparr>si_sig := 10\<rparr>" sig_quiet "small_task 5" "small_actions ! 10"] by (auto simp: valid_sig_def)
  have "has_sig (sa_mask (small_actions ! 10)) SIGKILL" by (simp add: small_actions_def has_sig_full)
  then show ?thesis using sigkill_blocked_by_handler_mask [OF t1 _, of "put_task small_sig 5 (delivered t1 SIGKILL SIGINFO_NIL)" 5] t1 small_sig_tasks by auto
qed

section \<open>sigtimedwait\<close>

lemma wait_for_result:
  "wait_for s cur evs = Some (err, s', evs') \<Longrightarrow> err = 0 \<or> err = ETIMEDOUT \<or> err = EINTR \<and> is_signal_pending s' cur"
  by (auto simp: wait_for.simps [of s] split: if_splits list.splits prod.splits)

lemma wait_nonzero_result:
  "wait_nonzero s cur evs = Some (err, s') \<Longrightarrow> err = ETIMEDOUT \<or> err = EINTR \<and> is_signal_pending s' cur"
proof (induction s cur evs rule: wait_nonzero.induct)
  case (1 s cur evs)
  then show ?case
    by (subst (asm) (2) wait_nonzero.simps) (auto split: option.splits prod.splits if_splits dest: wait_for_result)
qed

lemma wait_for_inv:
  "wait_for s cur evs = Some (err, s', evs') \<Longrightarrow> sig_inv s \<Longrightarrow> \<forall>e \<in> set evs. sig_inv (snd e) \<Longrightarrow> sig_inv s' \<and> (\<forall>e \<in> set evs'. sig_inv (snd e))"
  by (auto simp: wait_for.simps [of s] split: if_splits list.splits prod.splits)

lemma wait_nonzero_inv:
  "wait_nonzero s cur evs = Some (err, s') \<Longrightarrow> sig_inv s \<Longrightarrow> \<forall>e \<in> set evs. sig_inv (snd e) \<Longrightarrow> sig_inv s'"
proof (induction s cur evs rule: wait_nonzero.induct)
  case (1 s cur evs)
  then obtain e s1 evs1 where w: "wait_for s cur evs = Some (e, s1, evs1)"
    "(if e = 0 then wait_nonzero s1 cur evs1 else Some (e, s1)) = Some (err, s')"
    by (subst (asm) (2) wait_nonzero.simps) (auto split: option.splits prod.splits)
  then show ?case using 1 wait_for_inv [OF w(1)] by (auto split: if_splits)
qed

text \<open>A signal taken by sigtimedwait can never be received again.  The call takes it from the queue but leaves it in the pending set, so the invariant is lost and
  every later delivery of that signal to the task is dropped.  Moreover sigtimedwait only returns a signal when an unblocked signal is pending, so it does not see signals
  that are blocked, as its callers block them.\<close>

theorem sigtimedwait_loses_signal:
  assumes call: "sys_rt_sigtimedwait U s cur addr sz timeout_ok info_ok evs = Some (r, s', Some i)"
    and inv: "sig_inv s" "\<forall>e \<in> set evs. sig_inv (snd e)"
  shows "is_signal_pending s' cur \<and> (\<exists>t. tasks s' cur = Some t \<and> si_sig i \<notin> si_sig ` set (queue t) \<and> \<not> queue_ok t \<and>
    (\<forall>info. deliver_signal_unlocked t (si_sig i) info = Some t))"
proof -
  obtain m t where m: "user_get_sigset U addr sz = Inr m" "tasks s cur = Some t"
    using call by (auto simp: sys_rt_sigtimedwait_def split: sum.splits if_splits Option.bind_splits)
  define s0 where "s0 = put_task s cur (t\<lparr>waiting := m\<rparr>)"
  have inv0: "sig_inv s0" unfolding s0_def by (intro sig_inv_put inv(1) queue_ok_same [OF sig_inv_task [OF inv(1) m(2)]]) simp_all
  obtain err s1 t1 where s1: "wait_nonzero s0 cur evs = Some (err, s1)" "tasks s1 cur = Some t1" "err \<noteq> ETIMEDOUT"
    "find (\<lambda>i. sigset_has m (si_sig i) = Some True) (queue t1) = Some i" "s' = put_task s1 cur (t1\<lparr>waiting := 0, queue := remove1 i (queue t1)\<rparr>)"
    using call m unfolding sys_rt_sigtimedwait_def s0_def by (auto simp: Let_def split: if_splits Option.bind_splits option.splits)
  have q: "queue_ok t1" using sig_inv_task [OF wait_nonzero_inv [OF s1(1) inv0 inv(2)] s1(2)] .
  have p: "is_signal_pending s1 cur" using wait_nonzero_result [OF s1(1)] s1(3) by simp
  have i: "i \<in> set (queue t1)" using s1(4) by (auto simp: find_Some_iff)
  have v: "valid_sig (si_sig i)" using q i by (auto simp: queue_ok_def)
  have d: "distinct (queue t1)" "inj_on si_sig (set (queue t1))" using q by (auto simp: queue_ok_def distinct_map)
  define t2 where "t2 = t1\<lparr>waiting := 0, queue := remove1 i (queue t1)\<rparr>"
  have no: "si_sig i \<notin> si_sig ` set (queue t2)" using d i by (auto simp: t2_def inj_on_def)
  have has: "has_sig (pending t2) (si_sig i)" using q i v by (auto simp: t2_def queue_ok_def)
  have "\<not> queue_ok t2" using no has v by (auto simp: queue_ok_def)
  moreover have "deliver_signal_unlocked t2 (si_sig i) info = Some t2" for info
    using has v by (simp add: deliver_signal_unlocked_eq delivered_def)
  moreover have "is_signal_pending s' cur" using p s1(2,5) by (simp add: is_signal_pending_def)
  ultimately show ?thesis using no s1(5) by (auto simp: t2_def)
qed

theorem sigtimedwait_loses_signal_witness:
  "\<exists>s' t. sys_rt_sigtimedwait \<lparr>um_read64 = (\<lambda>_. Some (- 1)), um_stack = (\<lambda>_. None), um_writable = (\<lambda>_ _. True)\<rparr>
      (put_task small_sig 5 two_queued) 5 0x100 8 True True [] = Some (10, s', Some (SIGINFO_NIL\<lparr>si_sig := 10\<rparr>)) \<and>
      tasks s' 5 = Some t \<and> deliver_signal_unlocked t 10 SIGINFO_NIL = Some t"
proof -
  let ?U = "\<lparr>um_read64 = (\<lambda>_. Some (- 1)), um_stack = (\<lambda>_. None), um_writable = (\<lambda>_ _. True)\<rparr>"
  have "queue_ok two_queued" unfolding two_queued_def by (intro queue_ok_delivered small_queue_ok) (simp_all add: valid_sig_def)
  then have inv: "sig_inv (put_task small_sig 5 two_queued)" by (intro sig_inv_put small_sig_inv)
  have w: "waiting two_queued = 0" by (simp add: two_queued_def delivered_def small_task_def)
  have "has_sig (pending two_queued) 12" by (auto simp: two_queued_def delivered_def has_add_del valid_sig_def)
  then have ne: "pending two_queued \<noteq> 0" by (auto simp: has_sig_bitwise)
  have "wait_nonzero (put_task small_sig 5 (two_queued\<lparr>waiting := - 1\<rparr>)) 5 [] = Some (EINTR, put_task small_sig 5 (two_queued\<lparr>waiting := - 1\<rparr>))"
    using ne by (simp add: wait_nonzero.simps wait_for.simps is_signal_pending_def two_queued_fields)
  then obtain s' where run: "sys_rt_sigtimedwait ?U (put_task small_sig 5 two_queued) 5 0x100 8 True True [] = Some (10, s', Some (SIGINFO_NIL\<lparr>si_sig := 10\<rparr>))"
    using w by (simp add: sys_rt_sigtimedwait_def user_get_sigset_def sigset_size_valid_def two_queued_fields sigset_has_bit valid_sig_def has_sig_full)
  from sigtimedwait_loses_signal [OF run inv] show ?thesis using run by auto
qed

text \<open>Further: a negative signal number passes the checks of sigaction and indexes in front of the table; the old sigaction call always fails; a frame that cannot
  be written deadlocks the task; a blocking signalfd read never returns once another unblocked signal is pending.\<close>

lemma sigaction_negative_out_of_bounds:
  assumes "tasks s cur = Some t" "task_sighand t = Some h" "sighands s h = Some sh" "sig < 0" "want_old \<or> a \<noteq> None"
  shows "do_sigaction s cur sig a want_old = None"
  using assms by (auto simp: do_sigaction_def)

lemma sys_sigaction_always_fails: "sys_sigaction U s cur signum a old = Some (EINVAL, s, [])"
  by (simp add: sys_sigaction_def sys_rt_sigaction_def sigset_size_valid_def)

lemma signal_frame_deadlock:
  assumes "sighands s h = Some sh" "sig < length (sh_action sh)" "sa_handler (sh_action sh ! sig) \<notin> {SIG_DFL, SIG_IGN}"
    "sig = si_sig info" "valid_sig sig" "signal_is_blockable sig" "tasks s cur = Some t" "\<not> frame_writable E (frame_sp E t)"
  shows "\<exists>s'. receive_signal E s cur h info = Some (Deadlock s')"
proof -
  have "signal_action sh sig = Some SIGNAL_CALL_HANDLER" using assms by (simp add: signal_action_def Let_def)
  then show ?thesis using assms call_handler_law [of info E t "sh_action sh ! sig"] by (auto simp: receive_signal_def Let_def)
qed

lemma signalfd_read_spins:
  assumes "is_signal_pending s cur" "tasks s cur = Some t" "signalfd_dequeue_locked t m = Some None"
  shows "signalfd_loop fuel s cur m False room [] evs = None"
proof (induction fuel)
  case (Suc fuel)
  have "wait_for s cur evs = Some (EINTR, s, evs)" using assms(1) by (simp add: wait_for.simps)
  then show ?case using Suc assms(2,3) by simp
qed simp

end
