(* ===== verification/User_Memory.thy ===== *)
theory User_Memory
  imports Address_Space_Laws
begin

text \<open>
  Access to the memory of a task (kernel/user.c): \<^verbatim>\<open>user_read\<close>, \<^verbatim>\<open>user_write\<close>, their variants and the
  string versions, on top of \<^verbatim>\<open>mem_ptr\<close>.  A kernel buffer is a list of bytes with its initial contents;
  copying outside of it is the value \<^term>\<open>None\<close>.  The environment of a fault may differ from page to
  page, so it is a function of the address.
\<close>

section \<open>Host memory\<close>

definition host_load :: "vm \<Rightarrow> nat \<times> nat \<Rightarrow> nat \<Rightarrow> byte list option" where
  "host_load v ptr n = do {
     b \<leftarrow> vm_blocks v (fst ptr);
     Some (map (\<lambda>i. db_bytes b (snd ptr + i)) [0..<n]) }"

definition host_store :: "vm \<Rightarrow> nat \<times> nat \<Rightarrow> byte list \<Rightarrow> vm option" where
  "host_store v ptr bs = do {
     b \<leftarrow> vm_blocks v (fst ptr);
     Some (v\<lparr>vm_blocks := (vm_blocks v)(fst ptr \<mapsto> b\<lparr>db_bytes := (\<lambda>i.
       if snd ptr \<le> i \<and> i < snd ptr + length bs then bs ! (i - snd ptr) else db_bytes b i)\<rparr>)\<rparr>) }"

section \<open>Reading and writing\<close>

text \<open>The end of the page of an address, which wraps to 0 in the last page of the 64-bit space; a chunk
  that ends below its start is copied with a huge length and leaves every buffer.\<close>

definition chunk_end :: "nat \<Rightarrow> nat \<Rightarrow> nat" where
  "chunk_end p limit = (let e = ((PAGE p + 1) * 4096) mod 2 ^ 64 in if e > limit then limit else e)"

function user_read_loop ::
  "(nat \<Rightarrow> fault_env) \<Rightarrow> nat \<Rightarrow> nat \<Rightarrow> nat \<Rightarrow> byte list \<Rightarrow> mem \<times> vm \<Rightarrow> (int \<times> byte list \<times> mem \<times> vm) option" where
  "user_read_loop env addr limit p buf mv =
    (if p < limit then
       let e = chunk_end p limit in
       case mem_ptr (env p) mv p MEM_READ of
         None \<Rightarrow> None
       | Some (None, mv') \<Rightarrow> Some (1, buf, mv')
       | Some (Some ptr, mv') \<Rightarrow>
           if \<not> p < e then None
           else case host_load (snd mv') ptr (e - p) of
             None \<Rightarrow> None
           | Some bs \<Rightarrow>
               (case buf_store buf (p - addr) bs of
                  None \<Rightarrow> None
                | Some buf' \<Rightarrow> user_read_loop env addr limit e buf' mv')
     else Some (0, buf, mv))"
  by pat_completeness auto
termination by (relation "measure (\<lambda>(env, addr, limit, p, buf, mv). limit - p)") auto

declare user_read_loop.simps [simp del]

definition user_read_task ::
  "(nat \<Rightarrow> fault_env) \<Rightarrow> mem \<times> vm \<Rightarrow> nat \<Rightarrow> byte list \<Rightarrow> nat \<Rightarrow> (int \<times> byte list \<times> mem \<times> vm) option" where
  "user_read_task env mv addr buf count = user_read_loop env addr (add64 addr count) addr buf mv"

function user_write_loop ::
  "(nat \<Rightarrow> fault_env) \<Rightarrow> access \<Rightarrow> nat \<Rightarrow> nat \<Rightarrow> nat \<Rightarrow> byte list \<Rightarrow> mem \<times> vm \<Rightarrow> (int \<times> mem \<times> vm) option" where
  "user_write_loop env type addr limit p buf mv =
    (if p < limit then
       let e = chunk_end p limit in
       case mem_ptr (env p) mv p type of
         None \<Rightarrow> None
       | Some (None, mv') \<Rightarrow> Some (1, mv')
       | Some (Some ptr, mv') \<Rightarrow>
           if \<not> p < e then None
           else case buf_load buf (p - addr) (e - p) of
             None \<Rightarrow> None
           | Some bs \<Rightarrow>
               (case host_store (snd mv') ptr bs of
                  None \<Rightarrow> None
                | Some v \<Rightarrow> user_write_loop env type addr limit e buf (fst mv', v))
     else Some (0, mv))"
  by pat_completeness auto
termination by (relation "measure (\<lambda>(env, type, addr, limit, p, buf, mv). limit - p)") auto

declare user_write_loop.simps [simp del]

definition user_write_task ::
  "(nat \<Rightarrow> fault_env) \<Rightarrow> mem \<times> vm \<Rightarrow> nat \<Rightarrow> byte list \<Rightarrow> nat \<Rightarrow> (int \<times> mem \<times> vm) option" where
  "user_write_task env mv addr buf count = user_write_loop env MEM_WRITE addr (add64 addr count) addr buf mv"

definition user_write_task_ptrace ::
  "(nat \<Rightarrow> fault_env) \<Rightarrow> mem \<times> vm \<Rightarrow> nat \<Rightarrow> byte list \<Rightarrow> nat \<Rightarrow> (int \<times> mem \<times> vm) option" where
  "user_write_task_ptrace env mv addr buf count = user_write_loop env MEM_WRITE_PTRACE addr (add64 addr count) addr buf mv"

text \<open>\<^verbatim>\<open>user_read_string\<close> reads byte by byte into a buffer of at most \<^verbatim>\<open>limit\<close> bytes, and \<^verbatim>\<open>user_write_string\<close>
  writes up to the terminator of the string, reading past the buffer when it has none.\<close>

function read_string_loop ::
  "(nat \<Rightarrow> fault_env) \<Rightarrow> nat \<Rightarrow> nat \<Rightarrow> nat \<Rightarrow> byte list \<Rightarrow> mem \<times> vm \<Rightarrow> (int \<times> byte list \<times> mem \<times> vm) option" where
  "read_string_loop env addr limit i buf mv =
    (if i < limit then
       case user_read_task env mv (add64 addr i) (drop i buf) 1 of
         None \<Rightarrow> None
       | Some (err, rest, mv') \<Rightarrow>
           let buf' = take i buf @ rest in
           if err \<noteq> 0 then Some (1, buf', mv')
           else if i < length buf'
           then if buf' ! i = 0 then Some (0, buf', mv') else read_string_loop env addr limit (i + 1) buf' mv'
           else None
     else Some (0, buf, mv))"
  by pat_completeness auto
termination by (relation "measure (\<lambda>(env, addr, limit, i, buf, mv). limit - i)") auto

declare read_string_loop.simps [simp del]

definition user_read_string ::
  "(nat \<Rightarrow> fault_env) \<Rightarrow> mem \<times> vm \<Rightarrow> nat \<Rightarrow> byte list \<Rightarrow> nat \<Rightarrow> (int \<times> byte list \<times> mem \<times> vm) option" where
  "user_read_string env mv addr buf limit =
    (if addr = 0 then Some (1, buf, mv) else read_string_loop env addr limit 0 buf mv)"

function write_string_loop ::
  "(nat \<Rightarrow> fault_env) \<Rightarrow> nat \<Rightarrow> nat \<Rightarrow> byte list \<Rightarrow> mem \<times> vm \<Rightarrow> (int \<times> mem \<times> vm) option" where
  "write_string_loop env addr i buf mv =
    (if \<not> i < length buf then None
     else case user_write_task env mv (add64 addr i) (drop i buf) 1 of
       None \<Rightarrow> None
     | Some (err, mv') \<Rightarrow>
         if err \<noteq> 0 then Some (1, mv')
         else if buf ! i \<noteq> 0 then write_string_loop env addr (i + 1) buf mv'
         else Some (0, mv'))"
  by pat_completeness auto
termination by (relation "measure (\<lambda>(env, addr, i, buf, mv). length buf - i)") auto

declare write_string_loop.simps [simp del]

definition user_write_string ::
  "(nat \<Rightarrow> fault_env) \<Rightarrow> mem \<times> vm \<Rightarrow> nat \<Rightarrow> byte list \<Rightarrow> (int \<times> mem \<times> vm) option" where
  "user_write_string env mv addr buf =
    (if addr = 0 then Some (1, mv) else write_string_loop env addr 0 buf mv)"

section \<open>Reading mapped memory\<close>

lemma mem_ptr_read_mapped:
  assumes "mem_pt m (PAGE a) = Some e" "pt_data e = Some d"
  shows "mem_ptr env (m, v) a MEM_READ = Some (Some (d, pt_offset e + PGOFFSET a), m, v)"
  using assms by (simp add: mem_ptr_def write_fault_def mem_ptr_nofault_def)

lemma chunk_end_bounds:
  assumes "p < limit" "limit \<le> 2 ^ 48"
  shows "p < chunk_end p limit" "chunk_end p limit \<le> limit"
proof -
  have b: "p < (PAGE p + 1) * 4096" "(PAGE p + 1) * 4096 \<le> p + 4096" by (simp_all add: PAGE_def)
  then have "(PAGE p + 1) * 4096 mod 2 ^ 64 = (PAGE p + 1) * 4096" using assms by (intro mod_less) simp
  then show "p < chunk_end p limit" "chunk_end p limit \<le> limit" using assms b by (simp_all add: chunk_end_def Let_def)
qed

lemma chunk_same_page:
  assumes "p \<le> a" "a < chunk_end p limit" "limit \<le> 2 ^ 48" "p < limit"
  shows "PAGE a = PAGE p" "PGOFFSET a = PGOFFSET p + (a - p)"
proof -
  have "(PAGE p + 1) * 4096 \<le> p + 4096" by (simp add: PAGE_def)
  then have "(PAGE p + 1) * 4096 mod 2 ^ 64 = (PAGE p + 1) * 4096" using assms by (intro mod_less) simp
  then have a: "a < (p div 4096 + 1) * 4096"
    using assms(2) by (auto simp: chunk_end_def Let_def PAGE_def split: if_splits)
  have "p div 4096 \<le> a div 4096" using assms(1) by (rule div_le_mono)
  moreover have "a div 4096 < p div 4096 + 1" using a by (simp add: div_less_iff_less_mult)
  ultimately have eq: "a div 4096 = p div 4096" by simp
  show "PAGE a = PAGE p" using eq by (simp add: PAGE_def)
  have "a = p div 4096 * 4096 + a mod 4096" "p = p div 4096 * 4096 + p mod 4096"
    using eq div_mult_mod_eq [of a 4096] by simp_all
  then show "PGOFFSET a = PGOFFSET p + (a - p)" using assms(1) unfolding PGOFFSET_def by linarith
qed

definition range_mapped :: "mem \<Rightarrow> nat \<Rightarrow> nat \<Rightarrow> bool" where
  "range_mapped m lo hi \<longleftrightarrow> (\<forall>a. lo \<le> a \<and> a < hi \<longrightarrow> mem_pt m (PAGE a) \<noteq> None)"

definition guest_bytes :: "vm \<Rightarrow> mem \<Rightarrow> nat \<Rightarrow> nat \<Rightarrow> byte list" where
  "guest_bytes v m lo hi = map (\<lambda>a. the (guest_byte v m a)) [lo..<hi]"

lemma guest_bytes_append: "lo \<le> mid \<Longrightarrow> mid \<le> hi \<Longrightarrow> guest_bytes v m lo hi = guest_bytes v m lo mid @ guest_bytes v m mid hi"
  unfolding guest_bytes_def by (metis map_append upt_add_eq_append le_add_diff_inverse)

lemma host_load_chunk:
  assumes "vm_ok ext m v" "p < limit" "limit \<le> 2 ^ 48" "mem_pt m (PAGE p) = Some e" "pt_data e = Some d"
  shows "host_load v (d, pt_offset e + PGOFFSET p) (chunk_end p limit - p) = Some (guest_bytes v m p (chunk_end p limit))"
proof -
  have "PAGE p < MEM_PAGES" using assms(2,3) by (intro PAGE_bound) simp
  then obtain b where b: "vm_blocks v d = Some b" using vm_ok_mapped_alive(1) [OF assms(1) _ assms(4,5)] by auto
  have "guest_byte v m a = Some (db_bytes b (pt_offset e + PGOFFSET p + (a - p)))" if "p \<le> a" "a < chunk_end p limit" for a
    using chunk_same_page [OF that assms(3,2)] assms(4,5) b by (simp add: guest_byte_def add.assoc)
  then have "map (\<lambda>i. db_bytes b (pt_offset e + PGOFFSET p + i)) [0..<chunk_end p limit - p] = guest_bytes v m p (chunk_end p limit)"
    unfolding guest_bytes_def by (intro nth_equalityI) (auto simp: add.assoc)
  then show ?thesis using b by (simp add: host_load_def)
qed

lemma user_read_loop_mapped:
  assumes "vm_ok ext m v" "limit \<le> 2 ^ 48" "range_mapped m p limit" "addr \<le> p" "p \<le> limit" "limit - addr \<le> length buf"
  shows "user_read_loop env addr limit p buf (m, v) =
    Some (0, take (p - addr) buf @ guest_bytes v m p limit @ drop (limit - addr) buf, m, v)"
  using assms
proof (induction "limit - p" arbitrary: p buf rule: less_induct)
  case less
  show ?case
  proof (cases "p < limit")
    case True
    let ?e = "chunk_end p limit"
    note ce = chunk_end_bounds [OF True less.prems(2)]
    obtain e d where e: "mem_pt m (PAGE p) = Some e" "pt_data e = Some d"
      using less.prems(3) True by (auto simp: range_mapped_def mem_pt_Some_raw)
    let ?b = "take (p - addr) buf @ guest_bytes v m p ?e @ drop (?e - addr) buf"
    have st: "buf_store buf (p - addr) (guest_bytes v m p ?e) = Some ?b"
      using less.prems(4,6) ce by (simp add: buf_store_def guest_bytes_def)
    have len: "length ?b = length buf" using less.prems(4,6) ce by (simp add: guest_bytes_def)
    have ih: "user_read_loop env addr limit ?e ?b (m, v) =
        Some (0, take (?e - addr) ?b @ guest_bytes v m ?e limit @ drop (limit - addr) ?b, m, v)"
      using less.prems ce len by (intro less.hyps) (auto simp: range_mapped_def)
    have "take (?e - addr) ?b = take (p - addr) buf @ guest_bytes v m p ?e"
      using less.prems(4,6) ce by (simp add: guest_bytes_def)
    moreover have "drop (limit - addr) ?b = drop (limit - addr) buf"
      using less.prems(4,6) ce by (simp add: guest_bytes_def)
    ultimately show ?thesis
      using True ce ih st mem_ptr_read_mapped [OF e] host_load_chunk [OF less.prems(1) True less.prems(2) e]
        guest_bytes_append [of p ?e limit v m]
      by (simp add: user_read_loop.simps [of env addr limit p] Let_def)
  next
    case False
    then show ?thesis using less.prems by (simp add: user_read_loop.simps guest_bytes_def)
  qed
qed

section \<open>Writing mapped memory\<close>

text \<open>No two pages of the address space show the same bytes.\<close>

definition unaliased :: "mem \<Rightarrow> bool" where
  "unaliased m \<longleftrightarrow> (\<forall>p < MEM_PAGES. \<forall>q < MEM_PAGES. \<forall>e f. p \<noteq> q \<longrightarrow> mem_pt m p = Some e \<longrightarrow> mem_pt m q = Some f \<longrightarrow>
     pt_data e = pt_data f \<longrightarrow> pt_offset e + PAGE_SIZE \<le> pt_offset f \<or> pt_offset f + PAGE_SIZE \<le> pt_offset e)"

definition writable :: "mem \<Rightarrow> nat \<Rightarrow> bool" where
  "writable m p \<longleftrightarrow> (\<exists>e. mem_pt m p = Some e \<and> pt_flags e AND P_WRITE \<noteq> 0)"

definition calm :: "fault_env \<Rightarrow> bool" where
  "calm env \<longleftrightarrow> fe_others_cow env = id \<and> fe_copy_ok env \<and> fe_data_ok env"

text \<open>The views two states give of the addresses of the guest.\<close>

definition same_view :: "mem \<times> vm \<Rightarrow> mem \<times> vm \<Rightarrow> bool" where
  "same_view s t \<longleftrightarrow> (\<forall>a < 2 ^ 48. guest_byte (snd t) (fst t) a = guest_byte (snd s) (fst s) a)"

definition write_ready :: "(nat \<Rightarrow> nat) \<Rightarrow> mem \<times> vm \<Rightarrow> bool" where
  "write_ready ext s \<longleftrightarrow> vm_ok ext (fst s) (snd s) \<and> unaliased (fst s)"

lemma PGOFFSET_less [simp]: "PGOFFSET a < PAGE_SIZE"
  by (simp add: PGOFFSET_def)

lemma mem_ptr_write_plain:
  assumes "mem_pt m (PAGE a) = Some e" "pt_flags e AND P_WRITE \<noteq> 0" "pt_flags e AND P_COW = 0"
  shows "mem_ptr env (m, v) a MEM_WRITE =
    Some (map_option (\<lambda>d. (d, pt_offset e + PGOFFSET a)) (pt_data e), m\<lparr>invalidated := PAGE a # invalidated m\<rparr>, v)"
  using assms by (simp add: mem_ptr_def write_fault_def Let_def mem_ptr_nofault_def P_WRITABLE_def)

lemma unaliased_remap:
  assumes "vm_ok ext m v" "unaliased m" "p < MEM_PAGES"
    "\<And>q. q < MEM_PAGES \<Longrightarrow> mem_pt m' q = (if q = p then Some e' else mem_pt m q)" "pt_data e' = Some (vm_next v)"
  shows "unaliased m'"
proof -
  have fresh: "pt_data f \<noteq> Some (vm_next v)" if "q < MEM_PAGES" "mem_pt m q = Some f" for q f
    using vm_ok_mapped_alive(2) [OF assms(1) that] by auto
  show ?thesis using assms(2-5) unfolding unaliased_def by (auto split: if_splits dest: fresh)
qed

lemma write_ptr_law:
  assumes "write_ready ext (m, v)" "a < 2 ^ 48" "writable m (PAGE a)" "calm env"
  shows "\<exists>e d m' v'. mem_ptr env (m, v) a MEM_WRITE = Some (Some (d, pt_offset e + PGOFFSET a), m', v') \<and>
    write_ready ext (m', v') \<and> same_view (m, v) (m', v') \<and> (\<forall>q < MEM_PAGES. writable m' q = writable m q) \<and>
    mem_pt m' (PAGE a) = Some e \<and> pt_data e = Some d"
proof -
  note p = PAGE_bound [OF assms(2)]
  have ok: "vm_ok ext m v" "unaliased m" using assms(1) by (simp_all add: write_ready_def)
  obtain e where e: "mem_pt m (PAGE a) = Some e" "pt_flags e AND P_WRITE \<noteq> 0" using assms(3) by (auto simp: writable_def)
  obtain d where d: "pt_data e = Some d" using e(1) by (auto simp: mem_pt_Some_raw)
  show ?thesis
  proof (cases "pt_flags e AND P_COW = 0")
    case True
    let ?m = "m\<lparr>invalidated := PAGE a # invalidated m\<rparr>"
    have "write_ready ext (?m, v)" using ok by (simp add: write_ready_def unaliased_def)
    moreover have "same_view (m, v) (?m, v)" by (simp add: same_view_def guest_byte_def)
    moreover have "writable ?m q = writable m q" for q by (simp add: writable_def)
    ultimately show ?thesis using mem_ptr_write_plain [OF e True, of env v] d e(1) by (intro exI [of _ e] exI [of _ d]) simp
  next
    case False
    have env: "fe_others_cow env = id" "fe_copy_ok env" "fe_data_ok env" using assms(4) by (simp_all add: calm_def)
    obtain m' v' where W: "mem_ptr env (m, v) a MEM_WRITE = Some (Some (vm_next v, PGOFFSET a), m', v')"
      "vm_ok ext m' v'" "bytes_from v v'"
      "\<And>q. q < MEM_PAGES \<Longrightarrow> mem_pt m' q = (if q = PAGE a
         then Some (mapped_entry (vm_next v) (PAGE a) 0 (pt_flags e AND NOT P_COW) q) else mem_pt m q)"
      "map_option db_bytes (vm_blocks v' (vm_next v)) = page_bytes v e"
      using cow_write_fault [OF ok(1) p e False env] by blast
    let ?e = "mapped_entry (vm_next v) (PAGE a) 0 (pt_flags e AND NOT P_COW) (PAGE a)"
    have e': "mem_pt m' (PAGE a) = Some ?e" "pt_data ?e = Some (vm_next v)" "pt_offset ?e = 0"
      using W(4) [OF p] by (simp_all add: mapped_entry_def)
    have "unaliased m'" by (rule unaliased_remap [OF ok p, of m' ?e]) (use W(4) e' in auto)
    then have ready: "write_ready ext (m', v')" using W(2) by (simp add: write_ready_def)
    have "guest_byte v' m' b = guest_byte v m b" if "b < 2 ^ 48" for b
    proof (cases "PAGE b = PAGE a")
      case True
      obtain x where x: "vm_blocks v d = Some x" using vm_ok_mapped_alive(1) [OF ok(1) p e(1) d] by auto
      then obtain y where y: "vm_blocks v' (vm_next v) = Some y"
        "db_bytes y = (\<lambda>i. if i < PAGE_SIZE then db_bytes x (pt_offset e + i) else 0)"
        using W(5) d by (auto simp: page_bytes_def)
      show ?thesis using True e' y x d e(1) PGOFFSET_less [of b] by (simp add: guest_byte_def)
    next
      case False
      then show ?thesis using W(4) [OF PAGE_bound [OF that]]
        by (intro guest_byte_cong [OF ok(1) W(2,3) PAGE_bound [OF that]]) simp
    qed
    then have view: "same_view (m, v) (m', v')" by (simp add: same_view_def)
    have wr: "writable m' q = writable m q" if "q < MEM_PAGES" for q
      using W(4) [OF that] e by (auto simp: writable_def mapped_entry_def)
    show ?thesis using W(1) e' ready view wr by (intro exI [of _ ?e] exI [of _ "vm_next v"]) auto
  qed
qed

lemma host_store_law:
  assumes "write_ready ext (m, v)" "p < 2 ^ 48" "mem_pt m (PAGE p) = Some e" "pt_data e = Some d"
    "PGOFFSET p + length bs \<le> PAGE_SIZE"
  shows "\<exists>v'. host_store v (d, pt_offset e + PGOFFSET p) bs = Some v' \<and> write_ready ext (m, v') \<and>
    (\<forall>a < 2 ^ 48. guest_byte v' m a = (if p \<le> a \<and> a < p + length bs then Some (bs ! (a - p)) else guest_byte v m a))"
proof -
  note pp = PAGE_bound [OF assms(2)]
  have ok: "vm_ok ext m v" "unaliased m" using assms(1) by (simp_all add: write_ready_def)
  obtain b where b: "vm_blocks v d = Some b" using vm_ok_mapped_alive(1) [OF ok(1) pp assms(3,4)] by auto
  let ?o = "pt_offset e + PGOFFSET p"
  let ?f = "\<lambda>i. if ?o \<le> i \<and> i < ?o + length bs then bs ! (i - ?o) else db_bytes b i"
  let ?v = "v\<lparr>vm_blocks := (vm_blocks v)(d \<mapsto> b\<lparr>db_bytes := ?f\<rparr>)\<rparr>"
  have st: "host_store v (d, ?o) bs = Some ?v" using b by (simp add: host_store_def cong: if_cong)
  have "db_count ?v x = db_count v x" for x using b by (simp add: db_count_def)
  then have "vm_ok ext m ?v" using ok(1) b by (auto simp: vm_ok_def)
  then have ready: "write_ready ext (m, ?v)" using ok(2) by (simp add: write_ready_def)
  have view: "guest_byte ?v m a = (if p \<le> a \<and> a < p + length bs then Some (bs ! (a - p)) else guest_byte v m a)"
    if a: "a < 2 ^ 48" for a
  proof (cases "PAGE a = PAGE p")
    case True
    have "a = PAGE p * 4096 + PGOFFSET a" "p = PAGE p * 4096 + PGOFFSET p"
      using True unfolding PAGE_def PGOFFSET_def by (metis div_mult_mod_eq)+
    then have "(?o \<le> pt_offset e + PGOFFSET a \<and> pt_offset e + PGOFFSET a < ?o + length bs) \<longleftrightarrow> p \<le> a \<and> a < p + length bs"
      "pt_offset e + PGOFFSET a - ?o = a - p" by linarith+
    then show ?thesis using True assms(3,4) b by (auto simp: guest_byte_def)
  next
    case False
    have in_page: "PAGE a = PAGE p" if "p \<le> a" "a < p + length bs"
    proof -
      have "p = PAGE p * 4096 + PGOFFSET p" unfolding PAGE_def PGOFFSET_def by (metis div_mult_mod_eq)
      then have "a < (PAGE p + 1) * 4096" "PAGE p * 4096 \<le> a" using that assms(5) by simp_all
      then show ?thesis unfolding PAGE_def by (simp add: div_nat_eqI)
    qed
    have "guest_byte ?v m a = guest_byte v m a"
    proof (cases "mem_pt m (PAGE a)")
      case (Some f)
      note off = PGOFFSET_less [of a]
      have "\<not> (?o \<le> pt_offset f + PGOFFSET a \<and> pt_offset f + PGOFFSET a < ?o + length bs)" if "pt_data f = Some d"
      proof -
        have "pt_offset e + PAGE_SIZE \<le> pt_offset f \<or> pt_offset f + PAGE_SIZE \<le> pt_offset e"
          using ok(2) pp PAGE_bound [OF a] False Some assms(3,4) that unfolding unaliased_def by metis
        then show ?thesis using assms(5) off by linarith
      qed
      then show ?thesis using Some b by (cases "pt_data f") (auto simp: guest_byte_def)
    qed (simp add: guest_byte_def)
    then show ?thesis using False in_page by auto
  qed
  show ?thesis using st ready view by blast
qed

lemma chunk_in_page:
  assumes "p < limit" "limit \<le> 2 ^ 48"
  shows "PGOFFSET p + (chunk_end p limit - p) \<le> PAGE_SIZE"
proof -
  let ?e = "chunk_end p limit"
  have "PGOFFSET (?e - 1) = PGOFFSET p + (?e - 1 - p)"
    using chunk_same_page(2) [of p "?e - 1" limit] chunk_end_bounds [OF assms] assms by simp
  then show ?thesis using PGOFFSET_less [of "?e - 1"] chunk_end_bounds [OF assms] by linarith
qed

lemma user_write_loop_mapped:
  assumes "write_ready ext (m, v)" "limit \<le> 2 ^ 48" "\<forall>a. p \<le> a \<and> a < limit \<longrightarrow> writable m (PAGE a)" "\<And>a. calm (env a)"
    "addr \<le> p" "p \<le> limit" "limit - addr \<le> length buf"
  shows "\<exists>m' v'. user_write_loop env MEM_WRITE addr limit p buf (m, v) = Some (0, m', v') \<and> write_ready ext (m', v') \<and>
    (\<forall>q < MEM_PAGES. writable m' q = writable m q) \<and>
    (\<forall>a < 2 ^ 48. guest_byte v' m' a = (if p \<le> a \<and> a < limit then Some (buf ! (a - addr)) else guest_byte v m a))"
  using assms
proof (induction "limit - p" arbitrary: p m v rule: less_induct)
  case less
  show ?case
  proof (cases "p < limit")
    case True
    let ?e = "chunk_end p limit"
    note ce = chunk_end_bounds [OF True less.prems(2)]
    have p: "p < 2 ^ 48" "writable m (PAGE p)" using True less.prems(2,3) by auto
    obtain e d m1 v1 where W: "mem_ptr (env p) (m, v) p MEM_WRITE = Some (Some (d, pt_offset e + PGOFFSET p), m1, v1)"
      "write_ready ext (m1, v1)" "same_view (m, v) (m1, v1)" "\<forall>q < MEM_PAGES. writable m1 q = writable m q"
      "mem_pt m1 (PAGE p) = Some e" "pt_data e = Some d"
      using write_ptr_law [OF less.prems(1) p less.prems(4) [of p]] by blast
    define bs where "bs = take (?e - p) (drop (p - addr) buf)"
    have bs: "buf_load buf (p - addr) (?e - p) = Some bs" "length bs = ?e - p"
      "\<And>a. p \<le> a \<Longrightarrow> a < ?e \<Longrightarrow> bs ! (a - p) = buf ! (a - addr)"
      using less.prems(5,7) ce by (auto simp: buf_load_def bs_def)
    have fit: "PGOFFSET p + length bs \<le> PAGE_SIZE" using chunk_in_page [OF True less.prems(2)] bs(2) by simp
    obtain v2 where S: "host_store v1 (d, pt_offset e + PGOFFSET p) bs = Some v2" "write_ready ext (m1, v2)"
      "\<And>a. a < 2 ^ 48 \<Longrightarrow> guest_byte v2 m1 a = (if p \<le> a \<and> a < p + length bs then Some (bs ! (a - p)) else guest_byte v1 m1 a)"
      using host_store_law [OF W(2) p(1) W(5,6) fit] by blast
    have wr: "\<forall>a. ?e \<le> a \<and> a < limit \<longrightarrow> writable m1 (PAGE a)"
      using less.prems(2,3) W(4) ce PAGE_bound by (meson less_le_trans less_imp_le le_trans)
    obtain m' v' where R: "user_write_loop env MEM_WRITE addr limit ?e buf (m1, v2) = Some (0, m', v')" "write_ready ext (m', v')"
      "\<forall>q < MEM_PAGES. writable m' q = writable m1 q"
      "\<And>a. a < 2 ^ 48 \<Longrightarrow> guest_byte v' m' a = (if ?e \<le> a \<and> a < limit then Some (buf ! (a - addr)) else guest_byte v2 m1 a)"
      using less.hyps [of ?e m1 v2] S(2) less.prems(2,4,5,7) wr ce True by fastforce
    have "user_write_loop env MEM_WRITE addr limit p buf (m, v) = Some (0, m', v')"
      using True ce W(1) bs(1) S(1) R(1) by (simp add: user_write_loop.simps [of env MEM_WRITE addr limit p] Let_def)
    moreover have "guest_byte v' m' a = (if p \<le> a \<and> a < limit then Some (buf ! (a - addr)) else guest_byte v m a)"
      if "a < 2 ^ 48" for a
      using R(4) [OF that] S(3) [OF that] W(3) that bs(2,3) ce by (auto simp: same_view_def)
    ultimately show ?thesis using R(2,3) W(4) by auto
  next
    case False
    then show ?thesis using less.prems by (auto simp: user_write_loop.simps)
  qed
qed

section \<open>Failures\<close>

text \<open>An access whose end wraps around the address space copies nothing and reports success.\<close>

lemma user_read_wraps:
  assumes "addr < 2 ^ 64" "count < 2 ^ 64" "2 ^ 64 \<le> addr + count"
  shows "user_read_task env mv addr buf count = Some (0, buf, mv)" "user_write_task env mv addr buf count = Some (0, mv)"
proof -
  have "addr + count - 2 ^ 64 = add64 addr count" using assms by (simp add: add64_def le_mod_geq)
  then have "\<not> addr < add64 addr count" using assms(2) by linarith
  then show "user_read_task env mv addr buf count = Some (0, buf, mv)" "user_write_task env mv addr buf count = Some (0, mv)"
    by (simp_all add: user_read_task_def user_write_task_def user_read_loop.simps user_write_loop.simps)
qed

lemma read_string_unterminated:
  assumes ok: "vm_ok ext m v" "range_mapped m (addr + i) (addr + limit)" "addr + limit \<le> 2 ^ 48" "limit = length buf" "i \<le> limit"
    and nz: "\<forall>a. addr + i \<le> a \<and> a < addr + limit \<longrightarrow> guest_byte v m a \<noteq> Some 0"
  shows "read_string_loop env addr limit i buf (m, v) =
    Some (0, take i buf @ guest_bytes v m (addr + i) (addr + limit), m, v)"
  using assms
proof (induction "limit - i" arbitrary: i buf)
  case 0
  then show ?case by (simp add: read_string_loop.simps guest_bytes_def)
next
  case (Suc n)
  then have i: "i < limit" by simp
  let ?a = "addr + i"
  have a: "add64 addr i = ?a" "add64 ?a 1 = ?a + 1" using i Suc.prems(3) by (simp_all add: add64_no_wrap)
  have one: "guest_bytes v m ?a (?a + 1) = [the (guest_byte v m ?a)]" by (simp add: guest_bytes_def)
  have r: "user_read_task env (m, v) ?a (drop i buf) 1 = Some (0, the (guest_byte v m ?a) # drop (i + 1) buf, m, v)"
    using user_read_loop_mapped [OF Suc.prems(1), of "?a + 1" ?a ?a "drop i buf" env] i Suc.prems(2-4) one a(2)
    by (simp add: user_read_task_def range_mapped_def)
  obtain e where e: "mem_pt m (PAGE ?a) = Some e" using Suc.prems(2) i by (auto simp: range_mapped_def)
  obtain d where d: "pt_data e = Some d" using e by (auto simp: mem_pt_Some_raw)
  have "vm_blocks v d \<noteq> None" using vm_ok_mapped_alive(1) [OF Suc.prems(1) _ e d] PAGE_bound [of ?a] i Suc.prems(3) by simp
  then have "guest_byte v m ?a \<noteq> None" using e d by (auto simp: guest_byte_def)
  then have nz1: "the (guest_byte v m ?a) \<noteq> 0" using Suc.prems(6) i by fastforce
  let ?b = "take i buf @ the (guest_byte v m ?a) # drop (i + 1) buf"
  have len: "length ?b = length buf" "?b ! i = the (guest_byte v m ?a)" "take (i + 1) ?b = take i buf @ [the (guest_byte v m ?a)]"
    using i Suc.prems(4) by (simp_all add: nth_append)
  have "read_string_loop env addr limit (i + 1) ?b (m, v) =
      Some (0, take (i + 1) ?b @ guest_bytes v m (addr + (i + 1)) (addr + limit), m, v)"
    using Suc.hyps(2) Suc.prems len i by (intro Suc.hyps(1)) (auto simp: range_mapped_def)
  moreover have "guest_bytes v m ?a (addr + limit) = the (guest_byte v m ?a) # guest_bytes v m (addr + (i + 1)) (addr + limit)"
    using guest_bytes_append [of ?a "?a + 1" "addr + limit" v m] one i by (simp add: add.assoc)
  ultimately show ?case
    using i r a nz1 len Suc.prems(4) by (subst read_string_loop.simps) (simp add: Let_def)
qed

section \<open>Properties\<close>



end
