(* ===== verification/Ipc.thy ===== *)
theory Ipc
  imports Address_Space Fd_Table
begin

text \<open>
  System V and POSIX interprocess communication (kernel/ipc.c): message queues, semaphore sets, shared
  memory segments and POSIX message queues.  The tables are linked lists in the source and lists here, in
  the order of the links.  Every call runs under \<^verbatim>\<open>shm_lock\<close>; where a call drops the lock, in a wait or to
  access user memory, the state the other tasks leave is an argument.  \<^term>\<open>None\<close> is undefined behaviour:
  signed overflow, a freed queue, an access outside an array.
\<close>

section \<open>Constants and data\<close>

abbreviation (input) IPC_PRIVATE :: int where "IPC_PRIVATE \<equiv> 0"
abbreviation (input) IPC_CREAT :: flags32 where "IPC_CREAT \<equiv> 512"
abbreviation (input) IPC_EXCL :: flags32 where "IPC_EXCL \<equiv> 1024"
abbreviation (input) IPC_NOWAIT :: flags32 where "IPC_NOWAIT \<equiv> 2048"
abbreviation (input) IPC_RMID :: int where "IPC_RMID \<equiv> 0"
abbreviation (input) IPC_SET :: int where "IPC_SET \<equiv> 1"
abbreviation (input) IPC_STAT :: int where "IPC_STAT \<equiv> 2"
abbreviation (input) MSG_NOERROR :: flags32 where "MSG_NOERROR \<equiv> 4096"
abbreviation (input) MSG_EXCEPT :: flags32 where "MSG_EXCEPT \<equiv> 8192"
abbreviation (input) SHM_RDONLY :: flags32 where "SHM_RDONLY \<equiv> 4096"
abbreviation (input) SHM_RND :: flags32 where "SHM_RND \<equiv> 8192"
abbreviation (input) SHM_REMAP :: flags32 where "SHM_REMAP \<equiv> 16384"
abbreviation (input) GETPID :: int where "GETPID \<equiv> 11"
abbreviation (input) GETVAL :: int where "GETVAL \<equiv> 12"
abbreviation (input) GETALL :: int where "GETALL \<equiv> 13"
abbreviation (input) GETNCNT :: int where "GETNCNT \<equiv> 14"
abbreviation (input) GETZCNT :: int where "GETZCNT \<equiv> 15"
abbreviation (input) SETVAL :: int where "SETVAL \<equiv> 16"
abbreviation (input) SETALL :: int where "SETALL \<equiv> 17"
abbreviation (input) O_CREAT :: flags32 where "O_CREAT \<equiv> 64"
abbreviation (input) O_EXCL :: flags32 where "O_EXCL \<equiv> 128"
abbreviation (input) ENODATA :: int where "ENODATA \<equiv> - 61"

record shm_segment =
  shm_id :: int
  shm_key :: int
  shm_size :: nat
  shm_pages :: nat
  shm_fd :: nat

record shm_attach =
  at_mm :: nat
  at_addr :: nat
  at_pages :: nat
  at_shmid :: int

record msg_message =
  msg_type :: int
  msg_data :: "byte list"

record msg_queue =
  msq_id :: int
  msq_key :: int
  msq_messages :: "msg_message list"

record sem_set =
  sem_id :: int
  sem_key :: int
  nsems :: int
  sem_values :: "16 word list"
  sem_pids :: "int list"

record semop =
  sop_num :: nat
  sop_op :: int
  sop_flags :: "16 word"

record mq_message =
  mqm_prio :: nat
  mqm_data :: "byte list"

text \<open>A POSIX queue is known by its address: descriptors and waiting calls hold a pointer to it.\<close>

record mq_queue =
  mq_addr :: nat
  mq_name :: "byte list"
  mq_unlinked :: bool
  mq_open_count :: int
  mq_flags :: flags32
  mq_maxmsg :: int
  mq_msgsize :: int
  mq_curmsgs :: int
  mq_messages :: "mq_message list"

text \<open>\<^verbatim>\<open>mqfds\<close> gives the \<^verbatim>\<open>data\<close> pointer of each open file whose operations are \<^verbatim>\<open>mqfd_ops\<close>.\<close>

record ipc =
  next_shmid :: int
  next_msgid :: int
  next_semid :: int
  shm_segments :: "shm_segment list"
  shm_attaches :: "shm_attach list"
  msg_queues :: "msg_queue list"
  sem_sets :: "sem_set list"
  mq_queues :: "mq_queue list"
  mqfds :: "nat \<Rightarrow> nat option"

text \<open>What the calls find outside: whether allocations succeed, the bytes of fresh memory from \<^verbatim>\<open>malloc\<close> and
  of an uninitialised variable, what \<^verbatim>\<open>user_read\<close> leaves in a buffer and returns, what \<^verbatim>\<open>user_write\<close>
  returns (0, or 1 for a fault: see \<^verbatim>\<open>user_read_task\<close> and \<^verbatim>\<open>user_write_task\<close>), and what the other tasks do to the
  state while the lock is dropped for such an access.\<close>

record ipc_env =
  ie_calloc :: bool
  ie_malloc :: "nat \<Rightarrow> bool"
  ie_garbage :: "nat \<Rightarrow> byte list"
  ie_read :: "nat \<Rightarrow> byte list \<Rightarrow> int \<times> byte list"
  ie_write :: "nat \<Rightarrow> byte list \<Rightarrow> int"
  ie_others :: "ipc \<Rightarrow> ipc"
  ie_pid :: int

text \<open>A call returns or is still waiting when the list of its wake-ups is used up.  A wake-up is the result of
  \<^verbatim>\<open>wait_for\<close> with the state the other tasks have left.\<close>

datatype 'a call = Returns 'a | Waits

type_synonym wakeups = "(int \<times> ipc) list"
type_synonym writes = "(nat \<times> byte list) list"

section \<open>Little-endian data in user memory\<close>

definition s16 :: "nat \<Rightarrow> int" where
  "s16 x = (if x < 2 ^ 15 then int x else int x - 2 ^ 16)"

section \<open>Tables\<close>

fun shm_find_id :: "shm_segment list \<Rightarrow> int \<Rightarrow> shm_segment option" where
  "shm_find_id [] i = None"
| "shm_find_id (seg # rest) i = (if shm_id seg = i then Some seg else shm_find_id rest i)"

fun shm_find_key :: "shm_segment list \<Rightarrow> int \<Rightarrow> shm_segment option" where
  "shm_find_key [] k = None"
| "shm_find_key (seg # rest) k = (if shm_key seg = k then Some seg else shm_find_key rest k)"

fun msg_find_id :: "msg_queue list \<Rightarrow> int \<Rightarrow> msg_queue option" where
  "msg_find_id [] i = None"
| "msg_find_id (q # rest) i = (if msq_id q = i then Some q else msg_find_id rest i)"

fun msg_find_key :: "msg_queue list \<Rightarrow> int \<Rightarrow> msg_queue option" where
  "msg_find_key [] k = None"
| "msg_find_key (q # rest) k = (if msq_key q = k then Some q else msg_find_key rest k)"

fun sem_find_id :: "sem_set list \<Rightarrow> int \<Rightarrow> sem_set option" where
  "sem_find_id [] i = None"
| "sem_find_id (x # rest) i = (if sem_id x = i then Some x else sem_find_id rest i)"

fun sem_find_key :: "sem_set list \<Rightarrow> int \<Rightarrow> sem_set option" where
  "sem_find_key [] k = None"
| "sem_find_key (x # rest) k = (if sem_key x = k then Some x else sem_find_key rest k)"

fun mq_find_name :: "mq_queue list \<Rightarrow> byte list \<Rightarrow> mq_queue option" where
  "mq_find_name [] n = None"
| "mq_find_name (q # rest) n = (if \<not> mq_unlinked q \<and> mq_name q = n then Some q else mq_find_name rest n)"

text \<open>Unlinking the entry a link pointer stopped at, and writing through a pointer to an entry.\<close>

fun shm_unlink :: "shm_segment list \<Rightarrow> int \<Rightarrow> shm_segment list" where
  "shm_unlink [] i = []"
| "shm_unlink (seg # rest) i = (if shm_id seg = i then rest else seg # shm_unlink rest i)"

fun msg_unlink :: "msg_queue list \<Rightarrow> int \<Rightarrow> msg_queue list" where
  "msg_unlink [] i = []"
| "msg_unlink (q # rest) i = (if msq_id q = i then rest else q # msg_unlink rest i)"

fun sem_unlink :: "sem_set list \<Rightarrow> int \<Rightarrow> sem_set list" where
  "sem_unlink [] i = []"
| "sem_unlink (x # rest) i = (if sem_id x = i then rest else x # sem_unlink rest i)"

fun msg_put :: "msg_queue list \<Rightarrow> int \<Rightarrow> msg_queue \<Rightarrow> msg_queue list" where
  "msg_put [] i y = []"
| "msg_put (q # rest) i y = (if msq_id q = i then y # rest else q # msg_put rest i y)"

fun sem_put :: "sem_set list \<Rightarrow> int \<Rightarrow> sem_set \<Rightarrow> sem_set list" where
  "sem_put [] i y = []"
| "sem_put (x # rest) i y = (if sem_id x = i then y # rest else x # sem_put rest i y)"

fun mq_get :: "mq_queue list \<Rightarrow> nat \<Rightarrow> mq_queue option" where
  "mq_get [] a = None"
| "mq_get (q # rest) a = (if mq_addr q = a then Some q else mq_get rest a)"

fun mq_put :: "mq_queue list \<Rightarrow> nat \<Rightarrow> mq_queue \<Rightarrow> mq_queue list" where
  "mq_put [] a y = []"
| "mq_put (q # rest) a y = (if mq_addr q = a then y # rest else q # mq_put rest a y)"

fun mq_remove :: "mq_queue list \<Rightarrow> nat \<Rightarrow> mq_queue list" where
  "mq_remove [] a = []"
| "mq_remove (q # rest) a = (if mq_addr q = a then rest else q # mq_remove rest a)"

text \<open>\<^verbatim>\<open>id = next++; if (next <= 0) next = 1;\<close>\<close>

definition fresh_id :: "int \<Rightarrow> (int \<times> int) option" where
  "fresh_id nxt = (if nxt = 2 ^ 31 - 1 then None else Some (nxt, if nxt + 1 \<le> 0 then 1 else nxt + 1))"

section \<open>System V message queues\<close>

definition sys_msgget :: "ipc_env \<Rightarrow> ipc \<Rightarrow> int \<Rightarrow> flags32 \<Rightarrow> (int \<times> ipc) option" where
  "sys_msgget E s key msgflg =
    (case (if key = IPC_PRIVATE then None else msg_find_key (msg_queues s) key) of
       Some q \<Rightarrow>
         if msgflg AND IPC_CREAT \<noteq> 0 \<and> msgflg AND IPC_EXCL \<noteq> 0 then Some (EEXIST, s) else Some (msq_id q, s)
     | None \<Rightarrow>
         if key \<noteq> IPC_PRIVATE \<and> msgflg AND IPC_CREAT = 0 then Some (ENOENT, s)
         else if \<not> ie_calloc E then Some (ENOMEM, s)
         else do {
           (i, nxt) \<leftarrow> fresh_id (next_msgid s);
           Some (i, s\<lparr>next_msgid := nxt,
             msg_queues := \<lparr>msq_id = i, msq_key = key, msq_messages = []\<rparr> # msg_queues s\<rparr>) })"

definition sys_msgctl :: "ipc \<Rightarrow> int \<Rightarrow> int \<Rightarrow> int \<times> ipc" where
  "sys_msgctl s msqid cmd =
    (if msg_find_id (msg_queues s) msqid = None then (EINVAL, s)
     else if cmd = IPC_RMID then (0, s\<lparr>msg_queues := msg_unlink (msg_queues s) msqid\<rparr>)
     else if cmd = IPC_STAT \<or> cmd = IPC_SET then (0, s)
     else (EINVAL, s))"

definition sys_msgsnd :: "ipc_env \<Rightarrow> ipc \<Rightarrow> int \<Rightarrow> nat \<Rightarrow> nat \<Rightarrow> int \<times> ipc" where
  "sys_msgsnd E s msqid msgp msgsz =
    (let (err, tbytes) = ie_read E msgp (ie_garbage E 8);
         type = s64 (int (le_nat tbytes))
     in if err < 0 then (EFAULT, s)
        else if type \<le> 0 then (EINVAL, s)
        else if \<not> ie_calloc E then (ENOMEM, s)
        else if \<not> ie_malloc E (if msgsz \<noteq> 0 then msgsz else 1) then (ENOMEM, s)
        else let (err, dat) = (if msgsz \<noteq> 0 then ie_read E (add64 msgp 8) (ie_garbage E msgsz) else (0, []))
          in if msgsz \<noteq> 0 \<and> err < 0 then (EFAULT, s)
             else case msg_find_id (msg_queues s) msqid of
                 None \<Rightarrow> (EINVAL, s)
               | Some q \<Rightarrow>
                   (0, s\<lparr>msg_queues := msg_put (msg_queues s) msqid
                     (q\<lparr>msq_messages := msq_messages q @ [\<lparr>msg_type = type, msg_data = dat\<rparr>]\<rparr>)\<rparr>))"

definition msg_matches :: "int \<Rightarrow> int \<Rightarrow> flags32 \<Rightarrow> bool option" where
  "msg_matches have want flags =
    (if want = 0 then Some True
     else if want > 0 then
       if flags AND MSG_EXCEPT \<noteq> 0 then Some (have \<noteq> want) else Some (have = want)
     else if want = - (2 ^ 63) then None
     else Some (have \<le> - want))"

text \<open>The search for the best message: the position of its link.\<close>

fun msg_scan :: "msg_message list \<Rightarrow> nat \<Rightarrow> int \<Rightarrow> flags32 \<Rightarrow> int \<Rightarrow> nat option \<Rightarrow> nat option option" where
  "msg_scan [] i typ fl best_type best_link = Some best_link"
| "msg_scan (candidate # rest) i typ fl best_type best_link = do {
     m \<leftarrow> msg_matches (msg_type candidate) typ fl;
     if m then
       if typ < 0 then
         if msg_type candidate < best_type
         then msg_scan rest (i + 1) typ fl (msg_type candidate) (Some i)
         else msg_scan rest (i + 1) typ fl best_type best_link
       else Some (Some i)
     else msg_scan rest (i + 1) typ fl best_type best_link }"

definition remove_nth :: "nat \<Rightarrow> 'a list \<Rightarrow> 'a list" where
  "remove_nth i xs = take i xs @ drop (Suc i) xs"

definition msg_deliver :: "ipc_env \<Rightarrow> nat \<Rightarrow> nat \<Rightarrow> msg_message \<Rightarrow> int \<times> writes" where
  "msg_deliver E msgp msgsz msg =
    (let copy = min (length (msg_data msg)) msgsz;
         tbytes = le_bytes 8 (u64 (msg_type msg));
         err = ie_write E msgp tbytes;
         ws = (if err = 0 then [(msgp, tbytes)] else []);
         dat = take copy (msg_data msg);
         err2 = (if err = 0 \<and> copy \<noteq> 0 then ie_write E (add64 msgp 8) dat else err);
         ws2 = (if err = 0 \<and> copy \<noteq> 0 \<and> err2 = 0 then [(add64 msgp 8, dat)] else [])
     in (if err2 < 0 then EFAULT
         else if copy < length (msg_data msg) then int copy else int (length (msg_data msg)), ws @ ws2))"

fun sys_msgrcv ::
  "ipc_env \<Rightarrow> ipc \<Rightarrow> int \<Rightarrow> nat \<Rightarrow> nat \<Rightarrow> int \<Rightarrow> flags32 \<Rightarrow> wakeups \<Rightarrow> (int \<times> ipc \<times> writes) call option" where
  "sys_msgrcv E s msqid msgp msgsz msgtyp msgflg evs =
    (case msg_find_id (msg_queues s) msqid of
       None \<Rightarrow> Some (Returns (EINVAL, s, []))
     | Some q \<Rightarrow> do {
         best \<leftarrow> msg_scan (msq_messages q) 0 msgtyp msgflg (2 ^ 63 - 1) None;
         case best of
           Some i \<Rightarrow>
             let msg = msq_messages q ! i in
             if length (msg_data msg) > msgsz \<and> msgflg AND MSG_NOERROR = 0 then Some (Returns (E2BIG, s, []))
             else let (r, ws) = msg_deliver E msgp msgsz msg
               in Some (Returns (r, s\<lparr>msg_queues := msg_put (msg_queues s) msqid
                    (q\<lparr>msq_messages := remove_nth i (msq_messages q)\<rparr>)\<rparr>, ws))
         | None \<Rightarrow>
             if msgflg AND IPC_NOWAIT \<noteq> 0 then Some (Returns (ENODATA, s, []))
             else (case evs of
                 [] \<Rightarrow> Some Waits
               | (err, s') # evs' \<Rightarrow>
                   if err < 0 then Some (Returns (err, s', []))
                   else sys_msgrcv E s' msqid msgp msgsz msgtyp msgflg evs') })"

declare sys_msgrcv.simps [simp del]

section \<open>Semaphore sets\<close>

definition sys_semget :: "ipc_env \<Rightarrow> ipc \<Rightarrow> int \<Rightarrow> int \<Rightarrow> flags32 \<Rightarrow> (int \<times> ipc) option" where
  "sys_semget E s key n semflg =
    (case (if key = IPC_PRIVATE then None else sem_find_key (sem_sets s) key) of
       Some x \<Rightarrow>
         if semflg AND IPC_CREAT \<noteq> 0 \<and> semflg AND IPC_EXCL \<noteq> 0 then Some (EEXIST, s)
         else if n > 0 \<and> n > nsems x then Some (EINVAL, s)
         else Some (sem_id x, s)
     | None \<Rightarrow>
         if key \<noteq> IPC_PRIVATE \<and> semflg AND IPC_CREAT = 0 then Some (ENOENT, s)
         else if n \<le> 0 then Some (EINVAL, s)
         else if \<not> ie_calloc E then Some (ENOMEM, s)
         else if \<not> ie_malloc E (2 * nat n) \<or> \<not> ie_malloc E (4 * nat n) then Some (ENOMEM, s)
         else do {
           (i, nxt) \<leftarrow> fresh_id (next_semid s);
           Some (i, s\<lparr>next_semid := nxt,
             sem_sets := \<lparr>sem_id = i, sem_key = key, nsems = n, sem_values = replicate (nat n) 0,
                           sem_pids = replicate (nat n) 0\<rparr> # sem_sets s\<rparr>) })"

fun le_words :: "byte list \<Rightarrow> 16 word list" where
  "le_words (a # b # rest) = of_nat (le_nat [a, b]) # le_words rest"
| "le_words _ = []"

definition sys_semctl :: "ipc_env \<Rightarrow> ipc \<Rightarrow> int \<Rightarrow> int \<Rightarrow> int \<Rightarrow> nat \<Rightarrow> (int \<times> ipc \<times> writes) option" where
  "sys_semctl E s semid semnum cmd arg =
    (case sem_find_id (sem_sets s) semid of
       None \<Rightarrow> Some (EINVAL, s, [])
     | Some x \<Rightarrow>
         if cmd = IPC_RMID then Some (0, s\<lparr>sem_sets := sem_unlink (sem_sets s) semid\<rparr>, [])
         else if semnum < 0 \<or> semnum \<ge> nsems x then Some (EINVAL, s, [])
         else let k = nat semnum in
           if cmd = GETVAL then
             if k < length (sem_values x) then Some (int (unat (sem_values x ! k)), s, []) else None
           else if cmd = SETVAL then
             if k < length (sem_values x) \<and> k < length (sem_pids x)
             then Some (0, s\<lparr>sem_sets := sem_put (sem_sets s) semid
                     (x\<lparr>sem_values := (sem_values x)[k := of_nat arg], sem_pids := (sem_pids x)[k := ie_pid E]\<rparr>)\<rparr>, [])
             else None
           else if cmd = GETPID then
             if k < length (sem_pids x) then Some (sem_pids x ! k, s, []) else None
           else if cmd = GETNCNT \<or> cmd = GETZCNT then Some (0, s, [])
           else if cmd = GETALL then
             if \<not> ie_malloc E (2 * nat (nsems x)) then Some (ENOMEM, s, [])
             else do {
               vals \<leftarrow> buf_load (sem_values x) 0 (nat (nsems x));
               let bytes = concat (map (\<lambda>w. le_bytes 2 (unat w)) vals);
               if ie_write E arg bytes \<noteq> 0 then Some (EFAULT, s, []) else Some (0, s, [(arg, bytes)]) }
           else if cmd = SETALL then
             if \<not> ie_malloc E (2 * nat (nsems x)) then Some (ENOMEM, s, [])
             else (case ie_read E arg (ie_garbage E (2 * nat (nsems x))) of (err, bytes) \<Rightarrow>
               let s = ie_others E s in
               if err \<noteq> 0 then Some (EFAULT, s, [])
               else case sem_find_id (sem_sets s) semid of
                   None \<Rightarrow> Some (EINVAL, s, [])
                 | Some x \<Rightarrow> do {
                     vals \<leftarrow> buf_load (le_words bytes) 0 (nat (nsems x));
                     values \<leftarrow> buf_store (sem_values x) 0 vals;
                     pids \<leftarrow> buf_store (sem_pids x) 0 (replicate (nat (nsems x)) (ie_pid E));
                     Some (0, s\<lparr>sem_sets := sem_put (sem_sets s) semid (x\<lparr>sem_values := values, sem_pids := pids\<rparr>)\<rparr>, []) })
           else if cmd = IPC_STAT \<or> cmd = IPC_SET then Some (0, s, [])
           else Some (EINVAL, s, []))"

fun sem_check :: "sem_set \<Rightarrow> semop list \<Rightarrow> int option" where
  "sem_check x [] = Some 0"
| "sem_check x (op # ops) =
    (if int (sop_num op) \<ge> nsems x then Some EFBIG
     else if \<not> sop_num op < length (sem_values x) then None
     else let val = int (unat (sem_values x ! sop_num op)) in
       if sop_op op < 0 \<and> val < - sop_op op then Some EAGAIN
       else if sop_op op = 0 \<and> val \<noteq> 0 then Some EAGAIN
       else sem_check x ops)"

fun sem_apply :: "int \<Rightarrow> sem_set \<Rightarrow> semop list \<Rightarrow> sem_set option" where
  "sem_apply cur x [] = Some x"
| "sem_apply cur x (op # ops) =
    (let i = sop_num op in
     if i < length (sem_values x) \<and> i < length (sem_pids x)
     then sem_apply cur (x\<lparr>sem_values := (sem_values x)[i := sem_values x ! i + of_int (sop_op op)],
                            sem_pids := (sem_pids x)[i := cur]\<rparr>) ops
     else None)"

definition sem_try_apply :: "int \<Rightarrow> sem_set \<Rightarrow> semop list \<Rightarrow> bool \<Rightarrow> (int \<times> sem_set) option" where
  "sem_try_apply cur x ops do_apply = do {
     err \<leftarrow> sem_check x ops;
     if err \<noteq> 0 then Some (err, x)
     else if do_apply then map_option (\<lambda>x'. (0, x')) (sem_apply cur x ops)
     else Some (0, x) }"

fun decode_semops :: "byte list \<Rightarrow> semop list" where
  "decode_semops (a # b # c # d # e # f # rest) =
    \<lparr>sop_num = le_nat [a, b], sop_op = s16 (le_nat [c, d]), sop_flags = of_nat (le_nat [e, f])\<rparr> # decode_semops rest"
| "decode_semops _ = []"

fun semop_loop :: "ipc_env \<Rightarrow> ipc \<Rightarrow> int \<Rightarrow> semop list \<Rightarrow> wakeups \<Rightarrow> (int \<times> ipc) call option" where
  "semop_loop E s semid ops evs =
    (case sem_find_id (sem_sets s) semid of
       None \<Rightarrow> Some (Returns (EINVAL, s))
     | Some x \<Rightarrow> do {
         (err, x') \<leftarrow> sem_try_apply (ie_pid E) x ops True;
         if err = 0 then Some (Returns (0, s\<lparr>sem_sets := sem_put (sem_sets s) semid x'\<rparr>))
         else let nowait = list_ex (\<lambda>op. sop_flags op AND 2048 \<noteq> 0) ops in
           if err \<noteq> EAGAIN \<or> nowait then Some (Returns (err, s))
           else case evs of
               [] \<Rightarrow> Some Waits
             | (err, s') # evs' \<Rightarrow>
                 if err = ETIMEDOUT then Some (Returns (EAGAIN, s'))
                 else if err < 0 then Some (Returns (err, s'))
                 else semop_loop E s' semid ops evs' })"

declare semop_loop.simps [simp del]

definition sys_semtimedop ::
  "ipc_env \<Rightarrow> ipc \<Rightarrow> int \<Rightarrow> nat \<Rightarrow> nat \<Rightarrow> nat \<Rightarrow> wakeups \<Rightarrow> (int \<times> ipc) call option" where
  "sys_semtimedop E s semid sops_addr nsops timeout_addr evs =
    (if nsops = 0 \<or> nsops > 1024 then Some (Returns (EINVAL, s))
     else if \<not> ie_malloc E (6 * nsops) then Some (Returns (ENOMEM, s))
     else case ie_read E sops_addr (ie_garbage E (6 * nsops)) of (err, bytes) \<Rightarrow>
       if err \<noteq> 0 then Some (Returns (EFAULT, s))
       else if timeout_addr \<noteq> 0 \<and> fst (ie_read E timeout_addr (ie_garbage E 16)) \<noteq> 0 then Some (Returns (EFAULT, s))
       else semop_loop E s semid (decode_semops bytes) evs)"

definition sys_semop :: "ipc_env \<Rightarrow> ipc \<Rightarrow> int \<Rightarrow> nat \<Rightarrow> nat \<Rightarrow> wakeups \<Rightarrow> (int \<times> ipc) call option" where
  "sys_semop E s semid sops_addr nsops evs = sys_semtimedop E s semid sops_addr nsops 0 evs"

section \<open>POSIX message queues\<close>

definition put_mq :: "ipc \<Rightarrow> nat \<Rightarrow> mq_queue \<Rightarrow> ipc" where
  "put_mq s a q = s\<lparr>mq_queues := mq_put (mq_queues s) a q\<rparr>"

definition mq_maybe_free_unlocked :: "ipc \<Rightarrow> nat \<Rightarrow> ipc option" where
  "mq_maybe_free_unlocked s a = do {
     q \<leftarrow> mq_get (mq_queues s) a;
     if \<not> mq_unlinked q \<or> mq_open_count q > 0 then Some s
     else Some (s\<lparr>mq_queues := mq_remove (mq_queues s) a\<rparr>) }"

definition mqfd_close :: "ipc \<Rightarrow> nat \<Rightarrow> ipc option" where
  "mqfd_close s f =
    (case mqfds s f of
       None \<Rightarrow> Some s
     | Some a \<Rightarrow> do {
         q \<leftarrow> mq_get (mq_queues s) a;
         s \<leftarrow> mq_maybe_free_unlocked (put_mq s a (q\<lparr>mq_open_count := mq_open_count q - 1\<rparr>)) a;
         Some (s\<lparr>mqfds := (mqfds s)(f := None)\<rparr>) })"

definition mqfd_getflags :: "ipc \<Rightarrow> nat \<Rightarrow> flags32 option" where
  "mqfd_getflags s f =
    (case mqfds s f of
       None \<Rightarrow> Some 0
     | Some a \<Rightarrow> do { q \<leftarrow> mq_get (mq_queues s) a; Some (mq_flags q AND O_NONBLOCK) })"

definition mqfd_setflags :: "ipc \<Rightarrow> nat \<Rightarrow> flags32 \<Rightarrow> ipc option" where
  "mqfd_setflags s f flags =
    (case mqfds s f of
       None \<Rightarrow> Some s
     | Some a \<Rightarrow> do { q \<leftarrow> mq_get (mq_queues s) a; Some (put_mq s a (q\<lparr>mq_flags := flags AND O_NONBLOCK\<rparr>)) })"

text \<open>Waiting for a message and for room: both loops hold a pointer to the queue over the wait.\<close>

fun mq_wait_message :: "ipc \<Rightarrow> nat \<Rightarrow> wakeups \<Rightarrow> ((int + mq_queue) \<times> ipc) call option" where
  "mq_wait_message s a evs = do {
     q \<leftarrow> mq_get (mq_queues s) a;
     if mq_messages q \<noteq> [] then Some (Returns (Inr q, s))
     else if mq_flags q AND O_NONBLOCK \<noteq> 0 then Some (Returns (Inl EAGAIN, s))
     else (case evs of
         [] \<Rightarrow> Some Waits
       | (err, s') # evs' \<Rightarrow> if err < 0 then Some (Returns (Inl err, s')) else mq_wait_message s' a evs') }"

fun mq_wait_room :: "ipc \<Rightarrow> nat \<Rightarrow> wakeups \<Rightarrow> ((int + mq_queue) \<times> ipc) call option" where
  "mq_wait_room s a evs = do {
     q \<leftarrow> mq_get (mq_queues s) a;
     if \<not> mq_curmsgs q \<ge> mq_maxmsg q then Some (Returns (Inr q, s))
     else if mq_flags q AND O_NONBLOCK \<noteq> 0 then Some (Returns (Inl EAGAIN, s))
     else (case evs of
         [] \<Rightarrow> Some Waits
       | (err, s') # evs' \<Rightarrow> if err < 0 then Some (Returns (Inl err, s')) else mq_wait_room s' a evs') }"

declare mq_wait_message.simps [simp del] mq_wait_room.simps [simp del]

definition mq_take :: "ipc \<Rightarrow> mq_queue \<Rightarrow> nat \<Rightarrow> nat \<Rightarrow> (int + mq_message) \<times> ipc" where
  "mq_take s q a bufsize =
    (let msg = hd (mq_messages q) in
     if bufsize < length (mqm_data msg) then (Inl EMSGSIZE, s)
     else (Inr msg, put_mq s a (q\<lparr>mq_messages := tl (mq_messages q), mq_curmsgs := mq_curmsgs q - 1\<rparr>)))"

definition mqfd_read :: "ipc \<Rightarrow> nat \<Rightarrow> nat \<Rightarrow> wakeups \<Rightarrow> ((int + byte list) \<times> ipc) call option" where
  "mqfd_read s f bufsize evs =
    (case mqfds s f of
       None \<Rightarrow> Some (Returns (Inl EBADF, s))
     | Some a \<Rightarrow> do {
         r \<leftarrow> mq_wait_message s a evs;
         case r of
           Waits \<Rightarrow> Some Waits
         | Returns (Inl err, s') \<Rightarrow> Some (Returns (Inl err, s'))
         | Returns (Inr q, s') \<Rightarrow>
             (case mq_take s' q a bufsize of
                (Inl err, s'') \<Rightarrow> Some (Returns (Inl err, s''))
              | (Inr msg, s'') \<Rightarrow> Some (Returns (Inr (mqm_data msg), s''))) })"

definition mqfd_write :: "ipc_env \<Rightarrow> ipc \<Rightarrow> nat \<Rightarrow> byte list \<Rightarrow> wakeups \<Rightarrow> (int \<times> ipc) call option" where
  "mqfd_write E s f buf evs =
    (case mqfds s f of
       None \<Rightarrow> Some (Returns (EBADF, s))
     | Some a \<Rightarrow> do {
         q \<leftarrow> mq_get (mq_queues s) a;
         if s64 (int (length buf)) > mq_msgsize q then Some (Returns (EMSGSIZE, s))
         else if \<not> ie_calloc E then Some (Returns (ENOMEM, s))
         else if \<not> ie_malloc E (if buf \<noteq> [] then length buf else 1) then Some (Returns (ENOMEM, s))
         else do {
           r \<leftarrow> mq_wait_room s a evs;
           case r of
             Waits \<Rightarrow> Some Waits
           | Returns (Inl err, s') \<Rightarrow> Some (Returns (err, s'))
           | Returns (Inr q, s') \<Rightarrow>
               Some (Returns (int (length buf), put_mq s' a
                 (q\<lparr>mq_messages := mq_messages q @ [\<lparr>mqm_prio = 0, mqm_data = buf\<rparr>], mq_curmsgs := mq_curmsgs q + 1\<rparr>))) } })"

text \<open>The name is read into a buffer of 256 bytes; a name that fills it has no terminator, and \<^verbatim>\<open>strlcpy\<close> then reads
  past the buffer.  \<^verbatim>\<open>str\<close> holds the bytes before the terminator.  \<^verbatim>\<open>addr\<close> is the address \<^verbatim>\<open>calloc\<close> gives to a new
  queue and \<^verbatim>\<open>f\<close> the open file \<^verbatim>\<open>adhoc_fd_create\<close> gives, if any.\<close>

definition adhoc_fd_create :: "nat \<Rightarrow> file_state \<Rightarrow> nat \<Rightarrow> file_state" where
  "adhoc_fd_create mnt fs f = mount_retain (fs\<lparr>fds := (fds fs)(f \<mapsto>
     \<lparr>fd_refcount = 1, fd_flags = 0, fd_inode = None, fd_mount = Some mnt, fd_ops_close = Some 0,
      fd_fs_close = None, fd_own_flags = True\<rparr>)\<rparr>) mnt"

definition mq_attr :: "ipc_env \<Rightarrow> nat \<Rightarrow> int \<times> int \<times> int" where
  "mq_attr E attr_addr =
    (let default = le_bytes 8 0 @ le_bytes 8 10 @ le_bytes 8 8192 @ le_bytes 8 0;
         (err, attr) = (if attr_addr \<noteq> 0 then ie_read E attr_addr default else (0, default))
     in (err, s64 (int (le_nat (take 8 (drop 8 attr)))), s64 (int (le_nat (take 8 (drop 16 attr))))))"

definition mq_create :: "ipc_env \<Rightarrow> ipc \<Rightarrow> byte list \<Rightarrow> nat \<Rightarrow> nat \<Rightarrow> ((int + nat) \<times> ipc) option" where
  "mq_create E s name attr_addr addr =
    (let (err, maxmsg, msgsize) = mq_attr E attr_addr;
         s = (if attr_addr \<noteq> 0 then ie_others E s else s)
     in if err \<noteq> 0 then Some (Inl EFAULT, s)
        else if maxmsg \<le> 0 \<or> msgsize \<le> 0 then Some (Inl EINVAL, s)
        else if \<not> ie_calloc E then Some (Inl ENOMEM, s)
        else if length name \<ge> 256 then None
        else Some (Inr addr, s\<lparr>mq_queues := \<lparr>mq_addr = addr, mq_name = name, mq_unlinked = False, mq_open_count = 0,
               mq_flags = 0, mq_maxmsg = maxmsg, mq_msgsize = msgsize, mq_curmsgs = 0, mq_messages = []\<rparr> # mq_queues s\<rparr>))"

definition mq_attach :: "fd_env \<Rightarrow> nat \<Rightarrow> ipc \<times> file_state \<Rightarrow> nat \<Rightarrow> nat \<Rightarrow> flags32 \<Rightarrow> nat option \<Rightarrow> (int \<times> ipc \<times> file_state) option" where
  "mq_attach F mnt sf cur a oflag f = do {
     let (s, fs) = sf;
     q \<leftarrow> mq_get (mq_queues s) a;
     let s = put_mq s a (q\<lparr>mq_open_count := mq_open_count q + 1, mq_flags := oflag AND O_NONBLOCK\<rparr>);
     case f of
       None \<Rightarrow> do {
         q \<leftarrow> mq_get (mq_queues s) a;
         s \<leftarrow> mq_maybe_free_unlocked (put_mq s a (q\<lparr>mq_open_count := mq_open_count q - 1\<rparr>)) a;
         Some (ENOMEM, s, fs) }
     | Some f \<Rightarrow> do {
         let s = s\<lparr>mqfds := (mqfds s)(f \<mapsto> a)\<rparr>;
         (r, fs) \<leftarrow> f_install F (adhoc_fd_create mnt fs f) cur f oflag;
         if fds fs f = None then do { s \<leftarrow> mqfd_close s f; Some (r, s, fs) }
         else Some (r, s, fs) } }"

definition sys_mq_open ::
  "ipc_env \<Rightarrow> fd_env \<Rightarrow> nat \<Rightarrow> ipc \<times> file_state \<Rightarrow> nat \<Rightarrow> byte list option \<Rightarrow> flags32 \<Rightarrow> nat \<Rightarrow> nat \<Rightarrow> nat option \<Rightarrow>
   (int \<times> ipc \<times> file_state) option" where
  "sys_mq_open E F mnt sf cur str oflag attr_addr addr f =
    (case str of
       None \<Rightarrow> Some (EFAULT, sf)
     | Some name \<Rightarrow>
         let (s, fs) = sf in
         if name = [] then Some (EINVAL, sf)
         else case mq_find_name (mq_queues s) name of
           Some q \<Rightarrow>
             if oflag AND O_CREAT \<noteq> 0 \<and> oflag AND O_EXCL \<noteq> 0 then Some (EEXIST, sf)
             else mq_attach F mnt sf cur (mq_addr q) oflag f
         | None \<Rightarrow>
             if oflag AND O_CREAT = 0 then Some (ENOENT, sf)
             else do {
               r \<leftarrow> mq_create E s name attr_addr addr;
               case r of
                 (Inl err, s) \<Rightarrow> Some (err, s, fs)
               | (Inr a, s) \<Rightarrow> mq_attach F mnt (s, fs) cur a oflag f })"

definition sys_mq_unlink :: "ipc \<Rightarrow> byte list option \<Rightarrow> (int \<times> ipc) option" where
  "sys_mq_unlink s str =
    (case str of
       None \<Rightarrow> Some (EFAULT, s)
     | Some name \<Rightarrow>
         (case mq_find_name (mq_queues s) name of
            None \<Rightarrow> Some (ENOENT, s)
          | Some q \<Rightarrow> do {
              s \<leftarrow> mq_maybe_free_unlocked (put_mq s (mq_addr q) (q\<lparr>mq_unlinked := True\<rparr>)) (mq_addr q);
              Some (0, s) }))"

text \<open>The queue of a descriptor: \<^verbatim>\<open>fd == NULL || fd->ops != &mqfd_ops\<close> is \<^verbatim>\<open>Some None\<close>.\<close>

definition mq_desc :: "ipc \<times> file_state \<Rightarrow> nat \<Rightarrow> int \<Rightarrow> nat option option" where
  "mq_desc sf cur mqdes = do {
     f \<leftarrow> f_get (snd sf) cur mqdes;
     Some (case f of None \<Rightarrow> None | Some f \<Rightarrow> mqfds (fst sf) f) }"

fun mq_insert :: "mq_message list \<Rightarrow> mq_message \<Rightarrow> mq_message list" where
  "mq_insert [] msg = [msg]"
| "mq_insert (m # rest) msg = (if mqm_prio m \<ge> mqm_prio msg then m # mq_insert rest msg else msg # m # rest)"

definition mq_send :: "ipc_env \<Rightarrow> ipc \<Rightarrow> nat \<Rightarrow> nat \<Rightarrow> nat \<Rightarrow> nat \<Rightarrow> wakeups \<Rightarrow> (int \<times> ipc) call option" where
  "mq_send E s a msg_ptr msg_len msg_prio evs =
    (if \<not> ie_malloc E (if msg_len \<noteq> 0 then msg_len else 1) then Some (Returns (ENOMEM, s))
     else case ie_read E msg_ptr (ie_garbage E msg_len) of (err, buf) \<Rightarrow>
       if err \<noteq> 0 then Some (Returns (EFAULT, s))
       else if \<not> ie_calloc E then Some (Returns (ENOMEM, s))
       else do {
         q \<leftarrow> mq_get (mq_queues s) a;
         if s64 (int msg_len) > mq_msgsize q then Some (Returns (EMSGSIZE, s))
         else do {
           r \<leftarrow> mq_wait_room s a evs;
           case r of
             Waits \<Rightarrow> Some Waits
           | Returns (Inl err, s') \<Rightarrow> Some (Returns (err, s'))
           | Returns (Inr q, s') \<Rightarrow>
               Some (Returns (0, put_mq s' a
                 (q\<lparr>mq_messages := mq_insert (mq_messages q) \<lparr>mqm_prio = msg_prio, mqm_data = buf\<rparr>,
                    mq_curmsgs := mq_curmsgs q + 1\<rparr>))) } })"

definition sys_mq_timedsend ::
  "ipc_env \<Rightarrow> ipc \<times> file_state \<Rightarrow> nat \<Rightarrow> int \<Rightarrow> nat \<Rightarrow> nat \<Rightarrow> nat \<Rightarrow> wakeups \<Rightarrow> (int \<times> ipc) call option" where
  "sys_mq_timedsend E sf cur mqdes msg_ptr msg_len msg_prio evs = do {
     d \<leftarrow> mq_desc sf cur mqdes;
     case d of
       None \<Rightarrow> Some (Returns (EBADF, fst sf))
     | Some a \<Rightarrow> mq_send E (fst sf) a msg_ptr msg_len msg_prio evs }"

definition mq_receive ::
  "ipc_env \<Rightarrow> ipc \<Rightarrow> nat \<Rightarrow> nat \<Rightarrow> nat \<Rightarrow> nat \<Rightarrow> wakeups \<Rightarrow> (int \<times> ipc \<times> writes) call option" where
  "mq_receive E s a msg_ptr msg_len prio_addr evs = do {
     r \<leftarrow> mq_wait_message s a evs;
     case r of
       Waits \<Rightarrow> Some Waits
     | Returns (Inl err, s') \<Rightarrow> Some (Returns (err, s', []))
     | Returns (Inr q, s') \<Rightarrow>
         (case mq_take s' q a msg_len of
            (Inl err, s'') \<Rightarrow> Some (Returns (err, s'', []))
          | (Inr msg, s'') \<Rightarrow>
              if ie_write E msg_ptr (mqm_data msg) \<noteq> 0 then Some (Returns (EFAULT, s'', []))
              else let prio = le_bytes 4 (mqm_prio msg) in
                if prio_addr \<noteq> 0 \<and> ie_write E prio_addr prio \<noteq> 0
                then Some (Returns (EFAULT, s'', [(msg_ptr, mqm_data msg)]))
                else Some (Returns (int (length (mqm_data msg)), s'',
                  (msg_ptr, mqm_data msg) # (if prio_addr \<noteq> 0 then [(prio_addr, prio)] else [])))) }"

definition sys_mq_timedreceive ::
  "ipc_env \<Rightarrow> ipc \<times> file_state \<Rightarrow> nat \<Rightarrow> int \<Rightarrow> nat \<Rightarrow> nat \<Rightarrow> nat \<Rightarrow> wakeups \<Rightarrow> (int \<times> ipc \<times> writes) call option" where
  "sys_mq_timedreceive E sf cur mqdes msg_ptr msg_len prio_addr evs = do {
     d \<leftarrow> mq_desc sf cur mqdes;
     case d of
       None \<Rightarrow> Some (Returns (EBADF, fst sf, []))
     | Some a \<Rightarrow> mq_receive E (fst sf) a msg_ptr msg_len prio_addr evs }"

definition sys_mq_notify :: "ipc \<times> file_state \<Rightarrow> nat \<Rightarrow> int \<Rightarrow> int option" where
  "sys_mq_notify sf cur mqdes = do {
     d \<leftarrow> mq_desc sf cur mqdes;
     Some (if d = None then EBADF else 0) }"

definition mq_fill_attr :: "mq_queue \<Rightarrow> byte list" where
  "mq_fill_attr q = le_bytes 8 (unat (mq_flags q)) @ le_bytes 8 (u64 (mq_maxmsg q)) @
     le_bytes 8 (u64 (mq_msgsize q)) @ le_bytes 8 (u64 (mq_curmsgs q))"

definition mq_setattr :: "ipc_env \<Rightarrow> ipc \<Rightarrow> nat \<Rightarrow> nat \<Rightarrow> (int \<times> ipc) option" where
  "mq_setattr E s f new_addr =
    (if new_addr \<noteq> 0 then
       (case ie_read E new_addr (ie_garbage E 32) of (err, bytes) \<Rightarrow>
          let s = ie_others E s in
          if err \<noteq> 0 then Some (EFAULT, s)
          else do {
            a \<leftarrow> mqfds s f;
            q \<leftarrow> mq_get (mq_queues s) a;
            Some (0, put_mq s a (q\<lparr>mq_flags := of_nat (le_nat (take 8 bytes)) AND O_NONBLOCK\<rparr>)) })
     else Some (0, s))"

definition sys_mq_getsetattr ::
  "ipc_env \<Rightarrow> ipc \<times> file_state \<Rightarrow> nat \<Rightarrow> int \<Rightarrow> nat \<Rightarrow> nat \<Rightarrow> (int \<times> ipc \<times> writes) option" where
  "sys_mq_getsetattr E sf cur mqdes new_addr old_addr = do {
     f \<leftarrow> f_get (snd sf) cur mqdes;
     case Option.bind f (\<lambda>f. map_option (Pair f) (mqfds (fst sf) f)) of
       None \<Rightarrow> Some (EBADF, fst sf, [])
     | Some (f, a) \<Rightarrow> do {
         q \<leftarrow> mq_get (mq_queues (fst sf)) a;
         (err, s) \<leftarrow> mq_setattr E (fst sf) f new_addr;
         let old = mq_fill_attr q;
         if err \<noteq> 0 then Some (err, s, [])
         else if old_addr \<noteq> 0 \<and> ie_write E old_addr old \<noteq> 0 then Some (EFAULT, s, [])
         else Some (0, s, if old_addr \<noteq> 0 then [(old_addr, old)] else []) } }"

section \<open>Shared memory\<close>

text \<open>\<^verbatim>\<open>host_fd\<close> is the descriptor of the shared memory file or the error of the host; \<^verbatim>\<open>PAGE_ROUND_UP\<close> is the one of
  the memory system.\<close>

definition sys_shmget :: "ipc_env \<Rightarrow> int + nat \<Rightarrow> ipc \<Rightarrow> int \<Rightarrow> nat \<Rightarrow> flags32 \<Rightarrow> (int \<times> ipc) option" where
  "sys_shmget E host_fd s key sz shmflg =
    (case (if key = IPC_PRIVATE then None else shm_find_key (shm_segments s) key) of
       Some seg \<Rightarrow>
         if shmflg AND IPC_CREAT \<noteq> 0 \<and> shmflg AND IPC_EXCL \<noteq> 0 then Some (EEXIST, s)
         else if sz > shm_size seg then Some (EINVAL, s)
         else Some (shm_id seg, s)
     | None \<Rightarrow>
         if key \<noteq> IPC_PRIVATE \<and> shmflg AND IPC_CREAT = 0 then Some (ENOENT, s)
         else if sz = 0 then Some (EINVAL, s)
         else case host_fd of
             Inl err \<Rightarrow> Some (err, s)
           | Inr hfd \<Rightarrow>
               if \<not> ie_calloc E then Some (ENOMEM, s)
               else do {
                 (i, nxt) \<leftarrow> fresh_id (next_shmid s);
                 Some (i, s\<lparr>next_shmid := nxt,
                   shm_segments := \<lparr>shm_id = i, shm_key = key, shm_size = sz, shm_pages = PAGE_ROUND_UP sz, shm_fd = hfd\<rparr>
                     # shm_segments s\<rparr>) })"

text \<open>The structure \<^verbatim>\<open>guest_shmid_ds\<close> as the guest sees it: key, size and number of attachments are the only fields set,
  besides the mode 0666.  With the padding of the C structure the key is at 0, the mode at 20, the size at 48 and the
  count at 88, in 112 bytes.\<close>

definition shmid_ds :: "shm_segment \<Rightarrow> nat \<Rightarrow> byte list" where
  "shmid_ds seg nattch =
    le_bytes 4 (u32 (shm_key seg)) @ replicate 16 0 @ le_bytes 4 438 @ replicate 24 0 @ le_bytes 8 (shm_size seg) @
    replicate 32 0 @ le_bytes 8 nattch @ replicate 16 0"

definition sys_shmctl :: "ipc_env \<Rightarrow> ipc \<Rightarrow> int \<Rightarrow> int \<Rightarrow> nat \<Rightarrow> int \<times> ipc \<times> writes" where
  "sys_shmctl E s shmid cmd buf_addr =
    (case shm_find_id (shm_segments s) shmid of
       None \<Rightarrow> (EINVAL, s, [])
     | Some seg \<Rightarrow>
         if cmd = IPC_RMID then (0, s\<lparr>shm_segments := shm_unlink (shm_segments s) shmid\<rparr>, [])
         else if cmd = IPC_STAT then
           if buf_addr = 0 then (EFAULT, s, [])
           else let nattch = length (filter (\<lambda>at. at_shmid at = shmid) (shm_attaches s));
                    ds = shmid_ds seg nattch;
                    err = ie_write E buf_addr ds
                in (err, s, if err = 0 then [(buf_addr, ds)] else [])
         else if cmd = IPC_SET then (0, s, [])
         else (EINVAL, s, []))"

text \<open>The host mapping of the segment's file is given by its bytes or the error of the host.\<close>

definition shmat_place :: "mem \<Rightarrow> nat \<Rightarrow> nat \<Rightarrow> flags32 \<Rightarrow> (int + nat) \<times> mem" where
  "shmat_place m shmaddr pages shmflg =
    (if shmaddr \<noteq> 0 then
       let shmaddr = (if shmflg AND SHM_RND \<noteq> 0 then PAGE shmaddr * 4096 else shmaddr) in
       if PGOFFSET shmaddr \<noteq> 0 then (Inl EINVAL, m)
       else if shmflg AND SHM_REMAP = 0 \<and> \<not> pt_is_hole m (PAGE shmaddr) pages then (Inl EINVAL, m)
       else (Inr (PAGE shmaddr), m)
     else let (page, m) = pt_find_hole m pages in
       if page = BAD_PAGE then (Inl ENOMEM, m) else (Inr page, m))"

definition sys_shmat ::
  "ipc_env \<Rightarrow> bool \<Rightarrow> (mem_reservation \<Rightarrow> bool) \<Rightarrow> int + (nat \<Rightarrow> byte) \<Rightarrow> nat \<Rightarrow> ipc \<times> mem \<times> vm \<Rightarrow> int \<Rightarrow> nat \<Rightarrow> flags32 \<Rightarrow>
   int \<times> ipc \<times> mem \<times> vm" where
  "sys_shmat E data_ok ralloc host_map cur_mm sv shmid shmaddr shmflg =
    (case sv of (s, m, v) \<Rightarrow>
     case shm_find_id (shm_segments s) shmid of
       None \<Rightarrow> (EINVAL, sv)
     | Some seg \<Rightarrow>
         let pages = shm_pages seg;
             prot = (if shmflg AND SHM_RDONLY = 0 then P_READ OR P_SHARED OR P_WRITE else P_READ OR P_SHARED)
         in case host_map of
           Inl err \<Rightarrow> (err, sv)
         | Inr bytes \<Rightarrow>
             (case shmat_place m shmaddr pages shmflg of
                (Inl err, m) \<Rightarrow> (err, s, m, v)
              | (Inr page, m) \<Rightarrow>
                  (case pt_map data_ok ralloc (m, v) page pages (Inr bytes) 0 prot of (err, m, v) \<Rightarrow>
                     if err < 0 then (err, s, m, v)
                     else if \<not> ie_calloc E then
                       (case pt_unmap_always ralloc (m, v) page pages of (_, m, v) \<Rightarrow> (ENOMEM, s, m, v))
                     else (int (page * 4096),
                       s\<lparr>shm_attaches := \<lparr>at_mm = cur_mm, at_addr = page * 4096, at_pages = pages, at_shmid = shmid\<rparr>
                          # shm_attaches s\<rparr>, m, v))))"

fun attach_find :: "shm_attach list \<Rightarrow> nat \<Rightarrow> nat \<Rightarrow> shm_attach option" where
  "attach_find [] mm addr = None"
| "attach_find (at # rest) mm addr = (if at_mm at = mm \<and> at_addr at = addr then Some at else attach_find rest mm addr)"

fun attach_unlink :: "shm_attach list \<Rightarrow> nat \<Rightarrow> nat \<Rightarrow> shm_attach list" where
  "attach_unlink [] mm addr = []"
| "attach_unlink (at # rest) mm addr = (if at_mm at = mm \<and> at_addr at = addr then rest else at # attach_unlink rest mm addr)"

definition sys_shmdt ::
  "(mem_reservation \<Rightarrow> bool) \<Rightarrow> nat \<Rightarrow> ipc \<times> mem \<times> vm \<Rightarrow> nat \<Rightarrow> int \<times> ipc \<times> mem \<times> vm" where
  "sys_shmdt ralloc cur_mm sv shmaddr =
    (case sv of (s, mv) \<Rightarrow>
     if PGOFFSET shmaddr \<noteq> 0 then (EINVAL, sv)
     else case attach_find (shm_attaches s) cur_mm shmaddr of
       None \<Rightarrow> (EINVAL, sv)
     | Some at \<Rightarrow>
         (case pt_unmap ralloc mv (PAGE shmaddr) (at_pages at) of (err, mv) \<Rightarrow>
            (if err < 0 then EINVAL else 0, s\<lparr>shm_attaches := attach_unlink (shm_attaches s) cur_mm shmaddr\<rparr>, mv)))"

definition sys_ipc :: int where
  "sys_ipc = ENOSYS"

end
