(* ===== verification/Ipc_Laws.thy ===== *)
theory Ipc_Laws
  imports Ipc Mmap_Calls Refcounts "HOL-Library.Multiset"
begin

text \<open>
  Laws of the interprocess communication calls: the tables of identifiers, the invariant of the whole
  state, the order of messages, the semantics of semaphore operations, and the attachment of shared memory.
  The three System V tables share one interface, stated as a locale and interpreted for each of them.
\<close>

section \<open>Tables of identifiers\<close>

definition table_ok :: "('o \<Rightarrow> int) \<Rightarrow> ('o \<Rightarrow> int) \<Rightarrow> 'o list \<Rightarrow> int \<Rightarrow> bool" where
  "table_ok ident key xs nxt \<longleftrightarrow> 1 \<le> nxt \<and> distinct (map ident xs) \<and> (\<forall>x \<in> set xs. 1 \<le> ident x \<and> ident x < nxt) \<and>
    distinct (filter (\<lambda>k. k \<noteq> IPC_PRIVATE) (map key xs))"

locale id_table =
  fixes ident key :: "'o \<Rightarrow> int"
    and find_id find_key :: "'o list \<Rightarrow> int \<Rightarrow> 'o option"
    and unlink :: "'o list \<Rightarrow> int \<Rightarrow> 'o list"
  assumes find_id: "find_id xs i = find (\<lambda>x. ident x = i) xs"
    and find_key: "find_key xs k = find (\<lambda>x. key x = k) xs"
    and unlink_Nil: "unlink [] i = []"
    and unlink_Cons: "unlink (x # xs) i = (if ident x = i then xs else x # unlink xs i)"
begin

lemma find_id_SomeD: "find_id xs i = Some x \<Longrightarrow> x \<in> set xs \<and> ident x = i"
  by (auto simp: find_id find_Some_iff)

lemma table_ok_add:
  assumes "table_ok ident key xs nxt" "fresh_id nxt = Some (i, nxt')" "ident x = i"
    "key x = IPC_PRIVATE \<or> find_key xs (key x) = None"
  shows "table_ok ident key (x # xs) nxt'" "find_id (x # xs) i = Some x" "find_id xs i = None"
proof -
  have i: "i = nxt" "nxt' = nxt + 1" using assms(1,2) by (auto simp: table_ok_def fresh_id_def split: if_splits)
  show "find_id xs i = None" using assms(1) i by (auto simp: find_id find_None_iff table_ok_def)
  show "find_id (x # xs) i = Some x" using assms(3) by (simp add: find_id)
  show "table_ok ident key (x # xs) nxt'" using assms(1,3,4) i by (auto simp: table_ok_def find_key find_None_iff)
qed

lemma set_unlink: "set (unlink xs i) \<subseteq> set xs"
  by (induction xs) (auto simp: unlink_Nil unlink_Cons)

lemma distinct_unlink:
  "distinct (map f xs) \<Longrightarrow> distinct (map f (unlink xs i))"
  "distinct (filter p (map f xs)) \<Longrightarrow> distinct (filter p (map f (unlink xs i)))"
  using set_unlink by (induction xs) (fastforce simp: unlink_Nil unlink_Cons)+

lemma table_ok_unlink: "table_ok ident key xs nxt \<Longrightarrow> table_ok ident key (unlink xs i) nxt"
  using set_unlink [of xs i] by (auto simp: table_ok_def distinct_unlink)

lemma find_unlink:
  assumes "table_ok ident key xs nxt"
  shows "find_id (unlink xs i) j = (if j = i then None else find_id xs j)"
proof -
  have "distinct (map ident xs)" using assms by (simp add: table_ok_def)
  then show ?thesis unfolding find_id by (induction xs) (auto simp: unlink_Nil unlink_Cons find_None_iff image_iff)
qed

end

locale id_table_put = id_table +
  fixes put :: "'a list \<Rightarrow> int \<Rightarrow> 'a \<Rightarrow> 'a list"
  assumes put_Nil: "put [] i y = []"
    and put_Cons: "put (x # xs) i y = (if ident x = i then y # xs else x # put xs i y)"
begin

lemma map_put: "find_id xs i = Some x \<Longrightarrow> f y = f x \<Longrightarrow> map f (put xs i y) = map f xs"
  by (induction xs) (auto simp: find_id put_Nil put_Cons)

lemma set_put: "set (put xs i y) \<subseteq> insert y (set xs)"
  by (induction xs) (auto simp: put_Nil put_Cons)

lemma table_ok_put:
  assumes "table_ok ident key xs nxt" "find_id xs i = Some x" "ident y = ident x" "key y = key x"
  shows "table_ok ident key (put xs i y) nxt"
proof -
  have eq: "map ident (put xs i y) = map ident xs" "map key (put xs i y) = map key xs"
    using map_put [OF assms(2)] assms(3,4) by blast+
  have "(\<forall>z \<in> set (put xs i y). P (ident z)) \<longleftrightarrow> (\<forall>z \<in> set xs. P (ident z))" for P
    using arg_cong [OF eq(1), of set] by (auto simp: image_iff) (metis imageI image_eqI imageE)+
  from this [of "\<lambda>k. 1 \<le> k \<and> k < nxt"] show ?thesis using assms(1) eq by (simp add: table_ok_def)
qed

lemma find_put: "find_id xs i = Some x \<Longrightarrow> ident y = i \<Longrightarrow> find_id (put xs i y) j = (if j = i then Some y else find_id xs j)"
  by (induction xs) (auto simp: find_id put_Nil put_Cons split: if_splits)

end

interpretation msgs: id_table_put msq_id msq_key msg_find_id msg_find_key msg_unlink msg_put
proof (unfold_locales, goal_cases)
  case (1 xs i) show ?case by (induction xs) auto
next
  case (2 xs k) show ?case by (induction xs) auto
qed auto

interpretation sems: id_table_put sem_id sem_key sem_find_id sem_find_key sem_unlink sem_put
proof (unfold_locales, goal_cases)
  case (1 xs i) show ?case by (induction xs) auto
next
  case (2 xs k) show ?case by (induction xs) auto
qed auto

interpretation shms: id_table shm_id shm_key shm_find_id shm_find_key shm_unlink
proof (unfold_locales, goal_cases)
  case (1 xs i) show ?case by (induction xs) auto
next
  case (2 xs k) show ?case by (induction xs) auto
qed auto

section \<open>The invariant\<close>

definition sem_set_ok :: "sem_set \<Rightarrow> bool" where
  "sem_set_ok x \<longleftrightarrow> 0 < nsems x \<and> length (sem_values x) = nat (nsems x) \<and> length (sem_pids x) = nat (nsems x)"

definition mq_descending :: "mq_message list \<Rightarrow> bool" where
  "mq_descending ms \<longleftrightarrow> sorted_wrt (\<lambda>m n. mqm_prio n \<le> mqm_prio m) ms"

definition mq_queue_ok :: "mq_queue \<Rightarrow> bool" where
  "mq_queue_ok q \<longleftrightarrow> 0 < mq_maxmsg q \<and> mq_curmsgs q = int (length (mq_messages q)) \<and> mq_curmsgs q \<le> mq_maxmsg q \<and>
    mq_descending (mq_messages q) \<and> (mq_unlinked q \<longrightarrow> 0 < mq_open_count q)"

text \<open>Every queue counts the open files that point to it, and every such pointer is to a queue that exists.\<close>

definition mq_table_ok :: "mq_queue list \<Rightarrow> (nat \<Rightarrow> nat option) \<Rightarrow> bool" where
  "mq_table_ok qs fs \<longleftrightarrow> finite (dom fs) \<and> distinct (map mq_addr qs) \<and> ran fs \<subseteq> mq_addr ` set qs \<and>
    (\<forall>q \<in> set qs. mq_queue_ok q \<and> mq_open_count q = int (refs_of fs (mq_addr q)))"

definition ipc_ok :: "ipc \<Rightarrow> bool" where
  "ipc_ok s \<longleftrightarrow> table_ok msq_id msq_key (msg_queues s) (next_msgid s) \<and>
    table_ok sem_id sem_key (sem_sets s) (next_semid s) \<and> (\<forall>x \<in> set (sem_sets s). sem_set_ok x) \<and>
    table_ok shm_id shm_key (shm_segments s) (next_shmid s) \<and>
    mq_table_ok (mq_queues s) (mqfds s)"

lemma ipc_ok_parts:
  assumes "ipc_ok s"
  shows "table_ok msq_id msq_key (msg_queues s) (next_msgid s)" "table_ok sem_id sem_key (sem_sets s) (next_semid s)"
    "\<And>x. x \<in> set (sem_sets s) \<Longrightarrow> sem_set_ok x" "table_ok shm_id shm_key (shm_segments s) (next_shmid s)"
    "mq_table_ok (mq_queues s) (mqfds s)"
  using assms by (auto simp: ipc_ok_def)

subsection \<open>System V calls\<close>

lemma msgget_ok: "sys_msgget E s key fl = Some (r, s') \<Longrightarrow> ipc_ok s \<Longrightarrow> ipc_ok s'"
  using msgs.table_ok_add(1) [of "msg_queues s" "next_msgid s"]
  by (fastforce simp: sys_msgget_def ipc_ok_def split: if_splits option.splits Option.bind_splits)

lemma msgctl_ok: "sys_msgctl s i cmd = (r, s') \<Longrightarrow> ipc_ok s \<Longrightarrow> ipc_ok s'"
  by (auto simp: sys_msgctl_def ipc_ok_def msgs.table_ok_unlink split: if_splits)

lemma msg_put_ok:
  assumes "ipc_ok s" "msg_find_id (msg_queues s) i = Some q"
  shows "ipc_ok (s\<lparr>msg_queues := msg_put (msg_queues s) i (q\<lparr>msq_messages := ms\<rparr>)\<rparr>)"
  using assms msgs.table_ok_put [of "msg_queues s" "next_msgid s" i q] by (simp add: ipc_ok_def)

lemma msgsnd_ok: "sys_msgsnd E s i p n = (r, s') \<Longrightarrow> ipc_ok s \<Longrightarrow> ipc_ok s'"
  by (auto simp: sys_msgsnd_def Let_def msg_put_ok split: prod.splits option.splits if_splits)

definition rely :: "wakeups \<Rightarrow> bool" where
  "rely evs \<longleftrightarrow> (\<forall>(err, s) \<in> set evs. ipc_ok s)"

lemma rely_Cons [simp]: "rely ((err, s) # evs) \<longleftrightarrow> ipc_ok s \<and> rely evs"
  by (simp add: rely_def)

lemma msgrcv_ok: "sys_msgrcv E s i p n typ fl evs = Some (Returns (r, s', ws)) \<Longrightarrow> ipc_ok s \<Longrightarrow> rely evs \<Longrightarrow> ipc_ok s'"
proof (induction evs arbitrary: s)
  case Nil
  then show ?case by (subst (asm) sys_msgrcv.simps)
    (auto simp: Let_def msg_put_ok split: option.splits prod.splits if_splits Option.bind_splits)
next
  case (Cons ev evs)
  obtain err t where ev: "ev = (err, t)" by force
  show ?case
    using Cons.prems Cons.IH [of t] unfolding ev by (subst (asm) sys_msgrcv.simps)
      (auto simp: Let_def msg_put_ok split: option.splits prod.splits if_splits Option.bind_splits)
qed

lemma semget_ok: "sys_semget E s key n fl = Some (r, s') \<Longrightarrow> ipc_ok s \<Longrightarrow> ipc_ok s'"
  using sems.table_ok_add(1) [of "sem_sets s" "next_semid s"]
  by (fastforce simp: sys_semget_def ipc_ok_def sem_set_ok_def split: if_splits option.splits Option.bind_splits)

lemma sem_put_ok:
  assumes "ipc_ok s" "sem_find_id (sem_sets s) i = Some x" "sem_set_ok y" "sem_id y = sem_id x" "sem_key y = sem_key x"
  shows "ipc_ok (s\<lparr>sem_sets := sem_put (sem_sets s) i y\<rparr>)"
  using assms sems.table_ok_put [of "sem_sets s" "next_semid s" i x y] sems.set_put [of "sem_sets s" i y] by (auto simp: ipc_ok_def)

lemma sem_found_ok: "ipc_ok s \<Longrightarrow> sem_find_id (sem_sets s) i = Some x \<Longrightarrow> sem_set_ok x"
  using sems.find_id_SomeD by (auto simp: ipc_ok_def)

lemma sem_unlink_ok: "ipc_ok s \<Longrightarrow> ipc_ok (s\<lparr>sem_sets := sem_unlink (sem_sets s) i\<rparr>)"
  using sems.set_unlink by (auto simp: ipc_ok_def sems.table_ok_unlink)

lemma semctl_ok:
  assumes "sys_semctl E s i k cmd arg = Some (r, s', ws)" "ipc_ok s" "ipc_ok (ie_others E s)"
  shows "ipc_ok s'"
proof -
  have setval: "ipc_ok (s\<lparr>sem_sets := sem_put (sem_sets s) i
      (x\<lparr>sem_values := (sem_values x)[nat k := of_nat arg], sem_pids := (sem_pids x)[nat k := ie_pid E]\<rparr>)\<rparr>)"
    if "sem_find_id (sem_sets s) i = Some x" for x
    using sem_found_ok [OF assms(2) that] by (intro sem_put_ok [OF assms(2) that]) (auto simp: sem_set_ok_def)
  have setall: "ipc_ok (ie_others E s\<lparr>sem_sets := sem_put (sem_sets (ie_others E s)) i (x\<lparr>sem_values := vs, sem_pids := ps\<rparr>)\<rparr>)"
    if "sem_find_id (sem_sets (ie_others E s)) i = Some x" "buf_store (sem_values x) 0 us = Some vs"
      "buf_store (sem_pids x) 0 qs = Some ps" for x us vs qs ps
    using sem_found_ok [OF assms(3) that(1)] that(2,3)
    by (intro sem_put_ok [OF assms(3) that(1)]) (auto simp: sem_set_ok_def buf_store_def split: if_splits)
  show ?thesis using assms sem_unlink_ok [OF assms(2)]
    by (auto simp: sys_semctl_def Let_def setval setall split: option.splits if_splits prod.splits Option.bind_splits)
qed

lemma sem_apply_shape:
  "sem_apply cur x ops = Some x' \<Longrightarrow> length (sem_values x') = length (sem_values x) \<and> length (sem_pids x') = length (sem_pids x) \<and>
    sem_id x' = sem_id x \<and> sem_key x' = sem_key x \<and> nsems x' = nsems x"
  by (induction ops arbitrary: x) (auto simp: Let_def split: if_splits)

lemma sem_try_apply_put_ok:
  assumes "ipc_ok s" "sem_find_id (sem_sets s) i = Some x" "sem_try_apply cur x ops True = Some (0, x')"
  shows "ipc_ok (s\<lparr>sem_sets := sem_put (sem_sets s) i x'\<rparr>)"
proof -
  have "sem_apply cur x ops = Some x'" using assms(3) by (auto simp: sem_try_apply_def split: Option.bind_splits if_splits)
  note sem_apply_shape [OF this]
  then show ?thesis using sem_found_ok [OF assms(1,2)] by (intro sem_put_ok [OF assms(1,2)]) (auto simp: sem_set_ok_def)
qed

lemma semop_loop_ok: "semop_loop E s i ops evs = Some (Returns (r, s')) \<Longrightarrow> ipc_ok s \<Longrightarrow> rely evs \<Longrightarrow> ipc_ok s'"
proof (induction evs arbitrary: s)
  case Nil
  then show ?case by (subst (asm) semop_loop.simps)
    (auto simp: Let_def sem_try_apply_put_ok split: option.splits prod.splits if_splits Option.bind_splits)
next
  case (Cons ev evs)
  obtain err t where ev: "ev = (err, t)" by force
  show ?case
    using Cons.prems Cons.IH [of t] unfolding ev by (subst (asm) semop_loop.simps)
      (auto simp: Let_def sem_try_apply_put_ok split: option.splits prod.splits if_splits Option.bind_splits)
qed

lemma semtimedop_ok:
  "sys_semtimedop E s i a n t evs = Some (Returns (r, s')) \<Longrightarrow> ipc_ok s \<Longrightarrow> rely evs \<Longrightarrow> ipc_ok s'"
  by (auto simp: sys_semtimedop_def dest: semop_loop_ok split: if_splits prod.splits)

lemma shmget_ok: "sys_shmget E h s key n fl = Some (r, s') \<Longrightarrow> ipc_ok s \<Longrightarrow> ipc_ok s'"
  using shms.table_ok_add(1) [of "shm_segments s" "next_shmid s"]
  by (fastforce simp: sys_shmget_def ipc_ok_def split: if_splits option.splits sum.splits Option.bind_splits)

lemma shmctl_ok: "sys_shmctl E s i cmd a = (r, s', ws) \<Longrightarrow> ipc_ok s \<Longrightarrow> ipc_ok s'"
  by (auto simp: sys_shmctl_def Let_def ipc_ok_def shms.table_ok_unlink split: if_splits option.splits)

lemma ipc_ok_attaches [simp]: "ipc_ok (s\<lparr>shm_attaches := as\<rparr>) = ipc_ok s"
  by (simp add: ipc_ok_def)

lemma shmat_ok: "sys_shmat E d al h mm (s, m, v) i a fl = (r, s', mv') \<Longrightarrow> ipc_ok s \<Longrightarrow> ipc_ok s'"
  by (auto simp: sys_shmat_def Let_def split: option.splits sum.splits prod.splits if_splits)

lemma shmdt_ok: "sys_shmdt al mm (s, mv) a = (r, s', mv') \<Longrightarrow> ipc_ok s \<Longrightarrow> ipc_ok s'"
  by (auto simp: sys_shmdt_def split: option.splits prod.splits if_splits)

subsection \<open>POSIX queues\<close>

lemma mq_get_SomeD: "mq_get qs a = Some q \<Longrightarrow> q \<in> set qs \<and> mq_addr q = a"
  by (induction qs) (auto split: if_splits)

lemma mq_get_iff: "(mq_get qs a \<noteq> None) \<longleftrightarrow> a \<in> mq_addr ` set qs"
  by (induction qs) auto

lemma mq_get_in: "distinct (map mq_addr qs) \<Longrightarrow> q \<in> set qs \<Longrightarrow> mq_get qs (mq_addr q) = Some q"
  by (induction qs) (auto simp: image_iff)

lemma mq_addrs_put: "mq_addr y = a \<Longrightarrow> map mq_addr (mq_put qs a y) = map mq_addr qs"
  by (induction qs) auto

lemma set_mq_put:
  "distinct (map mq_addr qs) \<Longrightarrow> mq_get qs a = Some q \<Longrightarrow> set (mq_put qs a y) = insert y {x \<in> set qs. mq_addr x \<noteq> a}"
  by (induction qs) (auto simp: image_iff split: if_splits)

lemma mq_get_put: "mq_addr y = a \<Longrightarrow> mq_get (mq_put qs a y) b = (if b = a \<and> mq_get qs a \<noteq> None then Some y else mq_get qs b)"
  by (induction qs) auto

lemma mq_put_put: "mq_addr x = a \<Longrightarrow> mq_put (mq_put qs a x) a y = mq_put qs a y"
  by (induction qs) auto

lemma set_mq_remove: "distinct (map mq_addr qs) \<Longrightarrow> set (mq_remove qs a) = {x \<in> set qs. mq_addr x \<noteq> a}"
  by (induction qs) (auto simp: image_iff)

lemma distinct_mq_remove: "distinct (map mq_addr qs) \<Longrightarrow> distinct (map mq_addr (mq_remove qs a))"
  by (induction qs) (auto simp: set_mq_remove)

lemma mq_remove_put [simp]: "mq_addr y = a \<Longrightarrow> mq_remove (mq_put qs a y) a = mq_remove qs a"
  by (induction qs) auto

lemma mq_table_remove:
  assumes "finite (dom fs)" "distinct (map mq_addr qs)" "ran fs \<subseteq> mq_addr ` set qs" "refs_of fs a = 0"
    "\<And>q. q \<in> set qs \<Longrightarrow> mq_addr q \<noteq> a \<Longrightarrow> mq_queue_ok q \<and> mq_open_count q = int (refs_of fs (mq_addr q))"
  shows "mq_table_ok (mq_remove qs a) fs"
proof -
  have "fs i \<noteq> Some a" for i using refs_of_pos [OF assms(1), of i a] assms(4) by auto
  then have "b \<in> mq_addr ` set (mq_remove qs a)" if "b \<in> ran fs" for b
    using assms(3) that set_mq_remove [OF assms(2), of a] by (fastforce simp: ran_def)
  then show ?thesis using assms by (auto simp: mq_table_ok_def set_mq_remove distinct_mq_remove)
qed

lemma mq_table_put:
  assumes "mq_table_ok qs fs" "mq_get qs a = Some q" "mq_addr y = a" "mq_queue_ok y" "mq_open_count y = mq_open_count q"
  shows "mq_table_ok (mq_put qs a y) fs"
proof -
  have d: "distinct (map mq_addr qs)" using assms(1) by (simp add: mq_table_ok_def)
  note q = mq_get_SomeD [OF assms(2)]
  have "mq_addr ` set (mq_put qs a y) = mq_addr ` set qs" using mq_addrs_put [OF assms(3), of qs] by (metis set_map)
  then show ?thesis using assms q set_mq_put [OF d assms(2), of y] mq_addrs_put [OF assms(3), of qs]
    by (auto simp: mq_table_ok_def)
qed

lemma mq_found_ok: "mq_table_ok qs fs \<Longrightarrow> mq_get qs a = Some q \<Longrightarrow> mq_queue_ok q \<and> mq_open_count q = int (refs_of fs a)"
  using mq_get_SomeD by (fastforce simp: mq_table_ok_def)

lemma put_mq_ok:
  assumes "ipc_ok s" "mq_get (mq_queues s) a = Some q" "mq_addr y = a" "mq_queue_ok y" "mq_open_count y = mq_open_count q"
  shows "ipc_ok (put_mq s a y)"
  using assms mq_table_put [of "mq_queues s" "mqfds s" a q y] by (simp add: ipc_ok_def put_mq_def)

lemma ipc_mq_found: "ipc_ok s \<Longrightarrow> mq_get (mq_queues s) a = Some q \<Longrightarrow> mq_queue_ok q \<and> mq_addr q = a"
  using mq_found_ok mq_get_SomeD by (fastforce simp: ipc_ok_def)

lemma mqfds_alive: "ipc_ok s \<Longrightarrow> mqfds s f = Some a \<Longrightarrow> mq_get (mq_queues s) a \<noteq> None"
  unfolding mq_get_iff by (auto simp: ipc_ok_def mq_table_ok_def ran_def)

lemma mq_insert_mset: "mset (mq_insert ms m) = add_mset m (mset ms)"
  by (induction ms) auto

lemma mq_insert_length [simp]: "length (mq_insert ms m) = Suc (length ms)"
  by (induction ms) auto

lemma mq_insert_set: "set (mq_insert ms m) = insert m (set ms)"
  using arg_cong [OF mq_insert_mset, of set_mset] by simp

lemma mq_insert_descending: "mq_descending ms \<Longrightarrow> mq_descending (mq_insert ms m)"
  by (induction ms) (fastforce simp: mq_descending_def mq_insert_set)+

lemma mq_append_zero_descending: "mq_descending ms \<Longrightarrow> mqm_prio m = 0 \<Longrightarrow> mq_descending (ms @ [m])"
  by (simp add: mq_descending_def sorted_wrt_append)

definition rely_mq :: "nat \<Rightarrow> wakeups \<Rightarrow> bool" where
  "rely_mq a evs \<longleftrightarrow> rely evs \<and> (\<forall>(err, s) \<in> set evs. mq_get (mq_queues s) a \<noteq> None)"

lemma rely_mq_Cons [simp]: "rely_mq a ((err, s) # evs) \<longleftrightarrow> ipc_ok s \<and> mq_get (mq_queues s) a \<noteq> None \<and> rely_mq a evs"
  by (auto simp: rely_mq_def)

fun returned :: "('a \<Rightarrow> ipc \<Rightarrow> bool) \<Rightarrow> ('a \<times> ipc) call \<Rightarrow> bool" where
  "returned P Waits = True"
| "returned P (Returns (x, s)) = P x s"

lemma mq_wait_message_law:
  "ipc_ok s \<Longrightarrow> mq_get (mq_queues s) a \<noteq> None \<Longrightarrow> rely_mq a evs \<Longrightarrow>
   gives (mq_wait_message s a evs) (returned (\<lambda>x t. ipc_ok t \<and>
     (\<forall>q. x = Inr q \<longrightarrow> mq_get (mq_queues t) a = Some q \<and> mq_messages q \<noteq> [])))"
proof (induction evs arbitrary: s)
  case Nil
  then show ?case by (subst mq_wait_message.simps) (auto simp: gives_def)
next
  case (Cons ev evs)
  obtain err t where ev: "ev = (err, t)" by force
  show ?case using Cons unfolding ev by (subst mq_wait_message.simps) auto
qed

lemma mq_wait_room_law:
  "ipc_ok s \<Longrightarrow> mq_get (mq_queues s) a \<noteq> None \<Longrightarrow> rely_mq a evs \<Longrightarrow>
   gives (mq_wait_room s a evs) (returned (\<lambda>x t. ipc_ok t \<and>
     (\<forall>q. x = Inr q \<longrightarrow> mq_get (mq_queues t) a = Some q \<and> mq_curmsgs q < mq_maxmsg q)))"
proof (induction evs arbitrary: s)
  case Nil
  then show ?case by (subst mq_wait_room.simps) (auto simp: gives_def)
next
  case (Cons ev evs)
  obtain err t where ev: "ev = (err, t)" by force
  show ?case using Cons unfolding ev by (subst mq_wait_room.simps) auto
qed

lemma mq_descending_tl: "mq_descending ms \<Longrightarrow> mq_descending (tl ms)"
  by (cases ms) (auto simp: mq_descending_def)

lemma mq_take_ok:
  assumes "ipc_ok s" "mq_get (mq_queues s) a = Some q" "mq_messages q \<noteq> []" "mq_take s q a n = (r, s')"
  shows "ipc_ok s'"
proof -
  note q = ipc_mq_found [OF assms(1,2)]
  have "mq_queue_ok (q\<lparr>mq_messages := tl (mq_messages q), mq_curmsgs := mq_curmsgs q - 1\<rparr>)"
    using q assms(3) by (cases "mq_messages q") (auto simp: mq_queue_ok_def mq_descending_def)
  then show ?thesis using assms(1,4) put_mq_ok [OF assms(1,2)] q by (auto simp: mq_take_def Let_def split: if_splits)
qed

lemma mq_add_ok:
  assumes "ipc_ok s" "mq_get (mq_queues s) a = Some q" "mq_curmsgs q < mq_maxmsg q" "mq_descending ms"
    "length ms = Suc (length (mq_messages q))"
  shows "ipc_ok (put_mq s a (q\<lparr>mq_messages := ms, mq_curmsgs := mq_curmsgs q + 1\<rparr>))"
  using ipc_mq_found [OF assms(1,2)] assms(3-5) by (intro put_mq_ok [OF assms(1,2)]) (auto simp: mq_queue_ok_def)

lemma returned_cases:
  assumes "gives m (returned (\<lambda>x t. ipc_ok t \<and> (\<forall>q. x = Inr q \<longrightarrow> P q t)))"
  obtains "m = Some Waits"
  | err t where "m = Some (Returns (Inl err, t))" "ipc_ok t"
  | q t where "m = Some (Returns (Inr q, t))" "ipc_ok t" "P q t"
proof -
  obtain r where r: "m = Some r" "returned (\<lambda>x t. ipc_ok t \<and> (\<forall>q. x = Inr q \<longrightarrow> P q t)) r" using assms by (auto simp: gives_def)
  show thesis
  proof (cases r)
    case (Returns y)
    obtain x t where y: "y = (x, t)" by force
    show ?thesis using that(2,3) r Returns y by (cases x) auto
  qed (use that(1) r in simp)
qed

lemmas mq_message_cases = returned_cases [OF mq_wait_message_law]
lemmas mq_room_cases = returned_cases [OF mq_wait_room_law]

lemma mqfd_read_law:
  assumes "ipc_ok s" "\<And>a. mqfds s f = Some a \<Longrightarrow> rely_mq a evs"
  shows "gives (mqfd_read s f n evs) (returned (\<lambda>x t. ipc_ok t))"
proof (cases "mqfds s f")
  case (Some a)
  from mq_message_cases [OF assms(1) mqfds_alive [OF assms(1) Some] assms(2) [OF Some]] show ?thesis
  proof cases
    case (3 q t)
    obtain r t' where r: "mq_take t q a n = (r, t')" by force
    then have "ipc_ok t'" using mq_take_ok [OF 3(2) _ _ r] 3(3) by simp
    then show ?thesis using 3(1) Some r by (auto simp: mqfd_read_def split: sum.splits)
  qed (use Some in \<open>auto simp: mqfd_read_def\<close>)
qed (use assms in \<open>simp add: mqfd_read_def\<close>)

lemma mqfd_write_law:
  assumes "ipc_ok s" "\<And>a. mqfds s f = Some a \<Longrightarrow> rely_mq a evs"
  shows "gives (mqfd_write E s f buf evs) (returned (\<lambda>x t. ipc_ok t))"
proof (cases "mqfds s f")
  case (Some a)
  note alive = mqfds_alive [OF assms(1) Some]
  from mq_room_cases [OF assms(1) alive assms(2) [OF Some]] show ?thesis
  proof cases
    case (3 p t)
    have p: "mq_get (mq_queues t) a = Some p" "mq_curmsgs p < mq_maxmsg p" using 3(3) by simp_all
    have "mq_descending (mq_messages p @ [\<lparr>mqm_prio = 0, mqm_data = buf\<rparr>])"
      using ipc_mq_found [OF 3(2) p(1)] by (intro mq_append_zero_descending) (auto simp: mq_queue_ok_def)
    from mq_add_ok [OF 3(2) p this] show ?thesis using alive 3(1) Some assms(1) by (auto simp: mqfd_write_def)
  qed (use alive Some assms(1) in \<open>auto simp: mqfd_write_def\<close>)
qed (use assms in \<open>simp add: mqfd_write_def\<close>)

lemma mq_send_law:
  assumes "ipc_ok s" "mq_get (mq_queues s) a \<noteq> None" "rely_mq a evs"
  shows "gives (mq_send E s a p n prio evs) (returned (\<lambda>x t. ipc_ok t))"
  using mq_room_cases [OF assms]
proof cases
  case (3 q t)
  have q: "mq_get (mq_queues t) a = Some q" "mq_curmsgs q < mq_maxmsg q" using 3(3) by simp_all
  have "mq_descending (mq_insert (mq_messages q) \<lparr>mqm_prio = prio, mqm_data = buf\<rparr>)" for buf
    using ipc_mq_found [OF 3(2) q(1)] by (intro mq_insert_descending) (auto simp: mq_queue_ok_def)
  from mq_add_ok [OF 3(2) q this] show ?thesis using assms 3(1) by (auto simp: mq_send_def split: prod.splits)
qed (use assms in \<open>auto simp: mq_send_def split: prod.splits\<close>)

fun returned3 :: "('a \<times> ipc \<times> writes) call \<Rightarrow> bool" where
  "returned3 Waits = True"
| "returned3 (Returns (x, s, ws)) = ipc_ok s"

lemma mq_receive_law:
  assumes "ipc_ok s" "mq_get (mq_queues s) a \<noteq> None" "rely_mq a evs"
  shows "gives (mq_receive E s a p n pa evs) returned3"
  using mq_message_cases [OF assms]
proof cases
  case (3 q t)
  obtain r t' where r: "mq_take t q a n = (r, t')" by force
  then have "ipc_ok t'" using mq_take_ok [OF 3(2) _ _ r] 3(3) by simp
  then show ?thesis using 3(1) r by (auto simp: mq_receive_def Let_def split: sum.splits)
qed (auto simp: mq_receive_def)

lemma mq_table_flags:
  assumes "ipc_ok s" "mq_get (mq_queues s) a = Some q"
  shows "ipc_ok (put_mq s a (q\<lparr>mq_flags := fl\<rparr>))"
  using ipc_mq_found [OF assms] by (intro put_mq_ok [OF assms]) (auto simp: mq_queue_ok_def)

lemma mqfd_setflags_law: "ipc_ok s \<Longrightarrow> gives (mqfd_setflags s f fl) ipc_ok"
  using mqfds_alive [of s f] mq_table_flags by (auto simp: mqfd_setflags_def split: option.splits)

text \<open>Closing a descriptor drops its reference; the queue goes away with the last one if its name is gone.\<close>

lemma mqfd_close_law:
  assumes "ipc_ok s"
  shows "gives (mqfd_close s f) ipc_ok"
proof (cases "mqfds s f")
  case (Some a)
  let ?qs = "mq_queues s" and ?fs = "(mqfds s)(f := None)"
  obtain q where q: "mq_get ?qs a = Some q" using mqfds_alive [OF assms Some] by auto
  have T: "mq_table_ok ?qs (mqfds s)" using assms by (rule ipc_ok_parts)
  have d: "distinct (map mq_addr ?qs)" "finite (dom (mqfds s))" "ran (mqfds s) \<subseteq> mq_addr ` set ?qs"
    using T by (simp_all add: mq_table_ok_def)
  note aq = mq_get_SomeD [OF q] mq_found_ok [OF T q]
  have pos: "0 < refs_of (mqfds s) a" using refs_of_pos [OF d(2) Some] .
  have cnt: "refs_of ?fs b = refs_of (mqfds s) b - of_bool (b = a)" for b using refs_of_clear [OF d(2) Some] .
  let ?q = "q\<lparr>mq_open_count := mq_open_count q - 1\<rparr>"
  have g: "mq_get (mq_put ?qs a ?q) a = Some ?q" using q aq(1) by (simp add: mq_get_put)
  have ran: "ran ?fs \<subseteq> ran (mqfds s)" by (auto simp: ran_def)
  have rest: "x \<in> set ?qs \<Longrightarrow> mq_addr x \<noteq> a \<Longrightarrow> mq_queue_ok x \<and> mq_open_count x = int (refs_of ?fs (mq_addr x))" for x
    using T cnt by (simp add: mq_table_ok_def)
  have close: "mqfd_close s f = Some (s\<lparr>mqfds := ?fs, mq_queues :=
      (if \<not> mq_unlinked q \<or> mq_open_count q > 1 then mq_put ?qs a ?q else mq_remove (mq_put ?qs a ?q) a)\<rparr>)"
    using Some q g by (simp add: mqfd_close_def mq_maybe_free_unlocked_def put_mq_def)
  have "mq_table_ok (if \<not> mq_unlinked q \<or> mq_open_count q > 1 then mq_put ?qs a ?q else mq_remove (mq_put ?qs a ?q) a) ?fs"
  proof (cases "\<not> mq_unlinked q \<or> mq_open_count q > 1")
    case True
    have "mq_queue_ok ?q" using aq(2) True by (auto simp: mq_queue_ok_def)
    then show ?thesis using True d aq rest cnt [of a] pos ran set_mq_put [OF d(1) q, of ?q] mq_addrs_put [of ?q a ?qs]
      by (auto simp: mq_table_ok_def image_iff)
  next
    case False
    then have "refs_of ?fs a = 0" using aq(2) cnt [of a] pos by auto
    moreover have "finite (dom ?fs)" "ran ?fs \<subseteq> mq_addr ` set ?qs" using d(2,3) ran by auto
    ultimately have "mq_table_ok (mq_remove ?qs a) ?fs" using d(1) rest by (intro mq_table_remove) auto
    then show ?thesis using False aq(1) by simp
  qed
  then show ?thesis using close assms by (simp add: ipc_ok_def)
qed (use assms in \<open>simp add: mqfd_close_def\<close>)

lemma mq_table_open:
  assumes "mq_table_ok qs fs" "mq_get qs a = Some q" "fs f = None"
  shows "mq_table_ok (mq_put qs a (q\<lparr>mq_open_count := mq_open_count q + 1, mq_flags := fl\<rparr>)) (fs(f \<mapsto> a))"
proof -
  let ?q = "q\<lparr>mq_open_count := mq_open_count q + 1, mq_flags := fl\<rparr>"
  have d: "distinct (map mq_addr qs)" "finite (dom fs)" "ran fs \<subseteq> mq_addr ` set qs" using assms(1) by (simp_all add: mq_table_ok_def)
  note aq = mq_get_SomeD [OF assms(2)] mq_found_ok [OF assms(1,2)]
  have cnt: "refs_of (fs(f \<mapsto> a)) b = refs_of fs b + of_bool (b = a)" for b using refs_of_set [OF d(2) assms(3)] .
  have "map mq_addr (mq_put qs a ?q) = map mq_addr qs" using aq(1) by (intro mq_addrs_put) simp
  then have "mq_addr ` set (mq_put qs a ?q) = mq_addr ` set qs" by (metis set_map)
  moreover have "ran (fs(f \<mapsto> a)) \<subseteq> insert a (ran fs)" by (auto simp: ran_def)
  moreover have "mq_queue_ok ?q" using aq(2) by (auto simp: mq_queue_ok_def)
  ultimately show ?thesis
    using assms(1) d aq cnt set_mq_put [OF d(1) assms(2), of ?q] mq_addrs_put [of ?q a qs] by (auto simp: mq_table_ok_def)
qed

lemma mq_attach_ok:
  assumes "mq_attach F mnt (s, fs) cur a oflag f = Some (r, s', fs')" "ipc_ok s" "\<And>i. f = Some i \<Longrightarrow> mqfds s i = None"
  shows "ipc_ok s'"
proof -
  obtain q where q: "mq_get (mq_queues s) a = Some q" using assms(1) by (auto simp: mq_attach_def split: Option.bind_splits)
  note aq = ipc_mq_found [OF assms(2) q]
  let ?q = "q\<lparr>mq_open_count := mq_open_count q + 1, mq_flags := oflag AND O_NONBLOCK\<rparr>"
  let ?s = "put_mq s a ?q"
  have g: "mq_get (mq_queues ?s) a = Some ?q" using q aq by (simp add: put_mq_def mq_get_put)
  show ?thesis
  proof (cases f)
    case None
    have "put_mq ?s a (?q\<lparr>mq_open_count := mq_open_count q\<rparr>) = put_mq s a (q\<lparr>mq_flags := oflag AND O_NONBLOCK\<rparr>)"
      using aq by (simp add: put_mq_def mq_put_put)
    then have "mq_maybe_free_unlocked (put_mq s a (q\<lparr>mq_flags := oflag AND O_NONBLOCK\<rparr>)) a = Some s'"
      using assms(1) None q g by (auto simp: mq_attach_def split: Option.bind_splits)
    moreover have "mq_get (mq_queues (put_mq s a (q\<lparr>mq_flags := oflag AND O_NONBLOCK\<rparr>))) a = Some (q\<lparr>mq_flags := oflag AND O_NONBLOCK\<rparr>)"
      using q aq by (simp add: put_mq_def mq_get_put)
    ultimately show ?thesis using mq_table_flags [OF assms(2) q] aq
      by (auto simp: mq_maybe_free_unlocked_def mq_queue_ok_def split: if_splits)
  next
    case (Some i)
    let ?t = "?s\<lparr>mqfds := (mqfds ?s)(i \<mapsto> a)\<rparr>"
    have ok: "ipc_ok ?t" using assms(2) mq_table_open [OF ipc_ok_parts(5) [OF assms(2)] q assms(3) [OF Some]]
      by (simp add: ipc_ok_def put_mq_def)
    show ?thesis using assms(1) Some q ok mqfd_close_law [OF ok, of i]
      by (auto simp: mq_attach_def Let_def gives_def split: Option.bind_splits prod.splits if_splits)
  qed
qed

lemma mq_new_ok:
  assumes "ipc_ok t" "addr \<notin> mq_addr ` set (mq_queues t)" "0 < x"
  shows "ipc_ok (t\<lparr>mq_queues := \<lparr>mq_addr = addr, mq_name = name, mq_unlinked = False, mq_open_count = 0,
      mq_flags = 0, mq_maxmsg = x, mq_msgsize = y, mq_curmsgs = 0, mq_messages = []\<rparr> # mq_queues t\<rparr>)"
proof -
  have T: "mq_table_ok (mq_queues t) (mqfds t)" using assms(1) by (rule ipc_ok_parts)
  then have "addr \<notin> ran (mqfds t)" using assms(2) by (auto simp: mq_table_ok_def)
  then have "refs_of (mqfds t) addr = 0" by (simp add: refs_of_def ran_def)
  then show ?thesis using assms T by (auto simp: ipc_ok_def mq_table_ok_def mq_queue_ok_def mq_descending_def)
qed

lemma mq_create_ok:
  assumes "mq_create E s name attr_addr addr = Some (r, s')" "ipc_ok s" "ipc_ok (ie_others E s)"
    "addr \<notin> mq_addr ` set (mq_queues s)" "addr \<notin> mq_addr ` set (mq_queues (ie_others E s))"
  shows "ipc_ok s' \<and> mqfds s' = mqfds (if attr_addr \<noteq> 0 then ie_others E s else s)"
proof -
  define u where "u = (if attr_addr \<noteq> 0 then ie_others E s else s)"
  have u: "ipc_ok u" "addr \<notin> mq_addr ` set (mq_queues u)" using assms(2-5) by (simp_all add: u_def)
  obtain err x y where a: "mq_attr E attr_addr = (err, x, y)" by (cases "mq_attr E attr_addr") auto
  have "ipc_ok s' \<and> mqfds s' = mqfds u"
    using assms(1) u mq_new_ok [OF u] unfolding mq_create_def a u_def [symmetric]
    by (auto simp: Let_def split: if_split_asm)
  then show ?thesis by (simp add: u_def)
qed

lemma mq_open_ok:
  assumes "sys_mq_open E F mnt (s, fs) cur str oflag attr_addr addr f = Some (r, s', fs')" "ipc_ok s" "ipc_ok (ie_others E s)"
    "addr \<notin> mq_addr ` set (mq_queues s)" "addr \<notin> mq_addr ` set (mq_queues (ie_others E s))"
    "\<And>i. f = Some i \<Longrightarrow> mqfds s i = None \<and> mqfds (ie_others E s) i = None"
  shows "ipc_ok s'"
proof -
  have att: "ipc_ok s'" if "mq_attach F mnt (s, fs) cur a oflag f = Some (r, s', fs')" for a
    by (rule mq_attach_ok [OF that assms(2)]) (use assms(6) in simp)
  have new: "ipc_ok s'" if c: "mq_create E s name attr_addr addr = Some (x, t)"
    and k: "(case x of Inl err \<Rightarrow> Some (err, t, fs) | Inr a \<Rightarrow> mq_attach F mnt (t, fs) cur a oflag f) = Some (r, s', fs')" for name x t
  proof (cases x)
    case (Inr a)
    note ok = mq_create_ok [OF c assms(2-5)]
    show ?thesis by (rule mq_attach_ok [of F mnt t fs cur a oflag f r s' fs'])
      (use k Inr ok assms(6) in \<open>auto split: if_splits\<close>)
  qed (use k mq_create_ok [OF c assms(2-5)] in auto)
  show ?thesis
  proof (cases str)
    case (Some name)
    show ?thesis
    proof (cases "mq_find_name (mq_queues s) name")
      case None
      then show ?thesis using assms(1,2) Some new [of name]
        by (auto simp: sys_mq_open_def split: if_splits Option.bind_splits prod.splits sum.splits)
    qed (use assms(1,2) Some att in \<open>auto simp: sys_mq_open_def split: if_splits\<close>)
  qed (use assms(1,2) in \<open>auto simp: sys_mq_open_def\<close>)
qed

lemma mq_find_name_SomeD: "mq_find_name qs n = Some q \<Longrightarrow> q \<in> set qs \<and> \<not> mq_unlinked q \<and> mq_name q = n"
  by (induction qs) (auto split: if_splits)

lemma mq_unlink_law:
  assumes "ipc_ok s"
  shows "gives (sys_mq_unlink s str) (\<lambda>(r, s'). ipc_ok s')"
proof -
  have T: "mq_table_ok (mq_queues s) (mqfds s)" using assms by (rule ipc_ok_parts)
  have "gives (mq_maybe_free_unlocked (put_mq s (mq_addr q) (q\<lparr>mq_unlinked := True\<rparr>)) (mq_addr q)) ipc_ok"
    if "mq_find_name (mq_queues s) n = Some q" for n q
  proof -
    have d: "distinct (map mq_addr (mq_queues s))" using T by (simp add: mq_table_ok_def)
    have g: "mq_get (mq_queues s) (mq_addr q) = Some q" using mq_get_in [OF d] mq_find_name_SomeD [OF that] by simp
    let ?q = "q\<lparr>mq_unlinked := True\<rparr>" and ?a = "mq_addr q"
    have g': "mq_get (mq_put (mq_queues s) ?a ?q) ?a = Some ?q" using g by (simp add: mq_get_put)
    note aq = mq_found_ok [OF T g]
    show ?thesis
    proof (cases "0 < mq_open_count q")
      case True
      have "ipc_ok (put_mq s ?a ?q)" using aq True by (intro put_mq_ok [OF assms g]) (auto simp: mq_queue_ok_def)
      then show ?thesis using g' True by (simp add: mq_maybe_free_unlocked_def put_mq_def)
    next
      case False
      then have "refs_of (mqfds s) ?a = 0" using aq by simp
      then have "mq_table_ok (mq_remove (mq_queues s) ?a) (mqfds s)"
        using T by (intro mq_table_remove) (auto simp: mq_table_ok_def)
      then show ?thesis using g' False assms by (simp add: mq_maybe_free_unlocked_def put_mq_def ipc_ok_def)
    qed
  qed
  then show ?thesis using assms by (auto simp: sys_mq_unlink_def intro!: gives_bind [where Q = ipc_ok] split: option.splits)
qed

lemma mq_setattr_ok: "mq_setattr E s f na = Some (r, s') \<Longrightarrow> ipc_ok s \<Longrightarrow> ipc_ok (ie_others E s) \<Longrightarrow> ipc_ok s'"
  by (auto simp: mq_setattr_def Let_def mq_table_flags split: if_splits prod.splits Option.bind_splits)

lemma mq_getsetattr_ok:
  "sys_mq_getsetattr E (s, fs) cur d na oa = Some (r, s', ws) \<Longrightarrow> ipc_ok s \<Longrightarrow> ipc_ok (ie_others E s) \<Longrightarrow> ipc_ok s'"
  by (auto simp: sys_mq_getsetattr_def Let_def split: option.splits Option.bind_splits if_splits; rule mq_setattr_ok; assumption)

section \<open>All calls\<close>

text \<open>One completed call.  The states other tasks leave during the call satisfy the invariant, and a queue a call waits
  on still exists when it wakes up (its descriptor is not closed meanwhile).  Fresh addresses are not in use.\<close>

inductive ipc_call :: "ipc \<Rightarrow> ipc \<Rightarrow> bool" where
  msgget: "sys_msgget E s k fl = Some (r, s') \<Longrightarrow> ipc_call s s'"
| msgctl: "sys_msgctl s i cmd = (r, s') \<Longrightarrow> ipc_call s s'"
| msgsnd: "sys_msgsnd E s i p n = (r, s') \<Longrightarrow> ipc_call s s'"
| msgrcv: "sys_msgrcv E s i p n typ fl evs = Some (Returns (r, s', ws)) \<Longrightarrow> rely evs \<Longrightarrow> ipc_call s s'"
| semget: "sys_semget E s k n fl = Some (r, s') \<Longrightarrow> ipc_call s s'"
| semctl: "sys_semctl E s i j cmd arg = Some (r, s', ws) \<Longrightarrow> ipc_ok (ie_others E s) \<Longrightarrow> ipc_call s s'"
| semtimedop: "sys_semtimedop E s i p n t evs = Some (Returns (r, s')) \<Longrightarrow> rely evs \<Longrightarrow> ipc_call s s'"
| semop: "sys_semop E s i p n evs = Some (Returns (r, s')) \<Longrightarrow> rely evs \<Longrightarrow> ipc_call s s'"
| shmget: "sys_shmget E h s k n fl = Some (r, s') \<Longrightarrow> ipc_call s s'"
| shmctl: "sys_shmctl E s i cmd a = (r, s', ws) \<Longrightarrow> ipc_call s s'"
| shmat: "sys_shmat E d al h mm (s, m, v) i a fl = (r, s', mv') \<Longrightarrow> ipc_call s s'"
| shmdt: "sys_shmdt al mm (s, mv) a = (r, s', mv') \<Longrightarrow> ipc_call s s'"
| mq_open: "sys_mq_open E F mnt (s, fs) cur str oflag aa addr f = Some (r, s', fs') \<Longrightarrow> ipc_ok (ie_others E s) \<Longrightarrow>
    addr \<notin> mq_addr ` set (mq_queues s) \<Longrightarrow> addr \<notin> mq_addr ` set (mq_queues (ie_others E s)) \<Longrightarrow>
    (\<forall>i. f = Some i \<longrightarrow> mqfds s i = None \<and> mqfds (ie_others E s) i = None) \<Longrightarrow> ipc_call s s'"
| mq_unlink: "sys_mq_unlink s str = Some (r, s') \<Longrightarrow> ipc_call s s'"
| mq_timedsend: "sys_mq_timedsend E (s, fs) cur d p n prio evs = Some (Returns (r, s')) \<Longrightarrow>
    (\<forall>a. mq_desc (s, fs) cur d = Some (Some a) \<longrightarrow> rely_mq a evs) \<Longrightarrow> ipc_call s s'"
| mq_timedreceive: "sys_mq_timedreceive E (s, fs) cur d p n pa evs = Some (Returns (r, s', ws)) \<Longrightarrow>
    (\<forall>a. mq_desc (s, fs) cur d = Some (Some a) \<longrightarrow> rely_mq a evs) \<Longrightarrow> ipc_call s s'"
| mq_getsetattr: "sys_mq_getsetattr E (s, fs) cur d na oa = Some (r, s', ws) \<Longrightarrow> ipc_ok (ie_others E s) \<Longrightarrow> ipc_call s s'"
| mq_read: "mqfd_read s f n evs = Some (Returns (x, s')) \<Longrightarrow> (\<forall>a. mqfds s f = Some a \<longrightarrow> rely_mq a evs) \<Longrightarrow> ipc_call s s'"
| mq_write: "mqfd_write E s f buf evs = Some (Returns (r, s')) \<Longrightarrow> (\<forall>a. mqfds s f = Some a \<longrightarrow> rely_mq a evs) \<Longrightarrow> ipc_call s s'"
| mq_close: "mqfd_close s f = Some s' \<Longrightarrow> ipc_call s s'"
| mq_setflags: "mqfd_setflags s f fl = Some s' \<Longrightarrow> ipc_call s s'"

lemma mq_desc_alive: "ipc_ok s \<Longrightarrow> mq_desc (s, fs) cur d = Some (Some a) \<Longrightarrow> mq_get (mq_queues s) a \<noteq> None"
  using mqfds_alive by (auto simp: mq_desc_def split: option.splits Option.bind_splits)

lemma mq_timedsend_ok:
  assumes "sys_mq_timedsend E (s, fs) cur d p n prio evs = Some (Returns (r, s'))" "ipc_ok s"
    "\<forall>a. mq_desc (s, fs) cur d = Some (Some a) \<longrightarrow> rely_mq a evs"
  shows "ipc_ok s'"
proof (cases "mq_desc (s, fs) cur d")
  case (Some da)
  show ?thesis
  proof (cases da)
    case (Some a)
    with \<open>mq_desc (s, fs) cur d = Some da\<close> show ?thesis
      using mq_send_law [OF assms(2) mq_desc_alive [OF assms(2)], of fs cur d a evs E p n prio] assms(1,3)
      by (auto simp: sys_mq_timedsend_def gives_def)
  qed (use assms \<open>mq_desc (s, fs) cur d = Some da\<close> in \<open>auto simp: sys_mq_timedsend_def\<close>)
qed (use assms in \<open>auto simp: sys_mq_timedsend_def\<close>)

lemma mq_timedreceive_ok:
  assumes "sys_mq_timedreceive E (s, fs) cur d p n pa evs = Some (Returns (r, s', ws))" "ipc_ok s"
    "\<forall>a. mq_desc (s, fs) cur d = Some (Some a) \<longrightarrow> rely_mq a evs"
  shows "ipc_ok s'"
proof (cases "mq_desc (s, fs) cur d")
  case (Some da)
  show ?thesis
  proof (cases da)
    case (Some a)
    with \<open>mq_desc (s, fs) cur d = Some da\<close> show ?thesis
      using mq_receive_law [OF assms(2) mq_desc_alive [OF assms(2)], of fs cur d a evs E p n pa] assms(1,3)
      by (auto simp: sys_mq_timedreceive_def gives_def)
  qed (use assms \<open>mq_desc (s, fs) cur d = Some da\<close> in \<open>auto simp: sys_mq_timedreceive_def\<close>)
qed (use assms in \<open>auto simp: sys_mq_timedreceive_def\<close>)

lemma ipc_call_ok:
  assumes "ipc_call s s'" "ipc_ok s"
  shows "ipc_ok s'"
  using assms
proof cases
  case (mq_open E F mnt fs cur str oflag aa addr f r fs')
  show ?thesis by (rule mq_open_ok [OF mq_open(1) assms(2) mq_open(2-4)]) (use mq_open(5) in simp)
next
  case (mq_read f n evs x)
  then show ?thesis using mqfd_read_law [OF assms(2), of f evs n] by (simp add: gives_def)
next
  case (mq_write E f buf evs r)
  then show ?thesis using mqfd_write_law [OF assms(2), of f evs E buf] by (simp add: gives_def)
next
  case (mq_close f)
  then show ?thesis using mqfd_close_law [OF assms(2), of f] by (simp add: gives_def)
next
  case (mq_setflags f fl)
  then show ?thesis using mqfd_setflags_law [OF assms(2), of f fl] by (simp add: gives_def)
next
  case (mq_unlink str r)
  then show ?thesis using mq_unlink_law [OF assms(2), of str] by (simp add: gives_def)
qed (use assms(2) in \<open>auto simp: sys_semop_def intro: msgget_ok msgctl_ok msgsnd_ok msgrcv_ok semget_ok semctl_ok semtimedop_ok
  shmget_ok shmctl_ok shmat_ok shmdt_ok mq_timedsend_ok mq_timedreceive_ok mq_getsetattr_ok\<close>)

section \<open>Selecting messages\<close>

definition matches :: "int \<Rightarrow> flags32 \<Rightarrow> msg_message \<Rightarrow> bool" where
  "matches typ fl m \<longleftrightarrow> msg_matches (msg_type m) typ fl = Some True"

lemma msg_matches_defined: "typ \<noteq> - (2 ^ 63) \<Longrightarrow> msg_matches x typ fl \<noteq> None"
  by (auto simp: msg_matches_def)

lemma msg_scan_first:
  assumes "0 \<le> typ"
  shows "\<exists>r. msg_scan ms i typ fl bt best = Some r \<and>
    ((\<forall>j < length ms. \<not> matches typ fl (ms ! j)) \<and> r = best \<or>
     (\<exists>j < length ms. r = Some (i + j) \<and> matches typ fl (ms ! j) \<and> (\<forall>k < j. \<not> matches typ fl (ms ! k))))"
proof (induction ms arbitrary: i)
  case (Cons m ms)
  obtain b where b: "msg_matches (msg_type m) typ fl = Some b" using msg_matches_defined [of "typ"] assms by fastforce
  show ?case
  proof (cases b)
    case True
    then show ?thesis using b assms by (auto simp: matches_def)
  next
    case False
    obtain r where r: "msg_scan ms (i + 1) typ fl bt best = Some r"
      "(\<forall>j < length ms. \<not> matches typ fl (ms ! j)) \<and> r = best \<or>
       (\<exists>j < length ms. r = Some (i + 1 + j) \<and> matches typ fl (ms ! j) \<and> (\<forall>k < j. \<not> matches typ fl (ms ! k)))"
      using Cons by blast
    have m: "\<not> matches typ fl m" using b False by (simp add: matches_def)
    show ?thesis
    proof (cases "\<exists>j < length ms. r = Some (i + 1 + j) \<and> matches typ fl (ms ! j) \<and> (\<forall>k < j. \<not> matches typ fl (ms ! k))")
      case True
      then obtain j where j: "j < length ms" "r = Some (i + 1 + j)" "matches typ fl (ms ! j)" "\<forall>k < j. \<not> matches typ fl (ms ! k)" by blast
      then have "\<forall>k < Suc j. \<not> matches typ fl ((m # ms) ! k)" using m by (auto simp: less_Suc_eq_0_disj)
      then show ?thesis using b False r(1) j by (auto intro!: exI [of _ "Suc j"])
    next
      case F: False
      then have "\<forall>j < length ms. \<not> matches typ fl (ms ! j)" "r = best" using r(2) by blast+
      then have "\<forall>j < length (m # ms). \<not> matches typ fl ((m # ms) ! j)" using m by (auto simp: less_Suc_eq_0_disj)
      then show ?thesis using b False r(1) \<open>r = best\<close> by auto
    qed
  qed
qed simp

text \<open>For a negative type, the scan keeps the first message of the least type below the best type so far.\<close>

definition least_match :: "int \<Rightarrow> flags32 \<Rightarrow> msg_message list \<Rightarrow> nat \<Rightarrow> bool" where
  "least_match want fl ms j \<longleftrightarrow> j < length ms \<and> matches want fl (ms ! j) \<and>
    (\<forall>k < length ms. matches want fl (ms ! k) \<longrightarrow> msg_type (ms ! j) \<le> msg_type (ms ! k)) \<and>
    (\<forall>k < j. matches want fl (ms ! k) \<longrightarrow> msg_type (ms ! j) < msg_type (ms ! k))"

lemma least_match_Cons_skip:
  assumes "least_match want fl ms j" "matches want fl m \<Longrightarrow> msg_type (ms ! j) < msg_type m"
  shows "least_match want fl (m # ms) (Suc j)"
proof -
  have "matches want fl ((m # ms) ! k) \<longrightarrow> msg_type (ms ! j) \<le> msg_type ((m # ms) ! k)" if "k < length (m # ms)" for k
    using assms that by (cases k) (auto simp: least_match_def)
  moreover have "matches want fl ((m # ms) ! k) \<longrightarrow> msg_type (ms ! j) < msg_type ((m # ms) ! k)" if "k < Suc j" for k
    using assms that by (cases k) (auto simp: least_match_def)
  ultimately show ?thesis using assms(1) by (auto simp: least_match_def)
qed

lemma least_match_Cons_head:
  assumes "matches want fl m" "\<forall>k < length ms. matches want fl (ms ! k) \<longrightarrow> msg_type m \<le> msg_type (ms ! k)"
  shows "least_match want fl (m # ms) 0"
proof -
  have "matches want fl ((m # ms) ! k) \<longrightarrow> msg_type m \<le> msg_type ((m # ms) ! k)" if "k < length (m # ms)" for k
    using assms that by (cases k) auto
  then show ?thesis using assms(1) by (auto simp: least_match_def)
qed

lemma msg_scan_least:
  assumes "want < 0" "want \<noteq> - (2 ^ 63)"
  shows "\<exists>r. msg_scan ms i want fl bt best = Some r \<and>
    ((\<forall>k < length ms. matches want fl (ms ! k) \<longrightarrow> bt \<le> msg_type (ms ! k)) \<and> r = best \<or>
     (\<exists>j. r = Some (i + j) \<and> least_match want fl ms j \<and> msg_type (ms ! j) < bt))"
proof (induction ms arbitrary: i bt best)
  case (Cons m ms)
  obtain b where b: "msg_matches (msg_type m) want fl = Some b" using msg_matches_defined [OF assms(2)] by fastforce
  have mb: "matches want fl m \<longleftrightarrow> b" using b by (simp add: matches_def)
  define take_it where "take_it = (b \<and> msg_type m < bt)"
  let ?bt = "if take_it then msg_type m else bt" and ?best = "if take_it then Some i else best"
  obtain r where r: "msg_scan ms (i + 1) want fl ?bt ?best = Some r"
    "(\<forall>k < length ms. matches want fl (ms ! k) \<longrightarrow> ?bt \<le> msg_type (ms ! k)) \<and> r = ?best \<or>
     (\<exists>j. r = Some (i + 1 + j) \<and> least_match want fl ms j \<and> msg_type (ms ! j) < ?bt)"
    using Cons by blast
  have step: "msg_scan (m # ms) i want fl bt best = Some r" using b assms(1) r(1) by (auto simp: take_it_def split: if_splits)
  from r(2) show ?case
  proof
    assume k: "(\<forall>k < length ms. matches want fl (ms ! k) \<longrightarrow> ?bt \<le> msg_type (ms ! k)) \<and> r = ?best"
    show ?case
    proof (cases take_it)
      case True
      then have "least_match want fl (m # ms) 0" using k mb by (intro least_match_Cons_head) (auto simp: take_it_def)
      then show ?thesis using step True k by (auto simp: take_it_def)
    next
      case False
      then have "matches want fl ((m # ms) ! n) \<longrightarrow> bt \<le> msg_type ((m # ms) ! n)" if "n < length (m # ms)" for n
        using k mb that by (cases n) (auto simp: take_it_def)
      then show ?thesis using step False k by auto
    qed
  next
    assume "\<exists>j. r = Some (i + 1 + j) \<and> least_match want fl ms j \<and> msg_type (ms ! j) < ?bt"
    then obtain j where j: "r = Some (i + 1 + j)" "least_match want fl ms j" "msg_type (ms ! j) < ?bt" by blast
    have "least_match want fl (m # ms) (Suc j)"
      using j(3) mb by (intro least_match_Cons_skip [OF j(2)]) (auto simp: take_it_def split: if_splits)
    moreover have "msg_type (ms ! j) < bt" using j(3) by (auto simp: take_it_def split: if_splits)
    ultimately show ?case using step j(1) by (auto intro!: exI [of _ "Suc j"])
  qed
qed simp

section \<open>Semaphore operations\<close>

text \<open>The documented meaning: the operations are performed in order, each on the value the earlier ones left, and none is
  if one of them cannot.\<close>

fun sem_sequence :: "int \<Rightarrow> sem_set \<Rightarrow> semop list \<Rightarrow> int + sem_set" where
  "sem_sequence cur x [] = Inr x"
| "sem_sequence cur x (op # ops) =
    (if int (sop_num op) \<ge> nsems x then Inl EFBIG
     else let val = int (unat (sem_values x ! sop_num op)) in
       if sop_op op < 0 \<and> val < - sop_op op \<or> sop_op op = 0 \<and> val \<noteq> 0 then Inl EAGAIN
       else sem_sequence cur (x\<lparr>sem_values := (sem_values x)[sop_num op := sem_values x ! sop_num op + of_int (sop_op op)],
              sem_pids := (sem_pids x)[sop_num op := cur]\<rparr>) ops)"

lemma sem_check_cong:
  "nsems y = nsems x \<Longrightarrow> length (sem_values y) = length (sem_values x) \<Longrightarrow>
   (\<And>op. op \<in> set ops \<Longrightarrow> sem_values y ! sop_num op = sem_values x ! sop_num op) \<Longrightarrow> sem_check y ops = sem_check x ops"
  by (induction ops) (auto simp: Let_def)

lemma sem_check_sequence:
  assumes "sem_set_ok x" "distinct (map sop_num ops)"
  shows "(case sem_sequence cur x ops of
      Inl err \<Rightarrow> sem_check x ops = Some err \<and> err \<noteq> 0
    | Inr x' \<Rightarrow> sem_check x ops = Some 0 \<and> sem_apply cur x ops = Some x')"
  using assms
proof (induction ops arbitrary: x)
  case (Cons op ops)
  let ?i = "sop_num op"
  let ?x = "x\<lparr>sem_values := (sem_values x)[?i := sem_values x ! ?i + of_int (sop_op op)], sem_pids := (sem_pids x)[?i := cur]\<rparr>"
  have "sem_check ?x ops = sem_check x ops"
    using Cons.prems(2) by (intro sem_check_cong) (auto simp: image_iff)
  moreover have "sem_set_ok ?x" using Cons.prems(1) by (simp add: sem_set_ok_def)
  ultimately show ?case using Cons.IH [of ?x] Cons.prems
    by (auto simp: Let_def sem_set_ok_def split: sum.splits)
qed simp

section \<open>Shared memory\<close>

lemma pages_all_mapped_iff: "pages_all_mapped m p n \<longleftrightarrow> (\<forall>q. p \<le> q \<and> q < p + n \<longrightarrow> mem_pt m q \<noteq> None)"
proof (induction n arbitrary: p)
  case (Suc n)
  have "p \<le> q \<and> q < p + Suc n \<longleftrightarrow> q = p \<or> p + 1 \<le> q \<and> q < p + 1 + n" for q by auto
  then show ?case using Suc [of "p + 1"] by simp blast
qed auto

lemma pt_unmap_mapped:
  assumes "vm_ok ext m v" "start + pages \<le> MEM_PAGES" "\<And>q. start \<le> q \<Longrightarrow> q < start + pages \<Longrightarrow> mem_pt m q \<noteq> None"
  shows "\<exists>m' v'. pt_unmap al (m, v) start pages = (0, m', v') \<and>
    (\<forall>q < MEM_PAGES. mem_pt m' q = (if start \<le> q \<and> q < start + pages then None else mem_pt m q))"
proof -
  have w: "add64 start pages = start + pages" using assms(2) by (intro add64_no_wrap) simp
  obtain r m' v' where u: "pt_unmap_always al (m, v) start pages = (r, m', v')" by (metis prod_cases3)
  have "r = 0" using u by (auto simp: pt_unmap_always_def Let_def)
  then show ?thesis using u pt_unmap_always_lookup [OF assms(2) _ u] assms(3) w
    by (auto simp: pt_unmap_def pages_all_mapped_iff)
qed

section \<open>Properties\<close>


definition ipc_init :: ipc where
  "ipc_init = \<lparr>next_shmid = 1, next_msgid = 1, next_semid = 1, shm_segments = [], shm_attaches = [], msg_queues = [],
     sem_sets = [], mq_queues = [], mqfds = (\<lambda>_. None)\<rparr>"

lemma ipc_init_ok [simp]: "ipc_ok ipc_init"
  by (simp add: ipc_init_def ipc_ok_def table_ok_def mq_table_ok_def)

definition good_env :: ipc_env where
  "good_env = \<lparr>ie_calloc = True, ie_malloc = (\<lambda>_. True), ie_garbage = (\<lambda>n. replicate n 90), ie_read = (\<lambda>a buf. (0, replicate (length buf) 1)),
     ie_write = (\<lambda>_ _. 0), ie_others = id, ie_pid = 7\<rparr>"

lemma replicate_two: "replicate 2 x = [x, x]"
  by (simp add: numeral_2_eq_2)



definition sample_queue :: msg_queue where
  "sample_queue = \<lparr>msq_id = 1, msq_key = 0, msq_messages = [\<lparr>msg_type = 9, msg_data = [1]\<rparr>, \<lparr>msg_type = 2, msg_data = [2]\<rparr>,
     \<lparr>msg_type = 2, msg_data = [3]\<rparr>]\<rparr>"


text \<open>C29: when no semaphore is named twice, a successful or failing attempt of semop has exactly the documented meaning:
  the operations performed in order, each on the value the previous ones left, all of them or none.\<close>

theorem semop_sequential:
  assumes "sem_set_ok x" "distinct (map sop_num ops)"
  shows "sem_try_apply cur x ops True =
    Some (case sem_sequence cur x ops of Inl err \<Rightarrow> (err, x) | Inr x' \<Rightarrow> (0, x'))"
  using sem_check_sequence [OF assms, of cur] by (auto simp: sem_try_apply_def split: sum.splits)

theorem semop_sequential_witness:
  "sem_try_apply 7 \<lparr>sem_id = 1, sem_key = 0, nsems = 2, sem_values = [3, 0], sem_pids = [0, 0]\<rparr>
     [\<lparr>sop_num = 1, sop_op = 0, sop_flags = 0\<rparr>, \<lparr>sop_num = 0, sop_op = - 2, sop_flags = 0\<rparr>] True =
   Some (0, \<lparr>sem_id = 1, sem_key = 0, nsems = 2, sem_values = [1, 0], sem_pids = [7, 7]\<rparr>)"
  using semop_sequential [of "\<lparr>sem_id = 1, sem_key = 0, nsems = 2, sem_values = [3, 0], sem_pids = [0, 0]\<rparr>"
    "[\<lparr>sop_num = 1, sop_op = 0, sop_flags = 0\<rparr>, \<lparr>sop_num = 0, sop_op = - 2, sop_flags = 0\<rparr>]" 7]
  by (simp add: sem_set_ok_def Let_def)

text \<open>Two decrements of one semaphore in one call are both checked against its initial value, so a semaphore that holds
  1 is decremented twice and wraps to 65535; performed in order, the second one would have to wait.\<close>

theorem semop_repeated_wraps:
  assumes "sem_set_ok x" "0 < nsems x" "sem_values x ! 0 = 1"
  shows "\<exists>x'. sem_try_apply cur x [\<lparr>sop_num = 0, sop_op = - 1, sop_flags = 0\<rparr>, \<lparr>sop_num = 0, sop_op = - 1, sop_flags = 0\<rparr>] True = Some (0, x') \<and>
    sem_values x' ! 0 = 65535 \<and>
    sem_sequence cur x [\<lparr>sop_num = 0, sop_op = - 1, sop_flags = 0\<rparr>, \<lparr>sop_num = 0, sop_op = - 1, sop_flags = 0\<rparr>] = Inl EAGAIN"
proof -
  have "0 < length (sem_values x)" "0 < length (sem_pids x)" using assms(1,2) by (simp_all add: sem_set_ok_def)
  then show ?thesis using assms by (simp add: sem_try_apply_def Let_def)
qed

theorem semop_repeated_wraps_witness:
  "\<exists>x'. sem_try_apply 7 \<lparr>sem_id = 1, sem_key = 0, nsems = 1, sem_values = [1], sem_pids = [0]\<rparr>
      [\<lparr>sop_num = 0, sop_op = - 1, sop_flags = 0\<rparr>, \<lparr>sop_num = 0, sop_op = - 1, sop_flags = 0\<rparr>] True = Some (0, x') \<and> sem_values x' ! 0 = 65535"
  using semop_repeated_wraps [of "\<lparr>sem_id = 1, sem_key = 0, nsems = 1, sem_values = [1], sem_pids = [0]\<rparr>" 7]
  by (simp add: sem_set_ok_def)

text \<open>Msgsnd takes a positive result of user_read for success, so a message whose text cannot be read is queued with
  the uninitialised contents of its heap block, which the receiver then gets.\<close>

theorem msgsnd_queues_garbage:
  assumes "ie_read E msgp (ie_garbage E 8) = (0, le_bytes 8 1)" "ie_read E (add64 msgp 8) (ie_garbage E n) = (1, ie_garbage E n)"
    "n \<noteq> 0" "ie_calloc E" "ie_malloc E n" "msg_find_id (msg_queues s) i = Some q"
  shows "sys_msgsnd E s i msgp n = (0, s\<lparr>msg_queues := msg_put (msg_queues s) i
    (q\<lparr>msq_messages := msq_messages q @ [\<lparr>msg_type = 1, msg_data = ie_garbage E n\<rparr>]\<rparr>)\<rparr>)"
proof -
  have "s64 (int (le_nat (le_bytes 8 1))) = 1" by code_simp
  then show ?thesis using assms by (simp add: sys_msgsnd_def)
qed

definition unreadable_env :: ipc_env where
  "unreadable_env = good_env\<lparr>ie_read := (\<lambda>a buf. if a = 16 then (0, le_bytes 8 1) else (1, buf))\<rparr>"

theorem msgsnd_queues_garbage_witness:
  "sys_msgsnd unreadable_env (ipc_init\<lparr>msg_queues := [sample_queue\<lparr>msq_messages := []\<rparr>]\<rparr>) 1 16 2 =
   (0, ipc_init\<lparr>msg_queues := [sample_queue\<lparr>msq_messages := [\<lparr>msg_type = 1, msg_data = [90, 90]\<rparr>]\<rparr>]\<rparr>)"
proof -
  have "add64 16 8 = 24" by (simp add: add64_def)
  then show ?thesis
    using msgsnd_queues_garbage [of unreadable_env 16 2 "ipc_init\<lparr>msg_queues := [sample_queue\<lparr>msq_messages := []\<rparr>]\<rparr>" 1 "sample_queue\<lparr>msq_messages := []\<rparr>"]
    by (simp add: unreadable_env_def good_env_def sample_queue_def replicate_two)
qed

section \<open>Priorities\<close>

definition mq_key :: "mq_message \<Rightarrow> int" where
  "mq_key m = - int (mqm_prio m)"

lemma mq_insert_filter:
  "mq_descending ms \<Longrightarrow> filter (\<lambda>x. k = mq_key x) (mq_insert ms m) = filter (\<lambda>x. k = mq_key x) ms @ (if k = mq_key m then [m] else [])"
proof (induction ms)
  case (Cons x ms)
  show ?case
  proof (cases "mqm_prio x \<ge> mqm_prio m")
    case True
    then show ?thesis using Cons by (auto simp: mq_descending_def)
  next
    case False
    have "\<forall>y \<in> set (x # ms). mqm_prio y < mqm_prio m" using Cons.prems False by (auto simp: mq_descending_def)
    then have "filter (\<lambda>y. mq_key m = mq_key y) (x # ms) = []" by (auto simp: filter_empty_conv mq_key_def)
    then show ?thesis using False by auto
  qed
qed simp

lemma mq_descending_sorted: "mq_descending ms \<longleftrightarrow> sorted (map mq_key ms)"
  by (simp add: mq_descending_def mq_key_def sorted_map)

lemma mq_inserts_descending: "mq_descending ms \<Longrightarrow> mq_descending (foldl mq_insert ms xs)"
  by (induction xs arbitrary: ms) (auto simp: mq_insert_descending)

lemma mq_inserts_filter:
  "mq_descending ms \<Longrightarrow> filter (\<lambda>x. k = mq_key x) (foldl mq_insert ms xs) = filter (\<lambda>x. k = mq_key x) (ms @ xs)"
  by (induction xs arbitrary: ms) (auto simp: mq_insert_descending mq_insert_filter)

lemma mq_inserts_mset: "mset (foldl mq_insert ms xs) = mset (ms @ xs)"
  by (induction xs arbitrary: ms) (auto simp: mq_insert_mset)

lemma mq_inserts_sort:
  assumes "mq_descending ms"
  shows "foldl mq_insert ms xs = sort_key mq_key (ms @ xs)"
  using mq_inserts_descending [OF assms, of xs] mq_inserts_filter [OF assms] mq_inserts_mset
  by (intro properties_for_sort_key [symmetric]) (auto simp: mq_descending_sorted)

text \<open>Sending a list of messages, given by address, length and priority, one after the other without waiting.\<close>

fun mq_send_all :: "ipc_env \<Rightarrow> ipc \<Rightarrow> nat \<Rightarrow> (nat \<times> nat \<times> nat) list \<Rightarrow> ipc option" where
  "mq_send_all E s a [] = Some s"
| "mq_send_all E s a ((p, n, prio) # xs) =
    (case mq_send E s a p n prio [] of Some (Returns (r, s')) \<Rightarrow> if r = 0 then mq_send_all E s' a xs else None | _ \<Rightarrow> None)"

definition mq_sent :: "ipc_env \<Rightarrow> nat \<times> nat \<times> nat \<Rightarrow> mq_message" where
  "mq_sent E x = \<lparr>mqm_prio = snd (snd x), mqm_data = snd (ie_read E (fst x) (ie_garbage E (fst (snd x))))\<rparr>"

lemma mq_send_appends:
  assumes "mq_send E s a p n prio [] = Some (Returns (0, s'))" "mq_get (mq_queues s) a = Some q"
  shows "\<exists>q'. mq_get (mq_queues s') a = Some q' \<and> mq_messages q' = mq_insert (mq_messages q) (mq_sent E (p, n, prio))"
proof -
  note aq = mq_get_SomeD [OF assms(2)]
  show ?thesis using assms aq
    by (subst (asm) mq_send_def, subst (asm) mq_wait_room.simps)
       (auto simp: put_mq_def mq_get_put mq_sent_def split: if_splits prod.splits)
qed

lemma mq_send_all_inserts:
  "mq_send_all E s a xs = Some s' \<Longrightarrow> mq_get (mq_queues s) a = Some q \<Longrightarrow>
   \<exists>q'. mq_get (mq_queues s') a = Some q' \<and> mq_messages q' = foldl mq_insert (mq_messages q) (map (mq_sent E) xs)"
proof (induction xs arbitrary: s q)
  case (Cons x xs)
  obtain p n prio where x: "x = (p, n, prio)" by (metis prod_cases3)
  obtain t where t: "mq_send E s a p n prio [] = Some (Returns (0, t))" "mq_send_all E t a xs = Some s'"
    using Cons.prems(1) x by (auto split: option.splits call.splits prod.splits if_splits)
  obtain q1 where q1: "mq_get (mq_queues t) a = Some q1" "mq_messages q1 = mq_insert (mq_messages q) (mq_sent E x)"
    using mq_send_appends [OF t(1) Cons.prems(2)] x by auto
  show ?case using Cons.IH [OF t(2) q1(1)] q1(2) by simp
qed simp

text \<open>C13: after any sequence of successful sends, a POSIX queue holds the messages sorted by descending priority and, within
  a priority, in the order they were sent, and the next receive takes the first of them.\<close>

theorem mq_priority_order:
  assumes "ipc_ok s" "mq_get (mq_queues s) a = Some q" "mq_send_all E s a xs = Some s'" "mq_messages q @ map (mq_sent E) xs = ms" "ms \<noteq> []"
    "length (mqm_data (hd (sort_key mq_key ms))) \<le> sz" "ie_write E p (mqm_data (hd (sort_key mq_key ms))) = 0"
  shows "\<exists>q' s''. mq_get (mq_queues s') a = Some q' \<and> mq_messages q' = sort_key mq_key ms \<and>
    mq_receive E s' a p sz 0 [] = Some (Returns (int (length (mqm_data (hd (sort_key mq_key ms)))), s'', [(p, mqm_data (hd (sort_key mq_key ms)))])) \<and>
    map_option mq_messages (mq_get (mq_queues s'') a) = Some (tl (sort_key mq_key ms))"
proof -
  have "mq_descending (mq_messages q)" using ipc_mq_found [OF assms(1,2)] by (simp add: mq_queue_ok_def)
  then obtain q' where q': "mq_get (mq_queues s') a = Some q'" "mq_messages q' = sort_key mq_key ms"
    using mq_send_all_inserts [OF assms(3,2)] mq_inserts_sort [of "mq_messages q" "map (mq_sent E) xs"] assms(4) by auto
  have ne: "sort_key mq_key ms \<noteq> []" using assms(5) by (metis length_0_conv length_sort)
  show ?thesis using q' ne assms(6,7) mq_get_SomeD [OF q'(1)]
    by (auto simp: mq_receive_def mq_wait_message.simps mq_take_def Let_def put_mq_def mq_get_put)
qed

definition sample_mq :: mq_queue where
  "sample_mq = \<lparr>mq_addr = 100, mq_name = [47, 113], mq_unlinked = False, mq_open_count = 0, mq_flags = 0, mq_maxmsg = 10,
     mq_msgsize = 8192, mq_curmsgs = 0, mq_messages = []\<rparr>"

lemma sample_mq_ok: "ipc_ok (ipc_init\<lparr>mq_queues := [sample_mq]\<rparr>)"
  by (simp add: ipc_ok_def ipc_init_def table_ok_def mq_table_ok_def sample_mq_def mq_queue_ok_def mq_descending_def refs_of_def)

theorem mq_priority_order_witness:
  "\<exists>s' q'. mq_send_all good_env (ipc_init\<lparr>mq_queues := [sample_mq]\<rparr>) 100 [(0, 1, 1), (0, 2, 5)] = Some s' \<and>
    mq_get (mq_queues s') 100 = Some q' \<and>
    mq_messages q' = [\<lparr>mqm_prio = 5, mqm_data = [1, 1]\<rparr>, \<lparr>mqm_prio = 1, mqm_data = [1]\<rparr>]"
proof -
  let ?s = "ipc_init\<lparr>mq_queues := [sample_mq]\<rparr>" and ?ms = "[\<lparr>mqm_prio = 1, mqm_data = [1]\<rparr>, \<lparr>mqm_prio = 5, mqm_data = [1, 1]\<rparr>]"
  have small: "s64 1 = 1" "s64 2 = 2" by (simp_all add: s64_id)
  obtain s' where s': "mq_send_all good_env ?s 100 [(0, 1, 1), (0, 2, 5)] = Some s'"
    by (simp add: mq_send_def good_env_def mq_wait_room.simps sample_mq_def put_mq_def small)
  have srt: "sort_key mq_key ?ms = [\<lparr>mqm_prio = 5, mqm_data = [1, 1]\<rparr>, \<lparr>mqm_prio = 1, mqm_data = [1]\<rparr>]"
    by (simp add: mq_key_def)
  have "map (mq_sent good_env) [(0, 1, 1), (0, 2, 5)] = ?ms" by (simp add: mq_sent_def good_env_def replicate_two)
  then show ?thesis
    using mq_priority_order [OF sample_mq_ok _ s', of sample_mq ?ms 8 0] s' srt
    by (auto simp: sample_mq_def good_env_def)
qed


definition empty_vm :: vm where
  "empty_vm = \<lparr>vm_blocks = (\<lambda>_. None), vm_next = 0, anon_page_count = 0, vm_fds_released = []\<rparr>"

definition sample_segment :: shm_segment where
  "sample_segment = \<lparr>shm_id = 1, shm_key = 0, shm_size = 16000, shm_pages = 4, shm_fd = 3\<rparr>"


section \<open>Defects\<close>

text \<open>A queue that a waiting call points to is freed when its last descriptor is closed meanwhile.\<close>

lemma mq_receive_use_after_free:
  assumes "mq_get (mq_queues s) a = Some q" "mq_messages q = []" "mq_flags q AND O_NONBLOCK = 0" "mq_get (mq_queues t) a = None"
  shows "mq_receive E s a p n pa [(0, t)] = None"
  using assms by (simp add: mq_receive_def mq_wait_message.simps [of s] mq_wait_message.simps [of t])

text \<open>While mq_open reads the attributes another task may create a queue of the same name; both then exist.\<close>

lemma mq_open_duplicates:
  assumes "mq_find_name (mq_queues s) n = None" "mq_find_name (mq_queues (ie_others E s)) n = Some q" "n \<noteq> []" "length n < 256"
    "mq_attr E aa = (0, 10, 8192)" "aa \<noteq> 0" "ie_calloc E" "oflag AND O_CREAT \<noteq> 0"
  shows "\<exists>q' t. mq_create E s n aa addr = Some (Inr addr, t) \<and> mq_queues t = q' # mq_queues (ie_others E s) \<and>
    mq_name q' = n \<and> \<not> mq_unlinked q' \<and> q \<in> set (mq_queues t) \<and> mq_name q = n \<and> \<not> mq_unlinked q"
  using assms mq_find_name_SomeD [OF assms(2)] by (simp add: mq_create_def Let_def)

text \<open>A message of the greatest type is never received with a negative type, although it matches.\<close>

lemma msgrcv_misses_greatest_type:
  "msg_matches (2 ^ 63 - 1) (- (2 ^ 63 - 1)) 0 = Some True \<and>
   msg_scan [\<lparr>msg_type = 2 ^ 63 - 1, msg_data = []\<rparr>] 0 (- (2 ^ 63 - 1)) 0 (2 ^ 63 - 1) None = Some None"
  by (simp add: msg_matches_def)

text \<open>msgrcv reports success for a message it could not write to user memory and has removed from the queue.\<close>

lemma msg_deliver_ignores_fault:
  assumes "ie_write E p (le_bytes 8 (u64 (msg_type m))) = 1" "length (msg_data m) \<le> n"
  shows "msg_deliver E p n m = (int (length (msg_data m)), [])"
  using assms by (simp add: msg_deliver_def Let_def)

end
