(* ===== verification/Crypto.thy ===== *)
theory Crypto
  imports Ish_Prelude
begin

text \<open>
  The software versions of the ARMv8 cryptographic instructions (asbestos/guest-arm64/crypto_helpers.c): AES, SHA-1,
  SHA-256, SHA-512, SM3, SM4 and polynomial multiplication.  A helper updates the vector register its first argument
  points to; here it returns the new contents.  An AES state and a byte vector are lists of 16 bytes, a vector of four
  32-bit lanes is a quadruple with lane 0 first, and a vector of two 64-bit lanes is a pair.  All these helpers read
  their operands before they write, except the byte version of \<^verbatim>\<open>pmull_helper\<close>, which is modelled on the register file
  (theory \<^verbatim>\<open>Simd\<close>).
\<close>

section \<open>AES\<close>

definition aes_sbox :: "byte list" where
  "aes_sbox =
    [99, 124, 119, 123, 242, 107, 111, 197, 48, 1, 103, 43, 254, 215, 171, 118,
     202, 130, 201, 125, 250, 89, 71, 240, 173, 212, 162, 175, 156, 164, 114, 192,
     183, 253, 147, 38, 54, 63, 247, 204, 52, 165, 229, 241, 113, 216, 49, 21,
     4, 199, 35, 195, 24, 150, 5, 154, 7, 18, 128, 226, 235, 39, 178, 117,
     9, 131, 44, 26, 27, 110, 90, 160, 82, 59, 214, 179, 41, 227, 47, 132,
     83, 209, 0, 237, 32, 252, 177, 91, 106, 203, 190, 57, 74, 76, 88, 207,
     208, 239, 170, 251, 67, 77, 51, 133, 69, 249, 2, 127, 80, 60, 159, 168,
     81, 163, 64, 143, 146, 157, 56, 245, 188, 182, 218, 33, 16, 255, 243, 210,
     205, 12, 19, 236, 95, 151, 68, 23, 196, 167, 126, 61, 100, 93, 25, 115,
     96, 129, 79, 220, 34, 42, 144, 136, 70, 238, 184, 20, 222, 94, 11, 219,
     224, 50, 58, 10, 73, 6, 36, 92, 194, 211, 172, 98, 145, 149, 228, 121,
     231, 200, 55, 109, 141, 213, 78, 169, 108, 86, 244, 234, 101, 122, 174, 8,
     186, 120, 37, 46, 28, 166, 180, 198, 232, 221, 116, 31, 75, 189, 139, 138,
     112, 62, 181, 102, 72, 3, 246, 14, 97, 53, 87, 185, 134, 193, 29, 158,
     225, 248, 152, 17, 105, 217, 142, 148, 155, 30, 135, 233, 206, 85, 40, 223,
     140, 161, 137, 13, 191, 230, 66, 104, 65, 153, 45, 15, 176, 84, 187, 22]"

definition aes_inv_sbox :: "byte list" where
  "aes_inv_sbox =
    [82, 9, 106, 213, 48, 54, 165, 56, 191, 64, 163, 158, 129, 243, 215, 251,
     124, 227, 57, 130, 155, 47, 255, 135, 52, 142, 67, 68, 196, 222, 233, 203,
     84, 123, 148, 50, 166, 194, 35, 61, 238, 76, 149, 11, 66, 250, 195, 78,
     8, 46, 161, 102, 40, 217, 36, 178, 118, 91, 162, 73, 109, 139, 209, 37,
     114, 248, 246, 100, 134, 104, 152, 22, 212, 164, 92, 204, 93, 101, 182, 146,
     108, 112, 72, 80, 253, 237, 185, 218, 94, 21, 70, 87, 167, 141, 157, 132,
     144, 216, 171, 0, 140, 188, 211, 10, 247, 228, 88, 5, 184, 179, 69, 6,
     208, 44, 30, 143, 202, 63, 15, 2, 193, 175, 189, 3, 1, 19, 138, 107,
     58, 145, 17, 65, 79, 103, 220, 234, 151, 242, 207, 206, 240, 180, 230, 115,
     150, 172, 116, 34, 231, 173, 53, 133, 226, 249, 55, 232, 28, 117, 223, 110,
     71, 241, 26, 113, 29, 41, 197, 137, 111, 183, 98, 14, 170, 24, 190, 27,
     252, 86, 62, 75, 198, 210, 121, 32, 154, 219, 192, 254, 120, 205, 90, 244,
     31, 221, 168, 51, 136, 7, 199, 49, 177, 18, 16, 89, 39, 128, 236, 95,
     96, 81, 127, 169, 25, 181, 74, 13, 45, 229, 122, 159, 147, 201, 156, 239,
     160, 224, 59, 77, 174, 42, 245, 176, 200, 235, 187, 60, 131, 83, 153, 97,
     23, 43, 4, 126, 186, 119, 214, 38, 225, 105, 20, 99, 85, 33, 12, 125]"

definition sm4_sbox :: "byte list" where
  "sm4_sbox =
    [214, 144, 233, 254, 204, 225, 61, 183, 22, 182, 20, 194, 40, 251, 44, 5,
     43, 103, 154, 118, 42, 190, 4, 195, 170, 68, 19, 38, 73, 134, 6, 153,
     156, 66, 80, 244, 145, 239, 152, 122, 51, 84, 11, 67, 237, 207, 172, 98,
     228, 179, 28, 169, 201, 8, 232, 149, 128, 223, 148, 250, 117, 143, 63, 166,
     71, 7, 167, 252, 243, 115, 23, 186, 131, 89, 60, 25, 230, 133, 79, 168,
     104, 107, 129, 178, 113, 100, 218, 139, 248, 235, 15, 75, 112, 86, 157, 53,
     30, 36, 14, 94, 99, 88, 209, 162, 37, 34, 124, 59, 1, 33, 120, 135,
     212, 0, 70, 87, 159, 211, 39, 82, 76, 54, 2, 231, 160, 196, 200, 158,
     234, 191, 138, 210, 64, 199, 56, 181, 163, 247, 242, 206, 249, 97, 21, 161,
     224, 174, 93, 164, 155, 52, 26, 85, 173, 147, 50, 48, 245, 140, 177, 227,
     29, 246, 226, 46, 130, 102, 202, 96, 192, 41, 35, 171, 13, 83, 78, 111,
     213, 219, 55, 69, 222, 253, 142, 47, 3, 255, 106, 114, 109, 108, 91, 81,
     141, 27, 175, 146, 187, 221, 188, 127, 17, 217, 92, 65, 31, 16, 90, 216,
     10, 193, 49, 136, 165, 205, 123, 189, 45, 116, 208, 18, 184, 229, 180, 176,
     137, 105, 151, 74, 12, 150, 119, 126, 101, 185, 241, 9, 197, 110, 198, 132,
     24, 240, 125, 236, 58, 220, 77, 32, 121, 238, 95, 62, 215, 203, 57, 72]"

definition aes_shiftrows :: "byte list \<Rightarrow> byte list" where
  "aes_shiftrows state =
    (let tmp = state ! 1;
         state = state[1 := state ! 5];
         state = state[5 := state ! 9];
         state = state[9 := state ! 13];
         state = state[13 := tmp];
         tmp = state ! 2;
         state = state[2 := state ! 10];
         state = state[10 := tmp];
         tmp = state ! 6;
         state = state[6 := state ! 14];
         state = state[14 := tmp];
         tmp = state ! 15;
         state = state[15 := state ! 11];
         state = state[11 := state ! 7];
         state = state[7 := state ! 3]
     in state[3 := tmp])"

definition aes_inv_shiftrows :: "byte list \<Rightarrow> byte list" where
  "aes_inv_shiftrows state =
    (let tmp = state ! 13;
         state = state[13 := state ! 9];
         state = state[9 := state ! 5];
         state = state[5 := state ! 1];
         state = state[1 := tmp];
         tmp = state ! 2;
         state = state[2 := state ! 10];
         state = state[10 := tmp];
         tmp = state ! 6;
         state = state[6 := state ! 14];
         state = state[14 := tmp];
         tmp = state ! 3;
         state = state[3 := state ! 7];
         state = state[7 := state ! 11];
         state = state[11 := state ! 15]
     in state[15 := tmp])"

text \<open>One step of the loop of \<^verbatim>\<open>gmul\<close>: doubling in the field.\<close>

definition xtime :: "byte \<Rightarrow> byte" where
  "xtime a = (if a AND 128 \<noteq> 0 then push_bit 1 a XOR 27 else push_bit 1 a)"

fun gmul_loop :: "nat \<Rightarrow> byte \<Rightarrow> byte \<Rightarrow> byte \<Rightarrow> byte" where
  "gmul_loop 0 a b p = p"
| "gmul_loop (Suc n) a b p = gmul_loop n (xtime a) (drop_bit 1 b) (if b AND 1 \<noteq> 0 then p XOR a else p)"

definition gmul :: "byte \<Rightarrow> byte \<Rightarrow> byte" where
  "gmul a b = gmul_loop 8 a b 0"

definition aes_subbytes_shiftrows :: "byte list \<Rightarrow> byte list" where
  "aes_subbytes_shiftrows state = map (\<lambda>b. aes_sbox ! unat b) (aes_shiftrows state)"

definition aes_inv_subbytes_shiftrows :: "byte list \<Rightarrow> byte list" where
  "aes_inv_subbytes_shiftrows state = map (\<lambda>b. aes_inv_sbox ! unat b) (aes_inv_shiftrows state)"

fun mix_column :: "byte list \<Rightarrow> byte list" where
  "mix_column [a0, a1, a2, a3] =
    [gmul a0 2 XOR gmul a1 3 XOR a2 XOR a3,
     a0 XOR gmul a1 2 XOR gmul a2 3 XOR a3,
     a0 XOR a1 XOR gmul a2 2 XOR gmul a3 3,
     gmul a0 3 XOR a1 XOR a2 XOR gmul a3 2]"
| "mix_column xs = xs"

fun inv_mix_column :: "byte list \<Rightarrow> byte list" where
  "inv_mix_column [a0, a1, a2, a3] =
    [gmul a0 14 XOR gmul a1 11 XOR gmul a2 13 XOR gmul a3 9,
     gmul a0 9 XOR gmul a1 14 XOR gmul a2 11 XOR gmul a3 13,
     gmul a0 13 XOR gmul a1 9 XOR gmul a2 14 XOR gmul a3 11,
     gmul a0 11 XOR gmul a1 13 XOR gmul a2 9 XOR gmul a3 14]"
| "inv_mix_column xs = xs"

definition each_column :: "(byte list \<Rightarrow> byte list) \<Rightarrow> byte list \<Rightarrow> byte list" where
  "each_column f state = concat (map (\<lambda>c. f (take 4 (drop (c * 4) state))) [0..<4])"

definition aes_mixcolumns :: "byte list \<Rightarrow> byte list" where
  "aes_mixcolumns state = each_column mix_column state"

definition aes_inv_mixcolumns :: "byte list \<Rightarrow> byte list" where
  "aes_inv_mixcolumns state = each_column inv_mix_column state"

section \<open>SHA-1\<close>

type_synonym quad = "32 word \<times> 32 word \<times> 32 word \<times> 32 word"

definition rotl32 :: "32 word \<Rightarrow> nat \<Rightarrow> 32 word" where
  "rotl32 x n = push_bit n x OR drop_bit (32 - n) x"

definition rotr32 :: "32 word \<Rightarrow> nat \<Rightarrow> 32 word" where
  "rotr32 x n = drop_bit n x OR push_bit (32 - n) x"

definition ror64 :: "64 word \<Rightarrow> nat \<Rightarrow> 64 word" where
  "ror64 x n = (let n = n mod 64 in if n = 0 then x else drop_bit n x OR push_bit (64 - n) x)"

definition sha1_choose :: "32 word \<Rightarrow> 32 word \<Rightarrow> 32 word \<Rightarrow> 32 word" where
  "sha1_choose b c d = (b AND c) OR (NOT b AND d)"

definition sha1_parity :: "32 word \<Rightarrow> 32 word \<Rightarrow> 32 word \<Rightarrow> 32 word" where
  "sha1_parity b c d = b XOR c XOR d"

definition sha1_majority :: "32 word \<Rightarrow> 32 word \<Rightarrow> 32 word \<Rightarrow> 32 word" where
  "sha1_majority b c d = (b AND c) OR (b AND d) OR (c AND d)"

text \<open>The loop the three SHA-1 helpers share; they differ in the function of the round.\<close>

fun sha1_loop :: "(32 word \<Rightarrow> 32 word \<Rightarrow> 32 word \<Rightarrow> 32 word) \<Rightarrow> 32 word \<Rightarrow> 32 word \<Rightarrow> 32 word \<Rightarrow> 32 word \<Rightarrow> 32 word \<Rightarrow>
    32 word list \<Rightarrow> quad" where
  "sha1_loop fn a b c d e [] = (a, b, c, d)"
| "sha1_loop fn a b c d e (w # ws) =
    (let f = fn b c d; t = rotl32 a 5 + f + e + w in sha1_loop fn t a (rotl32 b 30) c d ws)"

definition sha1c_helper :: "quad \<Rightarrow> 32 word \<Rightarrow> quad \<Rightarrow> quad" where
  "sha1c_helper qd sn vm = (case (qd, vm) of ((a, b, c, d), w0, w1, w2, w3) \<Rightarrow> sha1_loop sha1_choose a b c d sn [w0, w1, w2, w3])"

definition sha1m_helper :: "quad \<Rightarrow> 32 word \<Rightarrow> quad \<Rightarrow> quad" where
  "sha1m_helper qd sn vm = (case (qd, vm) of ((a, b, c, d), w0, w1, w2, w3) \<Rightarrow> sha1_loop sha1_majority a b c d sn [w0, w1, w2, w3])"

definition sha1p_helper :: "quad \<Rightarrow> 32 word \<Rightarrow> quad \<Rightarrow> quad" where
  "sha1p_helper qd sn vm = (case (qd, vm) of ((a, b, c, d), w0, w1, w2, w3) \<Rightarrow> sha1_loop sha1_parity a b c d sn [w0, w1, w2, w3])"

fun sha1su0_helper :: "quad \<Rightarrow> quad \<Rightarrow> quad \<Rightarrow> quad" where
  "sha1su0_helper (d0, d1, d2, d3) (n0, n1, n2, n3) (m0, m1, m2, m3) =
    (d2 XOR d0 XOR m0, d3 XOR d1 XOR m1, n0 XOR d2 XOR m2, n1 XOR d3 XOR m3)"

fun sha1su1_helper :: "quad \<Rightarrow> quad \<Rightarrow> quad" where
  "sha1su1_helper (d0, d1, d2, d3) (n0, n1, n2, n3) =
    (let t0 = d0 XOR n1; t1 = d1 XOR n2; t2 = d2 XOR n3; t3 = d3
     in (rotl32 t0 1, rotl32 t1 1, rotl32 t2 1, rotl32 t3 1 XOR rotl32 t0 3))"

section \<open>SHA-256\<close>

definition sha256_sigma0 :: "32 word \<Rightarrow> 32 word" where
  "sha256_sigma0 x = rotr32 x 2 XOR rotr32 x 13 XOR rotr32 x 22"

definition sha256_sigma1 :: "32 word \<Rightarrow> 32 word" where
  "sha256_sigma1 x = rotr32 x 6 XOR rotr32 x 11 XOR rotr32 x 25"

definition sha256_sig0 :: "32 word \<Rightarrow> 32 word" where
  "sha256_sig0 x = rotr32 x 7 XOR rotr32 x 18 XOR drop_bit 3 x"

definition sha256_sig1 :: "32 word \<Rightarrow> 32 word" where
  "sha256_sig1 x = rotr32 x 17 XOR rotr32 x 19 XOR drop_bit 10 x"

definition sha256_ch :: "32 word \<Rightarrow> 32 word \<Rightarrow> 32 word \<Rightarrow> 32 word" where
  "sha256_ch e f g = (e AND f) XOR (NOT e AND g)"

definition sha256_maj :: "32 word \<Rightarrow> 32 word \<Rightarrow> 32 word \<Rightarrow> 32 word" where
  "sha256_maj a b c = (a AND b) XOR (a AND c) XOR (b AND c)"

text \<open>The loop of both hash helpers on the eight working variables.\<close>

fun sha256_loop :: "quad \<Rightarrow> quad \<Rightarrow> 32 word list \<Rightarrow> quad \<times> quad" where
  "sha256_loop abcd efgh [] = (abcd, efgh)"
| "sha256_loop (a, b, c, d) (e, f, g, h) (w # ws) =
    (let t1 = h + sha256_sigma1 e + sha256_ch e f g + w;
         t2 = sha256_sigma0 a + sha256_maj a b c
     in sha256_loop (t1 + t2, a, b, c) (d + t1, e, f, g) ws)"

definition lanes4 :: "quad \<Rightarrow> 32 word list" where
  "lanes4 v = (case v of (w0, w1, w2, w3) \<Rightarrow> [w0, w1, w2, w3])"

definition sha256h_helper :: "quad \<Rightarrow> quad \<Rightarrow> quad \<Rightarrow> quad" where
  "sha256h_helper qd qn vm = fst (sha256_loop qd qn (lanes4 vm))"

definition sha256h2_helper :: "quad \<Rightarrow> quad \<Rightarrow> quad \<Rightarrow> quad" where
  "sha256h2_helper qd qn vm = snd (sha256_loop qn qd (lanes4 vm))"

fun sha256su0_helper :: "quad \<Rightarrow> quad \<Rightarrow> quad" where
  "sha256su0_helper (d0, d1, d2, d3) (n0, n1, n2, n3) =
    (d0 + sha256_sig0 d1, d1 + sha256_sig0 d2, d2 + sha256_sig0 d3, d3 + sha256_sig0 n0)"

text \<open>The last two lanes use the new values of the first two.\<close>

fun sha256su1_helper :: "quad \<Rightarrow> quad \<Rightarrow> quad \<Rightarrow> quad" where
  "sha256su1_helper (d0, d1, d2, d3) (n0, n1, n2, n3) (m0, m1, m2, m3) =
    (let d0 = d0 + sha256_sig1 m2 + n1;
         d1 = d1 + sha256_sig1 m3 + n2;
         d2 = d2 + sha256_sig1 d0 + n3;
         d3 = d3 + sha256_sig1 d1 + m0
     in (d0, d1, d2, d3))"

section \<open>SHA-512\<close>

type_synonym pair64 = "64 word \<times> 64 word"

definition sha512_s0 :: "64 word \<Rightarrow> 64 word" where
  "sha512_s0 x = ror64 x 1 XOR ror64 x 8 XOR drop_bit 7 x"

definition sha512_s1 :: "64 word \<Rightarrow> 64 word" where
  "sha512_s1 x = ror64 x 19 XOR ror64 x 61 XOR drop_bit 6 x"

definition sha512_sum0 :: "64 word \<Rightarrow> 64 word" where
  "sha512_sum0 x = ror64 x 28 XOR ror64 x 34 XOR ror64 x 39"

definition sha512_sum1 :: "64 word \<Rightarrow> 64 word" where
  "sha512_sum1 x = ror64 x 14 XOR ror64 x 18 XOR ror64 x 41"

definition sha512_ch :: "64 word \<Rightarrow> 64 word \<Rightarrow> 64 word \<Rightarrow> 64 word" where
  "sha512_ch x y z = (x AND y) XOR (NOT x AND z)"

definition sha512_maj :: "64 word \<Rightarrow> 64 word \<Rightarrow> 64 word \<Rightarrow> 64 word" where
  "sha512_maj x y z = (x AND y) XOR (x AND z) XOR (y AND z)"

fun sha512su0_helper :: "pair64 \<Rightarrow> pair64 \<Rightarrow> pair64" where
  "sha512su0_helper (d0, d1) (n0, n1) = (d0 + sha512_s0 d1, d1 + sha512_s0 n0)"

fun sha512su1_helper :: "pair64 \<Rightarrow> pair64 \<Rightarrow> pair64 \<Rightarrow> pair64" where
  "sha512su1_helper (d0, d1) (n0, n1) (m0, m1) = (d0 + sha512_s1 n0 + m0, d1 + sha512_s1 n1 + m1)"

fun sha512h_helper :: "pair64 \<Rightarrow> pair64 \<Rightarrow> pair64 \<Rightarrow> pair64" where
  "sha512h_helper (w0, w1) (x0, x1) (y0, y1) =
    (let msigma1 = sha512_sum1 y1;
         vtmp1 = sha512_ch y1 x0 x1 + msigma1 + w1;
         tmp = vtmp1 + y0;
         msigma1 = sha512_sum1 tmp;
         vtmp0 = sha512_ch tmp y1 x0 + msigma1 + w0
     in (vtmp0, vtmp1))"

fun sha512h2_helper :: "pair64 \<Rightarrow> pair64 \<Rightarrow> pair64 \<Rightarrow> pair64" where
  "sha512h2_helper (w0, w1) (x0, x1) (y0, y1) =
    (let nsigma0 = sha512_sum0 y0;
         vtmp1 = sha512_maj x0 y1 y0 + nsigma0 + w1;
         nsigma0 = sha512_sum0 vtmp1;
         vtmp0 = sha512_maj vtmp1 y0 y1 + nsigma0 + w0
     in (vtmp0, vtmp1))"

section \<open>SM3, SM4 and exclusive or\<close>

definition eor3_helper :: "byte list \<Rightarrow> byte list \<Rightarrow> byte list \<Rightarrow> byte list" where
  "eor3_helper vn vm va = map (\<lambda>i. vn ! i XOR vm ! i XOR va ! i) [0..<16]"

definition sm3_p1 :: "32 word \<Rightarrow> 32 word" where
  "sm3_p1 r = r XOR rotl32 r 15 XOR rotl32 r 23"

fun sm3partw1_helper :: "quad \<Rightarrow> quad \<Rightarrow> quad \<Rightarrow> quad" where
  "sm3partw1_helper (d0, d1, d2, d3) (n0, n1, n2, n3) (m0, m1, m2, m3) =
    (let t0 = d0 XOR n0; t1 = d1 XOR n1; t2 = d2 XOR n2; t3 = d3 XOR n3;
         r0 = t0 XOR rotl32 m1 15;
         r1 = t1 XOR rotl32 m2 15;
         r2 = t2 XOR rotl32 m3 15;
         r3 = t3 XOR rotl32 r0 15
     in (sm3_p1 r0, sm3_p1 r1, sm3_p1 r2, sm3_p1 r3))"

definition sm4_sbox_sub :: "32 word \<Rightarrow> 32 word" where
  "sm4_sbox_sub x =
    (let s = (\<lambda>k. ucast (sm4_sbox ! unat (drop_bit k x AND 255)) :: 32 word)
     in s 0 OR push_bit 8 (s 8) OR push_bit 16 (s 16) OR push_bit 24 (s 24))"

fun sm4e_loop :: "quad \<Rightarrow> 32 word list \<Rightarrow> quad" where
  "sm4e_loop r [] = r"
| "sm4e_loop (r0, r1, r2, r3) (rk # rks) =
    (let x = r1 XOR r2 XOR r3 XOR rk;
         x = sm4_sbox_sub x;
         x = x XOR rotl32 x 2 XOR rotl32 x 10 XOR rotl32 x 18 XOR rotl32 x 24;
         x = x XOR r0
     in sm4e_loop (r1, r2, r3, x) rks)"

definition sm4e_helper :: "quad \<Rightarrow> quad \<Rightarrow> quad" where
  "sm4e_helper vd vn = sm4e_loop vd (lanes4 vn)"

fun sve_eor_d_helper :: "pair64 \<Rightarrow> pair64 \<Rightarrow> pair64" where
  "sve_eor_d_helper (n0, n1) (m0, m1) = (n0 XOR m0, n1 XOR m1)"

fun sve_xar_d_helper :: "pair64 \<Rightarrow> pair64 \<Rightarrow> nat \<Rightarrow> pair64" where
  "sve_xar_d_helper (n0, n1) (m0, m1) imm = (ror64 (n0 XOR m0) (imm mod 64), ror64 (n1 XOR m1) (imm mod 64))"

section \<open>Polynomial multiplication\<close>

definition pmull64_full :: "64 word \<Rightarrow> 64 word \<Rightarrow> 128 word" where
  "pmull64_full a b = fold (\<lambda>i result. if bit b i then result XOR push_bit i (ucast a) else result) [0..<64] 0"

end
