(* ===== verification/Crypto_Laws.thy ===== *)
theory Crypto_Laws
  imports Crypto
begin

text \<open>
  Laws of the cryptographic helpers: the inverse AES steps undo the AES steps, the SHA helpers compute the rounds and the
  message schedules of the standards, and the polynomial product is the product of the two polynomials over the field
  with two elements.
\<close>

section \<open>Multiplication by constants\<close>

lemma xtime_bit: "xtime a = push_bit 1 a XOR (if bit a 7 then 27 else 0)"
  using and_exp_eq_0_iff_not_bit [of a 7] by (simp add: xtime_def)

lemma push_bit_xor: "push_bit n (a XOR b) = push_bit n a XOR push_bit n (b :: byte)"
  by (rule bit_eqI) (auto simp: bit_simps)

lemma xtime_linear: "xtime (a XOR b) = xtime a XOR xtime b"
  by (cases "bit a 7"; cases "bit b 7")
     (simp_all add: xtime_bit push_bit_xor bit_xor_iff xor.assoc xor.commute xor.left_commute)

lemma xor_cancel: "a XOR (a XOR b) = (b :: byte)"
  by (simp flip: xor.assoc)

lemmas xor_normal = xor.assoc xor.commute xor.left_commute xor_cancel

lemma gmul_loop_step:
  "0 < n \<Longrightarrow> gmul_loop n a b p = gmul_loop (n - 1) (xtime a) (drop_bit 1 b) (if b AND 1 \<noteq> 0 then p XOR a else p)"
  by (cases n) auto

lemma gmul_constants:
  "gmul a 2 = xtime a"
  "gmul a 3 = a XOR xtime a"
  "gmul a 9 = a XOR xtime (xtime (xtime a))"
  "gmul a 11 = a XOR xtime a XOR xtime (xtime (xtime a))"
  "gmul a 13 = a XOR xtime (xtime a) XOR xtime (xtime (xtime a))"
  "gmul a 14 = xtime a XOR xtime (xtime a) XOR xtime (xtime (xtime a))"
  by (simp_all add: gmul_def gmul_loop_step xor.assoc)

section \<open>AES\<close>

lemma inv_mix_column_inverse: "length col = 4 \<Longrightarrow> inv_mix_column (mix_column col) = col"
proof -
  assume "length col = 4"
  then obtain a b c d where "col = [a, b, c, d]" by (auto simp: numeral_eq_Suc length_Suc_conv)
  then show ?thesis by (simp add: gmul_constants xtime_linear xor_normal)
qed

lemma mix_column_inverse: "length col = 4 \<Longrightarrow> mix_column (inv_mix_column col) = col"
proof -
  assume "length col = 4"
  then obtain a b c d where "col = [a, b, c, d]" by (auto simp: numeral_eq_Suc length_Suc_conv)
  then show ?thesis by (simp add: gmul_constants xtime_linear xor_normal)
qed

lemma state_cases:
  assumes "length st = 16"
  obtains a b c d e f g h i j k l m n p q where "st = [a, b, c, d, e, f, g, h, i, j, k, l, m, n, p, q]"
  using assms that by (auto simp: numeral_eq_Suc length_Suc_conv)

lemma mix_column_shape:
  "\<exists>w x y z. mix_column [a, b, c, d] = [w, x, y, z]" "\<exists>w x y z. inv_mix_column [a, b, c, d] = [w, x, y, z]"
  by simp_all

lemma each_column_16:
  "each_column f [a, b, c, d, e, f', g, h, i, j, k, l, m, n, p, q] =
   f [a, b, c, d] @ f [e, f', g, h] @ f [i, j, k, l] @ f [m, n, p, q]"
  by (simp add: each_column_def upt_rec numeral_eq_Suc)

lemma each_column_inverse:
  assumes "\<And>col. length col = 4 \<Longrightarrow> length (g col) = 4 \<and> f (g col) = col" "length st = 16"
  shows "each_column f (each_column g st) = st"
proof -
  obtain a b c d e f' g' h i j k l m n p q where st: "st = [a, b, c, d, e, f', g', h, i, j, k, l, m, n, p, q]"
    using state_cases [OF assms(2)] by metis
  have four: "\<exists>w x y z. g col = [w, x, y, z]" if "length col = 4" for col
    using assms(1) [OF that] by (auto simp: numeral_eq_Suc length_Suc_conv)
  obtain c1 c2 c3 c4 c5 c6 c7 c8 c9 c10 c11 c12 c13 c14 c15 c16 where
    cs: "g [a, b, c, d] = [c1, c2, c3, c4]" "g [e, f', g', h] = [c5, c6, c7, c8]"
      "g [i, j, k, l] = [c9, c10, c11, c12]" "g [m, n, p, q] = [c13, c14, c15, c16]"
    using four [of "[a, b, c, d]"] four [of "[e, f', g', h]"] four [of "[i, j, k, l]"] four [of "[m, n, p, q]"] by auto
  show ?thesis
    using assms(1) [of "[a, b, c, d]"] assms(1) [of "[e, f', g', h]"] assms(1) [of "[i, j, k, l]"] assms(1) [of "[m, n, p, q]"]
    unfolding st each_column_16 cs append.simps by simp
qed

lemma mix_lengths: "length col = 4 \<Longrightarrow> length (mix_column col) = 4" "length col = 4 \<Longrightarrow> length (inv_mix_column col) = 4"
  by (auto simp: numeral_eq_Suc length_Suc_conv)

lemma sbox_length [simp]: "length aes_sbox = 256" "length aes_inv_sbox = 256"
  by (simp_all add: aes_sbox_def aes_inv_sbox_def)

lemma sbox_table: "map (\<lambda>b. aes_inv_sbox ! unat b) aes_sbox = map of_nat [0..<256]"
  by code_simp

lemma sbox_inverse: "aes_inv_sbox ! unat (aes_sbox ! unat b) = b"
proof -
  have b: "unat b < 256" using unsigned_less [of b] by simp
  then have "map (\<lambda>b. aes_inv_sbox ! unat b) aes_sbox ! unat b = map of_nat [0..<256] ! unat b" by (simp only: sbox_table)
  then show ?thesis using b by simp
qed

lemma inv_shiftrows_map: "length st = 16 \<Longrightarrow> aes_inv_shiftrows (map f st) = map f (aes_inv_shiftrows st)"
  by (simp add: aes_inv_shiftrows_def Let_def map_update)

lemma shiftrows_inverse: "length st = 16 \<Longrightarrow> aes_inv_shiftrows (aes_shiftrows st) = st"
  by (erule state_cases) (simp add: aes_inv_shiftrows_def aes_shiftrows_def Let_def)

lemma shiftrows_length [simp]: "length (aes_shiftrows st) = length st"
  by (simp add: aes_shiftrows_def Let_def)

section \<open>The rounds of SHA-2\<close>

text \<open>One round of the compression functions of FIPS 180-4 on the eight working variables; the last argument is the sum of the
  constant and the message word of the round.\<close>

fun sha256_round :: "quad \<times> quad \<Rightarrow> 32 word \<Rightarrow> quad \<times> quad" where
  "sha256_round ((a, b, c, d), (e, f, g, h)) kw =
    (let t1 = h + (rotr32 e 6 XOR rotr32 e 11 XOR rotr32 e 25) + ((e AND f) XOR (NOT e AND g)) + kw;
         t2 = (rotr32 a 2 XOR rotr32 a 13 XOR rotr32 a 22) + ((a AND b) XOR (a AND c) XOR (b AND c))
     in ((t1 + t2, a, b, c), (d + t1, e, f, g)))"

type_synonym oct64 = "64 word \<times> 64 word \<times> 64 word \<times> 64 word \<times> 64 word \<times> 64 word \<times> 64 word \<times> 64 word"

fun sha512_round :: "oct64 \<Rightarrow> 64 word \<Rightarrow> oct64" where
  "sha512_round (a, b, c, d, e, f, g, h) kw =
    (let t1 = h + (ror64 e 14 XOR ror64 e 18 XOR ror64 e 41) + ((e AND f) XOR (NOT e AND g)) + kw;
         t2 = (ror64 a 28 XOR ror64 a 34 XOR ror64 a 39) + ((a AND b) XOR (a AND c) XOR (b AND c))
     in (t1 + t2, a, b, c, d + t1, e, f, g))"

lemma sha256_loop_rounds: "sha256_loop abcd efgh ws = foldl sha256_round (abcd, efgh) ws"
  by (induction abcd efgh ws rule: sha256_loop.induct)
     (auto simp: Let_def sha256_sigma0_def sha256_sigma1_def sha256_ch_def sha256_maj_def)

section \<open>Polynomial products\<close>

text \<open>The coefficient of degree \<^verbatim>\<open>k\<close> of the product over the field with two elements.\<close>

definition product_coefficient :: "64 word \<Rightarrow> 64 word \<Rightarrow> nat \<Rightarrow> bool" where
  "product_coefficient a b k = odd (card {i. i \<le> k \<and> bit b i \<and> bit a (k - i)})"

lemma pmull_fold_bit:
  "k < 128 \<Longrightarrow> n \<le> 64 \<Longrightarrow>
   bit (fold (\<lambda>i result. if bit b i then result XOR push_bit i (ucast a) else result) [0..<n] (0 :: 128 word)) k \<longleftrightarrow>
   odd (card {i. i < n \<and> i \<le> k \<and> bit b i \<and> bit (a :: 64 word) (k - i)})"
proof (induction n)
  case (Suc n)
  let ?S = "\<lambda>n. {i. i < n \<and> i \<le> k \<and> bit b i \<and> bit a (k - i)}"
  have fin: "finite (?S n)" by (rule finite_subset [of _ "{..<n}"]) auto
  have "?S (Suc n) = (if n \<le> k \<and> bit b n \<and> bit a (k - n) then insert n (?S n) else ?S n)" by (auto simp: less_Suc_eq)
  then have "odd (card (?S (Suc n))) \<longleftrightarrow> odd (card (?S n)) \<noteq> (n \<le> k \<and> bit b n \<and> bit a (k - n))" using fin by simp
  moreover have "bit (push_bit n (ucast a :: 128 word)) k \<longleftrightarrow> n \<le> k \<and> bit a (k - n)"
    using Suc.prems by (auto simp: bit_simps dest: bit_imp_le_length)
  ultimately show ?case using Suc by (auto simp: bit_xor_iff)
qed simp

lemma product_coefficient_commute: "product_coefficient a b k = product_coefficient b a k"
proof -
  have "bij_betw (\<lambda>i. k - i) {i. i \<le> k \<and> bit b i \<and> bit a (k - i)} {i. i \<le> k \<and> bit a i \<and> bit b (k - i)}"
    by (rule bij_betw_byWitness [where f' = "\<lambda>i. k - i"]) auto
  then show ?thesis by (simp add: product_coefficient_def bij_betw_same_card)
qed

lemma pmull_bit: "bit (pmull64_full a b) k \<longleftrightarrow> k < 128 \<and> product_coefficient a b k"
proof (cases "k < 128")
  case True
  have "{i. i < 64 \<and> i \<le> k \<and> bit b i \<and> bit a (k - i)} = {i. i \<le> k \<and> bit b i \<and> bit a (k - i)}"
    by (auto dest: bit_imp_le_length)
  then show ?thesis using pmull_fold_bit [OF True, of 64 b a] True by (simp add: pmull64_full_def product_coefficient_def)
qed (auto dest: bit_imp_le_length)

section \<open>Properties\<close>

text \<open>C31: the AES helpers that decrypt undo the ones that encrypt: for every state, the inverse of ShiftRows and SubBytes gives
  the state back, and MixColumns and its inverse are inverse to each other in both orders.\<close>

theorem aes_steps_invert:
  assumes "length st = 16"
  shows "aes_inv_subbytes_shiftrows (aes_subbytes_shiftrows st) = st \<and>
    aes_inv_mixcolumns (aes_mixcolumns st) = st \<and> aes_mixcolumns (aes_inv_mixcolumns st) = st"
proof -
  have "aes_inv_subbytes_shiftrows (aes_subbytes_shiftrows st) = st"
    using assms by (simp add: aes_inv_subbytes_shiftrows_def aes_subbytes_shiftrows_def inv_shiftrows_map shiftrows_inverse
      sbox_inverse map_idI)
  moreover have "aes_inv_mixcolumns (aes_mixcolumns st) = st" "aes_mixcolumns (aes_inv_mixcolumns st) = st"
    unfolding aes_inv_mixcolumns_def aes_mixcolumns_def
    by (rule each_column_inverse; simp add: assms inv_mix_column_inverse mix_column_inverse mix_lengths)+
  ultimately show ?thesis by simp
qed

theorem aes_steps_invert_witness:
  "aes_inv_mixcolumns (aes_mixcolumns (map of_nat [0..<16])) = map of_nat [0..<16]"
  using aes_steps_invert [of "map of_nat [0..<16]"] by simp


text \<open>The schedule helpers extend the message schedules of SHA-256 and SHA-512: from the previous sixteen words they compute
  the next four, respectively two, by the recurrence of the standard.\<close>

theorem sha2_helpers_extend_schedule:
  assumes "\<And>t. W (t + 16) = sha256_sig1 (W (t + 14)) + W (t + 9) + sha256_sig0 (W (t + 1)) + W t"
    "\<And>t. V (t + 16) = sha512_s1 (V (t + 14)) + V (t + 9) + sha512_s0 (V (t + 1)) + V t"
  shows "sha256su1_helper (sha256su0_helper (W t, W (t + 1), W (t + 2), W (t + 3)) (W (t + 4), W (t + 5), W (t + 6), W (t + 7)))
      (W (t + 8), W (t + 9), W (t + 10), W (t + 11)) (W (t + 12), W (t + 13), W (t + 14), W (t + 15)) =
      (W (t + 16), W (t + 17), W (t + 18), W (t + 19)) \<and>
    sha512su1_helper (sha512su0_helper (V t, V (t + 1)) (V (t + 2), V (t + 3))) (V (t + 14), V (t + 15)) (V (t + 9), V (t + 10)) =
      (V (t + 16), V (t + 17))"
proof -
  have w: "W (t + 16) = sha256_sig1 (W (t + 14)) + W (t + 9) + sha256_sig0 (W (t + 1)) + W t"
    "W (t + 17) = sha256_sig1 (W (t + 15)) + W (t + 10) + sha256_sig0 (W (t + 2)) + W (t + 1)"
    "W (t + 18) = sha256_sig1 (W (t + 16)) + W (t + 11) + sha256_sig0 (W (t + 3)) + W (t + 2)"
    "W (t + 19) = sha256_sig1 (W (t + 17)) + W (t + 12) + sha256_sig0 (W (t + 4)) + W (t + 3)"
    using assms(1) [of t] assms(1) [of "t + 1"] assms(1) [of "t + 2"] assms(1) [of "t + 3"] by (simp_all add: ac_simps)
  have v: "V (t + 16) = sha512_s1 (V (t + 14)) + V (t + 9) + sha512_s0 (V (t + 1)) + V t"
    "V (t + 17) = sha512_s1 (V (t + 15)) + V (t + 10) + sha512_s0 (V (t + 2)) + V (t + 1)"
    using assms(2) [of t] assms(2) [of "t + 1"] by (simp_all add: ac_simps)
  have d0: "W t + sha256_sig0 (W (t + 1)) + sha256_sig1 (W (t + 14)) + W (t + 9) = W (t + 16)"
    "W (t + 1) + sha256_sig0 (W (t + 2)) + sha256_sig1 (W (t + 15)) + W (t + 10) = W (t + 17)"
    by (simp_all only: w(1,2) ac_simps)
  have d1: "W (t + 2) + sha256_sig0 (W (t + 3)) + sha256_sig1 (W (t + 16)) + W (t + 11) = W (t + 18)"
    "W (t + 3) + sha256_sig0 (W (t + 4)) + sha256_sig1 (W (t + 17)) + W (t + 12) = W (t + 19)"
    by (simp_all only: w(3,4) ac_simps)
  have "V t + sha512_s0 (V (t + 1)) + sha512_s1 (V (t + 14)) + V (t + 9) = V (t + 16)"
    "V (t + 1) + sha512_s0 (V (t + 2)) + sha512_s1 (V (t + 15)) + V (t + 10) = V (t + 17)"
    by (simp_all only: v ac_simps)
  then show ?thesis unfolding sha256su0_helper.simps sha256su1_helper.simps sha512su0_helper.simps sha512su1_helper.simps Let_def d0 d1
    by simp
qed

theorem sha2_helpers_extend_schedule_witness:
  "sha256su1_helper (sha256su0_helper (0, 0, 0, 0) (0, 0, 0, 0)) (0, 0, 0, 0) (0, 0, 0, 0) = (0, 0, 0, 0) \<and>
   sha512su1_helper (sha512su0_helper (0, 0) (0, 0)) (0, 0) (0, 0) = (0, 0)"
proof -
  have "sha256_sig0 0 = 0" "sha256_sig1 0 = 0" "sha512_s0 0 = 0" "sha512_s1 0 = 0"
    by (simp_all add: sha256_sig0_def sha256_sig1_def sha512_s0_def sha512_s1_def rotr32_def ror64_def)
  then show ?thesis using sha2_helpers_extend_schedule [of "\<lambda>_. 0" "\<lambda>_. 0" 0] by simp
qed

text \<open>C33: the 64-bit polynomial multiplication computes every coefficient of the product of its operands, read as polynomials over the
  field with two elements, and is commutative.\<close>

theorem pmull_is_polynomial_product:
  "(\<forall>k. bit (pmull64_full a b) k = (k < 128 \<and> product_coefficient a b k)) \<and> pmull64_full a b = pmull64_full b a"
proof -
  have "pmull64_full a b = pmull64_full b a" by (rule bit_eqI) (simp add: pmull_bit product_coefficient_commute [of a b])
  then show ?thesis using pmull_bit by blast
qed

section \<open>Defects\<close>

text \<open>The last lane of SHA1SU1 must add the first one rotated by 2; the helper rotates by 3.\<close>

lemma sha1su1_rotates_too_far:
  "sha1su1_helper (1, 0, 0, 0) (0, 0, 0, 0) = (2, 0, 0, 8) \<and> rotl32 0 1 XOR rotl32 1 2 = 4"
  by (simp add: rotl32_def)

text \<open>The last lane of SM3PARTW1 must use the finished first lane; the helper uses its value before the permutation.\<close>

lemma sm3partw1_stale_lane:
  "\<exists>r0 r1 r2 r3. sm3partw1_helper (1, 0, 0, 0) (0, 0, 0, 0) (0, 0, 0, 0) = (r0, r1, r2, r3) \<and> r3 \<noteq> sm3_p1 (0 XOR rotl32 r0 15)"
  by (simp add: sm3_p1_def rotl32_def)

end
