(* ===== verification/Simd.thy ===== *)
theory Simd
  imports Crypto
begin

text \<open>
  The software versions of vector instructions (asbestos/guest-arm64/crypto_helpers.c): table lookup, shifts by an
  immediate, shift and insert, and permutations.  A vector is a list of 16 bytes, lane 0 in the first bytes, lanes
  little-endian.  Table lookup and the byte version of polynomial multiplication work on the register file, the 512 bytes
  of V0 to V31, because they depend on the registers being neighbours or the same.  Shifting a 32-bit or 64-bit lane by its
  width or more is undefined in C and gives \<^term>\<open>None\<close>; narrower lanes are promoted to \<^verbatim>\<open>int\<close>.
\<close>

section \<open>Lanes\<close>

definition lane :: "nat \<Rightarrow> byte list \<Rightarrow> nat \<Rightarrow> nat" where
  "lane k v i = le_nat (take k (drop (k * i) v))"

definition of_lanes :: "nat \<Rightarrow> nat list \<Rightarrow> byte list" where
  "of_lanes k xs = concat (map (le_bytes k) xs)"

text \<open>\<^verbatim>\<open>for (i = 0; i < count; i++) dst[i] = f(dst[i], src[i]);\<close> on lanes of \<^verbatim>\<open>k\<close> bytes.\<close>

definition update_lanes :: "nat \<Rightarrow> nat \<Rightarrow> (nat \<Rightarrow> nat \<Rightarrow> nat) \<Rightarrow> byte list \<Rightarrow> byte list \<Rightarrow> byte list" where
  "update_lanes k count f rd rn =
    of_lanes k (map (\<lambda>i. if i < count then f (lane k rd i) (lane k rn i) else lane k rd i) [0..<16 div k])"

definition clear_upper :: "byte list \<Rightarrow> byte list" where
  "clear_upper v = take 8 v @ replicate 8 0"

text \<open>A 64-bit operation (\<^verbatim>\<open>Q\<close> false) clears the upper half of its result.\<close>

definition store_result :: "byte list \<Rightarrow> bool \<Rightarrow> byte list" where
  "store_result result Q = (if Q then result else clear_upper result)"

definition signed_lane :: "nat \<Rightarrow> nat \<Rightarrow> int" where
  "signed_lane k x = (if x < 2 ^ (8 * k - 1) then int x else int x - 2 ^ (8 * k))"

definition count_lanes :: "nat \<Rightarrow> bool \<Rightarrow> nat" where
  "count_lanes k Q = (if Q then 16 else 8) div k"

definition shift_defined :: "nat \<Rightarrow> nat \<Rightarrow> bool" where
  "shift_defined k shift \<longleftrightarrow> shift < (if k = 8 then 64 else 32)"

section \<open>Shifts by an immediate\<close>

definition shl_imm_helper :: "byte list \<Rightarrow> byte list \<Rightarrow> nat \<Rightarrow> nat \<Rightarrow> bool \<Rightarrow> byte list option" where
  "shl_imm_helper rd rn shift esize Q =
    (if esize = 2 \<or> esize = 3 then
       let k = 2 ^ esize in
       if \<not> shift_defined k shift then None
       else let v = update_lanes k (count_lanes k Q) (\<lambda>_ x. x * 2 ^ shift) rd rn
         in Some (store_result v Q)
     else Some rd)"

definition ushr_imm_helper :: "byte list \<Rightarrow> byte list \<Rightarrow> nat \<Rightarrow> nat \<Rightarrow> bool \<Rightarrow> byte list option" where
  "ushr_imm_helper rd rn shift esize Q =
    (if esize \<le> 3 then
       let k = 2 ^ esize in
       if \<not> shift_defined k shift then None
       else let v = update_lanes k (count_lanes k Q) (\<lambda>_ x. x div 2 ^ shift) rd rn
         in Some (store_result v Q)
     else Some rd)"

definition sshr_lane :: "nat \<Rightarrow> nat \<Rightarrow> nat \<Rightarrow> nat" where
  "sshr_lane k shift x = nat ((signed_lane k x div 2 ^ shift) mod 2 ^ (8 * k))"

definition sshr_imm_helper :: "byte list \<Rightarrow> byte list \<Rightarrow> nat \<Rightarrow> nat \<Rightarrow> bool \<Rightarrow> byte list option" where
  "sshr_imm_helper rd rn shift esize Q =
    (if esize \<le> 3 then
       let k = 2 ^ esize in
       if \<not> shift_defined k shift then None
       else let v = update_lanes k (count_lanes k Q) (\<lambda>_ x. sshr_lane k shift x) rd rn
         in Some (store_result v Q)
     else Some rd)"

definition usra_imm_helper :: "byte list \<Rightarrow> byte list \<Rightarrow> nat \<Rightarrow> nat \<Rightarrow> bool \<Rightarrow> byte list option" where
  "usra_imm_helper rd rn shift esize Q =
    (if esize \<le> 3 then
       let k = 2 ^ esize in
       if \<not> shift_defined k shift then None
       else Some (update_lanes k (count_lanes k Q) (\<lambda>y x. y + x div 2 ^ shift) rd rn)
     else Some rd)"

text \<open>The sum of two lanes of 32 or 64 bits is computed on signed integers of that width, where overflow is undefined.\<close>

definition ssra_defined :: "nat \<Rightarrow> nat \<Rightarrow> bool \<Rightarrow> byte list \<Rightarrow> byte list \<Rightarrow> bool" where
  "ssra_defined k shift Q rd rn \<longleftrightarrow> shift_defined k shift \<and> (4 \<le> k \<longrightarrow>
    list_all (\<lambda>i. let r = signed_lane k (lane k rd i) + signed_lane k (lane k rn i) div 2 ^ shift
      in - (2 ^ (8 * k - 1)) \<le> r \<and> r < 2 ^ (8 * k - 1)) [0..<count_lanes k Q])"

definition ssra_imm_helper :: "byte list \<Rightarrow> byte list \<Rightarrow> nat \<Rightarrow> nat \<Rightarrow> bool \<Rightarrow> byte list option" where
  "ssra_imm_helper rd rn shift esize Q =
    (if esize \<le> 3 then
       let k = 2 ^ esize in
       if \<not> ssra_defined k shift Q rd rn then None
       else Some (update_lanes k (count_lanes k Q) (\<lambda>y x. y + sshr_lane k shift x) rd rn)
     else Some rd)"

definition usra_scalar_helper :: "64 word \<Rightarrow> 64 word \<Rightarrow> nat \<Rightarrow> 64 word option" where
  "usra_scalar_helper rd rn shift = (if shift < 64 then Some (rd + drop_bit shift rn) else None)"

definition ssra_scalar_helper :: "64 word \<Rightarrow> 64 word \<Rightarrow> nat \<Rightarrow> 64 word option" where
  "ssra_scalar_helper rd rn shift =
    (let r = sint rd + sint rn div 2 ^ shift in
     if shift < 64 \<and> - (2 ^ 63) \<le> r \<and> r < 2 ^ 63 then Some (of_int r) else None)"

section \<open>Shift and insert\<close>

definition lane_not :: "nat \<Rightarrow> nat \<Rightarrow> nat" where
  "lane_not k x = (2 ^ (8 * k) - 1) XOR x"

definition insert_bits :: "nat \<Rightarrow> nat \<Rightarrow> nat \<Rightarrow> nat \<Rightarrow> nat" where
  "insert_bits k m y shifted = (y AND lane_not k m) OR (shifted AND m)"

text \<open>The mask of SRI shifts by the lane width less the immediate, which must be in range as well.\<close>

definition sri_defined :: "nat \<Rightarrow> nat \<Rightarrow> bool" where
  "sri_defined k shift \<longleftrightarrow> shift_defined k shift \<and> shift \<le> 8 * k \<and> (k = 8 \<longrightarrow> 0 < shift)"

definition sri_imm_helper :: "byte list \<Rightarrow> byte list \<Rightarrow> nat \<Rightarrow> nat \<Rightarrow> bool \<Rightarrow> byte list option" where
  "sri_imm_helper rd rn shift esize Q =
    (if esize \<le> 3 then
       let k = 2 ^ esize; m = 2 ^ (8 * k - shift) - 1 in
       if \<not> sri_defined k shift then None
       else Some (update_lanes k (count_lanes k Q) (\<lambda>y x. insert_bits k m y (x div 2 ^ shift)) rd rn)
     else Some rd)"

text \<open>Lanes of 8 and 16 bits are shifted as \<^verbatim>\<open>int\<close>, which must hold the result.\<close>

definition sli_defined :: "nat \<Rightarrow> nat \<Rightarrow> bool \<Rightarrow> byte list \<Rightarrow> bool" where
  "sli_defined k shift Q rn \<longleftrightarrow> shift_defined k shift \<and> (k \<le> 2 \<longrightarrow> shift < 31 \<and>
    list_all (\<lambda>i. lane k rn i * 2 ^ shift < 2 ^ 31) [0..<count_lanes k Q])"

definition sli_imm_helper :: "byte list \<Rightarrow> byte list \<Rightarrow> nat \<Rightarrow> nat \<Rightarrow> bool \<Rightarrow> byte list option" where
  "sli_imm_helper rd rn shift esize Q =
    (if esize \<le> 3 then
       let k = 2 ^ esize; m = lane_not k ((2 ^ shift - 1) mod 2 ^ (8 * k)) in
       if \<not> sli_defined k shift Q rn then None
       else Some (update_lanes k (count_lanes k Q)
         (\<lambda>y x. insert_bits k m y (x * 2 ^ shift mod 2 ^ (8 * k))) rd rn)
     else Some rd)"

section \<open>Permutations\<close>

text \<open>
  The six permutations run the same loop: element \<^verbatim>\<open>q i\<close> of \<^verbatim>\<open>rn\<close> goes to element \<^verbatim>\<open>p i\<close> of the
  result and element \<^verbatim>\<open>q i\<close> of \<^verbatim>\<open>rm\<close> to element \<^verbatim>\<open>p' i\<close>, byte by byte.
\<close>

definition permute_loop ::
    "(nat \<Rightarrow> nat) \<Rightarrow> (nat \<Rightarrow> nat) \<Rightarrow> (nat \<Rightarrow> nat) \<Rightarrow> nat \<Rightarrow> nat \<Rightarrow> byte list \<Rightarrow> byte list \<Rightarrow> byte list" where
  "permute_loop p p' q esize half rn rm =
    fold (\<lambda>i. fold (\<lambda>b result.
        result[p i * esize + b := rn ! (q i * esize + b), p' i * esize + b := rm ! (q i * esize + b)])
      [0..<esize]) [0..<half] (replicate 16 0)"

definition elements :: "nat \<Rightarrow> bool \<Rightarrow> nat" where
  "elements sz Q = (if Q then 16 else 8) div 2 ^ sz"

definition uzp1_helper :: "byte list \<Rightarrow> byte list \<Rightarrow> nat \<Rightarrow> bool \<Rightarrow> byte list" where
  "uzp1_helper rn rm sz Q = (let half = elements sz Q div 2 in
    store_result (permute_loop (\<lambda>i. i) (\<lambda>i. half + i) (\<lambda>i. i * 2) (2 ^ sz) half rn rm) Q)"

definition uzp2_helper :: "byte list \<Rightarrow> byte list \<Rightarrow> nat \<Rightarrow> bool \<Rightarrow> byte list" where
  "uzp2_helper rn rm sz Q = (let half = elements sz Q div 2 in
    store_result (permute_loop (\<lambda>i. i) (\<lambda>i. half + i) (\<lambda>i. i * 2 + 1) (2 ^ sz) half rn rm) Q)"

definition trn1_helper :: "byte list \<Rightarrow> byte list \<Rightarrow> nat \<Rightarrow> bool \<Rightarrow> byte list" where
  "trn1_helper rn rm sz Q = (let half = elements sz Q div 2 in
    store_result (permute_loop (\<lambda>i. i * 2) (\<lambda>i. i * 2 + 1) (\<lambda>i. i * 2) (2 ^ sz) half rn rm) Q)"

definition trn2_helper :: "byte list \<Rightarrow> byte list \<Rightarrow> nat \<Rightarrow> bool \<Rightarrow> byte list" where
  "trn2_helper rn rm sz Q = (let half = elements sz Q div 2 in
    store_result (permute_loop (\<lambda>i. i * 2) (\<lambda>i. i * 2 + 1) (\<lambda>i. i * 2 + 1) (2 ^ sz) half rn rm) Q)"

definition zip1_helper :: "byte list \<Rightarrow> byte list \<Rightarrow> nat \<Rightarrow> bool \<Rightarrow> byte list" where
  "zip1_helper rn rm sz Q = (let half = elements sz Q div 2 in
    store_result (permute_loop (\<lambda>i. i * 2) (\<lambda>i. i * 2 + 1) (\<lambda>i. i) (2 ^ sz) half rn rm) Q)"

definition zip2_helper :: "byte list \<Rightarrow> byte list \<Rightarrow> nat \<Rightarrow> bool \<Rightarrow> byte list" where
  "zip2_helper rn rm sz Q = (let half = elements sz Q div 2 in
    store_result (permute_loop (\<lambda>i. i * 2) (\<lambda>i. i * 2 + 1) (\<lambda>i. half + i) (2 ^ sz) half rn rm) Q)"

section \<open>The register file\<close>

definition vreg :: "byte list \<Rightarrow> nat \<Rightarrow> byte list" where
  "vreg file r = take 16 (drop (16 * r) file)"

definition set_vreg :: "byte list \<Rightarrow> nat \<Rightarrow> byte list \<Rightarrow> byte list" where
  "set_vreg file r v = take (16 * r) file @ v @ drop (16 * r + 16) file"

text \<open>The byte of the table that an index below the table size selects; V0 follows V31.\<close>

definition table_byte :: "byte list \<Rightarrow> nat \<Rightarrow> nat \<Rightarrow> byte" where
  "table_byte file n index =
    (let table_reg = 16 * n + index div 16 * 16;
         table_reg = (if table_reg \<ge> 512 then table_reg - 512 else table_reg)
     in file ! (table_reg + index mod 16))"

definition tbl_helper :: "byte list \<Rightarrow> nat \<Rightarrow> nat \<Rightarrow> nat \<Rightarrow> nat \<Rightarrow> bool \<Rightarrow> byte list" where
  "tbl_helper file d n m len Q =
    (let result = map (\<lambda>i. let index = unat (vreg file m ! i) in
           if index < (len + 1) * 16 then table_byte file n index else 0) [0..<if Q then 16 else 8]
     in set_vreg file d (result @ (if Q then [] else replicate 8 0)))"

definition tbx_helper :: "byte list \<Rightarrow> nat \<Rightarrow> nat \<Rightarrow> nat \<Rightarrow> nat \<Rightarrow> bool \<Rightarrow> byte list" where
  "tbx_helper file d n m len Q =
    (let result = map (\<lambda>i. let index = unat (vreg file m ! i) in
           if index < (len + 1) * 16 then table_byte file n index else vreg file d ! i) [0..<if Q then 16 else 8]
     in set_vreg file d (result @ (if Q then [] else replicate 8 0)))"

definition pmull8 :: "byte \<Rightarrow> byte \<Rightarrow> 16 word" where
  "pmull8 a b = fold (\<lambda>j result. if bit b j then result XOR push_bit j (ucast a) else result) [0..<8] 0"

text \<open>The bytes are read from the register file while the halfwords are being written to it.\<close>

definition pmull_helper :: "byte list \<Rightarrow> nat \<Rightarrow> nat \<Rightarrow> nat \<Rightarrow> bool \<Rightarrow> nat \<Rightarrow> byte list" where
  "pmull_helper file d n m Q sz =
    (let hi = (if Q then 8 else 0) in
     if sz = 0 then
       fold (\<lambda>i file.
           let r = le_bytes 2 (unat (pmull8 (file ! (16 * n + hi + i)) (file ! (16 * m + hi + i))))
           in file[16 * d + 2 * i := r ! 0, 16 * d + 2 * i + 1 := r ! 1]) [0..<8] file
     else if sz = 3 then
       let a = of_nat (lane 8 (vreg file n) (if Q then 1 else 0));
           b = of_nat (lane 8 (vreg file m) (if Q then 1 else 0))
       in set_vreg file d (le_bytes 16 (unat (pmull64_full a b)))
     else file)"

end
