(* ===== verification/Simd_Laws.thy ===== *)
theory Simd_Laws
  imports Simd
begin

text \<open>
  What the vector helpers compute: each shift works lane by lane, each shift-and-insert replaces exactly the bits it is meant
  to, the permutations undo each other, and table lookup reads the concatenation of its table registers.
\<close>

section \<open>Lanes\<close>

lemma lane_less: "lane k v i < 2 ^ (8 * k)"
proof -
  have "le_nat (take k (drop (k * i) v)) < 256 ^ length (take k (drop (k * i) v))" by (rule le_nat_less)
  also have "\<dots> \<le> 256 ^ k" by (rule power_increasing) simp_all
  also have "(256 :: nat) ^ k = 2 ^ (8 * k)" by (simp add: power_mult)
  finally show ?thesis by (simp add: lane_def)
qed

lemma length_of_lanes [simp]: "length (of_lanes k xs) = k * length xs"
  by (induction xs) (simp_all add: of_lanes_def)

lemma lane_of_lanes [simp]: "i < length xs \<Longrightarrow> lane k (of_lanes k xs) i = xs ! i mod 2 ^ (8 * k)"
proof (induction xs arbitrary: i)
  case (Cons x xs)
  have p: "(256 :: nat) ^ k = 2 ^ (8 * k)" by (simp add: power_mult)
  show ?case
  proof (cases i)
    case 0
    then show ?thesis by (simp add: lane_def of_lanes_def p)
  next
    case (Suc j)
    then show ?thesis using Cons by (simp add: lane_def of_lanes_def)
  qed
qed simp

definition lane_size :: "nat \<Rightarrow> bool" where
  "lane_size k \<longleftrightarrow> k \<in> {1, 2, 4, 8}"

lemma lane_size_power [simp]: "esize \<le> 3 \<Longrightarrow> lane_size (2 ^ esize)"
  by (auto simp: lane_size_def le_Suc_eq numeral_3_eq_3)

lemma length_update_lanes [simp]: "lane_size k \<Longrightarrow> length (update_lanes k n f rd rn) = 16"
  by (auto simp: update_lanes_def lane_size_def)

lemma lane_update_lanes:
  "i < 16 div k \<Longrightarrow> lane k (update_lanes k n f rd rn) i =
    (if i < n then f (lane k rd i) (lane k rn i) mod 2 ^ (8 * k) else lane k rd i)"
  by (simp add: update_lanes_def lane_less)

lemma le_nat_zeros [simp]: "le_nat (replicate n 0) = 0"
  by (induction n) simp_all

lemma lane_clear_upper:
  assumes "lane_size k" "length v = 16" "i < 16 div k"
  shows "lane k (clear_upper v) i = (if i < count_lanes k False then lane k v i else 0)"
proof -
  have lo: "i < 8 div k \<Longrightarrow> k * i + k \<le> 8" and hi: "\<not> i < 8 div k \<Longrightarrow> 8 \<le> k * i"
    using assms(1) by (auto simp: lane_size_def)
  show ?thesis
  proof (cases "i < 8 div k")
    case True
    then show ?thesis using lo assms(2) by (simp add: lane_def clear_upper_def count_lanes_def drop_take min_def)
  next
    case False
    then show ?thesis using hi assms(2) by (simp add: lane_def clear_upper_def count_lanes_def)
  qed
qed

lemma count_lanes_less: "lane_size k \<Longrightarrow> \<not> Q \<Longrightarrow> i < count_lanes k Q \<Longrightarrow> i < 16 div k"
  by (auto simp: lane_size_def count_lanes_def)

lemma lane_shifted:
  assumes "lane_size k" "i < 16 div k"
  shows "lane k (store_result (update_lanes k (count_lanes k Q) f rd rn) Q) i =
    (if i < count_lanes k Q then f (lane k rd i) (lane k rn i) mod 2 ^ (8 * k) else 0)"
  using assms by (auto simp: store_result_def lane_clear_upper lane_update_lanes count_lanes_def)

lemma length_clear_upper [simp]: "8 \<le> length v \<Longrightarrow> length (clear_upper v) = 16"
  by (simp add: clear_upper_def)

lemma of_lanes_lanes: "length v = k * n \<Longrightarrow> of_lanes k (map (lane k v) [0..<n]) = v"
proof (induction n arbitrary: v)
  case (Suc n)
  have s: "map (lane k v) [0..<Suc n] = lane k v 0 # map (lane k (drop k v)) [0..<n]"
    by (simp add: lane_def upt_conv_Cons map_Suc_upt [symmetric] add.commute del: upt_Suc)
  have "length (take k v) = k" using Suc.prems by simp
  then have "le_bytes k (le_nat (take k v)) = take k v" using le_bytes_le_nat [of "take k v"] by simp
  then show ?case using Suc.IH [of "drop k v"] Suc.prems
    unfolding s of_lanes_def by (simp add: lane_def add.commute del: upt_Suc)
qed (simp add: of_lanes_def)

lemma vector_eqI:
  assumes "k * n = 16" "length v = 16" "length w = 16" "\<And>i. i < n \<Longrightarrow> lane k v i = lane k w i"
  shows "v = w"
proof -
  have "of_lanes k (map (lane k v) [0..<n]) = of_lanes k (map (lane k w) [0..<n])"
    using assms(4) by (intro arg_cong [of _ _ "of_lanes k"] map_cong) simp_all
  then show ?thesis using assms(1-3) by (simp add: of_lanes_lanes)
qed

section \<open>Shifts\<close>

lemma signed_lane_bounds:
  assumes "lane_size k" "x < 2 ^ (8 * k)"
  shows "- (2 ^ (8 * k - 1)) \<le> signed_lane k x" "signed_lane k x < 2 ^ (8 * k - 1)"
  using assms by (auto simp: lane_size_def signed_lane_def)

lemma signed_lane_of_int:
  assumes k: "lane_size k" and b: "- (2 ^ (8 * k - 1)) \<le> y" "y < 2 ^ (8 * k - 1)"
  shows "signed_lane k (nat (y mod 2 ^ (8 * k))) = y"
proof -
  let ?M = "2 ^ (8 * k) :: int"
  have M: "?M = 2 * 2 ^ (8 * k - 1)" using k by (auto simp: lane_size_def)
  have "y mod ?M = (if 0 \<le> y then y else y + ?M)"
  proof (cases "0 \<le> y")
    case True
    then show ?thesis using b M by (simp add: mod_pos_pos_trivial)
  next
    case False
    have "y mod ?M = (y + ?M) mod ?M" by simp
    also have "\<dots> = y + ?M" by (rule mod_pos_pos_trivial) (use False b M in linarith)+
    finally show ?thesis using False by simp
  qed
  then show ?thesis using b M by (auto simp: signed_lane_def nat_less_iff)
qed

lemma shr_bounds:
  fixes x :: int assumes "- b \<le> x" "x < b" "0 < b"
  shows "- b \<le> x div 2 ^ n" "x div 2 ^ n < b"
proof -
  show "x div 2 ^ n < b"
  proof (cases "0 \<le> x")
    case True
    then have "x div 2 ^ n \<le> x" by (simp add: div_le_dividend zdiv_mono2 [of x 1, simplified])
    then show ?thesis using assms by simp
  next
    case False
    then have "x div 2 ^ n < 0" by (simp add: div_neg_pos_less0)
    then show ?thesis using assms by simp
  qed
  show "- b \<le> x div 2 ^ n"
  proof (cases "0 \<le> x")
    case True
    then have "0 \<le> x div 2 ^ n" by (simp add: pos_imp_zdiv_nonneg_iff)
    then show ?thesis using assms by simp
  next
    case False
    then have "x \<le> x div 2 ^ n" by (simp add: zdiv_mono2_neg [of x 1, simplified])
    then show ?thesis using assms by simp
  qed
qed

lemma signed_sshr_lane:
  assumes "lane_size k" "x < 2 ^ (8 * k)"
  shows "signed_lane k (sshr_lane k n x) = signed_lane k x div 2 ^ n"
  unfolding sshr_lane_def using assms
  by (intro signed_lane_of_int shr_bounds signed_lane_bounds) simp_all

lemma sshr_lane_less: "sshr_lane k n x < 2 ^ (8 * k)"
  by (simp add: sshr_lane_def nat_less_iff)

text \<open>The shift helpers work lane by lane.  For every lane size and every immediate C defines, USHR leaves in each lane
  the unsigned quotient by the power of two, SSHR the signed quotient rounded down, SHL (lanes of 32 and 64 bits) the product
  modulo the lane; the lanes above the operand of a 64-bit operation are zero.\<close>

theorem shift_helpers_lanewise:
  assumes "length rd = 16" "esize \<le> 3" "k = 2 ^ esize" "shift_defined k shift" "i < 16 div k"
  shows "map_option (\<lambda>v. lane k v i) (ushr_imm_helper rd rn shift esize Q) =
      Some (if i < count_lanes k Q then lane k rn i div 2 ^ shift else 0) \<and>
    map_option (\<lambda>v. signed_lane k (lane k v i)) (sshr_imm_helper rd rn shift esize Q) =
      Some (if i < count_lanes k Q then signed_lane k (lane k rn i) div 2 ^ shift else 0) \<and>
    (2 \<le> esize \<longrightarrow> map_option (\<lambda>v. lane k v i) (shl_imm_helper rd rn shift esize Q) =
      Some (if i < count_lanes k Q then lane k rn i * 2 ^ shift mod 2 ^ (8 * k) else 0))"
proof (intro conjI impI)
  have k: "lane_size k" using assms by simp
  note [simp] = Let_def lane_shifted [OF k assms(5)]
  have le: "lane k rn i div 2 ^ shift < 2 ^ (8 * k)"
    by (rule le_less_trans [OF div_le_dividend lane_less])
  show "map_option (\<lambda>v. lane k v i) (ushr_imm_helper rd rn shift esize Q) =
      Some (if i < count_lanes k Q then lane k rn i div 2 ^ shift else 0)"
    using assms(2,4) le by (simp add: ushr_imm_helper_def flip: assms(3))
  have z: "signed_lane k 0 = 0" by (simp add: signed_lane_def)
  show "map_option (\<lambda>v. signed_lane k (lane k v i)) (sshr_imm_helper rd rn shift esize Q) =
      Some (if i < count_lanes k Q then signed_lane k (lane k rn i) div 2 ^ shift else 0)"
    using assms(2,4) k by (simp add: sshr_imm_helper_def sshr_lane_less signed_sshr_lane lane_less z flip: assms(3))
  assume "2 \<le> esize"
  then have "esize = 2 \<or> esize = 3" using assms(2) by arith
  then show "map_option (\<lambda>v. lane k v i) (shl_imm_helper rd rn shift esize Q) =
      Some (if i < count_lanes k Q then lane k rn i * 2 ^ shift mod 2 ^ (8 * k) else 0)"
    using assms(4) by (simp add: shl_imm_helper_def flip: assms(3))
qed

theorem shift_helpers_lanewise_witness:
  "sshr_imm_helper (replicate 16 0) (replicate 8 0 @ replicate 8 128) 3 0 True \<noteq> None \<and>
    map_option (\<lambda>v. signed_lane 1 (lane 1 v 9)) (sshr_imm_helper (replicate 16 0) (replicate 8 0 @ replicate 8 128) 3 0 True) = Some (- 16)"
  using shift_helpers_lanewise [of "replicate 16 0" 0 1 3 9 "replicate 8 0 @ replicate 8 128" True]
  by (auto simp: shift_defined_def count_lanes_def signed_lane_def lane_def)

text \<open>A shift by the whole width, which USHR, SSHR, USRA and SSRA encode, reaches a C shift that is undefined.\<close>

lemma shift_by_width_undefined:
  "ushr_imm_helper rd rn 64 3 Q = None" "sshr_imm_helper rd rn 32 2 Q = None" "usra_imm_helper rd rn 64 3 Q = None"
  "usra_scalar_helper x y 64 = None"
  by (simp_all add: ushr_imm_helper_def sshr_imm_helper_def usra_imm_helper_def usra_scalar_helper_def shift_defined_def)

text \<open>The accumulating shifts leave the upper half of the destination of a 64-bit operation in place.\<close>

lemma usra_keeps_upper:
  assumes "esize \<le> 3" "k = 2 ^ esize" "usra_imm_helper rd rn shift esize False = Some v" "8 div k \<le> i" "i < 16 div k"
  shows "lane k v i = lane k rd i"
  using assms by (auto simp: usra_imm_helper_def Let_def lane_update_lanes count_lanes_def split: if_splits)

section \<open>Shift and insert\<close>

lemma bit_below: "(x :: nat) < 2 ^ n \<Longrightarrow> bit x j \<Longrightarrow> j < n"
  by (rule ccontr) (simp add: bit_iff_odd div_eq_0_iff less_le_trans [OF _ power_increasing])

lemma bit_ones: "bit ((2 :: nat) ^ n - 1) j \<longleftrightarrow> j < n"
  using bit_mask_iff [of n j, where 'a = nat] by (simp add: mask_eq_exp_minus_1)

lemma bit_insert_bits:
  assumes "y < 2 ^ (8 * k)"
  shows "bit (insert_bits k m y s) j \<longleftrightarrow> (if bit m j then bit s j else bit y j)"
  using bit_below [OF assms, of j]
  by (auto simp: insert_bits_def lane_not_def bit_and_iff bit_or_iff bit_xor_iff bit_ones simp del: One_nat_def)

lemma insert_bits_less:
  assumes "y < 2 ^ (8 * k)" "s < 2 ^ (8 * k)"
  shows "insert_bits k m y s < 2 ^ (8 * k)"
proof -
  have "take_bit (8 * k) (insert_bits k m y s) = insert_bits k m y s"
    by (intro bit_eqI)
      (auto simp: bit_take_bit_iff bit_insert_bits [OF assms(1)] dest: bit_below [OF assms(1)] bit_below [OF assms(2)])
  then show ?thesis by (simp add: take_bit_nat_eq_self_iff)
qed

lemma bit_shr: "bit ((x :: nat) div 2 ^ n) j \<longleftrightarrow> bit x (j + n)"
  by (simp add: bit_drop_bit_eq add.commute flip: drop_bit_eq_div)

lemma bit_shl: "bit ((x :: nat) * 2 ^ n mod 2 ^ w) j \<longleftrightarrow> j < w \<and> n \<le> j \<and> bit x (j - n)"
  by (auto simp: bit_take_bit_iff bit_push_bit_iff_nat simp flip: take_bit_eq_mod push_bit_eq_mult)

lemma sri_lane:
  assumes "y < 2 ^ (8 * k)" "x < 2 ^ (8 * k)" "j < 8 * k"
  shows "bit (insert_bits k (2 ^ (8 * k - n) - 1) y (x div 2 ^ n) mod 2 ^ (8 * k)) j \<longleftrightarrow>
    (if j + n < 8 * k then bit x (j + n) else bit y j)"
proof -
  have "x div 2 ^ n < 2 ^ (8 * k)" by (rule le_less_trans [OF div_le_dividend assms(2)])
  then have "insert_bits k (2 ^ (8 * k - n) - 1) y (x div 2 ^ n) < 2 ^ (8 * k)"
    by (rule insert_bits_less [OF assms(1)])
  then show ?thesis
    by (simp add: bit_insert_bits [OF assms(1)] bit_ones bit_shr less_diff_conv del: One_nat_def)
qed

lemma sli_lane:
  assumes "y < 2 ^ (8 * k)" "n < 8 * k" "j < 8 * k"
  shows "bit (insert_bits k (lane_not k ((2 ^ n - 1) mod 2 ^ (8 * k))) y (x * 2 ^ n mod 2 ^ (8 * k)) mod 2 ^ (8 * k)) j \<longleftrightarrow>
    (if n \<le> j then bit x (j - n) else bit y j)"
proof -
  have "(2 :: nat) ^ n - 1 < 2 ^ n" by simp
  also have "\<dots> < 2 ^ (8 * k)" using assms(2) by simp
  finally have m: "((2 :: nat) ^ n - 1) mod 2 ^ (8 * k) = 2 ^ n - 1" by simp
  have b: "bit (lane_not k (2 ^ n - 1)) j \<longleftrightarrow> n \<le> j"
    using assms(2,3) by (auto simp: lane_not_def bit_xor_iff bit_ones simp del: One_nat_def)
  have "insert_bits k (lane_not k (2 ^ n - 1)) y (x * 2 ^ n mod 2 ^ (8 * k)) < 2 ^ (8 * k)"
    by (rule insert_bits_less [OF assms(1)]) simp
  then show ?thesis using assms(3) by (simp add: m bit_insert_bits [OF assms(1)] b bit_shl del: One_nat_def)
qed

lemma sli_shift_fits:
  assumes "lane_size k" "n < 8 * k"
  shows "sli_defined k n Q rn"
proof -
  have "lane k rn i * 2 ^ n < 2 ^ 31" if "k \<le> 2" for i
  proof -
    have "lane k rn i * 2 ^ n < 2 ^ (8 * k) * 2 ^ n" using lane_less by simp
    also have "\<dots> = (2 :: nat) ^ (8 * k + n)" by (simp add: power_add)
    also have "\<dots> \<le> 2 ^ 31" by (rule power_increasing) (use assms(2) that in simp_all)
    finally show ?thesis .
  qed
  then show ?thesis using assms by (auto simp: sli_defined_def shift_defined_def lane_size_def list_all_iff)
qed

text \<open>SRI and SLI replace exactly the bits the shift delivers.  For every lane size and every immediate C defines, bit \<^term>\<open>j\<close>
  of a lane becomes the source bit \<^term>\<open>j + shift\<close> (SRI) or \<^term>\<open>j - shift\<close> (SLI) where the source has that bit, and every
  other bit of the destination, including all lanes above the operand, stays.\<close>

theorem insert_helpers_bits:
  assumes "esize \<le> 3" "k = 2 ^ esize" "shift < 8 * k" "0 < shift" "i < 16 div k" "j < 8 * k"
  shows "map_option (\<lambda>v. bit (lane k v i) j) (sri_imm_helper rd rn shift esize Q) =
      Some (if i < count_lanes k Q \<and> j + shift < 8 * k then bit (lane k rn i) (j + shift) else bit (lane k rd i) j) \<and>
    map_option (\<lambda>v. bit (lane k v i) j) (sli_imm_helper rd rn shift esize Q) =
      Some (if i < count_lanes k Q \<and> shift \<le> j then bit (lane k rn i) (j - shift) else bit (lane k rd i) j)"
proof
  have k: "lane_size k" using assms(1,2) by simp
  have "shift_defined k shift" using k assms(3) by (auto simp: shift_defined_def lane_size_def)
  then have d: "sri_defined k shift" using assms(3,4) by (simp add: sri_defined_def)
  show "map_option (\<lambda>v. bit (lane k v i) j) (sri_imm_helper rd rn shift esize Q) =
      Some (if i < count_lanes k Q \<and> j + shift < 8 * k then bit (lane k rn i) (j + shift) else bit (lane k rd i) j)"
    using d assms(1) by (simp add: sri_imm_helper_def Let_def lane_update_lanes [OF assms(5)]
      sri_lane [OF lane_less lane_less assms(6)] del: One_nat_def flip: assms(2))
  show "map_option (\<lambda>v. bit (lane k v i) j) (sli_imm_helper rd rn shift esize Q) =
      Some (if i < count_lanes k Q \<and> shift \<le> j then bit (lane k rn i) (j - shift) else bit (lane k rd i) j)"
    using sli_shift_fits [OF k assms(3)] assms(1) by (simp add: sli_imm_helper_def Let_def lane_update_lanes [OF assms(5)]
      sli_lane [OF lane_less assms(3,6)] del: One_nat_def flip: assms(2))
qed

theorem insert_helpers_bits_witness:
  "map_option (\<lambda>v. bit (lane 1 v 1) 3) (sri_imm_helper (replicate 16 0) (replicate 16 128) 4 0 False) = Some True \<and>
    map_option (\<lambda>v. bit (lane 1 v 1) 3) (sli_imm_helper (replicate 16 255) (replicate 16 0) 4 0 False) = Some True"
  using insert_helpers_bits [of 0 1 4 1 3 "replicate 16 0" "replicate 16 128" False]
    insert_helpers_bits [of 0 1 4 1 3 "replicate 16 255" "replicate 16 0" False]
  by (simp add: count_lanes_def lane_def bit_iff_odd)

section \<open>Permutations\<close>

definition put_bytes :: "(nat \<times> byte) list \<Rightarrow> byte list \<Rightarrow> byte list" where
  "put_bytes = fold (\<lambda>(j, x) r. r[j := x])"

lemma length_put_bytes [simp]: "length (put_bytes ws r) = length r"
  by (induction ws arbitrary: r) (auto simp: put_bytes_def)

lemma put_bytes_other: "j \<notin> fst ` set ws \<Longrightarrow> put_bytes ws r ! j = r ! j"
  by (induction ws arbitrary: r) (auto simp: put_bytes_def)

lemma put_bytes_at:
  assumes "(j, x) \<in> set ws" "\<And>y. (j, y) \<in> set ws \<Longrightarrow> y = x" "j < length r"
  shows "put_bytes ws r ! j = x"
  using assms
proof (induction ws arbitrary: r)
  case (Cons w ws)
  obtain l y where w: "w = (l, y)" by (cases w)
  show ?case
  proof (cases "\<exists>z. (j, z) \<in> set ws")
    case True
    then have "(j, x) \<in> set ws" by (metis Cons.prems(2) list.set_intros(2))
    then have "put_bytes ws (r[l := y]) ! j = x" by (rule Cons.IH) (auto intro: Cons.prems)
    then show ?thesis by (simp add: put_bytes_def w)
  next
    case False
    then have "j \<notin> fst ` set ws" by force
    moreover have "l = j \<and> y = x" using False Cons.prems(1) w by auto
    ultimately show ?thesis using put_bytes_other [of j ws] Cons.prems(3) by (simp add: put_bytes_def w)
  qed
qed simp

definition permute_writes ::
    "(nat \<Rightarrow> nat) \<Rightarrow> (nat \<Rightarrow> nat) \<Rightarrow> (nat \<Rightarrow> nat) \<Rightarrow> nat \<Rightarrow> nat \<Rightarrow> byte list \<Rightarrow> byte list \<Rightarrow> (nat \<times> byte) list" where
  "permute_writes p p' q k h rn rm = concat (map (\<lambda>i. concat (map (\<lambda>b.
    [(p i * k + b, rn ! (q i * k + b)), (p' i * k + b, rm ! (q i * k + b))]) [0..<k])) [0..<h])"

lemma put_bytes_concat: "put_bytes (concat wss) = fold put_bytes wss"
  by (induction wss) (auto simp: put_bytes_def)

lemma permute_loop_writes: "permute_loop p p' q k h rn rm = put_bytes (permute_writes p p' q k h rn rm) (replicate 16 0)"
  by (simp add: permute_loop_def permute_writes_def put_bytes_concat fold_map comp_def)
     (simp add: put_bytes_def comp_def)

lemma permute_writes_iff:
  "(j, y) \<in> set (permute_writes p p' q k h rn rm) \<longleftrightarrow> (\<exists>i<h. \<exists>b<k.
    j = p i * k + b \<and> y = rn ! (q i * k + b) \<or> j = p' i * k + b \<and> y = rm ! (q i * k + b))"
  by (force simp: permute_writes_def)

lemma same_lane: "b < k \<Longrightarrow> c < k \<Longrightarrow> x * k + b = y * k + c \<longleftrightarrow> x = y \<and> b = (c :: nat)"
  by (metis div_mult_self3 div_less add_0_right mod_mult_self3 mod_less less_nat_zero_code)

lemma lane_eq_nth:
  assumes "length v = 16" "length w = 16" "k * x + k \<le> 16" "k * y + k \<le> 16" "\<And>b. b < k \<Longrightarrow> v ! (x * k + b) = w ! (y * k + b)"
  shows "lane k v x = lane k w y"
proof -
  have "take k (drop (k * x) v) = take k (drop (k * y) w)"
    using assms by (intro nth_equalityI) (auto simp: mult.commute)
  then show ?thesis by (simp add: lane_def)
qed

lemma lane_permute:
  assumes inj: "inj_on p {..<h}" "inj_on p' {..<h}" and dis: "\<And>i j. i < h \<Longrightarrow> j < h \<Longrightarrow> p i \<noteq> p' j"
    and n: "k * n \<le> 16" "\<And>i. i < h \<Longrightarrow> p i < n \<and> p' i < n \<and> q i < n"
    and l: "length rn = 16" "length rm = 16" and i: "i < h"
  shows "lane k (permute_loop p p' q k h rn rm) (p i) = lane k rn (q i)"
    and "lane k (permute_loop p p' q k h rn rm) (p' i) = lane k rm (q i)"
proof -
  let ?ws = "permute_writes p p' q k h rn rm"
  have b: "k * x + k \<le> 16" if "x < n" for x
    using n(1) mult_le_mono2 [of "Suc x" n k] that by simp
  have len: "length (permute_loop p p' q k h rn rm) = 16" by (simp add: permute_loop_writes)
  have m: "(p i * k + b, rn ! (q i * k + b)) \<in> set ?ws" "(p' i * k + b, rm ! (q i * k + b)) \<in> set ?ws" if "b < k" for b
    using that i unfolding permute_writes_iff by blast+
  have u: "y = rn ! (q i * k + b)" if "(p i * k + b, y) \<in> set ?ws" "b < k" for b y
    using that i inj_onD [OF inj(1)] dis unfolding permute_writes_iff by (metis lessThan_iff same_lane)
  have u': "y = rm ! (q i * k + b)" if "(p' i * k + b, y) \<in> set ?ws" "b < k" for b y
    using that i inj_onD [OF inj(2)] dis unfolding permute_writes_iff by (metis lessThan_iff same_lane)
  have pb: "x * k + b < 16" if "x < n" "b < k" for x b
    using b [OF that(1)] that(2) by (simp add: mult.commute)
  show "lane k (permute_loop p p' q k h rn rm) (p i) = lane k rn (q i)"
    using n(2) [OF i] pb by (intro lane_eq_nth len l b) (simp_all add: permute_loop_writes put_bytes_at [OF m(1) u])
  show "lane k (permute_loop p p' q k h rn rm) (p' i) = lane k rm (q i)"
    using n(2) [OF i] pb by (intro lane_eq_nth len l b) (simp_all add: permute_loop_writes put_bytes_at [OF m(2) u'])
qed

lemma elements_even: "sz \<le> 3 \<Longrightarrow> sz \<le> 2 \<or> Q \<Longrightarrow> 2 * (elements sz Q div 2) = elements sz Q"
proof -
  assume "sz \<le> 3" "sz \<le> 2 \<or> Q"
  then have "sz = 0 \<or> sz = 1 \<or> sz = 2 \<or> sz = 3 \<and> Q" by arith
  then show ?thesis by (auto simp: elements_def)
qed

lemma elements_fit: "2 ^ sz * (2 * (elements sz Q div 2)) \<le> 16"
proof -
  have "2 ^ sz * (2 * (elements sz Q div 2)) \<le> 2 ^ sz * elements sz Q" by simp
  also have "\<dots> \<le> (if Q then 16 else 8)" unfolding elements_def by (rule times_div_less_eq_dividend)
  finally show ?thesis by (simp split: if_splits)
qed

lemma lane_store_result:
  assumes "lane_size k" "length v = 16" "i < 16 div k"
  shows "lane k (store_result v Q) i = (if i < count_lanes k Q then lane k v i else 0)"
  using assms by (auto simp: store_result_def lane_clear_upper count_lanes_def)

lemma elements_count: "elements sz Q = count_lanes (2 ^ sz) Q" "count_lanes k Q \<le> 16 div k"
  by (auto simp: elements_def count_lanes_def div_le_mono)

lemma length_permuted [simp]: "length (permute_loop p p' q k h rn rm) = 16" "length v = 16 \<Longrightarrow> length (store_result v Q) = 16"
  by (simp_all add: permute_loop_writes store_result_def)

text \<open>What each permutation moves where: \<^verbatim>\<open>h\<close> is half the number of elements.\<close>

lemma permuted_lane:
  assumes "sz \<le> 3" "h = elements sz Q div 2" "x < 2 * h"
  shows "lane (2 ^ sz) (store_result (permute_loop p p' q (2 ^ sz) h rn rm) Q) x =
    lane (2 ^ sz) (permute_loop p p' q (2 ^ sz) h rn rm) x"
proof -
  have "x < count_lanes (2 ^ sz) Q" using assms by (simp add: elements_count)
  moreover have "x < 16 div 2 ^ sz" by (rule less_le_trans [OF calculation elements_count(2)])
  ultimately show ?thesis using assms(1) by (simp add: lane_store_result)
qed

lemma interleaved_lanes:
  assumes "sz \<le> 3" "h = elements sz Q div 2" "length rn = 16" "length rm = 16" "i < h" "\<And>i. i < h \<Longrightarrow> q i < 2 * h"
  shows "lane (2 ^ sz) (store_result (permute_loop (\<lambda>i. i * 2) (\<lambda>i. i * 2 + 1) q (2 ^ sz) h rn rm) Q) (i * 2) = lane (2 ^ sz) rn (q i)"
    "lane (2 ^ sz) (store_result (permute_loop (\<lambda>i. i * 2) (\<lambda>i. i * 2 + 1) q (2 ^ sz) h rn rm) Q) (i * 2 + 1) = lane (2 ^ sz) rm (q i)"
proof -
  have n: "2 ^ sz * (2 * h) \<le> 16" using elements_fit assms(2) by simp
  have b: "j * 2 < 2 * h \<and> j * 2 + 1 < 2 * h \<and> q j < 2 * h" if "j < h" for j using that assms(6) by simp
  have d: "j * 2 \<noteq> j' * 2 + 1" for j j' :: nat by presburger
  have p: "inj_on (\<lambda>i. i * 2) {..<h}" "inj_on (\<lambda>i. i * 2 + 1) {..<h}" by (simp_all add: inj_on_def)
  note step = lane_permute [OF p d n b assms(3,4,5)]
  show "lane (2 ^ sz) (store_result (permute_loop (\<lambda>i. i * 2) (\<lambda>i. i * 2 + 1) q (2 ^ sz) h rn rm) Q) (i * 2) = lane (2 ^ sz) rn (q i)"
    using step(1) permuted_lane [OF assms(1,2)] b [OF assms(5)] by simp
  show "lane (2 ^ sz) (store_result (permute_loop (\<lambda>i. i * 2) (\<lambda>i. i * 2 + 1) q (2 ^ sz) h rn rm) Q) (i * 2 + 1) = lane (2 ^ sz) rm (q i)"
    using step(2) permuted_lane [OF assms(1,2)] b [OF assms(5)] by simp
qed

lemma halved_lanes:
  assumes "sz \<le> 3" "h = elements sz Q div 2" "length rn = 16" "length rm = 16" "i < h" "\<And>i. i < h \<Longrightarrow> q i < 2 * h"
  shows "lane (2 ^ sz) (store_result (permute_loop (\<lambda>i. i) (\<lambda>i. h + i) q (2 ^ sz) h rn rm) Q) i = lane (2 ^ sz) rn (q i)"
    "lane (2 ^ sz) (store_result (permute_loop (\<lambda>i. i) (\<lambda>i. h + i) q (2 ^ sz) h rn rm) Q) (h + i) = lane (2 ^ sz) rm (q i)"
proof -
  have n: "2 ^ sz * (2 * h) \<le> 16" using elements_fit assms(2) by simp
  have b: "j < 2 * h \<and> h + j < 2 * h \<and> q j < 2 * h" if "j < h" for j using that assms(6) by simp
  have d: "j \<noteq> h + j'" if "j < h" for j j' :: nat using that by simp
  have p: "inj_on (\<lambda>i. i) {..<h}" "inj_on (\<lambda>i. h + i) {..<h}" by (simp_all add: inj_on_def)
  note step = lane_permute [OF p d n b assms(3,4,5)]
  show "lane (2 ^ sz) (store_result (permute_loop (\<lambda>i. i) (\<lambda>i. h + i) q (2 ^ sz) h rn rm) Q) i = lane (2 ^ sz) rn (q i)"
    using step(1) permuted_lane [OF assms(1,2)] b [OF assms(5)] by simp
  show "lane (2 ^ sz) (store_result (permute_loop (\<lambda>i. i) (\<lambda>i. h + i) q (2 ^ sz) h rn rm) Q) (h + i) = lane (2 ^ sz) rm (q i)"
    using step(2) permuted_lane [OF assms(1,2)] b [OF assms(5)] by simp
qed

lemma permutation_lanes:
  assumes "sz \<le> 3" "h = elements sz Q div 2" "length rn = 16" "length rm = 16" "i < h"
  shows "lane (2 ^ sz) (zip1_helper rn rm sz Q) (i * 2) = lane (2 ^ sz) rn i"
    "lane (2 ^ sz) (zip1_helper rn rm sz Q) (i * 2 + 1) = lane (2 ^ sz) rm i"
    "lane (2 ^ sz) (zip2_helper rn rm sz Q) (i * 2) = lane (2 ^ sz) rn (h + i)"
    "lane (2 ^ sz) (zip2_helper rn rm sz Q) (i * 2 + 1) = lane (2 ^ sz) rm (h + i)"
    "lane (2 ^ sz) (trn1_helper rn rm sz Q) (i * 2) = lane (2 ^ sz) rn (i * 2)"
    "lane (2 ^ sz) (trn1_helper rn rm sz Q) (i * 2 + 1) = lane (2 ^ sz) rm (i * 2)"
    "lane (2 ^ sz) (trn2_helper rn rm sz Q) (i * 2) = lane (2 ^ sz) rn (i * 2 + 1)"
    "lane (2 ^ sz) (trn2_helper rn rm sz Q) (i * 2 + 1) = lane (2 ^ sz) rm (i * 2 + 1)"
    "lane (2 ^ sz) (uzp1_helper rn rm sz Q) i = lane (2 ^ sz) rn (i * 2)"
    "lane (2 ^ sz) (uzp1_helper rn rm sz Q) (h + i) = lane (2 ^ sz) rm (i * 2)"
    "lane (2 ^ sz) (uzp2_helper rn rm sz Q) i = lane (2 ^ sz) rn (i * 2 + 1)"
    "lane (2 ^ sz) (uzp2_helper rn rm sz Q) (h + i) = lane (2 ^ sz) rm (i * 2 + 1)"
  unfolding zip1_helper_def zip2_helper_def trn1_helper_def trn2_helper_def uzp1_helper_def uzp2_helper_def
    Let_def assms(2) [symmetric]
  by (rule interleaved_lanes [OF assms] halved_lanes [OF assms]; simp)+

lemma permuted_length [simp]:
  "length (zip1_helper rn rm sz Q) = 16" "length (zip2_helper rn rm sz Q) = 16"
  "length (trn1_helper rn rm sz Q) = 16" "length (trn2_helper rn rm sz Q) = 16"
  "length (uzp1_helper rn rm sz Q) = 16" "length (uzp2_helper rn rm sz Q) = 16"
  by (simp_all add: zip1_helper_def zip2_helper_def trn1_helper_def trn2_helper_def uzp1_helper_def uzp2_helper_def Let_def)

lemma stored_again [simp]: "length v = 16 \<Longrightarrow> store_result (store_result v Q) Q = store_result v Q"
  by (simp add: store_result_def clear_upper_def)

lemma stored_permuted:
  "store_result (zip1_helper rn rm sz Q) Q = zip1_helper rn rm sz Q" "store_result (zip2_helper rn rm sz Q) Q = zip2_helper rn rm sz Q"
  "store_result (trn1_helper rn rm sz Q) Q = trn1_helper rn rm sz Q" "store_result (trn2_helper rn rm sz Q) Q = trn2_helper rn rm sz Q"
  "store_result (uzp1_helper rn rm sz Q) Q = uzp1_helper rn rm sz Q" "store_result (uzp2_helper rn rm sz Q) Q = uzp2_helper rn rm sz Q"
  by (simp_all add: zip1_helper_def zip2_helper_def trn1_helper_def trn2_helper_def uzp1_helper_def uzp2_helper_def Let_def)

lemma stored_eqI:
  assumes sz: "sz \<le> 3" "sz \<le> 2 \<or> Q" and l: "length v = 16" "length w = 16"
    and eq: "\<And>x. x < 2 * (elements sz Q div 2) \<Longrightarrow> lane (2 ^ sz) v x = lane (2 ^ sz) w x"
  shows "store_result v Q = store_result w Q"
proof (rule vector_eqI)
  have "sz = 0 \<or> sz = 1 \<or> sz = 2 \<or> sz = 3" using sz(1) by arith
  then show "2 ^ sz * (16 div 2 ^ sz) = (16 :: nat)" by auto
  have "2 * (elements sz Q div 2) = count_lanes (2 ^ sz) Q"
    using elements_even [OF sz] by (simp add: elements_count)
  then show "lane (2 ^ sz) (store_result v Q) i = lane (2 ^ sz) (store_result w Q) i" if "i < 16 div 2 ^ sz" for i
    using that eq [of i] sz(1) l by (auto simp: lane_store_result)
qed (use l in simp_all)

lemma split_half: "x < 2 * h \<Longrightarrow> (\<And>i. i < h \<Longrightarrow> x = i \<Longrightarrow> P) \<Longrightarrow> (\<And>i. i < h \<Longrightarrow> x = h + i \<Longrightarrow> P) \<Longrightarrow> (P :: bool)" for x :: nat
  by (cases "x < h") (auto dest: le_Suc_ex simp: not_less)

lemma split_parity: "x < 2 * h \<Longrightarrow> (\<And>i. i < h \<Longrightarrow> x = i * 2 \<Longrightarrow> P) \<Longrightarrow> (\<And>i. i < h \<Longrightarrow> x = i * 2 + 1 \<Longrightarrow> P) \<Longrightarrow> (P :: bool)" for x :: nat
  by (cases "even x") (auto elim!: evenE oddE simp: mult.commute)

text \<open>C34: The permutations undo each other.  For every element size of a 64-bit or 128-bit operation, unzipping the two halves
  of a zip gives the operands back, zipping the two halves of an unzip does too, and transposing twice is the identity.  (A 64-bit
  operation keeps only the low halves.)\<close>

theorem permutations_invert:
  assumes "sz \<le> 3" "sz \<le> 2 \<or> Q" "length rn = 16" "length rm = 16"
  shows "uzp1_helper (zip1_helper rn rm sz Q) (zip2_helper rn rm sz Q) sz Q = store_result rn Q \<and>
    uzp2_helper (zip1_helper rn rm sz Q) (zip2_helper rn rm sz Q) sz Q = store_result rm Q \<and>
    zip1_helper (uzp1_helper rn rm sz Q) (uzp2_helper rn rm sz Q) sz Q = store_result rn Q \<and>
    zip2_helper (uzp1_helper rn rm sz Q) (uzp2_helper rn rm sz Q) sz Q = store_result rm Q \<and>
    trn1_helper (trn1_helper rn rm sz Q) (trn2_helper rn rm sz Q) sz Q = store_result rn Q \<and>
    trn2_helper (trn1_helper rn rm sz Q) (trn2_helper rn rm sz Q) sz Q = store_result rm Q"
proof -
  let ?h = "elements sz Q div 2"
  note lanes = permutation_lanes [OF assms(1) refl] assms(3,4)
  have "store_result (uzp1_helper (zip1_helper rn rm sz Q) (zip2_helper rn rm sz Q) sz Q) Q = store_result rn Q"
    "store_result (uzp2_helper (zip1_helper rn rm sz Q) (zip2_helper rn rm sz Q) sz Q) Q = store_result rm Q"
    by (intro stored_eqI [OF assms(1,2)] permuted_length assms(3,4), erule split_half; simp add: lanes del: One_nat_def add_Suc_right)+
  moreover have "store_result (zip1_helper (uzp1_helper rn rm sz Q) (uzp2_helper rn rm sz Q) sz Q) Q = store_result rn Q"
    "store_result (zip2_helper (uzp1_helper rn rm sz Q) (uzp2_helper rn rm sz Q) sz Q) Q = store_result rm Q"
    "store_result (trn1_helper (trn1_helper rn rm sz Q) (trn2_helper rn rm sz Q) sz Q) Q = store_result rn Q"
    "store_result (trn2_helper (trn1_helper rn rm sz Q) (trn2_helper rn rm sz Q) sz Q) Q = store_result rm Q"
    by (intro stored_eqI [OF assms(1,2)] permuted_length assms(3,4), erule split_parity; simp add: lanes del: One_nat_def add_Suc_right)+
  ultimately show ?thesis by (simp add: stored_permuted)
qed

theorem permutations_invert_witness:
  "uzp1_helper (zip1_helper [1,2,3,4,5,6,7,8,9,10,11,12,13,14,15,16] (replicate 16 7) 1 True)
    (zip2_helper [1,2,3,4,5,6,7,8,9,10,11,12,13,14,15,16] (replicate 16 7) 1 True) 1 True
    = [1,2,3,4,5,6,7,8,9,10,11,12,13,14,15,16]"
  using permutations_invert [of 1 True "[1,2,3,4,5,6,7,8,9,10,11,12,13,14,15,16]" "replicate 16 7"]
  by (simp add: store_result_def)

section \<open>Table lookup\<close>

lemma vreg_set_vreg:
  assumes "length file = 512" "length v = 16" "d < 32" "r < 32"
  shows "vreg (set_vreg file d v) r = (if r = d then v else vreg file r)"
proof -
  consider "r = d" | "r < d" | "d < r" by linarith
  then show ?thesis
  proof cases
    case 2
    then have "16 \<le> 16 * d - 16 * r" by simp
    then show ?thesis using 2 assms by (simp add: vreg_def set_vreg_def drop_take min_def)
  next
    case 3
    then have "16 * d + 16 \<le> 16 * r" by simp
    then show ?thesis using 3 assms by (simp add: vreg_def set_vreg_def)
  qed (use assms in \<open>simp add: vreg_def set_vreg_def\<close>)
qed

lemma length_set_vreg: "length file = 512 \<Longrightarrow> length v = 16 \<Longrightarrow> d < 32 \<Longrightarrow> length (set_vreg file d v) = 512"
  by (simp add: set_vreg_def)

lemma vreg_nth: "length file = 512 \<Longrightarrow> r < 32 \<Longrightarrow> j < 16 \<Longrightarrow> vreg file r ! j = file ! (16 * r + j)"
  by (simp add: vreg_def)

lemma table_byte_vreg:
  assumes "length file = 512" "n < 32" "index < 64"
  shows "table_byte file n index = vreg file ((n + index div 16) mod 32) ! (index mod 16)"
proof -
  have d: "index div 16 < 4" using assms(3) by simp
  have "(n + index div 16) mod 32 = (if n + index div 16 < 32 then n + index div 16 else n + index div 16 - 32)"
    using assms(2) d by (simp add: mod_if)
  then have "16 * ((n + index div 16) mod 32) =
      (if 512 \<le> 16 * n + index div 16 * 16 then 16 * n + index div 16 * 16 - 512 else 16 * n + index div 16 * 16)"
    by (auto split: if_splits)
  moreover have "vreg file ((n + index div 16) mod 32) ! (index mod 16) = file ! (16 * ((n + index div 16) mod 32) + index mod 16)"
    by (rule vreg_nth [OF assms(1)]) simp_all
  ultimately show ?thesis by (simp only: table_byte_def Let_def)
qed

text \<open>C35: Table lookup.  TBL and TBX leave in byte \<^term>\<open>i\<close> of the destination the byte that index \<^term>\<open>i\<close> selects from the
  concatenation of the \<^term>\<open>len + 1\<close> table registers, where V0 follows V31; an index beyond the table gives 0 (TBL) or keeps the
  old byte (TBX).  The upper half is zero after a 64-bit operation, every other register keeps its value, and the destination may
  be one of the operands.\<close>

theorem table_lookup_correct:
  assumes "length file = 512" "d < 32" "n < 32" "len \<le> 3" "r < 32" "i < 16"
  shows "vreg (tbl_helper file d n m len Q) r ! i =
      (let index = unat (vreg file m ! i) in
       if r \<noteq> d then vreg file r ! i
       else if \<not> Q \<and> 8 \<le> i then 0
       else if index < 16 * (len + 1) then vreg file ((n + index div 16) mod 32) ! (index mod 16) else 0) \<and>
    vreg (tbx_helper file d n m len Q) r ! i =
      (let index = unat (vreg file m ! i) in
       if r \<noteq> d then vreg file r ! i
       else if \<not> Q \<and> 8 \<le> i then 0
       else if index < 16 * (len + 1) then vreg file ((n + index div 16) mod 32) ! (index mod 16) else vreg file d ! i)"
proof -
  let ?x = "unat (vreg file m ! i)"
  have t: "table_byte file n ?x = vreg file ((n + ?x div 16) mod 32) ! (?x mod 16)" if "?x < (len + 1) * 16"
    using that assms by (intro table_byte_vreg) simp_all
  show ?thesis
    using assms(5,6) t by (auto simp: tbl_helper_def tbx_helper_def Let_def vreg_set_vreg [OF assms(1) _ assms(2)]
      nth_append mult.commute)
qed

theorem table_lookup_correct_witness:
  "vreg (tbl_helper (replicate 496 5 @ replicate 16 20) 31 31 31 1 True) 31 ! 4 = 5"
proof -
  have "vreg (replicate 496 5 @ replicate 16 (20 :: byte)) 31 ! 4 = 20" "vreg (replicate 496 5 @ replicate 16 (20 :: byte)) 0 ! 4 = 5"
    by (simp_all add: vreg_nth nth_append)
  then show ?thesis
    using table_lookup_correct [of "replicate 496 5 @ replicate 16 20" 31 31 1 31 4 31 True] by simp
qed

section \<open>Polynomial multiplication of bytes\<close>

text \<open>
  The byte version of PMULL reads its operands from the register file while it writes the result there: with a destination that is
  also an operand, the first product overwrites bytes still to be read.  Here V0 holds the byte 3 eight times and V1 too.  Into
  V2 every halfword of the result is 5, into V0 the second one is 0.
\<close>

lemma pmull_aliased_destination:
  "lane 2 (vreg (pmull_helper (replicate 48 3) 2 0 1 False 0) 2) 1 = 5"
  "lane 2 (vreg (pmull_helper (replicate 48 3) 0 0 1 False 0) 0) 1 = 0"
  by code_simp+

end
