(* ===== verification/Mount_Path.thy ===== *)
theory Mount_Path
  imports Ish_Prelude
begin

text \<open>
  Mounts (fs/mount.c), path resolution (fs/path.c) and the file operations that name a file by its path (fs/generic.c).
  A mounted file system is a table of operations on an abstract world \<^typ>\<open>'w\<close>, as in struct fs_ops; an operation that is not
  present is \<^term>\<open>None\<close>.  Mounts live at addresses; the kernel's list holds addresses, the thread's cache of the last mount found
  too.  The cache belongs to one thread: what other threads do to the mount table is what the calls here do to it.  A string is
  the characters in front of its terminator.  \<^term>\<open>None\<close> as the result of a call stands for a failed assertion or an access
  outside a buffer.
\<close>

section \<open>File systems and mounts\<close>

abbreviation (input) MAX_PATH :: nat where "MAX_PATH \<equiv> 4096"
abbreviation (input) MAX_NAME :: nat where "MAX_NAME \<equiv> 256"
abbreviation (input) EXDEV :: int where "EXDEV \<equiv> - 18"
abbreviation (input) AC_R :: "32 word" where "AC_R \<equiv> 4"
abbreviation (input) AC_W :: "32 word" where "AC_W \<equiv> 2"
abbreviation (input) AC_X :: "32 word" where "AC_X \<equiv> 1"

record statbuf =
  stat_inode :: nat
  stat_mode :: "32 word"
  stat_uid :: nat
  stat_gid :: nat
  stat_rdev :: nat

datatype attr = attr_uid nat | attr_gid nat | attr_mode "32 word" | attr_size int

record 'w fs_ops =
  fs_name :: string
  fs_mount :: "(nat \<Rightarrow> 'w \<Rightarrow> int \<times> 'w) option"
  fs_umount :: "(nat \<Rightarrow> 'w \<Rightarrow> 'w) option"
  fs_readlink :: "(nat \<Rightarrow> string \<Rightarrow> nat \<Rightarrow> 'w \<Rightarrow> int + string) option"
  fs_link :: "(nat \<Rightarrow> string \<Rightarrow> string \<Rightarrow> 'w \<Rightarrow> int \<times> 'w) option"
  fs_unlink :: "(nat \<Rightarrow> string \<Rightarrow> 'w \<Rightarrow> int \<times> 'w) option"
  fs_rmdir :: "(nat \<Rightarrow> string \<Rightarrow> 'w \<Rightarrow> int \<times> 'w) option"
  fs_rename :: "(nat \<Rightarrow> string \<Rightarrow> string \<Rightarrow> 'w \<Rightarrow> int \<times> 'w) option"
  fs_symlink :: "(nat \<Rightarrow> string \<Rightarrow> string \<Rightarrow> 'w \<Rightarrow> int \<times> 'w) option"
  fs_mknod :: "(nat \<Rightarrow> string \<Rightarrow> 32 word \<Rightarrow> nat \<Rightarrow> 'w \<Rightarrow> int \<times> 'w) option"
  fs_mkdir :: "(nat \<Rightarrow> string \<Rightarrow> 32 word \<Rightarrow> 'w \<Rightarrow> int \<times> 'w) option"
  fs_stat :: "nat \<Rightarrow> string \<Rightarrow> 'w \<Rightarrow> int + statbuf"
  fs_setattr :: "(nat \<Rightarrow> string \<Rightarrow> attr \<Rightarrow> 'w \<Rightarrow> int \<times> 'w) option"
  fs_utime :: "(nat \<Rightarrow> string \<Rightarrow> int \<Rightarrow> int \<Rightarrow> 'w \<Rightarrow> int \<times> 'w) option"
  fs_getpath :: "nat \<Rightarrow> 'w \<Rightarrow> int + string"

record 'w mount =
  point :: string
  source :: string
  info :: string
  mount_flags :: "32 word"
  mount_fs :: "'w fs_ops"
  refcount :: "32 word"

record 'w vfs =
  mounts :: "nat list"
  mount_at :: "nat \<Rightarrow> 'w mount option"
  last_mount_cache :: "nat option"
  mount_cache_version :: "64 word"
  global_mount_version :: "64 word"
  fd_mount :: "nat \<Rightarrow> nat"
  fs_root :: "nat option"
  fs_pwd :: "nat option"
  cur_euid :: nat
  cur_egid :: nat
  world :: 'w

section \<open>Looking up a mount\<close>

text \<open>\<^verbatim>\<open>strncmp(path, point, n) == 0 && (path[n] == '/' || path[n] == '\0')\<close> with \<^verbatim>\<open>n = strlen(point)\<close>.\<close>

definition under_point :: "string \<Rightarrow> string \<Rightarrow> bool" where
  "under_point path pt \<longleftrightarrow> take (length pt) path = pt \<and>
    (case drop (length pt) path of [] \<Rightarrow> True | c # _ \<Rightarrow> c = CHR ''/'')"

function path_is_normalized :: "string \<Rightarrow> bool" where
  "path_is_normalized [] = True"
| "path_is_normalized (c # cs) =
    (c = CHR ''/'' \<and> (case cs of [] \<Rightarrow> True | d # _ \<Rightarrow> d \<noteq> CHR ''/'') \<and>
     path_is_normalized (dropWhile (\<lambda>d. d \<noteq> CHR ''/'') cs))"
  by pat_completeness auto
termination by (relation "measure length") (auto simp: le_imp_less_Suc length_dropWhile_le)

definition mount_cache_check :: "nat option \<Rightarrow> string \<Rightarrow> 'w vfs \<Rightarrow> bool option" where
  "mount_cache_check cached path s =
    (case cached of None \<Rightarrow> Some False
     | Some m \<Rightarrow>
        if mount_cache_version s \<noteq> global_mount_version s then Some False
        else do {
          mt \<leftarrow> mount_at s m;
          Some (if point mt = [] then False else under_point path (point mt))
        })"

definition add_ref :: "32 word \<Rightarrow> nat \<Rightarrow> 'w vfs \<Rightarrow> 'w vfs option" where
  "add_ref k m s =
    (case mount_at s m of None \<Rightarrow> None
     | Some mt \<Rightarrow> Some (s\<lparr>mount_at := (mount_at s)(m \<mapsto> mt\<lparr>refcount := refcount mt + k\<rparr>)\<rparr>))"

definition mount_get :: "nat \<Rightarrow> 'w vfs \<Rightarrow> 'w vfs option" where
  "mount_get m s = add_ref 1 m s"

definition mount_put :: "nat \<Rightarrow> 'w vfs \<Rightarrow> 'w vfs option" where
  "mount_put m s = add_ref (- 1) m s"

fun search_mounts :: "(nat \<Rightarrow> 'w mount option) \<Rightarrow> string \<Rightarrow> nat list \<Rightarrow> nat option" where
  "search_mounts at path [] = None"
| "search_mounts at path (m # ms) =
    (case at m of None \<Rightarrow> None
     | Some mt \<Rightarrow> if under_point path (point mt) then Some m else search_mounts at path ms)"

definition mount_find :: "string \<Rightarrow> 'w vfs \<Rightarrow> (nat \<times> 'w vfs) option" where
  "mount_find path s =
    (if \<not> path_is_normalized path then None
     else do {
       hit \<leftarrow> mount_cache_check (last_mount_cache s) path s;
       if hit then do {
         m \<leftarrow> last_mount_cache s;
         s \<leftarrow> mount_get m s;
         Some (m, s)
       } else do {
         m \<leftarrow> search_mounts (mount_at s) path (mounts s);
         s \<leftarrow> mount_get m s;
         Some (m, s\<lparr>last_mount_cache := Some m, mount_cache_version := global_mount_version s\<rparr>)
       }
     })"

definition find_mount_and_trim_path :: "string \<Rightarrow> 'w vfs \<Rightarrow> (nat \<times> string \<times> 'w vfs) option" where
  "find_mount_and_trim_path path s = do {
    (m, s) \<leftarrow> mount_find path s;
    mt \<leftarrow> mount_at s m;
    Some (m, drop (length (point mt)) path, s)
  }"

definition contains_mount_point :: "string \<Rightarrow> 'w vfs \<Rightarrow> bool" where
  "contains_mount_point path s \<longleftrightarrow>
    list_ex (\<lambda>m. case mount_at s m of None \<Rightarrow> False | Some mt \<Rightarrow> under_point (point mt) path) (mounts s)"

section \<open>Resolving a path\<close>

definition S_ISDIR :: "32 word \<Rightarrow> bool" where
  "S_ISDIR mode \<longleftrightarrow> mode AND 0xf000 = 0x4000"

definition access_check :: "'w vfs \<Rightarrow> statbuf \<Rightarrow> 32 word \<Rightarrow> int" where
  "access_check s st check =
    (if cur_euid s = 0 then 0 else if check = 0 then 0
     else let check = (if cur_euid s = stat_uid st then push_bit 6 check
                       else if cur_egid s = stat_gid st then push_bit 3 check else check)
       in if stat_mode st AND check = 0 then EACCES else 0)"

text \<open>The last character in front of \<^verbatim>\<open>p\<close> and the string at \<^verbatim>\<open>p\<close>, after skipping slashes.\<close>

fun skip_slashes :: "char option \<Rightarrow> string \<Rightarrow> char option \<times> string" where
  "skip_slashes prev (c # p) = (if c = CHR ''/'' then skip_slashes (Some c) p else (prev, c # p))"
| "skip_slashes prev [] = (prev, [])"

text \<open>\<^verbatim>\<open>while (*p != '/' && *p != '\0' && --n > 0) *o++ = *p++;\<close>\<close>

fun copy_component :: "char option \<Rightarrow> string \<Rightarrow> string \<Rightarrow> int \<Rightarrow> char option \<times> string \<times> string \<times> int" where
  "copy_component prev (c # p) o' n =
    (if c = CHR ''/'' then (prev, c # p, o', n)
     else if n - 1 > 0 then copy_component (Some c) p (o' @ [c]) (n - 1) else (prev, c # p, o', n - 1))"
| "copy_component prev [] o' n = (prev, [], o', n)"

text \<open>\<^verbatim>\<open>do { o--; n++; } while (*o != '/');\<close>\<close>

function drop_component :: "string \<Rightarrow> int \<Rightarrow> (string \<times> int) option" where
  "drop_component o' n =
    (if o' = [] then None
     else if last o' = CHR ''/'' then Some (butlast o', n + 1) else drop_component (butlast o') (n + 1))"
  by pat_completeness auto
termination by (relation "measure (\<lambda>(o', n). length o')") auto

declare drop_component.simps [simp del]

definition dot_component :: "string \<Rightarrow> bool" where
  "dot_component p \<longleftrightarrow> take 1 p = ''.'' \<and> (drop 1 p = [] \<or> hd (drop 1 p) = CHR ''/'')"

definition dotdot_component :: "string \<Rightarrow> bool" where
  "dotdot_component p \<longleftrightarrow> take 2 p = ''..'' \<and> (drop 2 p = [] \<or> hd (drop 2 p) = CHR ''/'')"

text \<open>
  What happens after a component has been copied to the buffer: it is a symbolic link and the path starts over, or it fails, or
  the loop proceeds.  The component starts at \<^verbatim>\<open>clen\<close>; \<^verbatim>\<open>prev\<close> is the character in front of the rest \<^verbatim>\<open>p\<close> of the path.
\<close>

datatype outcome = Expand string | Fail int | Proceed

definition expand_link :: "nat \<Rightarrow> nat \<Rightarrow> string \<Rightarrow> string \<Rightarrow> string \<Rightarrow> outcome" where
  "expand_link levels clen out p link =
    (if levels \<ge> 5 then Fail ELOOP
     else if length link \<ge> MAX_PATH - clen then Fail ENAMETOOLONG
     else let out = (if take 1 link = ''/'' then link else take clen out @ link)
       in if length out + (if p \<noteq> [] then 1 + length p else 0) \<ge> MAX_PATH then Fail ENAMETOOLONG
          else Expand (if p \<noteq> [] then out @ ''/'' @ p else out))"

definition check_directory :: "'w vfs \<Rightarrow> int + statbuf \<Rightarrow> outcome" where
  "check_directory s st =
    (case st of Inl _ \<Rightarrow> Proceed
     | Inr st \<Rightarrow> if \<not> S_ISDIR (stat_mode st) then Fail ENOTDIR
        else let err = access_check s st AC_X in if err < 0 then Fail err else Proceed)"

definition visit_component :: "bool \<Rightarrow> nat \<Rightarrow> nat \<Rightarrow> char option \<Rightarrow> string \<Rightarrow> string \<Rightarrow> 'w vfs \<Rightarrow> (outcome \<times> 'w vfs) option" where
  "visit_component follow levels clen prev p out s =
    (if \<not> follow \<and> p = [] then Some (Proceed, s)
     else if length out \<ge> MAX_PATH then None
     else do {
       (m, possible_symlink, s) \<leftarrow> find_mount_and_trim_path out s;
       mt \<leftarrow> mount_at s m;
       if \<not> path_is_normalized possible_symlink then None
       else
         case (case fs_readlink (mount_fs mt) of None \<Rightarrow> Inl EINVAL
               | Some readlink \<Rightarrow> readlink m possible_symlink (MAX_PATH - clen) (world s)) of
           Inr link \<Rightarrow> do { s \<leftarrow> mount_put m s; Some (expand_link levels clen out p link, s) }
         | Inl _ \<Rightarrow> do {
             c \<leftarrow> prev;
             s \<leftarrow> mount_put m s;
             Some (if c = CHR ''/'' then check_directory s (fs_stat (mount_fs mt) m possible_symlink (world s)) else Proceed, s)
           }
     })"

lemma visit_expands: "visit_component follow levels clen prev p out s = Some (Expand q, s') \<Longrightarrow> levels < 5"
  by (auto simp: visit_component_def expand_link_def check_directory_def Let_def
    split: if_splits Option.bind_splits sum.splits option.splits)

lemma skip_slashes_length: "skip_slashes prev p = (prev', p') \<Longrightarrow> length p' \<le> length p"
  by (induction prev p rule: skip_slashes.induct) (auto split: if_splits intro: le_SucI)

lemma skip_slashes_less: "(prev', p') = skip_slashes prev q \<Longrightarrow> length q < k \<Longrightarrow> length p' < k"
  by (drule sym) (drule skip_slashes_length, simp)

lemma copy_component_length:
  "copy_component prev p o' n = (prev', p', o'', n') \<Longrightarrow> length p' \<le> length p \<and> length o' \<le> length o''"
proof (induction prev p o' n rule: copy_component.induct)
  case (1 prev c p o' n)
  show ?case
  proof (cases "c \<noteq> CHR ''/'' \<and> n - 1 > 0")
    case True
    then show ?thesis using 1 by simp
  next
    case False
    then show ?thesis using "1.prems" by (auto split: if_splits)
  qed
qed simp

text \<open>
  The loop of \<^verbatim>\<open>__path_normalize\<close>: \<^verbatim>\<open>out\<close> is the buffer in front of \<^verbatim>\<open>o\<close>, \<^verbatim>\<open>n\<close> the room the code believes is left.
  A symbolic link starts it over on the expanded path, one level deeper.
\<close>

function path_loop :: "bool \<Rightarrow> nat \<Rightarrow> char option \<Rightarrow> string \<Rightarrow> string \<Rightarrow> int \<Rightarrow> 'w vfs \<Rightarrow> ((int + string) \<times> 'w vfs) option" where
  "path_loop follow levels prev p out n s =
    (if p = [] then
       if length out \<ge> MAX_PATH \<or> \<not> path_is_normalized out then None else Some (Inr out, s)
     else if dot_component p then
       let (prev, p') = skip_slashes (Some CHR ''.'') (drop 1 p) in path_loop follow levels prev p' out n s
     else if dotdot_component p then
       case (if out \<noteq> [] then drop_component out n else Some (out, n)) of None \<Rightarrow> None
       | Some (out, n) \<Rightarrow>
         let (prev, p') = skip_slashes (Some CHR ''.'') (drop 2 p) in path_loop follow levels prev p' out n s
     else if length out \<ge> MAX_PATH then None
     else
       let (prev, p', out', n') = copy_component prev p (out @ ''/'') (n - 1);
           (prev, p') = skip_slashes prev p'
       in if n' = 0 then Some (Inl ENAMETOOLONG, s)
          else case visit_component follow levels (length out + 1) prev p' out' s of
            None \<Rightarrow> None
          | Some (Fail err, s) \<Rightarrow> Some (Inl err, s)
          | Some (Proceed, s) \<Rightarrow> path_loop follow levels prev p' out' n' s
          | Some (Expand path, s) \<Rightarrow>
            if path = [] then Some (Inl ENOENT, s)
            else let (prev, p') = skip_slashes None path in path_loop follow (levels + 1) prev p' [] (int MAX_PATH - 1) s)"
  by pat_completeness auto
termination
proof (relation "measures [\<lambda>(follow, levels, prev, p, out, n, s). 6 - levels,
    \<lambda>(follow, levels, prev, p, out, n, s). length p, \<lambda>(follow, levels, prev, p, out, n, s). MAX_PATH + 1 - length out]",
    goal_cases)
  case (2 follow levels prev p out n s x prev' p')
  then have "length p' < length p" by (intro skip_slashes_less [of prev' p']) auto
  then show ?case by simp
next
  case (3 follow levels prev p out n s x2 x y xa prev' p')
  then have "length p' < length p" by (intro skip_slashes_less [of prev' p']) auto
  then show ?case by simp
next
  case (4 follow levels prev p out n s x prev1 y p1 z out1 n1 xa prev2 p2 x2 xb s1)
  then have "levels < 5" by (auto dest: visit_expands)
  then have "6 - (levels + 1) < 6 - levels" by simp
  then show ?case by (simp del: One_nat_def)
next
  case (5 follow levels prev p out n s x prev1 y p1 z out1 n1 xa prev2 p2 x2 xb s1)
  have c: "length p1 \<le> length p \<and> length (out @ ''/'') \<le> length out1"
    by (rule copy_component_length [of prev p _ "n - 1" prev1 _ _ n1]) (use 5 in auto)
  have "length p2 \<le> length p1" by (rule skip_slashes_length [of prev1 _ prev2]) (use 5 in auto)
  then show ?case using c 5(4) by auto
qed simp

declare path_loop.simps [simp del]

text \<open>The flags: \<^verbatim>\<open>N_SYMLINK_FOLLOW\<close>, \<^verbatim>\<open>N_SYMLINK_NOFOLLOW\<close>, \<^verbatim>\<open>N_PARENT_DIR_WRITE\<close>.\<close>

abbreviation (input) N_SYMLINK_FOLLOW :: "32 word" where "N_SYMLINK_FOLLOW \<equiv> 1"
abbreviation (input) N_SYMLINK_NOFOLLOW :: "32 word" where "N_SYMLINK_NOFOLLOW \<equiv> 2"
abbreviation (input) N_PARENT_DIR_WRITE :: "32 word" where "N_PARENT_DIR_WRITE \<equiv> 4"

definition path_normalize_at :: "string option \<Rightarrow> string \<Rightarrow> 32 word \<Rightarrow> 'w vfs \<Rightarrow> ((int + string) \<times> 'w vfs) option" where
  "path_normalize_at at_path path flags s =
    (let follow = flags AND N_SYMLINK_FOLLOW \<noteq> 0; nofollow = flags AND N_SYMLINK_NOFOLLOW \<noteq> 0 in
     if follow = nofollow then None
     else if path = [] then Some (Inl ENOENT, s)
     else let base = (case at_path of None \<Rightarrow> [] | Some b \<Rightarrow> if b = ''/'' then [] else b) in
       if length base \<ge> MAX_PATH then Some (Inl ENAMETOOLONG, s)
       else let (prev, p) = skip_slashes None path
         in path_loop follow 0 prev p base (int MAX_PATH - 1 - int (length base)) s)"

section \<open>Paths relative to a descriptor\<close>

datatype at_fd = AT_PWD | At nat | AtErr int | AtNull

definition generic_getpath :: "nat \<Rightarrow> 'w vfs \<Rightarrow> (int + string) option" where
  "generic_getpath f s =
    (case mount_at s (fd_mount s f) of None \<Rightarrow> None
     | Some mt \<Rightarrow>
        case fs_getpath (mount_fs mt) f (world s) of Inl err \<Rightarrow> Some (Inl err)
        | Inr buf \<Rightarrow>
          if length buf + length (point mt) \<ge> MAX_PATH then Some (Inl ENAMETOOLONG)
          else Some (Inr (if point mt @ buf = [] then ''/'' else point mt @ buf)))"

definition path_normalize :: "at_fd \<Rightarrow> string \<Rightarrow> 32 word \<Rightarrow> 'w vfs \<Rightarrow> ((int + string) \<times> 'w vfs) option" where
  "path_normalize at path flags s =
    (if path = [] then Some (Inl ENOENT, s)
     else
       let absolute = hd path = CHR ''/'';
           dir = (if absolute then (case fs_root s of None \<Rightarrow> AtNull | Some f \<Rightarrow> At f)
                  else case at of AT_PWD \<Rightarrow> (case fs_pwd s of None \<Rightarrow> AtNull | Some f \<Rightarrow> At f) | _ \<Rightarrow> at)
       in case dir of
         AtNull \<Rightarrow> if absolute then path_normalize_at None path flags s else Some (Inl EBADF, s)
       | AtErr err \<Rightarrow> Some (Inl err, s)
       | AT_PWD \<Rightarrow> None
       | At f \<Rightarrow> do {
           at_path \<leftarrow> generic_getpath f s;
           case at_path of Inl err \<Rightarrow> Some (Inl err, s)
           | Inr b \<Rightarrow> if \<not> path_is_normalized b then None else path_normalize_at (Some b) path flags s
         })"

section \<open>Calls that name a file\<close>

text \<open>The calls below resolve their path, find its mount, run the operation and release the mount again.\<close>

definition with_path :: "at_fd \<Rightarrow> string \<Rightarrow> 32 word \<Rightarrow>
    ('w fs_ops \<Rightarrow> nat \<Rightarrow> string \<Rightarrow> 'w \<Rightarrow> 'r \<times> 'w) \<Rightarrow> 'w vfs \<Rightarrow> ((int + 'r) \<times> 'w vfs) option" where
  "with_path at path_raw flags f s = do {
    (r, s) \<leftarrow> path_normalize at path_raw flags s;
    case r of Inl err \<Rightarrow> Some (Inl err, s)
    | Inr path \<Rightarrow> do {
        (m, path, s) \<leftarrow> find_mount_and_trim_path path s;
        mt \<leftarrow> mount_at s m;
        let (r, w) = f (mount_fs mt) m path (world s);
        s \<leftarrow> mount_put m (s\<lparr>world := w\<rparr>);
        Some (Inr r, s)
      }
  }"

definition err_of :: "(int + int) \<times> 'w vfs \<Rightarrow> int \<times> 'w vfs" where
  "err_of r = (case fst r of Inl e \<Rightarrow> e | Inr e \<Rightarrow> e, snd r)"

definition optional_op :: "'f option \<Rightarrow> int \<Rightarrow> ('f \<Rightarrow> int \<times> 'w) \<Rightarrow> 'w \<Rightarrow> int \<times> 'w" where
  "optional_op f missing run w = (case f of None \<Rightarrow> (missing, w) | Some f \<Rightarrow> run f)"

definition generic_statat :: "at_fd \<Rightarrow> string \<Rightarrow> bool \<Rightarrow> 'w vfs \<Rightarrow> ((int + statbuf) \<times> 'w vfs) option" where
  "generic_statat at path_raw follow_links s =
    map_option (\<lambda>(r, s). (case r of Inl e \<Rightarrow> Inl e | Inr r \<Rightarrow> r, s))
      (with_path at path_raw (if follow_links then N_SYMLINK_FOLLOW else N_SYMLINK_NOFOLLOW)
        (\<lambda>fs m path w. (fs_stat fs m path w, w)) s)"

definition generic_accessat :: "at_fd \<Rightarrow> string \<Rightarrow> 32 word \<Rightarrow> 'w vfs \<Rightarrow> (int \<times> 'w vfs) option" where
  "generic_accessat dirfd path_raw mode s =
    map_option (\<lambda>(r, s). (case r of Inl e \<Rightarrow> e | Inr (Inl e) \<Rightarrow> e | Inr (Inr st) \<Rightarrow> access_check s st mode, s))
      (with_path dirfd path_raw N_SYMLINK_FOLLOW (\<lambda>fs m path w. (fs_stat fs m path w, w)) s)"

definition generic_unlinkat :: "at_fd \<Rightarrow> string \<Rightarrow> 'w vfs \<Rightarrow> (int \<times> 'w vfs) option" where
  "generic_unlinkat at path_raw s = map_option err_of
    (with_path at path_raw (N_SYMLINK_NOFOLLOW OR N_PARENT_DIR_WRITE)
      (\<lambda>fs m path w. optional_op (fs_unlink fs) EPERM (\<lambda>f. f m path w) w) s)"

definition generic_symlinkat :: "string \<Rightarrow> at_fd \<Rightarrow> string \<Rightarrow> 'w vfs \<Rightarrow> (int \<times> 'w vfs) option" where
  "generic_symlinkat target at link_raw s = map_option err_of
    (with_path at link_raw (N_SYMLINK_NOFOLLOW OR N_PARENT_DIR_WRITE)
      (\<lambda>fs m link w. optional_op (fs_symlink fs) EPERM (\<lambda>f. f m target link w) w) s)"

definition generic_mknodat :: "at_fd \<Rightarrow> string \<Rightarrow> 32 word \<Rightarrow> nat \<Rightarrow> 'w vfs \<Rightarrow> (int \<times> 'w vfs) option" where
  "generic_mknodat at path_raw mode dev s =
    (let fmt = mode AND 0xf000 in
     if fmt = 0x4000 \<or> fmt = 0xa000 then Some (EINVAL, s)
     else if cur_euid s \<noteq> 0 \<and> (fmt = 0x6000 \<or> fmt = 0x2000) then Some (EPERM, s)
     else map_option err_of
       (with_path at path_raw (N_SYMLINK_NOFOLLOW OR N_PARENT_DIR_WRITE)
         (\<lambda>fs m path w. optional_op (fs_mknod fs) EPERM (\<lambda>f. f m path mode dev w) w) s))"

definition generic_setattrat :: "at_fd \<Rightarrow> string \<Rightarrow> attr \<Rightarrow> bool \<Rightarrow> 'w vfs \<Rightarrow> (int \<times> 'w vfs) option" where
  "generic_setattrat at path_raw attr follow_links s = map_option err_of
    (with_path at path_raw (if follow_links then N_SYMLINK_FOLLOW else N_SYMLINK_NOFOLLOW)
      (\<lambda>fs m path w. optional_op (fs_setattr fs) EPERM (\<lambda>f. f m path attr w) w) s)"

definition generic_utime :: "at_fd \<Rightarrow> string \<Rightarrow> int \<Rightarrow> int \<Rightarrow> bool \<Rightarrow> 'w vfs \<Rightarrow> (int \<times> 'w vfs) option" where
  "generic_utime at path_raw atime mtime follow_links s = map_option err_of
    (with_path at path_raw (if follow_links then N_SYMLINK_FOLLOW else N_SYMLINK_NOFOLLOW)
      (\<lambda>fs m path w. optional_op (fs_utime fs) EPERM (\<lambda>f. f m path atime mtime w) w) s)"

definition generic_readlinkat :: "at_fd \<Rightarrow> string \<Rightarrow> nat \<Rightarrow> 'w vfs \<Rightarrow> ((int + string) \<times> 'w vfs) option" where
  "generic_readlinkat at path_raw bufsize s =
    map_option (\<lambda>(r, s). (case r of Inl e \<Rightarrow> Inl e | Inr r \<Rightarrow> r, s))
      (with_path at path_raw N_SYMLINK_NOFOLLOW
        (\<lambda>fs m path w. (case fs_readlink fs of None \<Rightarrow> Inl EINVAL | Some f \<Rightarrow> f m path bufsize w, w)) s)"

definition generic_mkdirat :: "at_fd \<Rightarrow> string \<Rightarrow> 32 word \<Rightarrow> 'w vfs \<Rightarrow> (int \<times> 'w vfs) option" where
  "generic_mkdirat at path_raw mode s = map_option err_of
    (with_path at path_raw (N_SYMLINK_FOLLOW OR N_PARENT_DIR_WRITE)
      (\<lambda>fs m path w. optional_op (fs_mkdir fs) EPERM (\<lambda>f. f m path mode w) w) s)"

definition generic_rmdirat :: "at_fd \<Rightarrow> string \<Rightarrow> 'w vfs \<Rightarrow> (int \<times> 'w vfs) option" where
  "generic_rmdirat at path_raw s = do {
    (r, s) \<leftarrow> path_normalize at path_raw (N_SYMLINK_FOLLOW OR N_PARENT_DIR_WRITE) s;
    case r of Inl err \<Rightarrow> Some (err, s)
    | Inr path \<Rightarrow>
      if contains_mount_point path s then Some (EBUSY, s)
      else do {
        (m, path, s) \<leftarrow> find_mount_and_trim_path path s;
        mt \<leftarrow> mount_at s m;
        let (err, w) = optional_op (fs_rmdir (mount_fs mt)) EPERM (\<lambda>f. f m path (world s)) (world s);
        s \<leftarrow> mount_put m (s\<lparr>world := w\<rparr>);
        Some (err, s)
      }
  }"

text \<open>\<^verbatim>\<open>link\<close> and \<^verbatim>\<open>rename\<close>: both paths must be on the same mount.\<close>

definition on_one_mount :: "('w fs_ops \<Rightarrow> (nat \<Rightarrow> string \<Rightarrow> string \<Rightarrow> 'w \<Rightarrow> int \<times> 'w) option) \<Rightarrow> string \<Rightarrow> string \<Rightarrow>
    'w vfs \<Rightarrow> (int \<times> 'w vfs) option" where
  "on_one_mount op src dst s = do {
    (m, src, s) \<leftarrow> find_mount_and_trim_path src s;
    (dst_mount, dst, s) \<leftarrow> find_mount_and_trim_path dst s;
    mt \<leftarrow> mount_at s m;
    let (err, w) = (if m \<noteq> dst_mount then (EXDEV, world s)
        else optional_op (op (mount_fs mt)) EPERM (\<lambda>f. f m src dst (world s)) (world s));
    s \<leftarrow> mount_put m (s\<lparr>world := w\<rparr>);
    s \<leftarrow> mount_put dst_mount s;
    Some (err, s)
  }"

definition generic_linkat :: "at_fd \<Rightarrow> string \<Rightarrow> at_fd \<Rightarrow> string \<Rightarrow> 'w vfs \<Rightarrow> (int \<times> 'w vfs) option" where
  "generic_linkat src_at src_raw dst_at dst_raw s = do {
    (r, s) \<leftarrow> path_normalize src_at src_raw N_SYMLINK_NOFOLLOW s;
    case r of Inl err \<Rightarrow> Some (err, s)
    | Inr src \<Rightarrow> do {
        (r, s) \<leftarrow> path_normalize dst_at dst_raw (N_SYMLINK_NOFOLLOW OR N_PARENT_DIR_WRITE) s;
        case r of Inl err \<Rightarrow> Some (err, s) | Inr dst \<Rightarrow> on_one_mount fs_link src dst s
      }
  }"

definition generic_renameat :: "at_fd \<Rightarrow> string \<Rightarrow> at_fd \<Rightarrow> string \<Rightarrow> 'w vfs \<Rightarrow> (int \<times> 'w vfs) option" where
  "generic_renameat src_at src_raw dst_at dst_raw s = do {
    (r, s) \<leftarrow> path_normalize src_at src_raw (N_SYMLINK_NOFOLLOW OR N_PARENT_DIR_WRITE) s;
    case r of Inl err \<Rightarrow> Some (err, s)
    | Inr src \<Rightarrow> do {
        (r, s) \<leftarrow> path_normalize dst_at dst_raw (N_SYMLINK_NOFOLLOW OR N_PARENT_DIR_WRITE) s;
        case r of Inl err \<Rightarrow> Some (err, s)
        | Inr dst \<Rightarrow> if contains_mount_point src s then Some (EBUSY, s) else on_one_mount fs_rename src dst s
      }
  }"

section \<open>Mounting and unmounting\<close>

text \<open>\<^verbatim>\<open>malloc\<close> gives the address of the new mount, or fails.\<close>

definition insert_mount :: "(nat \<Rightarrow> 'w mount option) \<Rightarrow> nat \<Rightarrow> string \<Rightarrow> nat list \<Rightarrow> nat list" where
  "insert_mount at m pt ms =
    (let longer = (\<lambda>l. case at l of None \<Rightarrow> False | Some mt \<Rightarrow> length (point mt) > length pt)
     in takeWhile longer ms @ m # dropWhile longer ms)"

definition do_mount :: "nat option \<Rightarrow> 'w fs_ops \<Rightarrow> string \<Rightarrow> string \<Rightarrow> string \<Rightarrow> 32 word \<Rightarrow> 'w vfs \<Rightarrow> int \<times> 'w vfs" where
  "do_mount mem fs src pt inf0 flags s =
    (case mem of None \<Rightarrow> (ENOMEM, s)
     | Some m \<Rightarrow>
        let mt = \<lparr>point = pt, source = src, info = inf0, mount_flags = flags, mount_fs = fs, refcount = 0\<rparr>;
            (err, w) = (case fs_mount fs of None \<Rightarrow> (0, world s) | Some f \<Rightarrow> f m (world s))
        in if err < 0 then (err, s\<lparr>world := w\<rparr>)
           else (0, s\<lparr>mounts := insert_mount (mount_at s) m pt (mounts s), mount_at := (mount_at s)(m \<mapsto> mt),
             global_mount_version := global_mount_version s + 1, world := w\<rparr>))"

definition mount_remove :: "nat \<Rightarrow> 'w vfs \<Rightarrow> (int \<times> 'w vfs) option" where
  "mount_remove m s = do {
    mt \<leftarrow> mount_at s m;
    if refcount mt \<noteq> 0 then Some (EBUSY, s)
    else Some (0, s\<lparr>mounts := remove1 m (mounts s), mount_at := (mount_at s)(m := None),
      global_mount_version := global_mount_version s + 1,
      world := (case fs_umount (mount_fs mt) of None \<Rightarrow> world s | Some f \<Rightarrow> f m (world s))\<rparr>)
  }"

definition do_umount :: "string \<Rightarrow> 'w vfs \<Rightarrow> (int \<times> 'w vfs) option" where
  "do_umount pt s =
    (case find (\<lambda>m. map_option point (mount_at s m) = Some pt) (mounts s) of None \<Rightarrow> Some (EINVAL, s)
     | Some m \<Rightarrow> mount_remove m s)"

function mount_param_flag :: "string \<Rightarrow> string \<Rightarrow> bool" where
  "mount_param_flag inf0 flag =
    (if inf0 = [] then False
     else let token = takeWhile (\<lambda>c. c \<noteq> CHR '','') inf0 in
       if token = flag then True
       else mount_param_flag (drop 1 (dropWhile (\<lambda>c. c \<noteq> CHR '','') inf0)) flag)"
  by pat_completeness auto
termination
proof (relation "measure (\<lambda>(inf0, flag). length inf0)", goal_cases)
  case (2 inf0 flag token)
  then show ?case using length_dropWhile_le [of "\<lambda>c. c \<noteq> CHR '',''" inf0] by (cases inf0) auto
qed simp

declare mount_param_flag.simps [simp del]

definition mount_flags_supported :: "32 word" where
  "mount_flags_supported = 0x800f"

text \<open>The strings are what \<^verbatim>\<open>user_read_string\<close> gives, \<^term>\<open>None\<close> for a fault; the data is not read when its address is 0.\<close>

definition sys_mount :: "nat option \<Rightarrow> 'w fs_ops list \<Rightarrow> string option \<Rightarrow> string option \<Rightarrow> string option \<Rightarrow> 32 word \<Rightarrow>
    (string option) option \<Rightarrow> 'w vfs \<Rightarrow> (int \<times> 'w vfs) option" where
  "sys_mount mem filesystems src pt type flags data s =
    (if src = None \<or> pt = None \<or> data = Some None \<or> type = None then Some (EFAULT, s)
     else if flags AND NOT mount_flags_supported \<noteq> 0 then Some (EINVAL, s)
     else case find (\<lambda>fs. fs_name fs = the type) filesystems of None \<Rightarrow> Some (EINVAL, s)
     | Some fs \<Rightarrow> do {
         (r, s) \<leftarrow> generic_statat AT_PWD (the pt) True s;
         case r of Inl err \<Rightarrow> Some (err, s)
         | Inr st \<Rightarrow>
           if \<not> S_ISDIR (stat_mode st) then Some (ENOTDIR, s)
           else do {
             (r, s) \<leftarrow> path_normalize AT_PWD (the pt) N_SYMLINK_FOLLOW s;
             case r of Inl err \<Rightarrow> Some (err, s)
             | Inr pt \<Rightarrow>
               if mem = None then Some (ENOMEM, s)
               else do {
                 inf0 \<leftarrow> Option.bind data id;
                 Some (do_mount mem fs (the src) pt inf0 (flags AND 0xf) s)
               }
           }
       })"

definition sys_umount2 :: "string option \<Rightarrow> 32 word \<Rightarrow> 'w vfs \<Rightarrow> (int \<times> 'w vfs) option" where
  "sys_umount2 target flags s =
    (case target of None \<Rightarrow> Some (EFAULT, s)
     | Some target_raw \<Rightarrow> do {
         (r, s) \<leftarrow> path_normalize AT_PWD target_raw (if flags AND 8 \<noteq> 0 then N_SYMLINK_NOFOLLOW else N_SYMLINK_FOLLOW) s;
         case r of Inl err \<Rightarrow> Some (err, s) | Inr target \<Rightarrow> do_umount target s
       })"

section \<open>Iterating over a path\<close>

text \<open>\<^verbatim>\<open>path_next_component\<close>: the component and the rest, the end of the path, or an error.\<close>

definition path_next_component :: "string \<Rightarrow> (int + (string \<times> string) option) option" where
  "path_next_component path =
    (case path of [] \<Rightarrow> Some (Inr None)
     | c # p \<Rightarrow>
        if c \<noteq> CHR ''/'' then None
        else let component = takeWhile (\<lambda>d. d \<noteq> CHR ''/'') p in
          if length component \<ge> MAX_NAME then Some (Inl ENAMETOOLONG)
          else Some (Inr (Some (component, dropWhile (\<lambda>d. d \<noteq> CHR ''/'') p))))"

end
