(* ===== verification/Mount_Laws.thy ===== *)
theory Mount_Laws
  imports Mount_Path
begin

text \<open>
  The mount table is kept in descending order of the length of the mount points, so that the first mount that contains a path is
  the innermost one; every call that names a file gives back the references it takes, on every path through it.
\<close>

section \<open>The mount table\<close>

abbreviation point_of :: "'w vfs \<Rightarrow> nat \<Rightarrow> string" where
  "point_of s m \<equiv> point (the (mount_at s m))"

definition cache_ok :: "'w vfs \<Rightarrow> bool" where
  "cache_ok s \<longleftrightarrow> unat (mount_cache_version s) \<le> unat (global_mount_version s) \<and>
    (mount_cache_version s = global_mount_version s \<longrightarrow> set_option (last_mount_cache s) \<subseteq> set (mounts s))"

definition mounts_ok :: "'w vfs \<Rightarrow> bool" where
  "mounts_ok s \<longleftrightarrow> distinct (mounts s) \<and> (\<forall>m \<in> set (mounts s). mount_at s m \<noteq> None) \<and>
    sorted_wrt (\<lambda>a b. length (point_of s b) \<le> length (point_of s a)) (mounts s) \<and>
    (\<exists>m \<in> set (mounts s). point_of s m = [] \<and> refcount (the (mount_at s m)) \<noteq> 0) \<and> cache_ok s"

lemma under_empty [simp]: "path_is_normalized path \<Longrightarrow> under_point path []"
  by (cases path) (auto simp: under_point_def)

lemma search_mounts_first:
  assumes "\<forall>m \<in> set ms. at m \<noteq> None" "m0 \<in> set ms" "under_point path (point (the (at m0)))"
    and "sorted_wrt (\<lambda>a b. length (point (the (at b))) \<le> length (point (the (at a)))) ms"
  shows "\<exists>m \<in> set ms. search_mounts at path ms = Some m \<and> under_point path (point (the (at m))) \<and>
    (\<forall>m' \<in> set ms. under_point path (point (the (at m'))) \<longrightarrow> length (point (the (at m'))) \<le> length (point (the (at m))))"
  using assms
proof (induction ms)
  case (Cons a ms)
  obtain mt where a: "at a = Some mt" using Cons.prems by auto
  show ?case
  proof (cases "under_point path (point mt)")
    case True
    then show ?thesis using Cons.prems a by auto
  next
    case False
    then have "m0 \<in> set ms" using Cons.prems a by auto
    then obtain m where "m \<in> set ms" "search_mounts at path ms = Some m" "under_point path (point (the (at m)))"
      "\<forall>m' \<in> set ms. under_point path (point (the (at m'))) \<longrightarrow> length (point (the (at m'))) \<le> length (point (the (at m)))"
      using Cons by auto
    then show ?thesis using False a by auto
  qed
qed simp

text \<open>What is left of a table when reference counts, the cache and the world are put aside.\<close>

definition frame :: "'w vfs \<Rightarrow> 'w vfs \<Rightarrow> bool" where
  "frame s s' \<longleftrightarrow> s' = s\<lparr>last_mount_cache := last_mount_cache s', mount_cache_version := mount_cache_version s', world := world s'\<rparr> \<and>
    (cache_ok s \<longrightarrow> cache_ok s')"

lemma frameI [intro]: "frame s s"
  by (simp add: frame_def)

lemma frame_trans [trans]: "frame s s' \<Longrightarrow> frame s' s'' \<Longrightarrow> frame s s''"
  unfolding frame_def by (cases s; cases s'; cases s'') auto

lemma frame_world [simp]: "frame s (s\<lparr>world := w\<rparr>)"
  by (auto simp: frame_def cache_ok_def)

lemma frame_fields:
  "frame s s' \<Longrightarrow> mounts s' = mounts s \<and> mount_at s' = mount_at s \<and> fd_mount s' = fd_mount s \<and> fs_root s' = fs_root s \<and>
    fs_pwd s' = fs_pwd s \<and> cur_euid s' = cur_euid s \<and> cur_egid s' = cur_egid s \<and> global_mount_version s' = global_mount_version s"
  unfolding frame_def by (cases s; cases s') auto

lemma add_ref_twice: "add_ref k m s = Some s' \<Longrightarrow> add_ref (- k) m s' = Some s"
  by (cases s) (auto simp: add_ref_def fun_upd_idem split: option.splits)

lemma search_mounts_in: "search_mounts at path ms = Some m \<Longrightarrow> m \<in> set ms"
  by (induction ms) (auto split: option.splits if_splits)

lemma add_ref_cache:
  "add_ref k m (s\<lparr>last_mount_cache := c, mount_cache_version := v\<rparr>) =
    map_option (\<lambda>s. s\<lparr>last_mount_cache := c, mount_cache_version := v\<rparr>) (add_ref k m s)"
  by (auto simp: add_ref_def split: option.splits)

lemma add_ref_fields:
  "add_ref k m s = Some s' \<Longrightarrow> world s' = world s \<and> m \<in> dom (mount_at s') \<and> global_mount_version s' = global_mount_version s \<and>
    map_option point \<circ> mount_at s' = map_option point \<circ> mount_at s \<and> map_option mount_fs \<circ> mount_at s' = map_option mount_fs \<circ> mount_at s"
  by (auto simp: add_ref_def fun_eq_iff split: option.splits)

lemma mount_find_put:
  assumes "mount_find path s = Some (m, s')"
  shows "\<exists>s''. mount_put m s' = Some s'' \<and> frame s s'' \<and> world s' = world s \<and> world s'' = world s \<and> m \<in> dom (mount_at s') \<and>
    map_option point \<circ> mount_at s' = map_option point \<circ> mount_at s \<and> map_option mount_fs \<circ> mount_at s' = map_option mount_fs \<circ> mount_at s"
proof -
  obtain hit where n: "path_is_normalized path" and h: "mount_cache_check (last_mount_cache s) path s = Some hit"
    using assms by (auto simp: mount_find_def split: if_splits Option.bind_splits)
  show ?thesis
  proof (cases hit)
    case True
    then have g: "add_ref 1 m s = Some s'" using assms n h by (auto simp: mount_find_def mount_get_def split: Option.bind_splits)
    then show ?thesis using add_ref_twice [OF g] add_ref_fields [OF g] by (auto simp: mount_put_def)
  next
    case False
    then obtain t where m: "search_mounts (mount_at s) path (mounts s) = Some m" and g: "add_ref 1 m s = Some t"
      and s': "s' = t\<lparr>last_mount_cache := Some m, mount_cache_version := global_mount_version t\<rparr>"
      using assms n h by (auto simp: mount_find_def mount_get_def split: Option.bind_splits)
    have "frame s (s\<lparr>last_mount_cache := Some m, mount_cache_version := global_mount_version s\<rparr>)"
      using search_mounts_in [OF m] by (auto simp: frame_def cache_ok_def)
    then show ?thesis using add_ref_twice [OF g] add_ref_fields [OF g] by (auto simp: mount_put_def s' add_ref_cache)
  qed
qed

lemma find_mount_put:
  assumes "find_mount_and_trim_path path s = Some (m, q, s')"
  shows "\<exists>s''. mount_put m s' = Some s'' \<and> frame s s'' \<and> world s' = world s \<and> world s'' = world s \<and> m \<in> dom (mount_at s') \<and>
    map_option point \<circ> mount_at s' = map_option point \<circ> mount_at s \<and> map_option mount_fs \<circ> mount_at s' = map_option mount_fs \<circ> mount_at s"
  using assms by (auto simp: find_mount_and_trim_path_def split: Option.bind_splits dest!: mount_find_put)

section \<open>References are given back\<close>

lemma visit_frame:
  assumes "visit_component follow levels clen prev p out s = Some (r, s')"
  shows "frame s s' \<and> world s' = world s"
proof (cases "\<not> follow \<and> p = []")
  case False
  then obtain m q t where f: "find_mount_and_trim_path out s = Some (m, q, t)" and "mount_put m t = Some s'"
    using assms by (auto simp: visit_component_def split: if_splits Option.bind_splits sum.splits)
  then show ?thesis using find_mount_put [OF f] by auto
qed (use assms in \<open>auto simp: visit_component_def\<close>)

text \<open>The loop of path resolution as a big-step relation, for rule induction.\<close>

inductive resolves :: "bool \<Rightarrow> nat \<Rightarrow> char option \<Rightarrow> string \<Rightarrow> string \<Rightarrow> int \<Rightarrow> 'w vfs \<Rightarrow> int + string \<Rightarrow> 'w vfs \<Rightarrow> bool" where
  finished: "length out < MAX_PATH \<Longrightarrow> path_is_normalized out \<Longrightarrow> resolves follow levels prev [] out n s (Inr out) s"
| dot: "p \<noteq> [] \<Longrightarrow> dot_component p \<Longrightarrow> skip_slashes (Some CHR ''.'') (drop 1 p) = (prev', p') \<Longrightarrow>
    resolves follow levels prev' p' out n s r s' \<Longrightarrow> resolves follow levels prev p out n s r s'"
| dotdot: "p \<noteq> [] \<Longrightarrow> \<not> dot_component p \<Longrightarrow> dotdot_component p \<Longrightarrow>
    (if out \<noteq> [] then drop_component out n else Some (out, n)) = Some (out', n') \<Longrightarrow>
    skip_slashes (Some CHR ''.'') (drop 2 p) = (prev', p') \<Longrightarrow>
    resolves follow levels prev' p' out' n' s r s' \<Longrightarrow> resolves follow levels prev p out n s r s'"
| too_long: "p \<noteq> [] \<Longrightarrow> \<not> dot_component p \<Longrightarrow> \<not> dotdot_component p \<Longrightarrow> length out < MAX_PATH \<Longrightarrow>
    copy_component prev p (out @ ''/'') (n - 1) = (prev1, p1, out', 0) \<Longrightarrow>
    resolves follow levels prev p out n s (Inl ENAMETOOLONG) s"
| fails: "p \<noteq> [] \<Longrightarrow> \<not> dot_component p \<Longrightarrow> \<not> dotdot_component p \<Longrightarrow> length out < MAX_PATH \<Longrightarrow>
    copy_component prev p (out @ ''/'') (n - 1) = (prev1, p1, out', n') \<Longrightarrow> n' \<noteq> 0 \<Longrightarrow> skip_slashes prev1 p1 = (prev', p') \<Longrightarrow>
    visit_component follow levels (length out + 1) prev' p' out' s = Some (Fail err, s') \<Longrightarrow>
    resolves follow levels prev p out n s (Inl err) s'"
| proceeds: "p \<noteq> [] \<Longrightarrow> \<not> dot_component p \<Longrightarrow> \<not> dotdot_component p \<Longrightarrow> length out < MAX_PATH \<Longrightarrow>
    copy_component prev p (out @ ''/'') (n - 1) = (prev1, p1, out', n') \<Longrightarrow> n' \<noteq> 0 \<Longrightarrow> skip_slashes prev1 p1 = (prev', p') \<Longrightarrow>
    visit_component follow levels (length out + 1) prev' p' out' s = Some (Proceed, s1) \<Longrightarrow>
    resolves follow levels prev' p' out' n' s1 r s' \<Longrightarrow> resolves follow levels prev p out n s r s'"
| no_entry: "p \<noteq> [] \<Longrightarrow> \<not> dot_component p \<Longrightarrow> \<not> dotdot_component p \<Longrightarrow> length out < MAX_PATH \<Longrightarrow>
    copy_component prev p (out @ ''/'') (n - 1) = (prev1, p1, out', n') \<Longrightarrow> n' \<noteq> 0 \<Longrightarrow> skip_slashes prev1 p1 = (prev', p') \<Longrightarrow>
    visit_component follow levels (length out + 1) prev' p' out' s = Some (Expand [], s') \<Longrightarrow>
    resolves follow levels prev p out n s (Inl ENOENT) s'"
| expands: "p \<noteq> [] \<Longrightarrow> \<not> dot_component p \<Longrightarrow> \<not> dotdot_component p \<Longrightarrow> length out < MAX_PATH \<Longrightarrow>
    copy_component prev p (out @ ''/'') (n - 1) = (prev1, p1, out', n') \<Longrightarrow> n' \<noteq> 0 \<Longrightarrow> skip_slashes prev1 p1 = (prev', p') \<Longrightarrow>
    visit_component follow levels (length out + 1) prev' p' out' s = Some (Expand path, s1) \<Longrightarrow> path \<noteq> [] \<Longrightarrow>
    skip_slashes None path = (prev2, p2) \<Longrightarrow> resolves follow (levels + 1) prev2 p2 [] (int MAX_PATH - 1) s1 r s' \<Longrightarrow>
    resolves follow levels prev p out n s r s'"

lemma path_loop_resolves: "path_loop follow levels prev p out n s = Some (r, s') \<Longrightarrow> resolves follow levels prev p out n s r s'"
proof (induction follow levels prev p out n s arbitrary: r s' rule: path_loop.induct)
  case (1 follow levels prev p out n s)
  obtain prev1 p1 out' n' where c: "copy_component prev p (out @ ''/'') (n - 1) = (prev1, p1, out', n')" by (metis prod_cases4)
  obtain prev' p' where k: "skip_slashes prev1 p1 = (prev', p')" by (metis prod.exhaust)
  consider "p = []" | "p \<noteq> []" "dot_component p" | "p \<noteq> []" "\<not> dot_component p" "dotdot_component p"
    | "p \<noteq> []" "\<not> dot_component p" "\<not> dotdot_component p" by blast
  then show ?case
  proof cases
    case 1
    then show ?thesis using "1.prems" by (subst (asm) path_loop.simps) (auto split: if_splits intro: finished)
  next
    case 2
    obtain a b where k: "skip_slashes (Some CHR ''.'') (drop 1 p) = (a, b)" by (metis prod.exhaust)
    have "path_loop follow levels a b out n s = Some (r, s')" using "1.prems" 2 k by (subst (asm) path_loop.simps) simp
    then show ?thesis using dot [OF 2 k] "1.IH"(1) [OF 2 refl k [symmetric]] by blast
  next
    case 3
    obtain a b where k: "skip_slashes (Some CHR ''.'') (drop 2 p) = (a, b)" by (metis prod.exhaust)
    obtain out' n' where o: "(if out \<noteq> [] then drop_component out n else Some (out, n)) = Some (out', n')"
      and "path_loop follow levels a b out' n' s = Some (r, s')"
      using "1.prems" 3 k by (subst (asm) path_loop.simps) (auto split: option.splits)
    then show ?thesis using dotdot [OF 3 o k] "1.IH"(2) [OF 3 o refl refl k [symmetric]] by blast
  next
    case 4
    have l: "length out < MAX_PATH" using "1.prems" 4 by (subst (asm) path_loop.simps) (auto split: if_splits)
    then have l': "\<not> MAX_PATH \<le> length out" by simp
    show ?thesis
    proof (cases "n' = 0")
      case True
      then show ?thesis using "1.prems" 4 l' c k too_long [OF 4 l] by (subst (asm) path_loop.simps) auto
    next
      case False
      obtain q s1 where v: "visit_component follow levels (length out + 1) prev' p' out' s = Some (q, s1)"
        using "1.prems" 4 l' c k False by (subst (asm) path_loop.simps) (auto split: option.splits)
      note IH = "1.IH"(3,4) [OF 4 l' c [symmetric] refl refl refl refl k [symmetric] False]
      show ?thesis
      proof (cases q)
        case (Expand path)
        obtain a b where k': "skip_slashes None path = (a, b)" by (metis prod.exhaust)
        show ?thesis
        proof (cases "path = []")
          case True
          then show ?thesis using "1.prems" 4 l' c k False v Expand no_entry [OF 4 l c False k]
            by (subst (asm) path_loop.simps) auto
        next
          case ne: False
          have "path_loop follow (levels + 1) a b [] (int MAX_PATH - 1) s1 = Some (r, s')"
            using "1.prems" 4 l' c k False v Expand ne k' by (subst (asm) path_loop.simps) simp
          then have "resolves follow (levels + 1) a b [] (int MAX_PATH - 1) s1 r s'"
            by (rule IH(1) [OF v refl Expand ne refl k' [symmetric]])
          then show ?thesis using expands [OF 4 l c False k _ ne k'] v Expand by blast
        qed
      next
        case (Fail err)
        then show ?thesis using "1.prems" 4 l' c k False v fails [OF 4 l c False k]
          by (subst (asm) path_loop.simps) auto
      next
        case Proceed
        have "path_loop follow levels prev' p' out' n' s1 = Some (r, s')"
          using "1.prems" 4 l' c k False v Proceed by (subst (asm) path_loop.simps) simp
        then have "resolves follow levels prev' p' out' n' s1 r s'" by (rule IH(2) [OF v refl Proceed])
        then show ?thesis using proceeds [OF 4 l c False k] v Proceed by blast
      qed
    qed
  qed
qed

lemma resolves_frame: "resolves follow levels prev p out n s r s' \<Longrightarrow> frame s s' \<and> world s' = world s"
  by (induction rule: resolves.induct) (auto dest!: visit_frame intro: frame_trans)

lemma normalize_at_frame:
  "path_normalize_at at_path path flags s = Some (r, s') \<Longrightarrow> frame s s' \<and> world s' = world s"
  by (auto simp: path_normalize_at_def Let_def split: if_splits prod.splits option.splits dest!: path_loop_resolves resolves_frame)

lemma normalize_frame: "path_normalize at path flags s = Some (r, s') \<Longrightarrow> frame s s' \<and> world s' = world s"
  by (auto simp: path_normalize_def Let_def split: if_splits option.splits at_fd.splits Option.bind_splits sum.splits
    dest!: normalize_at_frame)

lemma mount_put_world: "mount_put m (s\<lparr>world := w\<rparr>) = map_option (\<lambda>s. s\<lparr>world := w\<rparr>) (mount_put m s)"
  by (auto simp: mount_put_def add_ref_def split: option.splits)

lemma with_path_frame: "with_path at path flags f s = Some (r, s') \<Longrightarrow> frame s s'"
  by (auto simp: with_path_def mount_put_world split: Option.bind_splits sum.splits prod.splits
    dest!: normalize_frame find_mount_put intro: frame_trans)

lemma generic_frames:
  "generic_statat at path b s = Some (r1, s') \<Longrightarrow> frame s s'"
  "generic_accessat at path mode s = Some (r2, s') \<Longrightarrow> frame s s'"
  "generic_unlinkat at path s = Some (r2, s') \<Longrightarrow> frame s s'"
  "generic_symlinkat target at path s = Some (r2, s') \<Longrightarrow> frame s s'"
  "generic_mknodat at path mode dev s = Some (r2, s') \<Longrightarrow> frame s s'"
  "generic_setattrat at path attr b s = Some (r2, s') \<Longrightarrow> frame s s'"
  "generic_utime at path t1 t2 b s = Some (r2, s') \<Longrightarrow> frame s s'"
  "generic_readlinkat at path len s = Some (r3, s') \<Longrightarrow> frame s s'"
  "generic_mkdirat at path mode s = Some (r2, s') \<Longrightarrow> frame s s'"
  by (auto simp: generic_statat_def generic_accessat_def generic_unlinkat_def generic_symlinkat_def generic_mknodat_def
    generic_setattrat_def generic_utime_def generic_readlinkat_def generic_mkdirat_def err_of_def Let_def
    split: if_splits prod.splits dest!: with_path_frame)

lemma rmdirat_frame: "generic_rmdirat at path s = Some (r, s') \<Longrightarrow> frame s s'"
  by (auto simp: generic_rmdirat_def mount_put_world split: Option.bind_splits sum.splits prod.splits if_splits
    dest!: normalize_frame find_mount_put intro: frame_trans)

text \<open>With two mounts in hand: giving back the first and then the second undoes finding both.\<close>

lemma mount_put_commute:
  "mount_put m s = Some s1 \<Longrightarrow> mount_put m' s1 = Some s2 \<Longrightarrow> \<exists>t. mount_put m' s = Some t \<and> mount_put m t = Some s2"
  by (auto simp: mount_put_def add_ref_def fun_upd_twist split: option.splits if_splits)

lemma frame_put:
  assumes "frame s s'" "mount_put m s = Some t" "mount_put m s' = Some t'"
  shows "frame t t'"
  using assms frame_fields [OF assms(1)] unfolding frame_def cache_ok_def
  by (cases s; cases s') (auto simp: mount_put_def add_ref_def split: option.splits)

lemma on_one_mount_frame:
  assumes "on_one_mount op src dst s = Some (r, s')"
  shows "frame s s'"
proof -
  obtain m q s1 d q' s2 s3 s4 w where f: "find_mount_and_trim_path src s = Some (m, q, s1)"
    and g: "find_mount_and_trim_path dst s1 = Some (d, q', s2)"
    and p: "mount_put m s2 = Some s3" "mount_put d s3 = Some s4" and s': "s' = s4\<lparr>world := w\<rparr>"
    using assms by (auto simp: on_one_mount_def mount_put_world Let_def split: Option.bind_splits prod.splits)
  obtain u where u: "mount_put m s1 = Some u" "frame s u" using find_mount_put [OF f] by blast
  obtain t where t: "mount_put d s2 = Some t" "frame s1 t" using find_mount_put [OF g] by blast
  have "mount_put m t = Some s4" using mount_put_commute [OF p] t(1) by simp
  then have "frame u s4" by (rule frame_put [OF t(2) u(1)])
  then show ?thesis using u(2) by (auto simp: s' intro: frame_trans)
qed

lemma two_path_frames:
  "generic_linkat a p b q s = Some (r, s') \<Longrightarrow> frame s s'"
  "generic_renameat a p b q s = Some (r, s') \<Longrightarrow> frame s s'"
  by (auto simp: generic_linkat_def generic_renameat_def split: Option.bind_splits sum.splits prod.splits if_splits
    dest!: normalize_frame on_one_mount_frame intro: frame_trans)

text \<open>A call that names files, whatever its result.\<close>

inductive path_call :: "'w vfs \<Rightarrow> 'w vfs \<Rightarrow> bool" where
  "path_normalize at path flags s = Some (r, s') \<Longrightarrow> path_call s s'"
| "generic_statat at path follow s = Some (st, s') \<Longrightarrow> path_call s s'"
| "generic_accessat at path mode s = Some (e, s') \<Longrightarrow> path_call s s'"
| "generic_linkat at path at' path' s = Some (e, s') \<Longrightarrow> path_call s s'"
| "generic_unlinkat at path s = Some (e, s') \<Longrightarrow> path_call s s'"
| "generic_renameat at path at' path' s = Some (e, s') \<Longrightarrow> path_call s s'"
| "generic_symlinkat target at path s = Some (e, s') \<Longrightarrow> path_call s s'"
| "generic_mknodat at path mode dev s = Some (e, s') \<Longrightarrow> path_call s s'"
| "generic_setattrat at path attr follow s = Some (e, s') \<Longrightarrow> path_call s s'"
| "generic_utime at path atime mtime follow s = Some (e, s') \<Longrightarrow> path_call s s'"
| "generic_readlinkat at path len s = Some (r, s') \<Longrightarrow> path_call s s'"
| "generic_mkdirat at path mode s = Some (e, s') \<Longrightarrow> path_call s s'"
| "generic_rmdirat at path s = Some (e, s') \<Longrightarrow> path_call s s'"

lemma path_call_frame: "path_call s s' \<Longrightarrow> frame s s'"
  by (induction rule: path_call.induct) (auto dest: normalize_frame generic_frames rmdirat_frame two_path_frames)

lemma path_calls_frame: "path_call\<^sup>*\<^sup>* s s' \<Longrightarrow> frame s s'"
  by (induction rule: rtranclp_induct) (auto dest: path_call_frame intro: frame_trans)


section \<open>Mounting and unmounting keep the table in order\<close>

lemma frame_mounts_ok: "frame s s' \<Longrightarrow> mounts_ok s \<Longrightarrow> mounts_ok s'"
  using frame_fields [of s s'] by (auto simp: mounts_ok_def frame_def)

lemma cache_stale:
  assumes "cache_ok s" "unat (global_mount_version s) < 2 ^ 64 - 1"
  shows "unat (mount_cache_version s) < unat (global_mount_version s + 1)"
proof -
  have "unat (global_mount_version s + 1) = unat (global_mount_version s) + 1"
    using assms(2) by (intro unat_plus_if' [THEN trans]) simp
  then show ?thesis using assms(1) by (simp add: cache_ok_def)
qed

lemma insert_descending:
  fixes f :: "'a \<Rightarrow> nat"
  assumes "sorted_wrt (\<lambda>a b. f b \<le> f a) xs" "\<forall>x \<in> set xs. P x \<longleftrightarrow> k < f x" "f m = k"
  shows "sorted_wrt (\<lambda>a b. f b \<le> f a) (takeWhile P xs @ m # dropWhile P xs)"
  using assms
proof (induction xs)
  case (Cons x xs)
  show ?case
  proof (cases "P x")
    case True
    then have "\<forall>y \<in> set (takeWhile P xs @ m # dropWhile P xs). f y \<le> f x"
      using Cons.prems by (auto dest: set_takeWhileD set_dropWhileD)
    then show ?thesis using True Cons by simp
  next
    case False
    then show ?thesis using Cons.prems by auto
  qed
qed simp

lemma insert_set: "set (takeWhile P xs @ m # dropWhile P xs) = insert m (set xs)"
  by (induction xs) auto

lemma insert_distinct: "distinct xs \<Longrightarrow> m \<notin> set xs \<Longrightarrow> distinct (takeWhile P xs @ m # dropWhile P xs)"
  by (induction xs) (auto dest: set_takeWhileD set_dropWhileD)

lemma do_mount_ok:
  assumes ok: "mounts_ok s" and m: "\<forall>m. mem = Some m \<longrightarrow> m \<notin> set (mounts s)"
    and v: "unat (global_mount_version s) < 2 ^ 64 - 1"
  shows "mounts_ok (snd (do_mount mem fs src pt inf0 flags s))"
proof (cases mem)
  case (Some m)
  let ?mt = "\<lparr>point = pt, source = src, info = inf0, mount_flags = flags, mount_fs = fs, refcount = 0\<rparr>"
  let ?at = "(mount_at s)(m \<mapsto> ?mt)"
  let ?ms = "insert_mount (mount_at s) m pt (mounts s)"
  have fresh: "m \<notin> set (mounts s)" using m Some by simp
  obtain m0 where root: "m0 \<in> set (mounts s)" "point_of s m0 = []" "refcount (the (mount_at s m0)) \<noteq> 0"
    using ok by (auto simp: mounts_ok_def)
  have set: "set ?ms = insert m (set (mounts s))" "distinct ?ms"
    using fresh ok unfolding insert_mount_def Let_def mounts_ok_def
    by (simp_all only: insert_set) (blast intro: insert_distinct)
  have "sorted_wrt (\<lambda>a b. length (point (the (?at b))) \<le> length (point (the (?at a)))) ?ms"
    unfolding insert_mount_def Let_def
  proof (rule insert_descending)
    show "sorted_wrt (\<lambda>a b. length (point (the (?at b))) \<le> length (point (the (?at a)))) (mounts s)"
      using ok fresh unfolding mounts_ok_def by (auto elim!: sorted_wrt_mono_rel [rotated])
    show "\<forall>x \<in> set (mounts s). (case mount_at s x of None \<Rightarrow> False | Some mt \<Rightarrow> length pt < length (point mt)) \<longleftrightarrow>
        length pt < length (point (the (?at x)))"
      using ok fresh by (auto simp: mounts_ok_def split: option.splits)
  qed simp
  moreover have "cache_ok (s\<lparr>mounts := ?ms, mount_at := ?at, global_mount_version := global_mount_version s + 1, world := w\<rparr>)" for w
    using cache_stale [OF _ v] ok by (auto simp: cache_ok_def mounts_ok_def)
  ultimately have "mounts_ok (s\<lparr>mounts := ?ms, mount_at := ?at, global_mount_version := global_mount_version s + 1, world := w\<rparr>)" for w
    using ok fresh set root by (auto simp: mounts_ok_def intro!: bexI [of _ m0])
  moreover have "mounts_ok (s\<lparr>world := w\<rparr>)" for w by (rule frame_mounts_ok [OF frame_world ok])
  ultimately show ?thesis using Some by (auto simp: do_mount_def Let_def split: prod.splits)
qed (use ok in \<open>simp add: do_mount_def\<close>)

lemma sorted_wrt_remove1: "sorted_wrt R xs \<Longrightarrow> sorted_wrt R (remove1 x xs)"
  by (induction xs) (use set_remove1_subset in fastforce)+

lemma mount_remove_ok:
  assumes ok: "mounts_ok s" and v: "unat (global_mount_version s) < 2 ^ 64 - 1" and r: "mount_remove m s = Some (e, s')"
  shows "mounts_ok s'"
proof -
  obtain mt where mt: "mount_at s m = Some mt" using r by (auto simp: mount_remove_def split: Option.bind_splits)
  show ?thesis
  proof (cases "refcount mt = 0")
    case True
    obtain m0 where m0: "m0 \<in> set (mounts s)" "point_of s m0 = []" "refcount (the (mount_at s m0)) \<noteq> 0"
      using ok by (auto simp: mounts_ok_def)
    then have "m0 \<noteq> m" using True mt by auto
    moreover have "sorted_wrt (\<lambda>a b. length (point (the (((mount_at s)(m := None)) b))) \<le> length (point (the (((mount_at s)(m := None)) a))))
        (remove1 m (mounts s))"
    proof (rule sorted_wrt_mono_rel)
      show "sorted_wrt (\<lambda>a b. length (point_of s b) \<le> length (point_of s a)) (remove1 m (mounts s))"
        using ok by (simp add: mounts_ok_def sorted_wrt_remove1)
    qed (use ok in \<open>auto simp: mounts_ok_def\<close>)
    moreover have "cache_ok s'" using cache_stale [OF _ v] ok r mt True
      by (auto simp: cache_ok_def mounts_ok_def mount_remove_def)
    ultimately show ?thesis using ok r mt True m0 by (auto simp: mount_remove_def mounts_ok_def)
  qed (use r ok mt in \<open>auto simp: mount_remove_def\<close>)
qed

lemma sys_umount2_ok:
  assumes ok: "mounts_ok s" "unat (global_mount_version s) < 2 ^ 64 - 1" and c: "sys_umount2 target flags s = Some (e, s')"
  shows "mounts_ok s'"
proof (cases target)
  case (Some raw)
  then obtain r t where n: "path_normalize AT_PWD raw (if flags AND 8 \<noteq> 0 then N_SYMLINK_NOFOLLOW else N_SYMLINK_FOLLOW) s = Some (r, t)"
    and s': "s' = t \<or> (\<exists>m. mount_remove m t = Some (e, s'))"
    using c by (auto simp: sys_umount2_def do_umount_def split: option.splits Option.bind_splits sum.splits) blast+
  have f: "frame s t" using normalize_frame [OF n] by simp
  have v: "unat (global_mount_version t) < 2 ^ 64 - 1" using ok(2) frame_fields [OF f] by simp
  show ?thesis using s' mount_remove_ok [OF frame_mounts_ok [OF f ok(1)] v] frame_mounts_ok [OF f ok(1)] by blast
qed (use c ok in \<open>simp add: sys_umount2_def\<close>)

lemma sys_mount_step:
  assumes "sys_mount mem filesystems src pt type flags data s = Some (e, s')"
  shows "s' = s \<or> (\<exists>r t. generic_statat AT_PWD (the pt) True s = Some (r, t) \<and>
    (s' = t \<or> (\<exists>r' u. path_normalize AT_PWD (the pt) N_SYMLINK_FOLLOW t = Some (r', u) \<and>
      (s' = u \<or> (\<exists>fs src pt inf0 flags. do_mount mem fs src pt inf0 flags u = (e, s'))))))"
proof -
  have "\<not> (src = None \<or> pt = None \<or> data = Some None \<or> type = None) \<and> flags AND NOT mount_flags_supported = 0 \<and>
      (\<exists>fs. find (\<lambda>fs. fs_name fs = the type) filesystems = Some fs) \<or> s' = s"
    using assms unfolding sys_mount_def by (auto split: if_splits option.splits)
  then show ?thesis using assms unfolding sys_mount_def
    by (fastforce split: if_splits Option.bind_splits sum.splits)
qed

lemma sys_mount_ok:
  assumes ok: "mounts_ok s" and m: "\<forall>m. mem = Some m \<longrightarrow> m \<notin> set (mounts s)" and v: "unat (global_mount_version s) < 2 ^ 64 - 1"
    and c: "sys_mount mem filesystems src pt type flags data s = Some (e, s')"
  shows "mounts_ok s'"
proof -
  have "\<exists>u. frame s u \<and> (s' = u \<or> (\<exists>fs src pt inf0 flags. do_mount mem fs src pt inf0 flags u = (e, s')))"
    using sys_mount_step [OF c] by (metis frameI frame_trans generic_frames(1) normalize_frame)
  then obtain u where f: "frame s u" and s': "s' = u \<or> (\<exists>fs src pt inf0 flags. do_mount mem fs src pt inf0 flags u = (e, s'))"
    by blast
  have u: "mounts_ok u" "\<forall>m. mem = Some m \<longrightarrow> m \<notin> set (mounts u)" "unat (global_mount_version u) < 2 ^ 64 - 1"
    using frame_mounts_ok [OF f ok] m v frame_fields [OF f] by simp_all
  show ?thesis using s' u(1) do_mount_ok [OF u] by (metis snd_conv)
qed

text \<open>The calls on the file system: naming a file, or mounting and unmounting while the counter of changes does not wrap.\<close>

inductive vfs_call :: "'w vfs \<Rightarrow> 'w vfs \<Rightarrow> bool" where
  path: "path_call s s' \<Longrightarrow> vfs_call s s'"
| mount: "sys_mount mem filesystems src pt type flags data s = Some (e, s') \<Longrightarrow> \<forall>m. mem = Some m \<longrightarrow> m \<notin> set (mounts s) \<Longrightarrow>
    unat (global_mount_version s) < 2 ^ 64 - 1 \<Longrightarrow> vfs_call s s'"
| umount: "sys_umount2 target flags s = Some (e, s') \<Longrightarrow> unat (global_mount_version s) < 2 ^ 64 - 1 \<Longrightarrow> vfs_call s s'"


section \<open>Finding a mount\<close>

lemma under_point_nested:
  assumes "under_point path a" "under_point path b" "length a \<le> length b"
  shows "under_point b a"
proof -
  have "take (length a) b = a" using assms by (metis min.absorb1 take_take under_point_def)
  moreover have "drop (length a) b = take (length b - length a) (drop (length a) path)"
    using assms(2) by (metis drop_take under_point_def)
  ultimately show ?thesis using assms(1)
    by (auto simp: under_point_def take_Cons split: list.splits nat.splits)
qed

lemma mount_get_at:
  "mount_at s m = Some mt \<Longrightarrow> mount_get m s = Some (s\<lparr>mount_at := (mount_at s)(m \<mapsto> mt\<lparr>refcount := refcount mt + 1\<rparr>)\<rparr>)"
  by (simp add: mount_get_def add_ref_def)

lemma mount_find_some:
  assumes ok: "mounts_ok s" and n: "path_is_normalized path"
  shows "\<exists>m s'. mount_find path s = Some (m, s') \<and> m \<in> set (mounts s) \<and> under_point path (point_of s m) \<and>
    (last_mount_cache s = Some m \<or>
      (\<forall>m' \<in> set (mounts s). under_point path (point_of s m') \<longrightarrow> length (point_of s m') \<le> length (point_of s m))) \<and>
    mount_at s' = (mount_at s)(m \<mapsto> (the (mount_at s m))\<lparr>refcount := refcount (the (mount_at s m)) + 1\<rparr>)"
proof -
  have alloc: "\<forall>m \<in> set (mounts s). mount_at s m \<noteq> None" using ok by (simp add: mounts_ok_def)
  obtain m0 where m0: "m0 \<in> set (mounts s)" "under_point path (point_of s m0)"
    using ok n by (auto simp: mounts_ok_def)
  obtain m where m: "m \<in> set (mounts s)" "search_mounts (mount_at s) path (mounts s) = Some m" "under_point path (point_of s m)"
    "\<forall>m' \<in> set (mounts s). under_point path (point_of s m') \<longrightarrow> length (point_of s m') \<le> length (point_of s m)"
    using search_mounts_first [OF alloc m0] ok by (auto simp: mounts_ok_def)
  have "\<exists>hit. mount_cache_check (last_mount_cache s) path s = Some hit"
  proof (cases "last_mount_cache s = None \<or> mount_cache_version s \<noteq> global_mount_version s")
    case False
    then obtain c mt where "last_mount_cache s = Some c" "mount_at s c = Some mt"
      using ok by (auto simp: mounts_ok_def cache_ok_def) blast
    then show ?thesis using False by (simp add: mount_cache_check_def)
  qed (auto simp: mount_cache_check_def split: option.splits)
  then obtain hit where hit: "mount_cache_check (last_mount_cache s) path s = Some hit" by blast
  show ?thesis
  proof (cases hit)
    case True
    then obtain c where c: "last_mount_cache s = Some c" "c \<in> set (mounts s)" "under_point path (point_of s c)"
      using hit ok by (auto simp: mount_cache_check_def mounts_ok_def cache_ok_def split: option.splits if_splits Option.bind_splits)
    then show ?thesis using alloc n hit True by (auto simp: mount_find_def mount_get_at)
  next
    case False
    then show ?thesis using m alloc n hit by (auto simp: mount_find_def mount_get_at)
  qed
qed


section \<open>Where the cache and the permission checks go wrong\<close>

text \<open>A file system that has no links and gives every path the same attributes.\<close>

definition plain_fs :: "string \<Rightarrow> statbuf \<Rightarrow> unit fs_ops" where
  "plain_fs nm st = \<lparr>fs_name = nm, fs_mount = None, fs_umount = None, fs_readlink = None, fs_link = None, fs_unlink = Some (\<lambda>_ _ w. (0, w)),
    fs_rmdir = None, fs_rename = None, fs_symlink = None, fs_mknod = None, fs_mkdir = None, fs_stat = (\<lambda>_ _ _. Inr st),
    fs_setattr = None, fs_utime = None, fs_getpath = (\<lambda>_ _. Inr [])\<rparr>"

definition plain_mount :: "string \<Rightarrow> statbuf \<Rightarrow> unit mount" where
  "plain_mount pt st = \<lparr>point = pt, source = [], info = [], mount_flags = 0, mount_fs = plain_fs ''plain'' st, refcount = 1\<rparr>"

text \<open>A root file system at address 0 and two nested mounts at 1 and 2, seen by user 1000.\<close>

definition nested :: "statbuf \<Rightarrow> unit vfs" where
  "nested st = \<lparr>mounts = [2, 1, 0], mount_at = [0 \<mapsto> plain_mount [] st, 1 \<mapsto> plain_mount ''/a'' st, 2 \<mapsto> plain_mount ''/a/b'' st],
    last_mount_cache = None, mount_cache_version = 0, global_mount_version = 1, fd_mount = (\<lambda>_. 0), fs_root = Some 7,
    fs_pwd = Some 7, cur_euid = 1000, cur_egid = 1000, world = ()\<rparr>"

definition dir_stat :: statbuf where
  "dir_stat = \<lparr>stat_inode = 1, stat_mode = 0x41ed, stat_uid = 0, stat_gid = 0, stat_rdev = 0\<rparr>"

lemma nested_ok: "mounts_ok (nested st)"
  by (auto simp: mounts_ok_def cache_ok_def nested_def plain_mount_def)


text \<open>Removing a file from the inner mount, as a call on that state.\<close>

lemma unlink_nested: "\<exists>s'. generic_unlinkat AT_PWD ''/f'' (nested dir_stat) = Some (0, s')"
  by (simp add: generic_unlinkat_def with_path_def path_normalize_def path_normalize_at_def nested_def plain_mount_def
    plain_fs_def generic_getpath_def path_loop.simps dot_component_def dotdot_component_def visit_component_def
    find_mount_and_trim_path_def mount_find_def mount_cache_check_def under_point_def mount_get_def mount_put_def add_ref_def
    optional_op_def err_of_def)



text \<open>After a lookup in the outer of two nested mounts, a path in the inner one is looked up in the outer one.\<close>

lemma mount_cache_shadows_inner:
  "map_option fst (mount_find ''/a/b/c'' (nested st)) = Some 2"
  "map_option fst (Option.bind (mount_find ''/a/x'' (nested st)) (\<lambda>(m, s). mount_find ''/a/b/c'' s)) = Some 1"
  by (auto simp: nested_def plain_mount_def mount_find_def mount_cache_check_def under_point_def mount_get_def add_ref_def)

text \<open>A check for reading and writing passes when only one of them is allowed.\<close>

lemma access_check_any_bit:
  assumes "cur_euid s = 1000" "cur_egid s = 1000"
  shows "access_check s (dir_stat\<lparr>stat_mode := 0x8124\<rparr>) (AC_R OR AC_W) = 0"
  using assms by (simp add: access_check_def dir_stat_def)

text \<open>\<^verbatim>\<open>N_PARENT_DIR_WRITE\<close> has no effect: no call checks the permission to write to the parent directory.\<close>

lemma parent_dir_write_ignored: "path_normalize at path (flags OR N_PARENT_DIR_WRITE) s = path_normalize at path flags s"
proof -
  have "(flags OR 4) AND 1 = flags AND 1" "(flags OR 4) AND 2 = flags AND 2" for flags :: "32 word"
    by (simp_all add: bit.conj_disj_distrib2)
  then have eq: "path_normalize_at b path (flags OR N_PARENT_DIR_WRITE) s = path_normalize_at b path flags s" for b
    by (simp add: path_normalize_at_def)
  show ?thesis unfolding path_normalize_def eq ..
qed

end
