(* ===== verification/Path_Laws.thy ===== *)
theory Path_Laws
  imports Mount_Laws
begin

text \<open>
  What path resolution computes.  A resolved path is a list of proper components behind single slashes; without symbolic links on
  the way, it is the list that walking the components with their dots gives.
\<close>

section \<open>Components\<close>

definition render :: "string list \<Rightarrow> string" where
  "render cs = concat (map (\<lambda>c. CHR ''/'' # c) cs)"

definition proper :: "string \<Rightarrow> bool" where
  "proper c \<longleftrightarrow> c \<noteq> [] \<and> CHR ''/'' \<notin> set c \<and> c \<noteq> ''.'' \<and> c \<noteq> ''..''"

definition clean :: "string \<Rightarrow> bool" where
  "clean out \<longleftrightarrow> (\<exists>cs. list_all proper cs \<and> out = render cs)"

lemma render_simps [simp]: "render [] = []" "render (c # cs) = CHR ''/'' # c @ render cs" "render (cs @ ds) = render cs @ render ds"
  by (simp_all add: render_def)

lemma clean_empty [simp]: "clean []"
  unfolding clean_def by (rule exI [of _ "[]"]) simp

lemma clean_snoc: "clean out \<Longrightarrow> proper c \<Longrightarrow> clean (out @ CHR ''/'' # c)"
proof -
  assume "clean out" "proper c"
  then obtain cs where "list_all proper cs" "out = render cs" by (auto simp: clean_def)
  then show ?thesis using \<open>proper c\<close> unfolding clean_def by (intro exI [of _ "cs @ [c]"]) simp
qed

lemma render_normalized: "list_all proper cs \<Longrightarrow> path_is_normalized (render cs)"
proof (induction cs)
  case (Cons c cs)
  have "dropWhile (\<lambda>d. d \<noteq> CHR ''/'') (c @ render cs) = render cs"
    using Cons.prems by (cases cs) (auto simp: proper_def dropWhile_append)
  moreover obtain d c' where "c = d # c'" "d \<noteq> CHR ''/''" using Cons.prems by (cases c) (auto simp: proper_def)
  ultimately show ?case using Cons by auto
qed simp

lemma drop_component_render:
  assumes "CHR ''/'' \<notin> set c"
  shows "drop_component (out @ CHR ''/'' # c) n = Some (out, n + int (length c) + 1)"
  using assms
proof (induction c arbitrary: n rule: rev_induct)
  case Nil
  then show ?case by (subst drop_component.simps) simp
next
  case (snoc x c)
  have "drop_component (out @ CHR ''/'' # c @ [x]) n = drop_component (out @ CHR ''/'' # c) (n + 1)"
    using snoc.prems by (subst drop_component.simps) (auto simp: butlast_append)
  then show ?case using snoc by simp
qed

lemma copy_component_room:
  assumes "copy_component prev p out n = (prev', p', out', n')" "int (length (takeWhile (\<lambda>c. c \<noteq> CHR ''/'') p)) < n"
  shows "out' = out @ takeWhile (\<lambda>c. c \<noteq> CHR ''/'') p \<and> p' = dropWhile (\<lambda>c. c \<noteq> CHR ''/'') p \<and>
    n' = n - int (length (takeWhile (\<lambda>c. c \<noteq> CHR ''/'') p)) \<and>
    (p \<noteq> [] \<and> hd p \<noteq> CHR ''/'' \<longrightarrow> prev' \<noteq> None)"
  using assms
proof (induction prev p out n rule: copy_component.induct)
  case (1 prev c p out n)
  then show ?case by (cases "c = CHR ''/''"; cases p) auto
qed simp

lemma copy_component_short:
  assumes "copy_component prev p out n = (prev', p', out', n')" "0 < n" "n \<le> int (length (takeWhile (\<lambda>c. c \<noteq> CHR ''/'') p))"
  shows "n' = 0"
  using assms
proof (induction prev p out n rule: copy_component.induct)
  case (1 prev c p out n)
  then show ?case by (cases "c = CHR ''/''"; cases "n - 1 > 0") auto
qed simp

lemma copy_component_none: "n \<le> 0 \<Longrightarrow> p \<noteq> [] \<Longrightarrow> hd p \<noteq> CHR ''/'' \<Longrightarrow> copy_component prev p out n = (prev, p, out, n - 1)"
  by (cases p) auto

lemma skip_slashes_head: "skip_slashes prev p = (prev', p') \<Longrightarrow> p' = dropWhile (\<lambda>c. c = CHR ''/'') p \<and> (prev' = prev \<or> prev' = Some CHR ''/'')"
  by (induction prev p rule: skip_slashes.induct) (auto split: if_splits)

lemma skipped_hd:
  assumes "skip_slashes prev p = (prev', p')"
  shows "p' \<noteq> [] \<Longrightarrow> hd p' \<noteq> CHR ''/''"
  using skip_slashes_head [OF assms] hd_dropWhile [of "\<lambda>c. c = CHR ''/''" p] by blast

lemma first_component_proper:
  assumes "p \<noteq> []" "hd p \<noteq> CHR ''/''" "\<not> dot_component p" "\<not> dotdot_component p"
  shows "proper (takeWhile (\<lambda>c. c \<noteq> CHR ''/'') p)"
proof -
  define c r where "c = takeWhile (\<lambda>c. c \<noteq> CHR ''/'') p" and "r = dropWhile (\<lambda>c. c \<noteq> CHR ''/'') p"
  then have p: "p = c @ r" and r: "r = [] \<or> hd r = CHR ''/''" and s: "CHR ''/'' \<notin> set c"
    using hd_dropWhile [of "\<lambda>c. c \<noteq> CHR ''/''" p] by (auto dest: set_takeWhileD)
  have "c \<noteq> ''.''" using assms(3) r by (auto simp: p dot_component_def)
  moreover have "c \<noteq> ''..''" using assms(4) r by (auto simp: p dotdot_component_def)
  moreover have "c \<noteq> []" using assms(1,2) r by (auto simp: p)
  ultimately have "proper c" using s by (simp add: proper_def)
  then show ?thesis by (simp add: c_def)
qed

text \<open>Once the buffer is full, no more path comes out: the loop ends in a failure.\<close>

lemma full_buffer_fails:
  assumes "resolves follow levels prev p out n s r s'" "n < 0" "MAX_PATH - 1 \<le> length out" "p \<noteq> []" "hd p \<noteq> CHR ''/''"
    "\<not> dot_component p" "\<not> dotdot_component p"
  shows "\<exists>e. r = Inl e"
proof -
  have c: "copy_component prev p (out @ ''/'') (n - 1) = (prev, p, out @ ''/'', n - 2)"
    using copy_component_none [of "n - 1" p] assms(2,4,5) by simp
  have k: "skip_slashes prev p = (prev, p)" using assms(4,5) by (cases p) auto
  have v: "visit_component follow levels (length out + 1) prev p (out @ ''/'') s = None"
    using assms(3,4) by (simp add: visit_component_def)
  show ?thesis using assms(1) by (cases rule: resolves.cases) (use assms(4-7) c k v in auto)
qed

lemma resolved_clean:
  assumes "resolves follow levels prev p out n s r s'" "clean out" "n = int MAX_PATH - 1 - int (length out)"
    "p \<noteq> [] \<longrightarrow> hd p \<noteq> CHR ''/''" "r = Inr path"
  shows "clean path \<and> length path < MAX_PATH"
  using assms
proof (induction rule: resolves.induct)
  case (dot p prev' p' follow levels out n s r s' prev)
  then show ?case using skipped_hd by blast
next
  case (dotdot p out n out' n' prev' p' follow levels s r s' prev)
  have "clean out' \<and> n' = int MAX_PATH - 1 - int (length out')"
  proof (cases "out = []")
    case False
    then obtain cs c where o: "list_all proper (cs @ [c])" "out = render (cs @ [c])"
      using dotdot.prems(1) unfolding clean_def by (metis render_simps(1) rev_exhaust)
    then have "drop_component out n = Some (render cs, n + int (length c) + 1)"
      using drop_component_render [of c "render cs" n] by (simp add: proper_def)
    then show ?thesis using dotdot.hyps(4) False o dotdot.prems(2) by (auto simp: clean_def)
  qed (use dotdot in auto)
  then show ?case using dotdot skipped_hd by blast
next
  case (proceeds p out prev n prev1 p1 out' n' prev' p' follow levels s s1 r s')
  let ?c = "takeWhile (\<lambda>c. c \<noteq> CHR ''/'') p"
  have hd: "hd p \<noteq> CHR ''/''" using proceeds.prems(3) proceeds.hyps(1) by blast
  consider "int (length ?c) < n - 1" | "0 < n - 1" "n - 1 \<le> int (length ?c)" | "n - 1 \<le> 0" by linarith
  then show ?case
  proof cases
    case 1
    have c: "out' = out @ CHR ''/'' # ?c" "n' = n - 1 - int (length ?c)"
      using copy_component_room [OF proceeds.hyps(5) 1] by simp_all
    have "clean out'" unfolding c(1)
      by (rule clean_snoc [OF proceeds.prems(1) first_component_proper]) (use proceeds.hyps hd in blast)+
    moreover have "n' = int MAX_PATH - 1 - int (length out')" using c proceeds.prems(2) by simp
    ultimately show ?thesis using proceeds.IH proceeds.prems(4) skipped_hd [OF proceeds.hyps(7)] by blast
  next
    case 2
    then show ?thesis using copy_component_short [OF proceeds.hyps(5)] proceeds.hyps(6) by blast
  next
    case 3
    then have c: "p1 = p" "out' = out @ ''/''" "n' = n - 2" "prev1 = prev"
      using copy_component_none [OF 3 proceeds.hyps(1) hd] proceeds.hyps(5) by simp_all
    then have "p' = p" "prev' = prev" using proceeds.hyps(1,7) hd by (cases p; auto)+
    then have "\<exists>e. r = Inl e" using proceeds.hyps(9) 3 c proceeds.prems(2) proceeds.hyps(1-4) hd
      by (intro full_buffer_fails) auto
    then show ?thesis using proceeds.prems(4) by simp
  qed
next
  case (expands p out prev n prev1 p1 out' n' prev' p' follow levels s path' s1 prev2 p2 r s')
  then show ?case using skipped_hd by simp
qed auto

text \<open>C36: A resolved path is normal.  Whatever the file systems answer, symbolic links included, if resolution succeeds its result is a
  sequence of proper components, each behind one slash: none of them is empty, \<^verbatim>\<open>.\<close> or \<^verbatim>\<open>..\<close>, and the whole fits the
  buffer with its terminator.  (The directory the path starts from must have such a path itself.)\<close>

theorem path_normalize_clean:
  assumes dirs: "\<forall>f b. generic_getpath f s = Some (Inr b) \<longrightarrow> b = ''/'' \<or> clean b"
    and n: "path_normalize at path flags s = Some (Inr out, s')"
  shows "clean out \<and> length out < MAX_PATH"
proof -
  obtain b where b: "case b of None \<Rightarrow> True | Some b \<Rightarrow> b = ''/'' \<or> clean b" and a: "path_normalize_at b path flags s = Some (Inr out, s')"
    using n dirs by (auto simp: path_normalize_def Let_def split: if_splits at_fd.splits option.splits sum.splits Option.bind_splits) force+
  let ?base = "case b of None \<Rightarrow> [] | Some b \<Rightarrow> if b = ''/'' then [] else b"
  obtain prev p where k: "skip_slashes None path = (prev, p)" by (metis prod.exhaust)
  have "clean ?base" using b by (auto split: option.splits)
  moreover have "\<exists>follow. path_loop follow 0 prev p ?base (int MAX_PATH - 1 - int (length ?base)) s = Some (Inr out, s')"
    using a k by (auto simp: path_normalize_at_def Let_def split: if_splits option.splits)
  ultimately show ?thesis using skipped_hd [OF k] resolved_clean path_loop_resolves by blast
qed

section \<open>Resolution without symbolic links\<close>

lemma length_dropWhile_less: "xs \<noteq> [] \<Longrightarrow> P (hd xs) \<Longrightarrow> length (dropWhile P xs) < length xs"
  by (cases xs) (auto simp: le_imp_less_Suc length_dropWhile_le)

function components :: "string \<Rightarrow> string list" where
  "components p = (let q = dropWhile (\<lambda>c. c = CHR ''/'') p in
    if q = [] then [] else takeWhile (\<lambda>c. c \<noteq> CHR ''/'') q # components (dropWhile (\<lambda>c. c \<noteq> CHR ''/'') q))"
  by pat_completeness auto
termination
proof (relation "measure length", goal_cases)
  case (2 p q)
  then have "length (dropWhile (\<lambda>c. c \<noteq> CHR ''/'') q) < length q"
    using hd_dropWhile [of "\<lambda>c. c = CHR ''/''" p] by (intro length_dropWhile_less) simp_all
  then show ?case using 2 length_dropWhile_le [of "\<lambda>c. c = CHR ''/''" p] by simp
qed simp

declare components.simps [simp del]

fun walk :: "string list \<Rightarrow> string list \<Rightarrow> string list" where
  "walk acc [] = acc"
| "walk acc (c # cs) = walk (if c = ''.'' then acc else if c = ''..'' then butlast acc else acc @ [c]) cs"

lemma components_skip: "components (dropWhile (\<lambda>c. c = CHR ''/'') p) = components p"
  by (subst (1 2) components.simps) simp

lemma components_step:
  assumes "p \<noteq> []" "hd p \<noteq> CHR ''/''"
  shows "components p = takeWhile (\<lambda>c. c \<noteq> CHR ''/'') p # components (dropWhile (\<lambda>c. c \<noteq> CHR ''/'') p)"
proof -
  have "dropWhile (\<lambda>c. c = CHR ''/'') p = p" using assms by (cases p) auto
  then show ?thesis using assms(1) by (subst components.simps) simp
qed

text \<open>A file system tree as one user sees it, without symbolic links and with accessible directories only.\<close>

definition no_links :: "'w vfs \<Rightarrow> bool" where
  "no_links s \<longleftrightarrow> (\<forall>m mt q. mount_at s m = Some mt \<longrightarrow>
    (\<forall>f len. fs_readlink (mount_fs mt) = Some f \<longrightarrow> (\<exists>e. f m q len (world s) = Inl e)) \<and>
    (\<forall>st. fs_stat (mount_fs mt) m q (world s) = Inr st \<longrightarrow> S_ISDIR (stat_mode st) \<and> access_check s st AC_X = 0))"

lemma normalized_suffix:
  "path_is_normalized path \<Longrightarrow> drop k path = [] \<or> hd (drop k path) = CHR ''/'' \<Longrightarrow> path_is_normalized (drop k path)"
proof (induction path arbitrary: k rule: path_is_normalized.induct)
  case (2 c cs)
  show ?case
  proof (cases k)
    case (Suc j)
    let ?tw = "takeWhile (\<lambda>d. d \<noteq> CHR ''/'') cs" and ?dw = "dropWhile (\<lambda>d. d \<noteq> CHR ''/'') cs"
    have d: "drop k (c # cs) = drop j ?tw @ drop (j - length ?tw) ?dw" unfolding Suc
      by (metis drop_Suc_Cons drop_append takeWhile_dropWhile_id)
    have "drop j ?tw = []"
    proof (rule ccontr)
      assume ne: "drop j ?tw \<noteq> []"
      then have "hd (drop j ?tw) \<in> set ?tw" by (meson hd_in_set in_set_dropD)
      then show False using "2.prems"(2) d ne by (auto dest: set_takeWhileD)
    qed
    then show ?thesis using 2 d by auto
  qed (use 2 in simp)
qed simp

lemma access_frame: "frame s s' \<Longrightarrow> access_check s' = access_check s"
  by (drule frame_fields) (simp add: access_check_def fun_eq_iff)

lemma visit_plain:
  assumes ok: "mounts_ok s" "no_links s" and out: "path_is_normalized out" "length out < MAX_PATH" and prev: "prev \<noteq> None"
  shows "\<exists>s'. visit_component follow levels clen prev p out s = Some (Proceed, s')"
proof (cases "\<not> follow \<and> p = []")
  case False
  obtain m s1 where m: "mount_find out s = Some (m, s1)" "m \<in> set (mounts s)" "under_point out (point_of s m)"
    and at: "mount_at s1 = (mount_at s)(m \<mapsto> (the (mount_at s m))\<lparr>refcount := refcount (the (mount_at s m)) + 1\<rparr>)"
    using mount_find_some [OF ok(1) out(1)] by blast
  obtain mt where mt: "mount_at s m = Some mt" using ok(1) m(2) by (auto simp: mounts_ok_def)
  let ?q = "drop (length (point mt)) out"
  have f: "find_mount_and_trim_path out s = Some (m, ?q, s1)" using m(1) at mt by (simp add: find_mount_and_trim_path_def)
  obtain s2 where s2: "mount_put m s1 = Some s2" "frame s s2" "world s1 = world s" "world s2 = world s"
    using mount_find_put [OF m(1)] by blast
  have q: "path_is_normalized ?q"
    using m(3) mt by (intro normalized_suffix [OF out(1)]) (auto simp: under_point_def split: list.splits)
  have c: "check_directory s2 (fs_stat (mount_fs mt) m ?q (world s)) = Proceed"
    using ok(2) mt by (auto simp: no_links_def check_directory_def access_frame [OF s2(2)] split: sum.splits)
  obtain e where "(case fs_readlink (mount_fs mt) of None \<Rightarrow> Inl EINVAL | Some f \<Rightarrow> f m ?q (MAX_PATH - clen) (world s1)) = Inl e"
    using ok(2) mt unfolding no_links_def s2(3) by (cases "fs_readlink (mount_fs mt)") (simp, force)
  then show ?thesis using False f at mt s2 q out(2) prev c by (auto simp: visit_component_def)
qed (simp add: visit_component_def)

lemma no_links_frame: "frame s s' \<Longrightarrow> world s' = world s \<Longrightarrow> no_links s \<Longrightarrow> no_links s'"
  unfolding no_links_def using frame_fields [of s s'] access_frame [of s s'] by simp

lemma dot_split: "dot_component p \<Longrightarrow> takeWhile (\<lambda>c. c \<noteq> CHR ''/'') p = ''.'' \<and> dropWhile (\<lambda>c. c \<noteq> CHR ''/'') p = drop 1 p"
  by (cases p; cases "tl p") (auto simp: dot_component_def)

lemma dotdot_split: "dotdot_component p \<Longrightarrow> takeWhile (\<lambda>c. c \<noteq> CHR ''/'') p = ''..'' \<and> dropWhile (\<lambda>c. c \<noteq> CHR ''/'') p = drop 2 p"
  by (cases p; cases "tl p"; cases "tl (tl p)") (auto simp: dotdot_component_def numeral_2_eq_2)

lemma not_dots: "takeWhile (\<lambda>c. c \<noteq> CHR ''/'') p = c \<Longrightarrow> proper c \<Longrightarrow> \<not> dot_component p \<and> \<not> dotdot_component p"
  using dot_split [of p] dotdot_split [of p] by (auto simp: proper_def)

text \<open>The rest of the path behind a component and its slashes.\<close>

lemma rest_of_path:
  assumes "p \<noteq> []" "hd p \<noteq> CHR ''/''" "skip_slashes prev (dropWhile (\<lambda>c. c \<noteq> CHR ''/'') p) = (prev', p')"
  shows "components p = takeWhile (\<lambda>c. c \<noteq> CHR ''/'') p # components p'"
    and "p' \<noteq> [] \<Longrightarrow> length (takeWhile (\<lambda>c. c \<noteq> CHR ''/'') p) + length p' < length p" and "length p' < length p"
proof -
  let ?dw = "dropWhile (\<lambda>c. c \<noteq> CHR ''/'') p"
  have p': "p' = dropWhile (\<lambda>c. c = CHR ''/'') ?dw" using skip_slashes_head [OF assms(3)] by simp
  show "components p = takeWhile (\<lambda>c. c \<noteq> CHR ''/'') p # components p'"
    using components_step [OF assms(1,2)] by (simp add: p' components_skip)
  have l: "length (takeWhile (\<lambda>c. c \<noteq> CHR ''/'') p) + length ?dw = length p"
    by (metis length_append takeWhile_dropWhile_id)
  show "length p' < length p"
    using length_dropWhile_less [OF assms(1), of "\<lambda>c. c \<noteq> CHR ''/''"] assms(2) length_dropWhile_le [of "\<lambda>c. c = CHR ''/''" ?dw] p'
    by simp
  show "length (takeWhile (\<lambda>c. c \<noteq> CHR ''/'') p) + length p' < length p" if "p' \<noteq> []"
  proof -
    have "?dw \<noteq> []"
    proof
      assume "?dw = []"
      then have "p' = []" unfolding p' by (simp only: dropWhile.simps)
      then show False using that by simp
    qed
    then have "length p' < length ?dw" unfolding p'
      using hd_dropWhile [of "\<lambda>c. c \<noteq> CHR ''/''" p] by (intro length_dropWhile_less) simp_all
    then show ?thesis using l by simp
  qed
qed

lemma plain_loop:
  assumes "mounts_ok s" "no_links s" "list_all proper acc" "out = render acc" "n = int MAX_PATH - 1 - int (length out)"
    "p \<noteq> [] \<longrightarrow> hd p \<noteq> CHR ''/'' \<and> length out + length p < MAX_PATH - 2" "length out < MAX_PATH"
  shows "\<exists>s'. path_loop follow levels prev p out n s = Some (Inr (render (walk acc (components p))), s')"
  using assms
proof (induction p arbitrary: prev acc out n s rule: measure_induct_rule [of length])
  case (less p)
  show ?case
  proof (cases "p = []")
    case True
    then show ?thesis using less.prems by (subst path_loop.simps, subst components.simps) (simp add: render_normalized)
  next
    case False
    let ?c = "takeWhile (\<lambda>c. c \<noteq> CHR ''/'') p" and ?r = "dropWhile (\<lambda>c. c \<noteq> CHR ''/'') p"
    have hd: "hd p \<noteq> CHR ''/''" and room: "length out + length p < MAX_PATH - 2" using less.prems(6) False by auto
    have next_ok: "p' \<noteq> [] \<longrightarrow> hd p' \<noteq> CHR ''/'' \<and> length out' + length p' < MAX_PATH - 2"
      if "skip_slashes pr ?r = (prev', p')" "length out' \<le> length out + 1 + length ?c" for pr prev' p' out'
      using rest_of_path(2) [OF False hd that(1)] skipped_hd [OF that(1)] that(2) room by auto
    consider "dot_component p" | "\<not> dot_component p" "dotdot_component p" | "\<not> dot_component p" "\<not> dotdot_component p" by blast
    then show ?thesis
    proof cases
      case 1
      obtain a p' where k: "skip_slashes (Some CHR ''.'') ?r = (a, p')" by (metis prod.exhaust)
      have "path_loop follow levels prev p out n s = path_loop follow levels a p' out n s"
        using False 1 k dot_split [OF 1] by (subst path_loop.simps) simp
      then show ?thesis
        using less.IH [OF rest_of_path(3) [OF False hd k] less.prems(1-5) next_ok [OF k] less.prems(7)]
          rest_of_path(1) [OF False hd k] dot_split [OF 1] by simp
    next
      case 2
      obtain a p' where k: "skip_slashes (Some CHR ''.'') ?r = (a, p')" by (metis prod.exhaust)
      obtain out' n' where o: "(if out \<noteq> [] then drop_component out n else Some (out, n)) = Some (out', n')"
        "out' = render (butlast acc)" "n' = int MAX_PATH - 1 - int (length out')" "length out' \<le> length out"
      proof (cases "acc = []")
        case False
        then have "out = render (butlast acc) @ CHR ''/'' # last acc" "CHR ''/'' \<notin> set (last acc)"
          using less.prems(3,4) append_butlast_last_id [OF False]
          by (metis render_simps append_Nil2, metis last_in_set list_all_iff proper_def)
        then show thesis using drop_component_render [of "last acc" "render (butlast acc)" n] less.prems(5) by (intro that) auto
      qed (use less.prems in \<open>auto intro!: that\<close>)
      have "list_all proper (butlast acc)" using less.prems(3) by (auto simp: list_all_iff dest: in_set_butlastD)
      moreover have "path_loop follow levels prev p out n s = path_loop follow levels a p' out' n' s"
        using False 2 k o(1) dotdot_split [OF 2(2)] by (subst path_loop.simps) simp
      ultimately show ?thesis
        using less.IH [OF rest_of_path(3) [OF False hd k] less.prems(1,2) _ o(2,3) next_ok [OF k]] o(4) less.prems(7)
          rest_of_path(1) [OF False hd k] dotdot_split [OF 2(2)] by simp
    next
      case 3
      obtain prev1 p1 out' n' where c: "copy_component prev p (out @ ''/'') (n - 1) = (prev1, p1, out', n')" by (metis prod_cases4)
      have pc: "proper ?c" by (rule first_component_proper [OF False hd 3])
      have lc: "length ?c \<le> length p" by (rule length_takeWhile_le)
      have r: "out' = out @ CHR ''/'' # ?c" "p1 = ?r" "n' = n - 1 - int (length ?c)" "prev1 \<noteq> None"
        using copy_component_room [OF c] less.prems(5) room lc False hd by auto
      obtain a p' where k: "skip_slashes prev1 ?r = (a, p')" by (metis prod.exhaust)
      have out': "out' = render (acc @ [?c])" "list_all proper (acc @ [?c])" "n' = int MAX_PATH - 1 - int (length out')"
        "length out' < MAX_PATH" "n' \<noteq> 0" "a \<noteq> None"
        using r less.prems(3-5) pc room lc skip_slashes_head [OF k] by auto
      obtain s1 where v: "visit_component follow levels (length out + 1) a p' out' s = Some (Proceed, s1)"
        using visit_plain [OF less.prems(1,2) _ out'(4,6)] render_normalized [OF out'(2)] out'(1) by metis
      have s1: "mounts_ok s1" "no_links s1"
        using visit_frame [OF v] less.prems(1,2) by (auto intro: frame_mounts_ok no_links_frame)
      have "path_loop follow levels prev p out n s = path_loop follow levels a p' out' n' s1"
        using False 3 c r(2) k out'(5) v less.prems(7) by (subst path_loop.simps) simp
      then show ?thesis
        using less.IH [OF rest_of_path(3) [OF False hd k] s1 out'(2,1,3) next_ok [OF k] out'(4)] r(1)
          rest_of_path(1) [OF False hd k] pc by (simp add: proper_def)
    qed
  qed
qed


section \<open>Loops of symbolic links\<close>

text \<open>A tree in which every path is a symbolic link with the given target.\<close>

definition all_links :: "string \<Rightarrow> 'w vfs \<Rightarrow> bool" where
  "all_links link s \<longleftrightarrow> (\<forall>m mt q len. mount_at s m = Some mt \<longrightarrow>
    (\<exists>f. fs_readlink (mount_fs mt) = Some f \<and> f m q len (world s) = Inr link))"

lemma visit_link:
  assumes ok: "mounts_ok s" "all_links link s" and out: "path_is_normalized out" "length out < MAX_PATH"
  shows "\<exists>s'. visit_component True levels clen prev p out s = Some (expand_link levels clen out p link, s')"
proof -
  obtain m s1 where m: "mount_find out s = Some (m, s1)" "m \<in> set (mounts s)" "under_point out (point_of s m)"
    and at: "mount_at s1 = (mount_at s)(m \<mapsto> (the (mount_at s m))\<lparr>refcount := refcount (the (mount_at s m)) + 1\<rparr>)"
    using mount_find_some [OF ok(1) out(1)] by blast
  obtain mt where mt: "mount_at s m = Some mt" using ok(1) m(2) by (auto simp: mounts_ok_def)
  have q: "path_is_normalized (drop (length (point mt)) out)"
    using m(3) mt by (intro normalized_suffix [OF out(1)]) (auto simp: under_point_def split: list.splits)
  obtain s2 where "mount_put m s1 = Some s2" "world s1 = world s" using mount_find_put [OF m(1)] by blast
  moreover obtain f where "fs_readlink (mount_fs mt) = Some f" "f m (drop (length (point mt)) out) (MAX_PATH - clen) (world s) = Inr link"
    using ok(2) mt unfolding all_links_def by metis
  ultimately show ?thesis using m(1) at mt q out(2) by (auto simp: visit_component_def find_mount_and_trim_path_def)
qed

lemma all_links_frame: "frame s s' \<Longrightarrow> world s' = world s \<Longrightarrow> all_links link s \<Longrightarrow> all_links link s'"
  unfolding all_links_def using frame_fields [of s s'] by simp

lemma link_step:
  assumes ok: "mounts_ok s" "all_links (CHR ''/'' # c) s" and c: "proper c" "length c < MAX_PATH - 2"
  shows "\<exists>s'. mounts_ok s' \<and> all_links (CHR ''/'' # c) s' \<and> path_loop True levels prev c [] (int MAX_PATH - 1) s =
    (if levels \<ge> 5 then Some (Inl ELOOP, s') else path_loop True (levels + 1) (Some CHR ''/'') c [] (int MAX_PATH - 1) s')"
proof -
  have tw: "takeWhile (\<lambda>d. d \<noteq> CHR ''/'') c = c" "dropWhile (\<lambda>d. d \<noteq> CHR ''/'') c = []" "c \<noteq> []" "hd c \<noteq> CHR ''/''"
    using c(1) hd_in_set [of c] by (auto simp: proper_def takeWhile_eq_all_conv simp del: hd_in_set)
  have dots: "\<not> dot_component c" "\<not> dotdot_component c" using not_dots [OF tw(1) c(1)] by simp_all
  obtain prev1 p1 out' n' where k: "copy_component prev c ([] @ ''/'') (int MAX_PATH - 1 - 1) = (prev1, p1, out', n')"
    by (metis prod_cases4)
  have r: "out' = CHR ''/'' # c" "p1 = []" "n' \<noteq> 0" using copy_component_room [OF k] c(2) tw by auto
  have n: "path_is_normalized (CHR ''/'' # c)" using render_normalized [of "[c]"] c(1) by simp
  obtain s' where v: "visit_component True levels 1 prev1 [] (CHR ''/'' # c) s =
      Some (expand_link levels 1 (CHR ''/'' # c) [] (CHR ''/'' # c), s')"
    using visit_link [OF ok n] c(2) by fastforce
  have "skip_slashes None (CHR ''/'' # c) = (Some CHR ''/'', c)" using tw(3,4) by (cases c) auto
  then have "path_loop True levels prev c [] (int MAX_PATH - 1) s =
      (if levels \<ge> 5 then Some (Inl ELOOP, s') else path_loop True (levels + 1) (Some CHR ''/'') c [] (int MAX_PATH - 1) s')"
    using tw(3) dots k r v c(2) by (subst path_loop.simps) (simp add: expand_link_def)
  moreover have "mounts_ok s'" "all_links (CHR ''/'' # c) s'"
    using visit_frame [OF v] ok by (auto intro: frame_mounts_ok all_links_frame)
  ultimately show ?thesis by blast
qed

lemma link_loop:
  assumes c: "proper c" "length c < MAX_PATH - 2"
  shows "mounts_ok s \<Longrightarrow> all_links (CHR ''/'' # c) s \<Longrightarrow> levels \<le> 5 \<Longrightarrow>
    \<exists>s'. path_loop True levels prev c [] (int MAX_PATH - 1) s = Some (Inl ELOOP, s')"
proof (induction "5 - levels" arbitrary: levels prev s)
  case 0
  then show ?case using link_step [OF 0(2,3) c, of levels prev] by auto
next
  case (Suc k)
  then have l: "\<not> 5 \<le> levels" by simp
  obtain s' where s': "mounts_ok s'" "all_links (CHR ''/'' # c) s'"
    "path_loop True levels prev c [] (int MAX_PATH - 1) s = path_loop True (levels + 1) (Some CHR ''/'') c [] (int MAX_PATH - 1) s'"
    using link_step [OF Suc(3,4) c, of levels prev] l by auto
  have "k = 5 - (levels + 1)" "levels + 1 \<le> 5" using Suc(2) by simp_all
  then show ?case using Suc(1) [OF _ s'(1,2)] s'(3) by auto
qed


definition looping :: "unit vfs" where
  "looping = (nested dir_stat)\<lparr>mount_at := [0 \<mapsto> (plain_mount [] dir_stat)\<lparr>mount_fs := (plain_fs ''plain'' dir_stat)\<lparr>fs_readlink := Some (\<lambda>_ _ _ _. Inr ''/l'')\<rparr>\<rparr>],
    mounts := [0]\<rparr>"


section \<open>Examples and a defect\<close>

lemma nested_no_links: "no_links (nested dir_stat)"
  by (auto simp: no_links_def nested_def plain_mount_def plain_fs_def dir_stat_def S_ISDIR_def access_check_def split: if_splits)


theorem path_normalize_clean_witness:
  "\<exists>out. map_option fst (path_normalize AT_PWD ''/f'' N_SYMLINK_NOFOLLOW (nested dir_stat)) = Some (Inr out) \<and> clean out"
proof -
  have g: "generic_getpath f (nested dir_stat) = Some (Inr ''/'')" for f
    by (simp add: generic_getpath_def nested_def plain_mount_def plain_fs_def)
  have r: "fs_root (nested dir_stat) = Some 7" by (simp add: nested_def)
  have "\<exists>s'. path_normalize AT_PWD ''/f'' N_SYMLINK_NOFOLLOW (nested dir_stat) = Some (Inr ''/f'', s')"
    using g r by (simp add: path_normalize_def path_normalize_at_def path_loop.simps dot_component_def dotdot_component_def
      visit_component_def)
  then show ?thesis using path_normalize_clean [of "nested dir_stat" AT_PWD "''/f''" N_SYMLINK_NOFOLLOW "''/f''"] g by auto
qed

text \<open>
  When the base fills the buffer but for one character, the slash of the next component takes it, the count of room goes below zero
  unnoticed, and the loop writes on behind the buffer.
\<close>

lemma path_normalize_overruns:
  assumes ok: "mounts_ok s" "no_links s" and b: "list_all proper base" "length (render base) = MAX_PATH - 2"
  shows "path_normalize_at (Some (render base)) ''./x'' N_SYMLINK_FOLLOW s = None"
proof -
  have n: "path_is_normalized (render base @ ''/'')"
    using b(1)
  proof (induction base)
    case (Cons c cs)
    have "dropWhile (\<lambda>d. d \<noteq> CHR ''/'') (c @ render cs @ ''/'') = render cs @ ''/''"
      using Cons.prems by (cases cs) (auto simp: proper_def dropWhile_append)
    moreover obtain d c' where "c = d # c'" "d \<noteq> CHR ''/''" using Cons.prems by (cases c) (auto simp: proper_def)
    ultimately show ?case using Cons by auto
  qed simp
  obtain s1 where v: "visit_component True 0 (length (render base) + 1) (Some CHR ''/'') ''x'' (render base @ ''/'') s = Some (Proceed, s1)"
    using visit_plain [OF ok n, of "Some CHR ''/''" True 0 "length (render base) + 1" "''x''"] b(2) by auto
  have d: "\<not> dot_component ''x''" "\<not> dotdot_component ''x''" "dot_component ''./x''"
    by (simp_all add: dot_component_def dotdot_component_def)
  have "visit_component True 0 (length (render base @ ''/'') + 1) (Some CHR ''/'') ''x'' (render base @ ''//'') s1 = None"
    using b(2) by (simp add: visit_component_def)
  then have "path_loop True 0 (Some CHR ''/'') ''x'' (render base @ ''/'') (- 1) s1 = None"
    using d by (subst path_loop.simps) simp
  then have "path_loop True 0 (Some CHR ''/'') ''x'' (render base) 1 s = None"
    using d b(2) v by (subst path_loop.simps) simp
  then have "path_loop True 0 None ''./x'' (render base) 1 s = None"
    using d by (subst path_loop.simps) simp
  moreover have "render base \<noteq> ''/''" using b(2) by auto
  ultimately show ?thesis using b(2) by (simp add: path_normalize_at_def Let_def)
qed

end
