(* ===== verification/Block_Cache.thy ===== *)
theory Block_Cache
  imports Address_Space
begin

text \<open>
  The cache of translated blocks of an address space (asbestos/asbestos.c): the hash table of blocks by guest address, the
  lists of the blocks on a page, the direct jumps between blocks that chaining installs, and the invalidation of blocks whose
  guest code changed.  A block lives at an address.  A linked list is the list of the addresses on it, first one first; a bucket
  that was never used and one that became empty are both \<^term>\<open>[]\<close>.  The word a jump slot points to holds a guest address
  with bit 63 set, or the address of another block's code, \<^verbatim>\<open>Code b\<close>; host addresses of code have bit 63 clear.
  \<^term>\<open>None\<close> as a result stands for an access through a null or stale pointer.
\<close>

section \<open>Blocks and the cache\<close>

abbreviation (input) FIBER_INITIAL_HASH_SIZE :: nat where "FIBER_INITIAL_HASH_SIZE \<equiv> 1024"
abbreviation (input) FIBER_PAGE_HASH_SIZE :: nat where "FIBER_PAGE_HASH_SIZE \<equiv> 1024"
abbreviation (input) ARM64_EAGER_PRECHAIN_INCOMING_SCAN_LIMIT :: nat where "ARM64_EAGER_PRECHAIN_INCOMING_SCAN_LIMIT \<equiv> 2"

datatype jump = Word64 "64 word" | Code nat

text \<open>A link of a list: null, initialised but on no list, or on the list of jumps to a block.\<close>

datatype link = Null | Alone | In nat

record fiber_block =
  fb_addr :: nat
  fb_end_addr :: nat
  fb_used :: "64 word"
  jump_ip :: "nat \<Rightarrow> jump option"
  old_jump_ip :: "nat \<Rightarrow> jump"
  jumps_from :: "nat \<Rightarrow> nat list"
  jumps_from_links :: "nat \<Rightarrow> link"
  is_jetsam :: bool

record asbestos =
  mem_used :: "64 word"
  num_blocks :: "64 word"
  hash :: "nat list list"
  page_hash :: "nat \<Rightarrow> nat \<Rightarrow> nat list"
  jetsam :: "nat list"
  invalidate_gen :: "32 word"
  blocks :: "nat \<Rightarrow> fiber_block option"

definition asbestos_new :: asbestos where
  "asbestos_new = \<lparr>mem_used = 0, num_blocks = 0, hash = replicate FIBER_INITIAL_HASH_SIZE [], page_hash = (\<lambda>_ _. []),
    jetsam = [], invalidate_gen = 0, blocks = Map.empty\<rparr>"

definition upd_block :: "nat \<Rightarrow> (fiber_block \<Rightarrow> fiber_block) \<Rightarrow> (nat \<Rightarrow> fiber_block option) \<Rightarrow> nat \<Rightarrow> fiber_block option" where
  "upd_block b f h = h(b := map_option f (h b))"

definition blocks_list :: "asbestos \<Rightarrow> nat \<Rightarrow> nat \<Rightarrow> nat list" where
  "blocks_list s page i = page_hash s (page mod FIBER_PAGE_HASH_SIZE) i"

definition page_hash_update :: "nat \<Rightarrow> nat \<Rightarrow> (nat list \<Rightarrow> nat list) \<Rightarrow> asbestos \<Rightarrow> asbestos" where
  "page_hash_update page i f s =
    (let k = page mod FIBER_PAGE_HASH_SIZE in s\<lparr>page_hash := (page_hash s)(k := (page_hash s k)(i := f (page_hash s k i)))\<rparr>)"

section \<open>Removing a block\<close>

text \<open>A jump slot gets its original word back and its link is taken off its list.\<close>

definition restore_jump :: "nat \<Rightarrow> fiber_block \<Rightarrow> fiber_block" where
  "restore_jump i blk = blk\<lparr>jump_ip := (jump_ip blk)(i := map_option (\<lambda>_. old_jump_ip blk i) (jump_ip blk i)),
    jumps_from_links := (jumps_from_links blk)(i := Null)\<rparr>"

definition unlink_outgoing :: "nat \<Rightarrow> nat \<Rightarrow> (nat \<Rightarrow> fiber_block option) \<Rightarrow> nat \<Rightarrow> fiber_block option" where
  "unlink_outgoing b i h =
    (case h b of None \<Rightarrow> h
     | Some blk \<Rightarrow>
        (case jumps_from_links blk i of Null \<Rightarrow> h
        | Alone \<Rightarrow> upd_block b (restore_jump i) h
        | In t \<Rightarrow> upd_block t (\<lambda>x. x\<lparr>jumps_from := (jumps_from x)(i := remove1 b (jumps_from x i))\<rparr>) (upd_block b (restore_jump i) h)))"

definition unlink_incoming :: "nat \<Rightarrow> nat \<Rightarrow> (nat \<Rightarrow> fiber_block option) \<Rightarrow> nat \<Rightarrow> fiber_block option" where
  "unlink_incoming b i h =
    (case h b of None \<Rightarrow> h
     | Some blk \<Rightarrow> upd_block b (\<lambda>x. x\<lparr>jumps_from := (jumps_from x)(i := [])\<rparr>)
        (fold (\<lambda>p. upd_block p (restore_jump i)) (jumps_from blk i) h))"

definition fiber_block_disconnect :: "nat \<Rightarrow> asbestos \<Rightarrow> asbestos option" where
  "fiber_block_disconnect b s = do {
    blk \<leftarrow> blocks s b;
    let k = fb_addr blk mod length (hash s);
    if b \<notin> set (hash s ! k) then None
    else do {
      let s = s\<lparr>mem_used := mem_used s - fb_used blk, num_blocks := num_blocks s - 1, hash := (hash s)[k := remove1 b (hash s ! k)]\<rparr>;
      let s = page_hash_update (PAGE (fb_addr blk)) 0 (remove1 b) s;
      let s = s\<lparr>blocks := unlink_incoming b 0 (unlink_outgoing b 0 (blocks s))\<rparr>;
      let s = page_hash_update (PAGE (fb_end_addr blk)) 1 (remove1 b) s;
      Some (s\<lparr>blocks := unlink_incoming b 1 (unlink_outgoing b 1 (blocks s))\<rparr>)
    }
  }"

definition fiber_block_free :: "nat \<Rightarrow> asbestos \<Rightarrow> asbestos option" where
  "fiber_block_free b s = map_option (\<lambda>s. s\<lparr>blocks := (blocks s)(b := None)\<rparr>) (fiber_block_disconnect b s)"

definition fiber_free_jetsam :: "asbestos \<Rightarrow> asbestos" where
  "fiber_free_jetsam s = s\<lparr>jetsam := [], blocks := fold (\<lambda>b h. h(b := None)) (jetsam s) (blocks s)\<rparr>"

text \<open>Freeing the whole cache; what remains of it is not accessible any more.\<close>

definition asbestos_free :: "asbestos \<Rightarrow> asbestos option" where
  "asbestos_free s = map_option fiber_free_jetsam (foldM (\<lambda>s b. fiber_block_free b s) s (concat (hash s)))"

section \<open>Invalidation\<close>

definition invalidate_block :: "asbestos \<Rightarrow> nat \<Rightarrow> asbestos option" where
  "invalidate_block s b = do {
    s \<leftarrow> fiber_block_disconnect b s;
    Some (s\<lparr>blocks := upd_block b (\<lambda>x. x\<lparr>is_jetsam := True\<rparr>) (blocks s), jetsam := b # jetsam s\<rparr>)
  }"

text \<open>The blocks on one list; the state and whether anything was invalidated.\<close>

definition invalidate_list :: "asbestos \<times> bool \<Rightarrow> nat \<times> nat \<Rightarrow> (asbestos \<times> bool) option" where
  "invalidate_list sd ki = (case sd of (s, did) \<Rightarrow>
    let bs = page_hash s (fst ki) (snd ki) in map_option (\<lambda>s. (s, did \<or> bs \<noteq> [])) (foldM invalidate_block s bs))"

definition finish_invalidate :: "asbestos \<times> bool \<Rightarrow> asbestos" where
  "finish_invalidate sd = (case sd of (s, did) \<Rightarrow> if did then s\<lparr>invalidate_gen := invalidate_gen s + 1\<rparr> else s)"

definition asbestos_invalidate_range :: "nat \<Rightarrow> nat \<Rightarrow> asbestos \<Rightarrow> asbestos option" where
  "asbestos_invalidate_range start end' s = map_option finish_invalidate
    (foldM invalidate_list (s, False) (concat (map (\<lambda>page. [(page mod FIBER_PAGE_HASH_SIZE, 0), (page mod FIBER_PAGE_HASH_SIZE, 1)]) [start..<end'])))"

definition asbestos_invalidate_page :: "nat \<Rightarrow> asbestos \<Rightarrow> asbestos option" where
  "asbestos_invalidate_page page s =
    (if blocks_list s page 0 = [] \<and> blocks_list s page 1 = [] then Some s else asbestos_invalidate_range page (page + 1) s)"

definition asbestos_invalidate_all :: "asbestos \<Rightarrow> asbestos option" where
  "asbestos_invalidate_all s = map_option finish_invalidate
    (foldM invalidate_list (s, False) (concat (map (\<lambda>k. [(k, 0), (k, 1)]) [0..<FIBER_PAGE_HASH_SIZE])))"

section \<open>Lookup and insertion\<close>

definition fiber_resize_hash :: "nat \<Rightarrow> asbestos \<Rightarrow> asbestos option" where
  "fiber_resize_hash new_size s = map_option (\<lambda>new_hash. s\<lparr>hash := new_hash\<rparr>)
    (foldM (\<lambda>new_hash b. do {
        blk \<leftarrow> blocks s b;
        let k = fb_addr blk mod new_size;
        Some (new_hash[k := b # new_hash ! k])
      }) (replicate new_size []) (concat (hash s)))"

definition fiber_lookup :: "nat \<Rightarrow> asbestos \<Rightarrow> nat option" where
  "fiber_lookup addr s =
    find (\<lambda>b. map_option fb_addr (blocks s b) = Some addr) (hash s ! (addr mod length (hash s)))"

definition arm64_fake_jump_target :: "jump \<Rightarrow> nat option" where
  "arm64_fake_jump_target j =
    (case j of Code _ \<Rightarrow> None | Word64 w \<Rightarrow> if bit w 63 then Some (unat (w AND 0xffffffffffff)) else None)"

text \<open>The slot of the source is directed to the code of the target and its link put on the target's list.\<close>

definition link_jump :: "nat \<Rightarrow> nat \<Rightarrow> nat \<Rightarrow> (nat \<Rightarrow> fiber_block option) \<Rightarrow> nat \<Rightarrow> fiber_block option" where
  "link_jump source i target h =
    upd_block target (\<lambda>x. x\<lparr>jumps_from := (jumps_from x)(i := source # jumps_from x i)\<rparr>)
      (upd_block source (\<lambda>x. x\<lparr>jump_ip := (jump_ip x)(i := Some (Code target)),
         jumps_from_links := (jumps_from_links x)(i := In target)\<rparr>) h)"

definition fiber_prechain_patch_slot :: "nat \<Rightarrow> nat \<Rightarrow> nat \<Rightarrow> asbestos \<Rightarrow> asbestos option" where
  "fiber_prechain_patch_slot source i target s = do {
    src \<leftarrow> blocks s source;
    tgt \<leftarrow> blocks s target;
    case jump_ip src i of None \<Rightarrow> Some s
    | Some j \<Rightarrow>
      if is_jetsam src \<or> is_jetsam tgt then Some s
      else if arm64_fake_jump_target j \<noteq> Some (fb_addr tgt) \<or> PAGE (fb_addr src) \<noteq> PAGE (fb_addr tgt) then Some s
      else Some (s\<lparr>blocks := link_jump source i target (blocks s)\<rparr>)
  }"

definition prechain_slot :: "nat \<Rightarrow> asbestos \<Rightarrow> nat \<Rightarrow> asbestos option" where
  "prechain_slot block s i = do {
    blk \<leftarrow> blocks s block;
    case Option.bind (jump_ip blk i) arm64_fake_jump_target of None \<Rightarrow> Some s
    | Some target_addr \<Rightarrow>
      if PAGE (fb_addr blk) \<noteq> PAGE target_addr then Some s
      else (case fiber_lookup target_addr s of None \<Rightarrow> Some s
      | Some target \<Rightarrow> fiber_prechain_patch_slot block i target s)
  }"

definition fiber_prechain_outgoing_same_page :: "nat \<Rightarrow> asbestos \<Rightarrow> asbestos option" where
  "fiber_prechain_outgoing_same_page block s = foldM (prechain_slot block) s [0, 1]"

definition prechain_source :: "nat \<Rightarrow> asbestos \<Rightarrow> nat \<times> nat \<Rightarrow> asbestos option" where
  "prechain_source block s si = (case si of (source, i) \<Rightarrow> do {
    src \<leftarrow> blocks s source;
    blk \<leftarrow> blocks s block;
    if Option.bind (jump_ip src i) arm64_fake_jump_target \<noteq> Some (fb_addr blk) then Some s
    else fiber_prechain_patch_slot source i block s
  })"

definition fiber_prechain_incoming_same_page :: "nat \<Rightarrow> asbestos \<Rightarrow> asbestos option" where
  "fiber_prechain_incoming_same_page block s = do {
    blk \<leftarrow> blocks s block;
    let sources = take ARM64_EAGER_PRECHAIN_INCOMING_SCAN_LIMIT (filter (\<lambda>b. b \<noteq> block) (blocks_list s (PAGE (fb_addr blk)) 0));
    foldM (prechain_source block) s (concat (map (\<lambda>b. [(b, 0), (b, 1)]) sources))
  }"

definition fiber_prechain_same_page :: "bool \<Rightarrow> nat \<Rightarrow> asbestos \<Rightarrow> asbestos option" where
  "fiber_prechain_same_page incoming_enabled block s = do {
    s \<leftarrow> fiber_prechain_outgoing_same_page block s;
    if incoming_enabled then fiber_prechain_incoming_same_page block s else Some s
  }"

text \<open>\<^verbatim>\<open>fiber_insert\<close> of a block at a fresh address \<^verbatim>\<open>b\<close>; the flags say which kinds of eager chaining are enabled.\<close>

definition fiber_insert :: "bool \<Rightarrow> bool \<Rightarrow> nat \<Rightarrow> fiber_block \<Rightarrow> asbestos \<Rightarrow> asbestos option" where
  "fiber_insert prechain incoming b blk s = do {
    let s = s\<lparr>blocks := (blocks s)(b \<mapsto> blk), mem_used := mem_used s + fb_used blk, num_blocks := num_blocks s + 1\<rparr>;
    s \<leftarrow> (if unat (num_blocks s) \<ge> length (hash s) * 2 then fiber_resize_hash (length (hash s) * 2) s else Some s);
    let k = fb_addr blk mod length (hash s);
    let s = s\<lparr>hash := (hash s)[k := b # hash s ! k]\<rparr>;
    let s = page_hash_update (PAGE (fb_addr blk)) 0 (Cons b) s;
    let s = (if PAGE (fb_addr blk) \<noteq> PAGE (fb_end_addr blk) then page_hash_update (PAGE (fb_end_addr blk)) 1 (Cons b) s else s);
    if prechain then fiber_prechain_same_page incoming b s else Some s
  }"

section \<open>Chaining at run time\<close>

text \<open>The loop of \<^verbatim>\<open>cpu_step_to_interrupt\<close> that directs the jumps of the block executed last to the block executed next.\<close>

definition chain_slot :: "nat \<Rightarrow> nat \<Rightarrow> asbestos \<Rightarrow> nat \<Rightarrow> asbestos option" where
  "chain_slot last_block block s i = do {
    lst \<leftarrow> blocks s last_block;
    blk \<leftarrow> blocks s block;
    if Option.bind (jump_ip lst i) arm64_fake_jump_target \<noteq> Some (fb_addr blk) then Some s
    else Some (s\<lparr>blocks := link_jump last_block i block (blocks s)\<rparr>)
  }"

definition chain_blocks :: "nat \<Rightarrow> nat \<Rightarrow> asbestos \<Rightarrow> asbestos option" where
  "chain_blocks last_block block s = do {
    lst \<leftarrow> blocks s last_block;
    blk \<leftarrow> blocks s block;
    if is_jetsam lst \<or> is_jetsam blk then Some s else foldM (chain_slot last_block block) s [0, 1]
  }"

section \<open>The threads that execute blocks\<close>

abbreviation (input) FIBER_CACHE_SIZE :: nat where "FIBER_CACHE_SIZE \<equiv> 4096"

text \<open>
  What a thread keeps of blocks: its own table of blocks by guest address, which survives from one execution to the next, the
  generation of the cache for which that table was filled, the table of return addresses, as the block each of them points into,
  and the blocks in the variables \<^verbatim>\<open>last_block\<close> and \<^verbatim>\<open>block\<close> of \<^verbatim>\<open>cpu_step_to_interrupt\<close>.
\<close>

record cpu_thread =
  block_cache :: "nat \<Rightarrow> nat option"
  block_cache_gen :: "32 word"
  ret_cache :: "nat \<Rightarrow> nat option"
  last_block :: "nat option"
  cur_block :: "nat option"

definition fiber_cache_hash :: "nat \<Rightarrow> nat" where
  "fiber_cache_hash ip = (ip XOR (ip div 4096)) mod FIBER_CACHE_SIZE"

definition flush_caches :: "asbestos \<Rightarrow> cpu_thread \<Rightarrow> cpu_thread" where
  "flush_caches s th = th\<lparr>block_cache := (\<lambda>_. None), block_cache_gen := invalidate_gen s, ret_cache := (\<lambda>_. None), last_block := None, cur_block := None\<rparr>"

definition cpu_step_start :: "asbestos \<Rightarrow> cpu_thread \<Rightarrow> cpu_thread" where
  "cpu_step_start s th = (if block_cache_gen th \<noteq> invalidate_gen s then flush_caches s th else th\<lparr>last_block := None, cur_block := None\<rparr>)"

definition revalidate_caches :: "asbestos \<Rightarrow> cpu_thread \<Rightarrow> cpu_thread" where
  "revalidate_caches s th = (if block_cache_gen th \<noteq> invalidate_gen s then flush_caches s th else th)"

text \<open>
  Finding the block for the guest address \<^verbatim>\<open>ip\<close>, in the thread's table, in the cache, or by translating the code there;
  \<^verbatim>\<open>(nb, nblk)\<close> is the block that translation gives and the address it gets.
\<close>

definition find_block :: "bool \<Rightarrow> bool \<Rightarrow> nat \<times> fiber_block \<Rightarrow> nat \<Rightarrow> asbestos \<Rightarrow> (nat \<times> asbestos) option" where
  "find_block prechain incoming new ip s =
    (case fiber_lookup ip s of Some b \<Rightarrow> Some (b, s)
     | None \<Rightarrow> map_option (Pair (fst new)) (fiber_insert prechain incoming (fst new) (snd new) s))"

definition get_block :: "bool \<Rightarrow> bool \<Rightarrow> nat \<times> fiber_block \<Rightarrow> nat \<Rightarrow> asbestos \<times> cpu_thread \<Rightarrow> (asbestos \<times> cpu_thread) option" where
  "get_block prechain incoming new ip st = (case st of (s, th) \<Rightarrow> do {
    let cache_index = fiber_cache_hash ip;
    hit \<leftarrow> (case block_cache th cache_index of None \<Rightarrow> Some None
      | Some b \<Rightarrow> do { blk \<leftarrow> blocks s b; Some (if fb_addr blk = ip then Some b else None) });
    case hit of Some b \<Rightarrow> Some (s, th\<lparr>cur_block := Some b\<rparr>)
    | None \<Rightarrow> do {
        bs \<leftarrow> find_block prechain incoming new ip s;
        Some (snd bs, th\<lparr>cur_block := Some (fst bs), block_cache := (block_cache th)(cache_index := Some (fst bs))\<rparr>)
      }
  })"

text \<open>The chaining of the two blocks, when the lock is free.\<close>

definition try_chain :: "bool \<Rightarrow> asbestos \<times> cpu_thread \<Rightarrow> asbestos option" where
  "try_chain lock_free st = (case st of (s, th) \<Rightarrow>
    (case (last_block th, cur_block th) of
      (Some lb, Some b) \<Rightarrow> do {
        lst \<leftarrow> blocks s lb;
        blk \<leftarrow> blocks s b;
        if \<not> is_jetsam lst \<and> \<not> is_jetsam blk \<and> (jump_ip lst 0 \<noteq> None \<or> jump_ip lst 1 \<noteq> None) \<and> lock_free
        then chain_blocks lb b s else Some s
      }
    | _ \<Rightarrow> Some s))"

end
