(* ===== verification/Block_Cache_Laws.thy ===== *)
theory Block_Cache_Laws
  imports Block_Cache
begin

text \<open>The invariant of the cache of translated blocks, and what insertion, chaining and invalidation do under it.\<close>

section \<open>The jumps between blocks\<close>

text \<open>Slot \<^verbatim>\<open>i\<close> of the blocks of a set: a jump into a block is listed by that block and was a jump to its guest address.\<close>

definition jumps_ok :: "(nat \<Rightarrow> fiber_block option) \<Rightarrow> nat set \<Rightarrow> nat \<Rightarrow> bool" where
  "jumps_ok h L i \<longleftrightarrow> (\<forall>b\<in>L. \<exists>blk. h b = Some blk \<and> distinct (jumps_from blk i) \<and>
     (\<forall>p. p \<in> set (jumps_from blk i) \<longleftrightarrow> p \<in> L \<and> jumps_from_links (the (h p)) i = In b) \<and>
     (\<forall>t. old_jump_ip blk i \<noteq> Code t) \<and>
     (case jumps_from_links blk i of
        In t \<Rightarrow> t \<in> L \<and> jump_ip blk i = Some (Code t) \<and> arm64_fake_jump_target (old_jump_ip blk i) = Some (fb_addr (the (h t)))
      | _ \<Rightarrow> jump_ip blk i = None \<or> jump_ip blk i = Some (old_jump_ip blk i)))"

text \<open>Heaps that agree in what does not change, and in slot \<^verbatim>\<open>i\<close>.\<close>

definition block_base :: "fiber_block \<Rightarrow> nat \<times> nat \<times> 64 word \<times> bool \<times> (nat \<Rightarrow> jump)" where
  "block_base x = (fb_addr x, fb_end_addr x, fb_used x, is_jetsam x, old_jump_ip x)"

definition block_slot :: "nat \<Rightarrow> fiber_block \<Rightarrow> jump option \<times> nat list \<times> link" where
  "block_slot i x = (jump_ip x i, jumps_from x i, jumps_from_links x i)"

definition same_blocks :: "(nat \<Rightarrow> fiber_block option) \<Rightarrow> (nat \<Rightarrow> fiber_block option) \<Rightarrow> bool" where
  "same_blocks h h' \<longleftrightarrow> (\<forall>b. map_option block_base (h' b) = map_option block_base (h b))"

definition same_slot :: "nat \<Rightarrow> (nat \<Rightarrow> fiber_block option) \<Rightarrow> (nat \<Rightarrow> fiber_block option) \<Rightarrow> bool" where
  "same_slot i h h' \<longleftrightarrow> same_blocks h h' \<and> (\<forall>b. map_option (block_slot i) (h' b) = map_option (block_slot i) (h b))"

lemma same_blocks_refl [simp]: "same_blocks h h"
  by (simp add: same_blocks_def)

lemma same_blocks_trans: "same_blocks h h' \<Longrightarrow> same_blocks h' h'' \<Longrightarrow> same_blocks h h''"
  by (simp add: same_blocks_def)

lemma same_slot_refl [simp]: "same_slot i h h"
  by (simp add: same_slot_def)

lemma same_slot_trans: "same_slot i h h' \<Longrightarrow> same_slot i h' h'' \<Longrightarrow> same_slot i h h''"
  by (simp add: same_slot_def same_blocks_def)

lemma same_blocks_some: "same_blocks h h' \<Longrightarrow> h b = Some x \<Longrightarrow> \<exists>y. h' b = Some y \<and> block_base y = block_base x"
  unfolding same_blocks_def by (metis (no_types, lifting) map_option_eq_Some option.simps(9))

lemma same_slot_some: "same_slot i h h' \<Longrightarrow> h b = Some x \<Longrightarrow> \<exists>y. h' b = Some y \<and> block_base y = block_base x \<and> block_slot i y = block_slot i x"
  using same_blocks_some[of h h' b x] by (auto simp: same_slot_def dest: spec[of _ b])

lemma upd_block_same: "(\<And>x. block_base (f x) = block_base x) \<Longrightarrow> same_blocks h (upd_block b f h)"
  by (auto simp: same_blocks_def upd_block_def option.map_comp comp_def)

lemma upd_block_same_slot:
  "(\<And>x. block_base (f x) = block_base x) \<Longrightarrow> (\<And>x. block_slot i (f x) = block_slot i x) \<Longrightarrow> same_slot i h (upd_block b f h)"
  by (auto simp: same_slot_def same_blocks_def upd_block_def option.map_comp comp_def)

lemma fold_upd_same_slot:
  assumes "\<And>p h. same_slot i h (g p h)"
  shows "same_slot i h (fold g ps h)"
  using assms by (induction ps arbitrary: h) (auto intro: same_slot_trans)

lemma fold_upd_same_blocks:
  assumes "\<And>p h. same_blocks h (g p h)"
  shows "same_blocks h (fold g ps h)"
  using assms by (induction ps arbitrary: h) (auto intro: same_blocks_trans)

lemma restore_jump_simps [simp]:
  "block_base (restore_jump i x) = block_base x" "fb_addr (restore_jump i x) = fb_addr x" "fb_end_addr (restore_jump i x) = fb_end_addr x"
  "fb_used (restore_jump i x) = fb_used x" "is_jetsam (restore_jump i x) = is_jetsam x"
  "old_jump_ip (restore_jump i x) = old_jump_ip x" "jumps_from (restore_jump i x) = jumps_from x"
  "jump_ip (restore_jump i x) j = (if j = i then map_option (\<lambda>_. old_jump_ip x i) (jump_ip x i) else jump_ip x j)"
  "jumps_from_links (restore_jump i x) j = (if j = i then Null else jumps_from_links x j)"
  by (auto simp: restore_jump_def block_base_def)

lemma upd_block_simps [simp]:
  "upd_block b f h b = map_option f (h b)" "x \<noteq> b \<Longrightarrow> upd_block b f h x = h x"
  by (auto simp: upd_block_def)

lemma restore_jump_slot [simp]: "j \<noteq> i \<Longrightarrow> block_slot j (restore_jump i x) = block_slot j x"
  by (simp add: block_slot_def)

lemma jumps_from_update_simps [simp]:
  "block_base (jumps_from_update f x) = block_base x"
  "j \<noteq> i \<Longrightarrow> block_slot j (x\<lparr>jumps_from := (jumps_from x)(i := l)\<rparr>) = block_slot j x"
  by (simp_all add: block_base_def block_slot_def)

lemma unlink_outgoing_same_slot: "j \<noteq> i \<Longrightarrow> same_slot j h (unlink_outgoing b i h)"
  unfolding unlink_outgoing_def
  by (auto split: option.split link.split intro!: upd_block_same_slot same_slot_trans[OF upd_block_same_slot upd_block_same_slot])

lemma unlink_incoming_same_slot: "j \<noteq> i \<Longrightarrow> same_slot j h (unlink_incoming b i h)"
  unfolding unlink_incoming_def
  by (auto split: option.split intro!: same_slot_trans[OF fold_upd_same_slot upd_block_same_slot] upd_block_same_slot)

lemma jumps_ok_same_slot:
  assumes "jumps_ok h L i" "same_slot i h h'"
  shows "jumps_ok h' L i"
proof -
  have some: "\<exists>y. h' b = Some y \<and> fb_addr y = fb_addr x \<and> old_jump_ip y = old_jump_ip x \<and> jump_ip y i = jump_ip x i \<and>
      jumps_from y i = jumps_from x i \<and> jumps_from_links y i = jumps_from_links x i" if "h b = Some x" for b x
    using same_slot_some[OF assms(2) that] by (auto simp: block_base_def block_slot_def)
  have dom: "\<exists>x. h b = Some x" if "b \<in> L" for b
    using assms(1) that by (auto simp: jumps_ok_def)
  have lk: "jumps_from_links (the (h' p)) i = jumps_from_links (the (h p)) i" "fb_addr (the (h' p)) = fb_addr (the (h p))" if "p \<in> L" for p
    using dom[OF that] some by fastforce+
  show ?thesis
    unfolding jumps_ok_def
  proof (intro ballI)
    fix b
    assume b: "b \<in> L"
    from assms(1) b obtain x where x: "h b = Some x" "distinct (jumps_from x i)"
      "\<forall>p. p \<in> set (jumps_from x i) \<longleftrightarrow> p \<in> L \<and> jumps_from_links (the (h p)) i = In b" "\<forall>t. old_jump_ip x i \<noteq> Code t"
      "case jumps_from_links x i of
        In t \<Rightarrow> t \<in> L \<and> jump_ip x i = Some (Code t) \<and> arm64_fake_jump_target (old_jump_ip x i) = Some (fb_addr (the (h t)))
      | _ \<Rightarrow> jump_ip x i = None \<or> jump_ip x i = Some (old_jump_ip x i)"
      unfolding jumps_ok_def by blast
    obtain y where y: "h' b = Some y" "old_jump_ip y = old_jump_ip x" "jump_ip y i = jump_ip x i"
      "jumps_from y i = jumps_from x i" "jumps_from_links y i = jumps_from_links x i"
      using some[OF x(1)] by blast
    show "\<exists>blk. h' b = Some blk \<and> distinct (jumps_from blk i) \<and>
     (\<forall>p. p \<in> set (jumps_from blk i) \<longleftrightarrow> p \<in> L \<and> jumps_from_links (the (h' p)) i = In b) \<and>
     (\<forall>t. old_jump_ip blk i \<noteq> Code t) \<and>
     (case jumps_from_links blk i of
        In t \<Rightarrow> t \<in> L \<and> jump_ip blk i = Some (Code t) \<and> arm64_fake_jump_target (old_jump_ip blk i) = Some (fb_addr (the (h' t)))
      | _ \<Rightarrow> jump_ip blk i = None \<or> jump_ip blk i = Some (old_jump_ip blk i))"
      using x y lk by (auto split: link.splits)
  qed
qed

lemma fold_upd_block: "distinct ps \<Longrightarrow> fold (\<lambda>p. upd_block p f) ps h x = (if x \<in> set ps then map_option f (h x) else h x)"
  by (induction ps arbitrary: h) (auto simp: upd_block_def)

lemma jumps_okD:
  assumes "jumps_ok h L i" "b \<in> L"
  obtains blk where "h b = Some blk" "distinct (jumps_from blk i)"
    "\<And>p. p \<in> set (jumps_from blk i) \<longleftrightarrow> p \<in> L \<and> jumps_from_links (the (h p)) i = In b" "\<And>t. old_jump_ip blk i \<noteq> Code t"
    "case jumps_from_links blk i of
        In t \<Rightarrow> t \<in> L \<and> jump_ip blk i = Some (Code t) \<and> arm64_fake_jump_target (old_jump_ip blk i) = Some (fb_addr (the (h t)))
      | _ \<Rightarrow> jump_ip blk i = None \<or> jump_ip blk i = Some (old_jump_ip blk i)"
  using assms unfolding jumps_ok_def by blast

lemma jumps_ok_In:
  "jumps_ok h L i \<Longrightarrow> x \<in> L \<Longrightarrow> h x = Some blk \<Longrightarrow> jumps_from_links blk i = In t \<Longrightarrow>
    t \<in> L \<and> jump_ip blk i = Some (Code t) \<and> arm64_fake_jump_target (old_jump_ip blk i) = Some (fb_addr (the (h t)))"
  unfolding jumps_ok_def by (drule (1) bspec) simp

lemma unlink_outgoing_at:
  assumes ok: "jumps_ok h L i" and b: "b \<in> L" and x: "x \<in> L" "h x = Some blk"
  shows "\<exists>y. unlink_outgoing b i h x = Some y \<and> block_base y = block_base blk \<and> jumps_from y i = remove1 b (jumps_from blk i) \<and>
    jumps_from_links y i = (if x = b then Null else jumps_from_links blk i) \<and> (x \<noteq> b \<longrightarrow> jump_ip y i = jump_ip blk i)"
proof -
  obtain bb where bb: "h b = Some bb"
    using jumps_okD[OF ok b] by metis
  have mem: "b \<in> set (jumps_from blk i) \<longleftrightarrow> jumps_from_links bb i = In x"
    using jumps_okD[OF ok x(1)] x(2) b bb by (metis option.sel)
  show ?thesis
  proof (cases "jumps_from_links bb i")
    case (In t)
    then show ?thesis
      using bb x(2) mem by (cases "x = b"; cases "t = x") (auto simp: unlink_outgoing_def upd_block_def remove1_idem)
  qed (use bb x(2) mem in \<open>cases "x = b"; auto simp: unlink_outgoing_def upd_block_def remove1_idem\<close>)+
qed

definition unlink :: "nat \<Rightarrow> nat \<Rightarrow> (nat \<Rightarrow> fiber_block option) \<Rightarrow> nat \<Rightarrow> fiber_block option" where
  "unlink b i h = unlink_incoming b i (unlink_outgoing b i h)"

lemma unlink_at:
  assumes ok: "jumps_ok h L i" and b: "b \<in> L" and x: "x \<in> L" "x \<noteq> b" "h x = Some blk"
  shows "\<exists>y. unlink b i h x = Some y \<and> block_base y = block_base blk \<and> jumps_from y i = remove1 b (jumps_from blk i) \<and>
    jumps_from_links y i = (if jumps_from_links blk i = In b then Null else jumps_from_links blk i) \<and>
    jump_ip y i = (if jumps_from_links blk i = In b then Some (old_jump_ip blk i) else jump_ip blk i)"
proof -
  obtain bb where bb: "h b = Some bb" "distinct (jumps_from bb i)"
    "\<And>p. p \<in> set (jumps_from bb i) \<longleftrightarrow> p \<in> L \<and> jumps_from_links (the (h p)) i = In b"
    by (rule jumps_okD[OF ok b]) blast
  obtain b1 where b1: "unlink_outgoing b i h b = Some b1" "jumps_from b1 i = remove1 b (jumps_from bb i)"
    using unlink_outgoing_at[OF ok b b bb(1)] by blast
  obtain y where y: "unlink_outgoing b i h x = Some y" "block_base y = block_base blk"
    "jumps_from y i = remove1 b (jumps_from blk i)" "jumps_from_links y i = jumps_from_links blk i" "jump_ip y i = jump_ip blk i"
    using unlink_outgoing_at[OF ok b x(1,3)] x(2) by auto
  have mem: "x \<in> set (jumps_from b1 i) \<longleftrightarrow> jumps_from_links blk i = In b" and d: "distinct (jumps_from b1 i)"
    using bb(2) bb(3)[of x] x b1(2) by simp_all
  have j: "jump_ip blk i = Some (Code b)" if "jumps_from_links blk i = In b"
    using jumps_ok_In[OF ok x(1,3) that] by simp
  have "unlink b i h x = (if jumps_from_links blk i = In b then Some (restore_jump i y) else Some y)"
    using y(1) x(2) mem by (simp add: unlink_def unlink_incoming_def b1(1) fold_upd_block[OF d])
  moreover have "old_jump_ip y = old_jump_ip blk"
    using y(2) by (simp add: block_base_def)
  ultimately show ?thesis
    using y j by auto
qed

lemma unlink_same_blocks: "same_blocks h (unlink b i h)"
proof -
  have "same_blocks h (unlink_incoming b i h)" for h
    unfolding unlink_incoming_def
    by (auto split: option.split intro!: same_blocks_trans[OF fold_upd_same_blocks upd_block_same] upd_block_same)
  moreover have "same_blocks h (unlink_outgoing b i h)"
    unfolding unlink_outgoing_def
    by (auto split: option.split link.split intro!: upd_block_same same_blocks_trans[OF upd_block_same upd_block_same])
  ultimately show ?thesis
    unfolding unlink_def by (blast intro: same_blocks_trans)
qed

lemma unlink_same_slot: "j \<noteq> i \<Longrightarrow> same_slot j h (unlink b i h)"
  unfolding unlink_def by (rule same_slot_trans[OF unlink_outgoing_same_slot unlink_incoming_same_slot])

lemma unlink_jumps_ok:
  assumes ok: "jumps_ok h L i" and b: "b \<in> L"
  shows "jumps_ok (unlink b i h) (L - {b}) i"
  unfolding jumps_ok_def
proof (intro ballI)
  fix x
  assume x: "x \<in> L - {b}"
  obtain blk where blk: "h x = Some blk" "distinct (jumps_from blk i)"
    "\<And>p. p \<in> set (jumps_from blk i) \<longleftrightarrow> p \<in> L \<and> jumps_from_links (the (h p)) i = In x" "\<And>t. old_jump_ip blk i \<noteq> Code t"
    "case jumps_from_links blk i of
        In t \<Rightarrow> t \<in> L \<and> jump_ip blk i = Some (Code t) \<and> arm64_fake_jump_target (old_jump_ip blk i) = Some (fb_addr (the (h t)))
      | _ \<Rightarrow> jump_ip blk i = None \<or> jump_ip blk i = Some (old_jump_ip blk i)"
    by (rule jumps_okD[OF ok DiffD1[OF x]]) blast
  obtain y where y: "unlink b i h x = Some y" "block_base y = block_base blk" "jumps_from y i = remove1 b (jumps_from blk i)"
    "jumps_from_links y i = (if jumps_from_links blk i = In b then Null else jumps_from_links blk i)"
    "jump_ip y i = (if jumps_from_links blk i = In b then Some (old_jump_ip blk i) else jump_ip blk i)"
    using unlink_at[OF ok b _ _ blk(1)] x by blast
  have addr: "fb_addr (the (unlink b i h t)) = fb_addr (the (h t))" if tL: "t \<in> L" for t
  proof -
    obtain z where "h t = Some z" using jumps_okD[OF ok tL] by blast
    then show ?thesis using same_blocks_some[OF unlink_same_blocks, of h t z b i] by (auto simp: block_base_def)
  qed
  have lk: "jumps_from_links (the (unlink b i h p)) i = In x \<longleftrightarrow> jumps_from_links (the (h p)) i = In x" if p: "p \<in> L" "p \<noteq> b" for p
  proof -
    obtain z where z: "h p = Some z" using jumps_okD[OF ok p(1)] by blast
    show ?thesis using unlink_at[OF ok b p z] z x by (auto split: if_splits)
  qed
  have old: "old_jump_ip y = old_jump_ip blk" using y(2) by (simp add: block_base_def)
  show "\<exists>blk. unlink b i h x = Some blk \<and> distinct (jumps_from blk i) \<and>
     (\<forall>p. p \<in> set (jumps_from blk i) \<longleftrightarrow> p \<in> L - {b} \<and> jumps_from_links (the (unlink b i h p)) i = In x) \<and>
     (\<forall>t. old_jump_ip blk i \<noteq> Code t) \<and>
     (case jumps_from_links blk i of
        In t \<Rightarrow> t \<in> L - {b} \<and> jump_ip blk i = Some (Code t) \<and>
          arm64_fake_jump_target (old_jump_ip blk i) = Some (fb_addr (the (unlink b i h t)))
      | _ \<Rightarrow> jump_ip blk i = None \<or> jump_ip blk i = Some (old_jump_ip blk i))"
  proof (intro exI[of _ y] conjI)
    show "\<forall>p. p \<in> set (jumps_from y i) \<longleftrightarrow> p \<in> L - {b} \<and> jumps_from_links (the (unlink b i h p)) i = In x"
      using y(3) blk(2,3) lk by auto
  qed (use y(1,3,4,5) blk(2,4,5) old addr in \<open>auto split: link.splits\<close>)
qed

lemma unlink_outside:
  assumes ok: "jumps_ok h L i" and b: "b \<in> L" and x: "x \<notin> L"
  shows "unlink b i h x = h x"
proof -
  obtain bb where bb: "h b = Some bb" "distinct (jumps_from bb i)"
    "\<And>p. p \<in> set (jumps_from bb i) \<longleftrightarrow> p \<in> L \<and> jumps_from_links (the (h p)) i = In b"
    by (rule jumps_okD[OF ok b]) blast
  obtain b1 where b1: "unlink_outgoing b i h b = Some b1" "jumps_from b1 i = remove1 b (jumps_from bb i)"
    using unlink_outgoing_at[OF ok b b bb(1)] by blast
  have "x \<noteq> b" "x \<notin> set (jumps_from b1 i)" "distinct (jumps_from b1 i)"
    using x b bb(2,3) b1(2) by auto
  then have "unlink b i h x = unlink_outgoing b i h x"
    by (simp add: unlink_def unlink_incoming_def b1(1) fold_upd_block)
  also have "\<dots> = h x"
    using jumps_ok_In[OF ok b bb(1)] x b by (auto simp: unlink_outgoing_def bb(1) upd_block_def split: link.split)
  finally show ?thesis .
qed

lemma unlink_self:
  assumes ok: "jumps_ok h L i" and b: "b \<in> L"
  shows "jump_ip (the (unlink b i h b)) i \<noteq> Some (Code t)"
proof -
  obtain bb where bb: "h b = Some bb" "distinct (jumps_from bb i)" "\<And>t. old_jump_ip bb i \<noteq> Code t"
    "case jumps_from_links bb i of
        In t \<Rightarrow> t \<in> L \<and> jump_ip bb i = Some (Code t) \<and> arm64_fake_jump_target (old_jump_ip bb i) = Some (fb_addr (the (h t)))
      | _ \<Rightarrow> jump_ip bb i = None \<or> jump_ip bb i = Some (old_jump_ip bb i)"
    by (rule jumps_okD[OF ok b]) blast
  obtain b1 where b1: "unlink_outgoing b i h b = Some b1" "jumps_from b1 i = remove1 b (jumps_from bb i)"
    using unlink_outgoing_at[OF ok b b bb(1)] by blast
  have "jump_ip b1 i \<noteq> Some (Code t)"
    using b1(1) bb(1,3,4) by (auto simp: unlink_outgoing_def upd_block_def split: link.splits if_splits)
  moreover have "b \<notin> set (jumps_from b1 i)" "distinct (jumps_from b1 i)"
    using bb(2) b1(2) by auto
  ultimately show ?thesis
    by (simp add: unlink_def unlink_incoming_def b1(1) fold_upd_block)
qed

lemma link_jump_same_blocks: "same_blocks h (link_jump source i target h)"
  unfolding link_jump_def by (rule same_blocks_trans[OF upd_block_same upd_block_same]) (simp_all add: block_base_def)

lemma link_jump_same_slot: "j \<noteq> i \<Longrightarrow> same_slot j h (link_jump source i target h)"
  unfolding link_jump_def by (rule same_slot_trans[OF upd_block_same_slot upd_block_same_slot]) (simp_all add: block_base_def block_slot_def)

lemma jumps_ok_fake:
  assumes ok: "jumps_ok h L i" and b: "b \<in> L" "h b = Some blk"
    and fake: "Option.bind (jump_ip blk i) arm64_fake_jump_target = Some a"
  shows "jump_ip blk i = Some (old_jump_ip blk i)" "arm64_fake_jump_target (old_jump_ip blk i) = Some a" "\<And>t. jumps_from_links blk i \<noteq> In t"
proof -
  show no: "jumps_from_links blk i \<noteq> In t" for t
    using jumps_ok_In[OF ok b, of t] fake by (auto simp: arm64_fake_jump_target_def)
  obtain j where j: "jump_ip blk i = Some j" "arm64_fake_jump_target j = Some a"
    using fake by (cases "jump_ip blk i") auto
  show "jump_ip blk i = Some (old_jump_ip blk i)"
    using bspec[OF ok[unfolded jumps_ok_def] b(1)] b(2) no j(1) by (cases "jumps_from_links blk i") auto
  then show "arm64_fake_jump_target (old_jump_ip blk i) = Some a"
    using j by simp
qed

lemma link_jump_at:
  "h x = Some blk \<Longrightarrow> \<exists>y. link_jump source i target h x = Some y \<and> block_base y = block_base blk \<and>
    jumps_from y i = (if x = target then [source] else []) @ jumps_from blk i \<and>
    jumps_from_links y i = (if x = source then In target else jumps_from_links blk i) \<and>
    jump_ip y i = (if x = source then Some (Code target) else jump_ip blk i)"
  by (auto simp: link_jump_def upd_block_def block_base_def)

lemma link_jump_jumps_ok:
  assumes ok: "jumps_ok h L i" and st: "source \<in> L" "target \<in> L" "h source = Some src"
    and fake: "Option.bind (jump_ip src i) arm64_fake_jump_target = Some (fb_addr (the (h target)))"
  shows "jumps_ok (link_jump source i target h) L i"
  unfolding jumps_ok_def
proof (intro ballI)
  let ?h = "link_jump source i target h"
  fix x
  assume x: "x \<in> L"
  obtain blk where blk: "h x = Some blk" "distinct (jumps_from blk i)"
    "\<And>p. p \<in> set (jumps_from blk i) \<longleftrightarrow> p \<in> L \<and> jumps_from_links (the (h p)) i = In x" "\<And>t. old_jump_ip blk i \<noteq> Code t"
    "case jumps_from_links blk i of
        In t \<Rightarrow> t \<in> L \<and> jump_ip blk i = Some (Code t) \<and> arm64_fake_jump_target (old_jump_ip blk i) = Some (fb_addr (the (h t)))
      | _ \<Rightarrow> jump_ip blk i = None \<or> jump_ip blk i = Some (old_jump_ip blk i)"
    by (rule jumps_okD[OF ok x]) blast
  obtain y where y: "?h x = Some y" "block_base y = block_base blk" "jumps_from y i = (if x = target then [source] else []) @ jumps_from blk i"
    "jumps_from_links y i = (if x = source then In target else jumps_from_links blk i)"
    "jump_ip y i = (if x = source then Some (Code target) else jump_ip blk i)"
    using link_jump_at[of h x blk source i target, OF blk(1)] by blast
  note src = jumps_ok_fake[OF ok st(1,3) fake]
  have addr: "fb_addr (the (?h t)) = fb_addr (the (h t))" if tL: "t \<in> L" for t
  proof -
    obtain z where "h t = Some z" using jumps_okD[OF ok tL] by blast
    then show ?thesis using link_jump_at[of h t z source i target] by (auto simp: block_base_def)
  qed
  have lk: "jumps_from_links (the (?h p)) i = (if p = source then In target else jumps_from_links (the (h p)) i)" if p: "p \<in> L" for p
  proof -
    obtain z where "h p = Some z" using jumps_okD[OF ok p] by blast
    then show ?thesis using link_jump_at[of h p z source i target] by auto
  qed
  have old: "old_jump_ip y = old_jump_ip blk" using y(2) by (simp add: block_base_def)
  have no: "source \<notin> set (jumps_from blk i)" using blk(3)[of source] st(3) src(3) by simp
  show "\<exists>blk. ?h x = Some blk \<and> distinct (jumps_from blk i) \<and>
     (\<forall>p. p \<in> set (jumps_from blk i) \<longleftrightarrow> p \<in> L \<and> jumps_from_links (the (?h p)) i = In x) \<and>
     (\<forall>t. old_jump_ip blk i \<noteq> Code t) \<and>
     (case jumps_from_links blk i of
        In t \<Rightarrow> t \<in> L \<and> jump_ip blk i = Some (Code t) \<and> arm64_fake_jump_target (old_jump_ip blk i) = Some (fb_addr (the (?h t)))
      | _ \<Rightarrow> jump_ip blk i = None \<or> jump_ip blk i = Some (old_jump_ip blk i))"
  proof (intro exI[of _ y] conjI)
    show "\<forall>p. p \<in> set (jumps_from y i) \<longleftrightarrow> p \<in> L \<and> jumps_from_links (the (?h p)) i = In x"
      using y(3) blk(3) lk no st by (auto split: if_splits)
    show "case jumps_from_links y i of
        In t \<Rightarrow> t \<in> L \<and> jump_ip y i = Some (Code t) \<and> arm64_fake_jump_target (old_jump_ip y i) = Some (fb_addr (the (?h t)))
      | _ \<Rightarrow> jump_ip y i = None \<or> jump_ip y i = Some (old_jump_ip y i)"
      using y(4,5) blk(1,5) src(2) st(2,3) old addr by (auto split: link.splits)
  qed (use y(1,3) blk(2,4) no old in auto)
qed

section \<open>The invariant of the cache\<close>

abbreviation baddr :: "asbestos \<Rightarrow> nat \<Rightarrow> nat" where "baddr s b \<equiv> fb_addr (the (blocks s b))"
abbreviation bend :: "asbestos \<Rightarrow> nat \<Rightarrow> nat" where "bend s b \<equiv> fb_end_addr (the (blocks s b))"

text \<open>The blocks on list \<^verbatim>\<open>i\<close> of bucket \<^verbatim>\<open>k\<close> of the page table of a cache with the set \<^verbatim>\<open>L\<close> of blocks.\<close>

definition page_blocks :: "nat set \<Rightarrow> asbestos \<Rightarrow> nat \<Rightarrow> nat \<Rightarrow> nat set" where
  "page_blocks L s k i =
    {b \<in> L. i = 0 \<and> PAGE (baddr s b) mod 1024 = k \<or> i = 1 \<and> PAGE (baddr s b) \<noteq> PAGE (bend s b) \<and> PAGE (bend s b) mod 1024 = k}"

definition base_ok :: "nat set \<Rightarrow> asbestos \<Rightarrow> bool" where
  "base_ok L s \<longleftrightarrow> hash s \<noteq> [] \<and> L \<subseteq> dom (blocks s) \<and>
    (\<forall>k<length (hash s). distinct (hash s ! k) \<and> set (hash s ! k) = {b \<in> L. baddr s b mod length (hash s) = k}) \<and>
    inj_on (baddr s) L \<and> (\<forall>b\<in>L. \<not> is_jetsam (the (blocks s b))) \<and>
    num_blocks s = of_nat (card L) \<and> mem_used s = (\<Sum>b\<in>L. fb_used (the (blocks s b))) \<and>
    (\<forall>k i. distinct (page_hash s k i) \<and> set (page_hash s k i) = page_blocks L s k i)"

definition core_ok :: "nat set \<Rightarrow> asbestos \<Rightarrow> bool" where
  "core_ok L s \<longleftrightarrow> base_ok L s \<and> jumps_ok (blocks s) L 0 \<and> jumps_ok (blocks s) L 1"

definition live :: "asbestos \<Rightarrow> nat set" where
  "live s = set (concat (hash s))"

definition jetsam_ok :: "nat set \<Rightarrow> asbestos \<Rightarrow> bool" where
  "jetsam_ok L s \<longleftrightarrow> distinct (jetsam s) \<and> L \<inter> set (jetsam s) = {} \<and> dom (blocks s) = L \<union> set (jetsam s) \<and>
    (\<forall>b\<in>set (jetsam s). is_jetsam (the (blocks s b)) \<and> (\<forall>i\<in>{0, 1}. \<forall>t. jump_ip (the (blocks s b)) i \<noteq> Some (Code t)))"

definition cache_ok :: "asbestos \<Rightarrow> bool" where
  "cache_ok s \<longleftrightarrow> core_ok (live s) s \<and> jetsam_ok (live s) s"

lemma base_ok_live: "base_ok L s \<Longrightarrow> L = live s"
proof -
  assume ok: "base_ok L s"
  then have at: "set (hash s ! k) = {b \<in> L. baddr s b mod length (hash s) = k}" if "k < length (hash s)" for k
    using that by (simp add: base_ok_def)
  have "set (concat (hash s)) = (\<Union>k<length (hash s). set (hash s ! k))"
    by (auto simp: set_conv_nth[of "hash s"])
  also have "\<dots> = L"
    using at ok by (auto simp: base_ok_def)
  finally show ?thesis
    by (simp add: live_def)
qed

lemma base_ok_finite: "base_ok L s \<Longrightarrow> finite L"
  by (drule base_ok_live) (simp add: live_def)

lemma same_blocks_the: "same_blocks h h' \<Longrightarrow> b \<in> dom h \<Longrightarrow> block_base (the (h' b)) = block_base (the (h b))"
  using same_blocks_some[of h h' b] by auto

lemma same_blocks_dom: "same_blocks h h' \<Longrightarrow> dom h' = dom h"
  by (auto simp: same_blocks_def dom_def) (metis map_option_is_None option.exhaust)+

lemma baseD: "block_base y = block_base x \<Longrightarrow> fb_addr y = fb_addr x \<and> fb_end_addr y = fb_end_addr x \<and>
    fb_used y = fb_used x \<and> is_jetsam y = is_jetsam x"
  by (simp add: block_base_def)

text \<open>A change of the jumps alone keeps the rest of the invariant.\<close>

lemma base_ok_same:
  assumes ok: "base_ok L s" and same: "L \<subseteq> dom h" "\<And>b. b \<in> L \<Longrightarrow> block_base (the (h b)) = block_base (the (blocks s b))"
  shows "base_ok L (s\<lparr>blocks := h\<rparr>)"
proof -
  have eq: "fb_addr (the (h b)) = baddr s b \<and> fb_used (the (h b)) = fb_used (the (blocks s b)) \<and>
      is_jetsam (the (h b)) = is_jetsam (the (blocks s b))" if "b \<in> L" for b
    using baseD[OF same(2)[OF that]] by blast
  have "inj_on (\<lambda>b. fb_addr (the (h b))) L"
    using ok eq by (simp add: base_ok_def cong: inj_on_cong)
  moreover have "page_blocks L (s\<lparr>blocks := h\<rparr>) k i = page_blocks L s k i" for k i
    using baseD[OF same(2)] by (auto simp: page_blocks_def)
  moreover have "{b \<in> L. fb_addr (the (h b)) mod n = k} = {b \<in> L. baddr s b mod n = k}" for n k
    using eq by auto
  ultimately show ?thesis
    using ok eq same(1) unfolding base_ok_def by simp
qed

text \<open>Taking a block out.\<close>

definition take_out :: "nat \<Rightarrow> asbestos \<Rightarrow> asbestos" where
  "take_out b s = (let blk = the (blocks s b); k = fb_addr blk mod length (hash s) in
    page_hash_update (PAGE (fb_end_addr blk)) 1 (remove1 b) (page_hash_update (PAGE (fb_addr blk)) 0 (remove1 b)
      (s\<lparr>mem_used := mem_used s - fb_used blk, num_blocks := num_blocks s - 1, hash := (hash s)[k := remove1 b (hash s ! k)]\<rparr>)))"

lemma disconnect_eq:
  assumes "base_ok L s" "b \<in> L"
  shows "fiber_block_disconnect b s = Some ((take_out b s)\<lparr>blocks := unlink b 1 (unlink b 0 (blocks s))\<rparr>)"
proof -
  obtain blk where blk: "blocks s b = Some blk" using assms by (auto simp: base_ok_def)
  then have "b \<in> set (hash s ! (fb_addr blk mod length (hash s)))"
    using assms by (simp add: base_ok_def)
  then show ?thesis
    using blk by (simp add: fiber_block_disconnect_def take_out_def unlink_def page_hash_update_def Let_def)
qed

lemma take_out_blocks [simp]: "blocks (take_out b s) = blocks s" "jetsam (take_out b s) = jetsam s"
    "invalidate_gen (take_out b s) = invalidate_gen s" "length (hash (take_out b s)) = length (hash s)"
  by (simp_all add: take_out_def page_hash_update_def Let_def)

lemma take_out_ok:
  assumes ok: "base_ok L s" and b: "b \<in> L"
  shows "base_ok (L - {b}) (take_out b s)"
proof -
  let ?k = "baddr s b mod length (hash s)"
  have fin: "finite L" by (rule base_ok_finite[OF ok])
  have hash: "hash (take_out b s) = (hash s)[?k := remove1 b (hash s ! ?k)]"
    by (simp add: take_out_def page_hash_update_def Let_def)
  have 1: "distinct (hash (take_out b s) ! k) \<and> set (hash (take_out b s) ! k) = {x \<in> L - {b}. baddr s x mod length (hash s) = k}"
    if "k < length (hash s)" for k
  proof -
    have "distinct (hash s ! k)" "set (hash s ! k) = {x \<in> L. baddr s x mod length (hash s) = k}" and ne: "hash s \<noteq> []"
      using ok that by (simp_all add: base_ok_def)
    then show ?thesis
      using that unfolding hash by (cases "k = ?k") auto
  qed
  have page: "page_hash (take_out b s) k i = (if i = 0 \<and> k = PAGE (baddr s b) mod 1024 \<or> i = 1 \<and> k = PAGE (bend s b) mod 1024
      then remove1 b (page_hash s k i) else page_hash s k i)" for k i
    by (simp add: take_out_def page_hash_update_def Let_def)
  have 2: "distinct (page_hash (take_out b s) k i) \<and> set (page_hash (take_out b s) k i) = page_blocks (L - {b}) (take_out b s) k i" for k i
  proof -
    have "distinct (page_hash s k i) \<and> set (page_hash s k i) = page_blocks L s k i"
      using ok by (simp add: base_ok_def)
    then show ?thesis
      unfolding page by (auto simp: page_blocks_def)
  qed
  have 3: "num_blocks (take_out b s) = of_nat (card (L - {b}))"
    using ok unfolding base_ok_def card.remove[OF fin b] by (simp add: take_out_def page_hash_update_def Let_def)
  have 4: "mem_used (take_out b s) = (\<Sum>x\<in>L - {b}. fb_used (the (blocks s x)))"
    using ok unfolding base_ok_def sum.remove[OF fin b] by (simp add: take_out_def page_hash_update_def Let_def)
  have 5: "inj_on (baddr s) (L - {b})"
    using ok by (auto simp: base_ok_def intro: inj_on_subset)
  show ?thesis
    unfolding base_ok_def
  proof (intro conjI)
    show "\<forall>k i. distinct (page_hash (take_out b s) k i) \<and> set (page_hash (take_out b s) k i) = page_blocks (L - {b}) (take_out b s) k i"
      using 2 by blast
    show "hash (take_out b s) \<noteq> []"
      using ok unfolding hash by (simp add: base_ok_def)
  qed (use 1 3 4 5 ok in \<open>auto simp: base_ok_def\<close>)
qed

lemma disconnect_ok:
  assumes ok: "core_ok L s" and b: "b \<in> L"
  obtains s' where "fiber_block_disconnect b s = Some s'" "core_ok (L - {b}) s'" "same_blocks (blocks s) (blocks s')"
    "jetsam s' = jetsam s" "invalidate_gen s' = invalidate_gen s" "\<And>x. x \<notin> L \<Longrightarrow> blocks s' x = blocks s x"
    "\<And>i t. i \<in> {0, 1} \<Longrightarrow> jump_ip (the (blocks s' b)) i \<noteq> Some (Code t)"
proof -
  let ?g = "unlink b 0 (blocks s)" let ?h = "unlink b 1 ?g"
  have j: "jumps_ok (blocks s) L 0" "jumps_ok (blocks s) L 1"
    using ok by (auto simp: core_ok_def)
  have h0: "jumps_ok ?g (L - {b}) 0" "jumps_ok ?g L 1"
    by (rule unlink_jumps_ok[OF j(1) b], rule jumps_ok_same_slot[OF j(2) unlink_same_slot]) simp
  have h: "jumps_ok ?h (L - {b}) 0" "jumps_ok ?h (L - {b}) 1"
    by (rule jumps_ok_same_slot[OF h0(1) unlink_same_slot], simp, rule unlink_jumps_ok[OF h0(2) b])
  have same: "same_blocks (blocks s) ?h"
    by (rule same_blocks_trans[OF unlink_same_blocks unlink_same_blocks])
  have out: "?h x = blocks s x" if "x \<notin> L" for x
    using unlink_outside[OF h0(2) b that] unlink_outside[OF j(1) b that] by simp
  obtain y where "blocks s b = Some y" using jumps_okD[OF j(1) b] by blast
  then obtain z where z: "?g b = Some z" using same_blocks_some[OF unlink_same_blocks] by blast
  have "block_slot 0 (the (?h b)) = block_slot 0 (the (?g b))"
    using same_slot_some[OF unlink_same_slot[of 0 1 ?g b] z] z by auto
  then have self: "jump_ip (the (?h b)) i \<noteq> Some (Code t)" if "i \<in> {0, 1}" for i t
    using that unlink_self[OF h0(2) b, of t] unlink_self[OF j(1) b, of t] by (cases "i = 0") (simp_all add: block_slot_def)
  have base: "base_ok L s" using ok by (simp add: core_ok_def)
  have "base_ok (L - {b}) ((take_out b s)\<lparr>blocks := ?h\<rparr>)"
  proof (rule base_ok_same[OF take_out_ok[OF base b]])
    have L: "L \<subseteq> dom (blocks s)" using base by (simp add: base_ok_def)
    then show "L - {b} \<subseteq> dom ?h" using same_blocks_dom[OF same] by blast
    show "block_base (the (?h x)) = block_base (the (blocks (take_out b s) x))" if "x \<in> L - {b}" for x
      unfolding take_out_blocks by (rule same_blocks_the[OF same]) (use L that in blast)
  qed
  with h show thesis
    by (intro that[OF disconnect_eq[OF base b]]) (use same out self in \<open>simp_all add: core_ok_def\<close>)
qed

section \<open>Invalidation\<close>

definition cinv :: "nat set \<Rightarrow> asbestos \<Rightarrow> bool" where
  "cinv L s \<longleftrightarrow> core_ok L s \<and> jetsam_ok L s"

lemma cache_ok_cinv: "cache_ok s \<longleftrightarrow> cinv (live s) s"
  by (simp add: cache_ok_def cinv_def)

lemma cinv_live: "cinv L s \<Longrightarrow> L = live s"
  using base_ok_live by (simp add: cinv_def core_ok_def)

lemma cinv_cache_ok: "cinv L s \<Longrightarrow> cache_ok s \<and> live s = L"
  using cinv_live cache_ok_cinv by metis

text \<open>Everything in the heap of the old state keeps its address.\<close>

definition keeps_addrs :: "asbestos \<Rightarrow> asbestos \<Rightarrow> bool" where
  "keeps_addrs s s' \<longleftrightarrow> (\<forall>b x. blocks s b = Some x \<longrightarrow> (\<exists>y. blocks s' b = Some y \<and> fb_addr y = fb_addr x \<and> fb_end_addr y = fb_end_addr x))"

lemma keeps_addrs_refl [simp]: "keeps_addrs s s"
  by (simp add: keeps_addrs_def)

lemma keeps_addrs_trans: "keeps_addrs s s' \<Longrightarrow> keeps_addrs s' s'' \<Longrightarrow> keeps_addrs s s''"
  unfolding keeps_addrs_def by metis

lemma keeps_addrs_same: "same_blocks (blocks s) (blocks s') \<Longrightarrow> keeps_addrs s s'"
  unfolding keeps_addrs_def using same_blocks_some[of "blocks s" "blocks s'"] by (fastforce simp: block_base_def)

lemma keeps_addrs_at: "keeps_addrs s s' \<Longrightarrow> b \<in> dom (blocks s) \<Longrightarrow> baddr s' b = baddr s b \<and> bend s' b = bend s b"
  unfolding keeps_addrs_def by fastforce

lemma page_blocks_keeps:
  "keeps_addrs s s' \<Longrightarrow> L \<subseteq> dom (blocks s) \<Longrightarrow> page_blocks L s' k i = page_blocks L s k i"
  using keeps_addrs_at[of s s'] by (auto simp: page_blocks_def subset_iff)

lemma jumps_ok_agree:
  assumes ok: "jumps_ok h L i" and eq: "\<And>x. x \<in> L \<Longrightarrow> h' x = h x"
  shows "jumps_ok h' L i"
  unfolding jumps_ok_def
proof (intro ballI)
  fix b
  assume b: "b \<in> L"
  obtain blk where blk: "h b = Some blk" "distinct (jumps_from blk i)"
    "\<And>p. p \<in> set (jumps_from blk i) \<longleftrightarrow> p \<in> L \<and> jumps_from_links (the (h p)) i = In b" "\<And>t. old_jump_ip blk i \<noteq> Code t"
    "case jumps_from_links blk i of
        In t \<Rightarrow> t \<in> L \<and> jump_ip blk i = Some (Code t) \<and> arm64_fake_jump_target (old_jump_ip blk i) = Some (fb_addr (the (h t)))
      | _ \<Rightarrow> jump_ip blk i = None \<or> jump_ip blk i = Some (old_jump_ip blk i)"
    by (rule jumps_okD[OF ok b]) blast
  show "\<exists>blk. h' b = Some blk \<and> distinct (jumps_from blk i) \<and>
     (\<forall>p. p \<in> set (jumps_from blk i) \<longleftrightarrow> p \<in> L \<and> jumps_from_links (the (h' p)) i = In b) \<and>
     (\<forall>t. old_jump_ip blk i \<noteq> Code t) \<and>
     (case jumps_from_links blk i of
        In t \<Rightarrow> t \<in> L \<and> jump_ip blk i = Some (Code t) \<and> arm64_fake_jump_target (old_jump_ip blk i) = Some (fb_addr (the (h' t)))
      | _ \<Rightarrow> jump_ip blk i = None \<or> jump_ip blk i = Some (old_jump_ip blk i))"
    using blk eq b by (intro exI[of _ blk] conjI) (auto split: link.splits)
qed

lemma core_ok_agree:
  assumes ok: "core_ok L s" and eq: "\<And>x. x \<in> L \<Longrightarrow> h x = blocks s x"
  shows "core_ok L (s\<lparr>blocks := h\<rparr>)"
proof -
  have "L \<subseteq> dom (blocks s)" using ok by (simp add: core_ok_def base_ok_def)
  then have "base_ok L (s\<lparr>blocks := h\<rparr>)"
    using ok eq by (intro base_ok_same) (auto simp: core_ok_def)
  then show ?thesis
    using ok eq by (auto simp: core_ok_def intro: jumps_ok_agree)
qed

lemma core_ok_jetsam [simp]: "core_ok L (jetsam_update f s) \<longleftrightarrow> core_ok L s" "core_ok L (invalidate_gen_update g s) \<longleftrightarrow> core_ok L s"
  by (simp_all add: core_ok_def base_ok_def page_blocks_def)

lemma invalidate_block_ok:
  assumes "cinv L s" "b \<in> L"
  obtains s' where "invalidate_block s b = Some s'" "cinv (L - {b}) s'" "keeps_addrs s s'" "invalidate_gen s' = invalidate_gen s"
    "set (jetsam s') = insert b (set (jetsam s))"
proof -
  obtain s1 where s1: "fiber_block_disconnect b s = Some s1" "core_ok (L - {b}) s1" "same_blocks (blocks s) (blocks s1)"
    "jetsam s1 = jetsam s" "invalidate_gen s1 = invalidate_gen s" "\<And>x. x \<notin> L \<Longrightarrow> blocks s1 x = blocks s x"
    "\<And>i t. i \<in> {0, 1} \<Longrightarrow> jump_ip (the (blocks s1 b)) i \<noteq> Some (Code t)"
    using disconnect_ok[of L s b] assms unfolding cinv_def by blast
  let ?h = "upd_block b (\<lambda>x. x\<lparr>is_jetsam := True\<rparr>) (blocks s1)"
  let ?s = "s1\<lparr>blocks := ?h, jetsam := b # jetsam s1\<rparr>"
  have ev: "invalidate_block s b = Some ?s"
    by (simp add: invalidate_block_def s1(1))
  have core: "core_ok (L - {b}) (s1\<lparr>blocks := ?h\<rparr>)"
    by (rule core_ok_agree[OF s1(2)]) simp
  have j: "jetsam_ok L s" using assms by (simp add: cinv_def)
  have "b \<in> dom (blocks s1)"
    using assms(2) j same_blocks_dom[OF s1(3)] by (auto simp: jetsam_ok_def)
  then obtain y where y: "blocks s1 b = Some y" by blast
  have jet: "jetsam_ok (L - {b}) ?s"
    unfolding jetsam_ok_def
  proof (intro conjI)
    show "\<forall>x\<in>set (jetsam ?s). is_jetsam (the (blocks ?s x)) \<and> (\<forall>i\<in>{0, 1}. \<forall>t. jump_ip (the (blocks ?s x)) i \<noteq> Some (Code t))"
    proof
      fix x
      assume x: "x \<in> set (jetsam ?s)"
      show "is_jetsam (the (blocks ?s x)) \<and> (\<forall>i\<in>{0, 1}. \<forall>t. jump_ip (the (blocks ?s x)) i \<noteq> Some (Code t))"
      proof (cases "x = b")
        case True
        then show ?thesis using s1(7) y by simp
      next
        case False
        then have "x \<in> set (jetsam s)" "x \<notin> L" using x j by (auto simp: s1(4) jetsam_ok_def)
        then show ?thesis using j s1(6)[of x] False by (simp add: jetsam_ok_def)
      qed
    qed
  qed (use j assms(2) y same_blocks_dom[OF s1(3)] in \<open>auto simp: jetsam_ok_def s1(4) upd_block_def\<close>)
  have "keeps_addrs s1 ?s"
    by (auto simp: keeps_addrs_def upd_block_def)
  then have "keeps_addrs s ?s"
    using keeps_addrs_trans keeps_addrs_same[OF s1(3)] by blast
  then show ?thesis
    using that[OF ev] core jet s1(4,5) by (simp add: cinv_def)
qed

lemma invalidate_blocks_ok:
  assumes "cinv L s" "set bs \<subseteq> L" "distinct bs"
  shows "\<exists>s'. foldM invalidate_block s bs = Some s' \<and> cinv (L - set bs) s' \<and> keeps_addrs s s' \<and> invalidate_gen s' = invalidate_gen s \<and>
    set (jetsam s') = set bs \<union> set (jetsam s)"
  using assms
proof (induction bs arbitrary: L s)
  case (Cons b bs)
  obtain s1 where s1: "invalidate_block s b = Some s1" "cinv (L - {b}) s1" "keeps_addrs s s1" "invalidate_gen s1 = invalidate_gen s"
    "set (jetsam s1) = insert b (set (jetsam s))"
    using invalidate_block_ok[of L s b] Cons.prems by auto
  have "set bs \<subseteq> L - {b}" "distinct bs" using Cons.prems by auto
  from Cons.IH[OF s1(2) this] obtain s' where "foldM invalidate_block s1 bs = Some s'" "cinv (L - {b} - set bs) s'" "keeps_addrs s1 s'"
    "invalidate_gen s' = invalidate_gen s1" "set (jetsam s') = set bs \<union> set (jetsam s1)"
    by blast
  moreover have "L - {b} - set bs = L - set (b # bs)" by auto
  ultimately show ?case
    using s1 by (auto intro: keeps_addrs_trans)
qed simp

lemma cinv_page_hash: "cinv L s \<Longrightarrow> distinct (page_hash s k i) \<and> set (page_hash s k i) = page_blocks L s k i"
  by (simp add: cinv_def core_ok_def base_ok_def)

lemma cinv_dom: "cinv L s \<Longrightarrow> L \<subseteq> dom (blocks s)"
  by (simp add: cinv_def core_ok_def base_ok_def)

lemma invalidate_list_ok:
  assumes "cinv L s"
  obtains s' did' where "invalidate_list (s, did) (k, i) = Some (s', did')" "cinv (L - page_blocks L s k i) s'" "keeps_addrs s s'"
    "invalidate_gen s' = invalidate_gen s" "did' \<longleftrightarrow> did \<or> page_blocks L s k i \<noteq> {}" "set (jetsam s') = page_blocks L s k i \<union> set (jetsam s)"
proof -
  have p: "distinct (page_hash s k i)" "set (page_hash s k i) = page_blocks L s k i"
    using cinv_page_hash[OF assms] by auto
  have "set (page_hash s k i) \<subseteq> L" unfolding p(2) by (auto simp: page_blocks_def)
  from invalidate_blocks_ok[OF assms this p(1)] show ?thesis
    using that p(2) by (fastforce simp: invalidate_list_def)
qed

lemma invalidate_lists_ok:
  assumes "cinv L s"
  shows "\<exists>s' did'. foldM invalidate_list (s, did) kis = Some (s', did') \<and> cinv (L - (\<Union>(k, i)\<in>set kis. page_blocks L s k i)) s' \<and>
    keeps_addrs s s' \<and> invalidate_gen s' = invalidate_gen s \<and> (did' \<longleftrightarrow> did \<or> (\<Union>(k, i)\<in>set kis. page_blocks L s k i) \<noteq> {}) \<and>
    set (jetsam s') = (\<Union>(k, i)\<in>set kis. page_blocks L s k i) \<union> set (jetsam s)"
  using assms
proof (induction kis arbitrary: L s did)
  case (Cons ki kis)
  obtain k i where ki: "ki = (k, i)" by fastforce
  obtain s1 did1 where s1: "invalidate_list (s, did) (k, i) = Some (s1, did1)" "cinv (L - page_blocks L s k i) s1" "keeps_addrs s s1"
    "invalidate_gen s1 = invalidate_gen s" "did1 \<longleftrightarrow> did \<or> page_blocks L s k i \<noteq> {}" "set (jetsam s1) = page_blocks L s k i \<union> set (jetsam s)"
    by (rule invalidate_list_ok[OF Cons.prems])
  let ?L = "L - page_blocks L s k i"
  have eq: "page_blocks ?L s1 k' i' = page_blocks L s k' i' - page_blocks L s k i" for k' i'
    using page_blocks_keeps[OF s1(3), of L] cinv_dom[OF Cons.prems] by (auto simp: page_blocks_def)
  obtain s' did' where s': "foldM invalidate_list (s1, did1) kis = Some (s', did')"
    "cinv (?L - (\<Union>(k, i)\<in>set kis. page_blocks ?L s1 k i)) s'" "keeps_addrs s1 s'" "invalidate_gen s' = invalidate_gen s1"
    "did' \<longleftrightarrow> did1 \<or> (\<Union>(k, i)\<in>set kis. page_blocks ?L s1 k i) \<noteq> {}"
    "set (jetsam s') = (\<Union>(k, i)\<in>set kis. page_blocks ?L s1 k i) \<union> set (jetsam s1)"
    using Cons.IH[OF s1(2)] by blast
  have un: "?L - (\<Union>(k, i)\<in>set kis. page_blocks ?L s1 k i) = L - (\<Union>(k, i)\<in>set (ki # kis). page_blocks L s k i)"
    "(\<Union>(k, i)\<in>set kis. page_blocks ?L s1 k i) \<union> page_blocks L s k i = (\<Union>(k, i)\<in>set (ki # kis). page_blocks L s k i)"
    unfolding eq ki by auto
  have did: "did' \<longleftrightarrow> did \<or> (\<Union>(k, i)\<in>set (ki # kis). page_blocks L s k i) \<noteq> {}"
    unfolding s'(5) s1(5) un(2)[symmetric] by blast
  have jet: "set (jetsam s') = (\<Union>(k, i)\<in>set (ki # kis). page_blocks L s k i) \<union> set (jetsam s)"
    unfolding s'(6) s1(6) un(2)[symmetric] by blast
  show ?case
    by (rule exI[of _ s'], rule exI[of _ did'], intro conjI)
      (simp add: ki s1(1) s'(1), rule s'(2)[unfolded un(1)], rule keeps_addrs_trans[OF s1(3) s'(3)], simp add: s1(4) s'(4), rule did, rule jet)
qed auto

text \<open>The blocks that a page overlaps, up to the folding of page numbers into buckets.\<close>

definition overlaps :: "asbestos \<Rightarrow> nat \<Rightarrow> nat \<Rightarrow> bool" where
  "overlaps s b page \<longleftrightarrow> PAGE (baddr s b) mod 1024 = page mod 1024 \<or>
    PAGE (baddr s b) \<noteq> PAGE (bend s b) \<and> PAGE (bend s b) mod 1024 = page mod 1024"

lemma finish_invalidate_simps [simp]: "blocks (finish_invalidate (s, d)) = blocks s" "jetsam (finish_invalidate (s, d)) = jetsam s"
    "invalidate_gen (finish_invalidate (s, d)) = (if d then invalidate_gen s + 1 else invalidate_gen s)"
    "cinv L (finish_invalidate (s, d)) \<longleftrightarrow> cinv L s" "keeps_addrs s0 (finish_invalidate (s, d)) \<longleftrightarrow> keeps_addrs s0 s"
  by (auto simp: finish_invalidate_def cinv_def jetsam_ok_def keeps_addrs_def)

text \<open>What every invalidation does: the blocks of a set go from the live blocks to the jetsam.\<close>

definition invalidates :: "asbestos \<Rightarrow> nat set \<Rightarrow> asbestos \<Rightarrow> bool" where
  "invalidates s D s' \<longleftrightarrow> cinv (live s - D) s' \<and> keeps_addrs s s' \<and> set (jetsam s') = D \<union> set (jetsam s) \<and>
    invalidate_gen s' = (if D = {} then invalidate_gen s else invalidate_gen s + 1)"

lemma finish_invalidates:
  assumes "cache_ok s"
  shows "\<exists>s'. map_option finish_invalidate (foldM invalidate_list (s, False) kis) = Some s' \<and>
    invalidates s (\<Union>(k, i)\<in>set kis. page_blocks (live s) s k i) s'"
proof -
  let ?D = "\<Union>(k, i)\<in>set kis. page_blocks (live s) s k i"
  obtain s' did where "foldM invalidate_list (s, False) kis = Some (s', did)" "cinv (live s - ?D) s'" "keeps_addrs s s'"
    "invalidate_gen s' = invalidate_gen s" "did \<longleftrightarrow> ?D \<noteq> {}" "set (jetsam s') = ?D \<union> set (jetsam s)"
    using invalidate_lists_ok[OF assms[unfolded cache_ok_cinv], of False kis] by blast
  then show ?thesis
    by (intro exI[of _ "finish_invalidate (s', did)"]) (simp only: invalidates_def finish_invalidate_simps option.map, cases "?D = {}"; simp only: if_True if_False simp_thms)
qed

lemma invalidate_range_ok:
  assumes "cache_ok s"
  shows "\<exists>s'. asbestos_invalidate_range start end' s = Some s' \<and> invalidates s {b \<in> live s. \<exists>p\<in>{start..<end'}. overlaps s b p} s'"
proof -
  let ?kis = "concat (map (\<lambda>page. [(page mod 1024, 0), (page mod 1024, 1)]) [start..<end'])"
  have "(\<Union>(k, i)\<in>set ?kis. page_blocks (live s) s k i) = {b \<in> live s. \<exists>p\<in>{start..<end'}. overlaps s b p}"
    by (auto simp: page_blocks_def overlaps_def)
  then show ?thesis
    using finish_invalidates[OF assms, of ?kis] unfolding asbestos_invalidate_range_def by simp
qed

lemma invalidate_page_ok:
  assumes "cache_ok s"
  shows "\<exists>s'. asbestos_invalidate_page page s = Some s' \<and> invalidates s {b \<in> live s. overlaps s b page} s'"
proof (cases "blocks_list s page 0 = [] \<and> blocks_list s page 1 = []")
  case True
  have "set (blocks_list s page i) = page_blocks (live s) s (page mod 1024) i" for i
    using cinv_page_hash[OF assms[unfolded cache_ok_cinv]] by (simp add: blocks_list_def)
  from this[of 0] this[of 1] have "{b \<in> live s. overlaps s b page} = {}"
    using True by (auto simp: page_blocks_def overlaps_def)
  moreover have "invalidates s {} s"
    using assms by (simp add: invalidates_def cache_ok_cinv)
  ultimately show ?thesis
    using True by (simp only: asbestos_invalidate_page_def if_True simp_thms) blast
next
  case False
  have "{b \<in> live s. \<exists>p\<in>{page..<page + 1}. overlaps s b p} = {b \<in> live s. overlaps s b page}"
    by auto
  then show ?thesis
    using invalidate_range_ok[OF assms, of page "page + 1"] by (simp only: asbestos_invalidate_page_def if_not_P[OF False])
qed

lemma invalidate_all_ok:
  assumes "cache_ok s"
  shows "\<exists>s'. asbestos_invalidate_all s = Some s' \<and> invalidates s (live s) s'"
proof -
  let ?kis = "concat (map (\<lambda>k. [(k, 0), (k, 1)]) [0..<1024])"
  have "(\<Union>(k, i)\<in>set ?kis. page_blocks (live s) s k i) = live s"
    by (auto simp: page_blocks_def intro!: bexI[of _ "PAGE (baddr s _) mod 1024"])
  then show ?thesis
    using finish_invalidates[OF assms, of ?kis] unfolding asbestos_invalidate_all_def by simp
qed

lemma free_jetsam_ok:
  assumes "cinv L s"
  shows "cinv L (fiber_free_jetsam s)" "jetsam (fiber_free_jetsam s) = []"
    "\<And>b. b \<in> L \<Longrightarrow> blocks (fiber_free_jetsam s) b = blocks s b"
proof -
  have h: "fold (\<lambda>b h. h(b := None)) bs h = (\<lambda>x. if x \<in> set bs then None else h x)" for bs and h :: "nat \<Rightarrow> fiber_block option"
    by (induction bs arbitrary: h) (auto simp: fun_eq_iff)
  let ?h = "\<lambda>x. if x \<in> set (jetsam s) then None else blocks s x"
  have eq: "fiber_free_jetsam s = s\<lparr>blocks := ?h\<rparr>\<lparr>jetsam := []\<rparr>"
    by (simp add: fiber_free_jetsam_def h)
  have L: "L \<inter> set (jetsam s) = {}" "dom (blocks s) = L \<union> set (jetsam s)"
    using assms by (simp_all add: cinv_def jetsam_ok_def)
  have "core_ok L (s\<lparr>blocks := ?h\<rparr>)"
    using assms L by (intro core_ok_agree) (auto simp: cinv_def)
  moreover have "dom ?h = L"
    using L by (auto simp: dom_def split: if_splits)
  ultimately show "cinv L (fiber_free_jetsam s)"
    unfolding eq cinv_def by (simp add: jetsam_ok_def)
  show "jetsam (fiber_free_jetsam s) = []" "\<And>b. b \<in> L \<Longrightarrow> blocks (fiber_free_jetsam s) b = blocks s b"
    using L unfolding eq by auto
qed

section \<open>Lookup, insertion and chaining\<close>

lemma lookup_iff:
  assumes "base_ok L s"
  shows "fiber_lookup a s = Some b \<longleftrightarrow> b \<in> L \<and> baddr s b = a"
proof -
  let ?l = "hash s ! (a mod length (hash s))"
  have l: "set ?l = {b \<in> L. baddr s b mod length (hash s) = a mod length (hash s)}" and L: "L \<subseteq> dom (blocks s)" and inj: "inj_on (baddr s) L"
    using assms by (auto simp: base_ok_def)
  have P: "map_option fb_addr (blocks s x) = Some a \<longleftrightarrow> baddr s x = a" if "x \<in> L" for x
    using L that by auto
  show ?thesis
  proof
    assume "fiber_lookup a s = Some b"
    then have "b \<in> set ?l" "map_option fb_addr (blocks s b) = Some a"
      by (auto simp: fiber_lookup_def find_Some_iff)
    then show "b \<in> L \<and> baddr s b = a" using l P by auto
  next
    assume b: "b \<in> L \<and> baddr s b = a"
    then have "fiber_lookup a s \<noteq> None"
      using l P[of b] unfolding fiber_lookup_def find_None_iff by auto
    then obtain c where c: "fiber_lookup a s = Some c" by blast
    then have "c \<in> set ?l" "map_option fb_addr (blocks s c) = Some a"
      by (auto simp: fiber_lookup_def find_Some_iff)
    then have "c \<in> L" "baddr s c = a" using l P by auto
    then show "fiber_lookup a s = Some b" using b c inj by (auto dest: inj_onD)
  qed
qed

text \<open>A block as the translator leaves it.\<close>

definition fresh_block :: "fiber_block \<Rightarrow> bool" where
  "fresh_block blk \<longleftrightarrow> \<not> is_jetsam blk \<and> (\<forall>i\<in>{0, 1}. jumps_from blk i = [] \<and> jumps_from_links blk i = Alone \<and>
    (jump_ip blk i = None \<or> jump_ip blk i = Some (old_jump_ip blk i)) \<and> (\<forall>t. old_jump_ip blk i \<noteq> Code t))"

lemma insert_jumps_ok:
  assumes ok: "jumps_ok h L i" and b: "h b = None" "fresh_block blk" "i \<in> {0, 1}"
  shows "jumps_ok (h(b \<mapsto> blk)) (insert b L) i"
proof -
  have bL: "b \<notin> L" using ok b(1) by (auto simp: jumps_ok_def)
  have f: "jumps_from blk i = []" "jumps_from_links blk i = Alone" "jump_ip blk i = None \<or> jump_ip blk i = Some (old_jump_ip blk i)"
    "\<forall>t. old_jump_ip blk i \<noteq> Code t"
    using bspec[OF conjunct2[OF b(2)[unfolded fresh_block_def]] b(3)] by blast+
  show ?thesis
    unfolding jumps_ok_def
  proof (intro ballI)
    fix x
    assume x: "x \<in> insert b L"
    let ?h = "h(b \<mapsto> blk)"
    show "\<exists>blk. ?h x = Some blk \<and> distinct (jumps_from blk i) \<and>
     (\<forall>p. p \<in> set (jumps_from blk i) \<longleftrightarrow> p \<in> insert b L \<and> jumps_from_links (the (?h p)) i = In x) \<and>
     (\<forall>t. old_jump_ip blk i \<noteq> Code t) \<and>
     (case jumps_from_links blk i of
        In t \<Rightarrow> t \<in> insert b L \<and> jump_ip blk i = Some (Code t) \<and> arm64_fake_jump_target (old_jump_ip blk i) = Some (fb_addr (the (?h t)))
      | _ \<Rightarrow> jump_ip blk i = None \<or> jump_ip blk i = Some (old_jump_ip blk i))"
    proof (cases "x = b")
      case True
      have no: "jumps_from_links (the (h p)) i \<noteq> In b" if p: "p \<in> L" for p
      proof -
        obtain z where z: "h p = Some z" using jumps_okD[OF ok p] by blast
        show ?thesis using jumps_ok_In[OF ok p z, of b] bL z by auto
      qed
      show ?thesis
        using f no True by (intro exI[of _ blk]) auto
    next
      case False
      then have xL: "x \<in> L" using x by simp
      obtain y where y: "h x = Some y" "distinct (jumps_from y i)"
        "\<And>p. p \<in> set (jumps_from y i) \<longleftrightarrow> p \<in> L \<and> jumps_from_links (the (h p)) i = In x" "\<And>t. old_jump_ip y i \<noteq> Code t"
        "case jumps_from_links y i of
        In t \<Rightarrow> t \<in> L \<and> jump_ip y i = Some (Code t) \<and> arm64_fake_jump_target (old_jump_ip y i) = Some (fb_addr (the (h t)))
      | _ \<Rightarrow> jump_ip y i = None \<or> jump_ip y i = Some (old_jump_ip y i)"
        by (rule jumps_okD[OF ok xL]) blast
      show ?thesis
      proof (intro exI[of _ y] conjI)
        show "\<forall>p. p \<in> set (jumps_from y i) \<longleftrightarrow> p \<in> insert b L \<and> jumps_from_links (the (?h p)) i = In x"
          using y(3) f(2) bL by auto
        show "case jumps_from_links y i of
        In t \<Rightarrow> t \<in> insert b L \<and> jump_ip y i = Some (Code t) \<and> arm64_fake_jump_target (old_jump_ip y i) = Some (fb_addr (the (?h t)))
      | _ \<Rightarrow> jump_ip y i = None \<or> jump_ip y i = Some (old_jump_ip y i)"
          using y(5) bL by (auto split: link.splits)
      qed (use y False in auto)
    qed
  qed
qed

text \<open>Resizing distributes the same blocks over more buckets.\<close>

lemma resize_fold:
  assumes "set bs \<subseteq> dom h" "distinct bs" "length acc = n" "0 < n" "\<And>k. k < n \<Longrightarrow> distinct (acc ! k) \<and> set (acc ! k) \<inter> set bs = {}"
  shows "\<exists>new. foldM (\<lambda>new_hash b. Option.bind (h b) (\<lambda>blk. let k = fb_addr blk mod n in Some (new_hash[k := b # new_hash ! k]))) acc bs = Some new \<and>
    length new = n \<and> (\<forall>k<n. distinct (new ! k) \<and> set (new ! k) = set (acc ! k) \<union> {b \<in> set bs. fb_addr (the (h b)) mod n = k})"
  using assms
proof (induction bs arbitrary: acc)
  case (Cons b bs)
  obtain blk where blk: "h b = Some blk" using Cons.prems(1) by auto
  let ?k = "fb_addr blk mod n"
  let ?acc = "acc[?k := b # acc ! ?k]"
  have k: "?k < n" using Cons.prems(4) by simp
  have at: "?acc ! k = (if k = ?k then b # acc ! k else acc ! k)" if "k < n" for k
    using that Cons.prems(3) by simp
  have "distinct (?acc ! k) \<and> set (?acc ! k) \<inter> set bs = {}" if "k < n" for k
    using Cons.prems(2) Cons.prems(5)[OF that] that by (auto simp: at)
  then obtain new where "foldM (\<lambda>new_hash b. Option.bind (h b) (\<lambda>blk. let k = fb_addr blk mod n in Some (new_hash[k := b # new_hash ! k]))) ?acc bs = Some new"
    "length new = n" "\<forall>k<n. distinct (new ! k) \<and> set (new ! k) = set (?acc ! k) \<union> {b \<in> set bs. fb_addr (the (h b)) mod n = k}"
    using Cons.IH[of ?acc] Cons.prems by auto
  then show ?case
    by (intro exI[of _ new]) (auto simp: blk at Let_def)
qed auto

lemma base_ok_hash:
  "base_ok L s \<Longrightarrow> k < length (hash s) \<Longrightarrow> distinct (hash s ! k) \<and> set (hash s ! k) = {b \<in> L. baddr s b mod length (hash s) = k}"
  by (simp add: base_ok_def)

lemma base_ok_distinct: "base_ok L s \<Longrightarrow> distinct (concat (hash s))"
proof -
  assume ok: "base_ok L s"
  have "distinct (concat hs)" if "\<And>k. k < length hs \<Longrightarrow> distinct (hs ! k) \<and> set (hs ! k) \<subseteq> {b. f b = m + k}"
    for hs and f :: "nat \<Rightarrow> nat" and m
    using that
  proof (induction hs arbitrary: m)
    case (Cons l hs)
    have "distinct (concat hs)"
      by (rule Cons.IH[of "Suc m"]) (use Cons.prems[of "Suc _"] in auto)
    moreover have "set l \<inter> set (concat hs) = {}"
      using Cons.prems[of 0] Cons.prems[of "Suc _"] by (fastforce simp: in_set_conv_nth)
    ultimately show ?case
      using Cons.prems[of 0] by simp
  qed simp
  from this[of "hash s" "\<lambda>b. baddr s b mod length (hash s)" 0] show ?thesis
    using base_ok_hash[OF ok] by auto
qed

text \<open>The table after an optional resize holds the same blocks.\<close>

lemma rehash_ok:
  assumes ok: "base_ok L s" and eq: "\<And>x. x \<in> L \<Longrightarrow> h x = blocks s x" and s1: "s1 = s\<lparr>blocks := h, mem_used := mu, num_blocks := nb\<rparr>"
  shows "\<exists>H. (if P then fiber_resize_hash (length (hash s1) * 2) s1 else Some s1) = Some (s1\<lparr>hash := H\<rparr>) \<and> H \<noteq> [] \<and>
    (\<forall>k<length H. distinct (H ! k) \<and> set (H ! k) = {x \<in> L. baddr s x mod length H = k})"
proof (cases P)
  case False
  then show ?thesis
    using ok by (intro exI[of _ "hash s"]) (simp add: s1 base_ok_def)
next
  case True
  let ?n = "length (hash s) * 2"
  have L: "L = set (concat (hash s))" using base_ok_live[OF ok] by (simp add: live_def)
  have n: "0 < ?n" using ok by (simp add: base_ok_def)
  have "set (concat (hash s)) \<subseteq> dom h"
    using ok eq unfolding L[symmetric] by (auto simp: base_ok_def)
  from resize_fold[OF this base_ok_distinct[OF ok] _ n, of "replicate ?n []"] obtain H where
    H: "foldM (\<lambda>new_hash b. Option.bind (h b) (\<lambda>blk. let k = fb_addr blk mod ?n in Some (new_hash[k := b # new_hash ! k])))
      (replicate ?n []) (concat (hash s)) = Some H" "length H = ?n"
    "\<forall>k<?n. distinct (H ! k) \<and> set (H ! k) = {b \<in> set (concat (hash s)). fb_addr (the (h b)) mod ?n = k}"
    by auto
  have "{b \<in> set (concat (hash s)). fb_addr (the (h b)) mod ?n = k} = {x \<in> L. baddr s x mod ?n = k}" for k
    unfolding L[symmetric] using eq by auto
  then show ?thesis
    using H n True by (intro exI[of _ H]) (auto simp: s1 fiber_resize_hash_def)
qed

definition put_in :: "nat \<Rightarrow> fiber_block \<Rightarrow> nat list list \<Rightarrow> asbestos \<Rightarrow> asbestos" where
  "put_in b blk H s = (let k = fb_addr blk mod length H;
      s = page_hash_update (PAGE (fb_addr blk)) 0 (Cons b) (s\<lparr>blocks := (blocks s)(b \<mapsto> blk), mem_used := mem_used s + fb_used blk,
        num_blocks := num_blocks s + 1, hash := H[k := b # H ! k]\<rparr>)
    in if PAGE (fb_addr blk) \<noteq> PAGE (fb_end_addr blk) then page_hash_update (PAGE (fb_end_addr blk)) 1 (Cons b) s else s)"

lemma put_in_simps [simp]: "blocks (put_in b blk H s) = (blocks s)(b \<mapsto> blk)" "jetsam (put_in b blk H s) = jetsam s"
    "invalidate_gen (put_in b blk H s) = invalidate_gen s" "mem_used (put_in b blk H s) = mem_used s + fb_used blk"
    "num_blocks (put_in b blk H s) = num_blocks s + 1" "hash (put_in b blk H s) = H[fb_addr blk mod length H := b # H ! (fb_addr blk mod length H)]"
  by (simp_all add: put_in_def page_hash_update_def Let_def)

lemma put_in_page_hash:
  "page_hash (put_in b blk H s) k i = (if i = 0 \<and> k = PAGE (fb_addr blk) mod 1024 \<or>
      i = 1 \<and> PAGE (fb_addr blk) \<noteq> PAGE (fb_end_addr blk) \<and> k = PAGE (fb_end_addr blk) mod 1024
    then b # page_hash s k i else page_hash s k i)"
  by (simp add: put_in_def page_hash_update_def Let_def)

lemma put_in_ok:
  assumes ok: "cinv L s" and b: "blocks s b = None" "fresh_block blk" "fb_addr blk \<notin> baddr s ` L"
    and H: "H \<noteq> []" "\<And>k. k < length H \<Longrightarrow> distinct (H ! k) \<and> set (H ! k) = {x \<in> L. baddr s x mod length H = k}"
  shows "cinv (insert b L) (put_in b blk H s)"
proof -
  let ?s = "put_in b blk H s"
  have base: "base_ok L s" and j: "jumps_ok (blocks s) L 0" "jumps_ok (blocks s) L 1" and jet: "jetsam_ok L s"
    using ok by (simp_all add: cinv_def core_ok_def)
  have L: "L \<subseteq> dom (blocks s)" and fin: "finite L" using base base_ok_finite[OF base] by (simp_all add: base_ok_def)
  then have bL: "b \<notin> L" using b(1) by auto
  have 1: "distinct (hash ?s ! k) \<and> set (hash ?s ! k) = {x \<in> insert b L. baddr ?s x mod length H = k}" if k: "k < length H" for k
  proof -
    have "{x \<in> insert b L. baddr ?s x mod length H = k} = {x \<in> L. baddr s x mod length H = k} \<union> (if fb_addr blk mod length H = k then {b} else {})"
      using bL by auto
    then show ?thesis
      using H(2)[OF k] k bL by (cases "k = fb_addr blk mod length H") simp_all
  qed
  have 2: "distinct (page_hash ?s k i) \<and> set (page_hash ?s k i) = page_blocks (insert b L) ?s k i" for k i
  proof -
    have "page_blocks (insert b L) ?s k i = page_blocks L s k i \<union> (if i = 0 \<and> k = PAGE (fb_addr blk) mod 1024 \<or>
      i = 1 \<and> PAGE (fb_addr blk) \<noteq> PAGE (fb_end_addr blk) \<and> k = PAGE (fb_end_addr blk) mod 1024 then {b} else {})"
      using bL by (auto simp: page_blocks_def)
    moreover have "distinct (page_hash s k i)" "set (page_hash s k i) = page_blocks L s k i" "b \<notin> page_blocks L s k i"
      using base bL by (auto simp: base_ok_def page_blocks_def)
    ultimately show ?thesis
      unfolding put_in_page_hash by simp
  qed
  have 3: "inj_on (baddr ?s) (insert b L)"
  proof -
    have "inj_on (baddr ?s) L \<longleftrightarrow> inj_on (baddr s) L" "baddr ?s ` L = baddr s ` L"
      using bL by (auto intro!: inj_on_cong image_cong)
    then show ?thesis
      using base b(3) bL by (simp add: base_ok_def)
  qed
  have 4: "mem_used ?s = (\<Sum>x\<in>insert b L. fb_used (the (blocks ?s x)))"
  proof -
    have "(\<Sum>x\<in>L. fb_used (the (blocks ?s x))) = (\<Sum>x\<in>L. fb_used (the (blocks s x)))"
      using bL by (intro sum.cong) auto
    then show ?thesis
      using base fin bL by (simp add: base_ok_def)
  qed
  have "base_ok (insert b L) ?s"
    unfolding base_ok_def
  proof (intro conjI)
    show "\<forall>k i. distinct (page_hash ?s k i) \<and> set (page_hash ?s k i) = page_blocks (insert b L) ?s k i"
      using 2 by blast
    show "\<forall>k<length (hash ?s). distinct (hash ?s ! k) \<and> set (hash ?s ! k) = {x \<in> insert b L. baddr ?s x mod length (hash ?s) = k}"
      using 1 by simp
  qed (use 3 4 H(1) L base b(2) bL fin in \<open>auto simp: base_ok_def fresh_block_def\<close>)
  moreover have "jumps_ok (blocks ?s) (insert b L) 0" "jumps_ok (blocks ?s) (insert b L) 1"
    using insert_jumps_ok[OF j(1) b(1,2)] insert_jumps_ok[OF j(2) b(1,2)] by simp_all
  moreover have "jetsam_ok (insert b L) ?s"
    using jet b(1) by (auto simp: jetsam_ok_def)
  ultimately show ?thesis
    by (simp add: cinv_def core_ok_def)
qed

text \<open>Chaining changes nothing but the jumps.\<close>

definition rechained :: "nat set \<Rightarrow> asbestos \<Rightarrow> asbestos \<Rightarrow> bool" where
  "rechained L s s' \<longleftrightarrow> cinv L s' \<and> (\<exists>h. same_blocks (blocks s) h \<and> s' = s\<lparr>blocks := h\<rparr>)"

lemma rechained_refl: "cinv L s \<Longrightarrow> rechained L s s"
  unfolding rechained_def by (auto intro!: exI[of _ "blocks s"])

lemma rechained_trans: "rechained L s s' \<Longrightarrow> rechained L s' s'' \<Longrightarrow> rechained L s s''"
  by (auto simp: rechained_def) (blast intro: same_blocks_trans)

lemma rechained_cinv: "rechained L s s' \<Longrightarrow> cinv L s'"
  by (simp add: rechained_def)

lemma foldM_rechained:
  assumes "\<And>s x. cinv L s \<Longrightarrow> x \<in> set xs \<Longrightarrow> \<exists>s'. f s x = Some s' \<and> rechained L s s'" "cinv L s"
  shows "\<exists>s'. foldM f s xs = Some s' \<and> rechained L s s'"
  using assms
proof (induction xs arbitrary: s)
  case (Cons x xs)
  obtain s1 where s1: "f s x = Some s1" "rechained L s s1" using Cons.prems(1)[of s x] Cons.prems(2) by auto
  have "\<exists>s'. foldM f s1 xs = Some s' \<and> rechained L s1 s'"
    using Cons.prems(1) rechained_cinv[OF s1(2)] by (intro Cons.IH) auto
  then show ?case
    using s1 by (auto intro: rechained_trans)
qed (auto intro: rechained_refl)

lemma rechained_link:
  assumes ok: "cinv L s" and st: "source \<in> L" "target \<in> L" "blocks s source = Some src"
    and fake: "Option.bind (jump_ip src i) arm64_fake_jump_target = Some (baddr s target)" and i: "i \<in> {0, 1}"
  shows "rechained L s (s\<lparr>blocks := link_jump source i target (blocks s)\<rparr>)"
proof -
  let ?h = "link_jump source i target (blocks s)"
  have base: "base_ok L s" and jet: "jetsam_ok L s" and j: "\<And>i. i \<in> {0, 1} \<Longrightarrow> jumps_ok (blocks s) L i"
    using ok by (auto simp: cinv_def core_ok_def)
  have jumps: "jumps_ok ?h L j" if "j \<in> {0, 1}" for j
    using link_jump_jumps_ok[OF j[OF i] st fake] jumps_ok_same_slot[OF j[OF that] link_jump_same_slot[of j i]] by (cases "j = i") auto
  have L: "L \<subseteq> dom (blocks s)" using base by (simp add: base_ok_def)
  note same = link_jump_same_blocks[of "blocks s" source i target]
  have "base_ok L (s\<lparr>blocks := ?h\<rparr>)"
    by (rule base_ok_same[OF base]) (use L same_blocks_dom[OF same] same_blocks_the[OF same] in auto)
  moreover have "jetsam_ok L (s\<lparr>blocks := ?h\<rparr>)"
  proof -
    have "?h x = blocks s x" if "x \<in> set (jetsam s)" for x
      using jet st that by (auto simp: jetsam_ok_def link_jump_def upd_block_def)
    then show ?thesis
      using jet same_blocks_dom[OF same] by (simp add: jetsam_ok_def)
  qed
  ultimately have "cinv L (s\<lparr>blocks := ?h\<rparr>)"
    using jumps by (simp add: cinv_def core_ok_def)
  then show ?thesis
    unfolding rechained_def using same by blast
qed

lemma cinv_block: "cinv L s \<Longrightarrow> b \<in> L \<Longrightarrow> \<exists>blk. blocks s b = Some blk"
  using cinv_dom by blast

lemma patch_slot_ok:
  assumes "cinv L s" "source \<in> L" "target \<in> L" "i \<in> {0, 1}"
  shows "\<exists>s'. fiber_prechain_patch_slot source i target s = Some s' \<and> rechained L s s'"
proof -
  obtain src tgt where b: "blocks s source = Some src" "blocks s target = Some tgt"
    using cinv_block assms by blast
  show ?thesis
    using rechained_refl[OF assms(1)] rechained_link[OF assms(1-3) b(1) _ assms(4)] b
    by (auto simp: fiber_prechain_patch_slot_def split: option.split)
qed

lemma prechain_slot_ok:
  assumes "cinv L s" "block \<in> L" "i \<in> {0, 1}"
  shows "\<exists>s'. prechain_slot block s i = Some s' \<and> rechained L s s'"
proof -
  obtain blk where b: "blocks s block = Some blk"
    using cinv_block assms by blast
  have "t \<in> L" if "fiber_lookup a s = Some t" for a t
    using lookup_iff[of L s a t] that assms(1) by (simp add: cinv_def core_ok_def)
  then show ?thesis
    using rechained_refl[OF assms(1)] patch_slot_ok[OF assms(1,2) _ assms(3)] b
    by (auto simp: prechain_slot_def split: option.split)
qed

lemma prechain_source_ok:
  assumes "cinv L s" "block \<in> L" "source \<in> L" "i \<in> {0, 1}"
  shows "\<exists>s'. prechain_source block s (source, i) = Some s' \<and> rechained L s s'"
proof -
  obtain src blk where b: "blocks s source = Some src" "blocks s block = Some blk"
    using cinv_block assms by blast
  show ?thesis
    using rechained_refl[OF assms(1)] patch_slot_ok[OF assms(1,3,2,4)] b by (auto simp: prechain_source_def)
qed

lemma prechain_same_page_ok:
  assumes "cinv L s" "block \<in> L"
  shows "\<exists>s'. fiber_prechain_same_page incoming block s = Some s' \<and> rechained L s s'"
proof -
  obtain s1 where s1: "fiber_prechain_outgoing_same_page block s = Some s1" "rechained L s s1"
    using foldM_rechained[of L "[0, 1]" "prechain_slot block" s] prechain_slot_ok[of L _ block] assms
    by (auto simp: fiber_prechain_outgoing_same_page_def)
  note c = rechained_cinv[OF s1(2)]
  obtain blk where b: "blocks s1 block = Some blk" using cinv_block[OF c assms(2)] by blast
  let ?l = "blocks_list s1 (PAGE (fb_addr blk)) 0"
  let ?xs = "concat (map (\<lambda>b. [(b, 0 :: nat), (b, 1)]) (take 2 (filter (\<lambda>b. b \<noteq> block) ?l)))"
  have sub: "set ?l \<subseteq> L" using cinv_page_hash[OF c] by (auto simp: blocks_list_def page_blocks_def)
  have "\<exists>s'. foldM (prechain_source block) s1 ?xs = Some s' \<and> rechained L s1 s'"
  proof (rule foldM_rechained[OF _ c])
    fix s x
    assume s: "cinv L s" and "x \<in> set ?xs"
    then obtain b i where "x = (b, i)" "b \<in> L" "i \<in> {0, 1}" using sub by (auto dest!: in_set_takeD)
    then show "\<exists>s'. prechain_source block s x = Some s' \<and> rechained L s s'"
      using prechain_source_ok[OF s assms(2)] by blast
  qed
  then show ?thesis
    using s1 b by (auto simp: fiber_prechain_same_page_def fiber_prechain_incoming_same_page_def intro: rechained_trans)
qed

text \<open>What insertion does: the block joins the live ones, and lookup finds it.\<close>

definition inserted :: "nat set \<Rightarrow> nat \<Rightarrow> fiber_block \<Rightarrow> asbestos \<Rightarrow> asbestos \<Rightarrow> bool" where
  "inserted L b blk s s' \<longleftrightarrow> cinv (insert b L) s' \<and> same_blocks ((blocks s)(b \<mapsto> blk)) (blocks s') \<and> jetsam s' = jetsam s \<and>
    invalidate_gen s' = invalidate_gen s"

lemma insert_ok:
  assumes ok: "cinv L s" and b: "blocks s b = None" "fresh_block blk" "fb_addr blk \<notin> baddr s ` L"
  shows "\<exists>s'. fiber_insert prechain incoming b blk s = Some s' \<and> inserted L b blk s s'"
proof -
  let ?s1 = "s\<lparr>blocks := (blocks s)(b \<mapsto> blk), mem_used := mem_used s + fb_used blk, num_blocks := num_blocks s + 1\<rparr>"
  let ?P = "unat (num_blocks ?s1) \<ge> length (hash ?s1) * 2"
  have base: "base_ok L s" using ok by (simp add: cinv_def core_ok_def)
  have bL: "b \<notin> L" using cinv_block[OF ok] b(1) by fastforce
  obtain H where H: "(if ?P then fiber_resize_hash (length (hash ?s1) * 2) ?s1 else Some ?s1) = Some (?s1\<lparr>hash := H\<rparr>)" "H \<noteq> []"
    "\<forall>k<length H. distinct (H ! k) \<and> set (H ! k) = {x \<in> L. baddr s x mod length H = k}"
    using rehash_ok[OF base, of "(blocks s)(b \<mapsto> blk)" ?s1] bL by fastforce
  have put: "cinv (insert b L) (put_in b blk H s)"
    using H(2,3) by (intro put_in_ok[OF ok b]) auto
  have ev: "fiber_insert prechain incoming b blk s =
      (if prechain then fiber_prechain_same_page incoming b (put_in b blk H s) else Some (put_in b blk H s))"
    unfolding fiber_insert_def Let_def H(1) by (simp add: put_in_def page_hash_update_def Let_def)
  show ?thesis
    using prechain_same_page_ok[OF put, of b incoming] put unfolding ev by (auto simp: inserted_def rechained_def)
qed

lemma chain_slot_ok:
  assumes "cinv L s" "lb \<in> L" "b \<in> L" "i \<in> {0, 1}"
  shows "\<exists>s'. chain_slot lb b s i = Some s' \<and> rechained L s s'"
proof -
  obtain x y where b: "blocks s lb = Some x" "blocks s b = Some y"
    using cinv_block assms by blast
  show ?thesis
    using rechained_refl[OF assms(1)] rechained_link[OF assms(1-3) b(1) _ assms(4)] b by (auto simp: chain_slot_def)
qed

lemma chain_blocks_ok:
  assumes ok: "cinv L s" and b: "lb \<in> dom (blocks s)" "b \<in> dom (blocks s)"
  shows "\<exists>s'. chain_blocks lb b s = Some s' \<and> rechained L s s'"
proof -
  obtain x y where xy: "blocks s lb = Some x" "blocks s b = Some y" using b by auto
  have L: "c \<in> L" if "blocks s c = Some z" "\<not> is_jetsam z" for c z
    using ok that by (auto simp: cinv_def jetsam_ok_def) (metis Un_iff domI option.sel)
  show ?thesis
  proof (cases "is_jetsam x \<or> is_jetsam y")
    case True
    then show ?thesis using xy rechained_refl[OF ok] by (auto simp: chain_blocks_def)
  next
    case False
    then have "lb \<in> L" "b \<in> L" using L xy by auto
    from foldM_rechained[of L "[0, 1]" "chain_slot lb b" s, OF chain_slot_ok[OF _ this]] show ?thesis
      using False xy ok by (simp add: chain_blocks_def)
  qed
qed

lemma new_cache_ok: "cache_ok asbestos_new" "live asbestos_new = {}"
proof -
  show l: "live asbestos_new = {}"
    by (simp add: live_def asbestos_new_def)
  show "cache_ok asbestos_new"
    unfolding cache_ok_def core_ok_def base_ok_def jetsam_ok_def l
    by (simp add: asbestos_new_def page_blocks_def jumps_ok_def)
qed

section \<open>Properties\<close>

lemma cinv_lookup: "cinv L s \<Longrightarrow> fiber_lookup a s = Some b \<longleftrightarrow> b \<in> L \<and> baddr s b = a"
  by (rule lookup_iff) (simp add: cinv_def core_ok_def)

lemma option_eqI: "(\<And>x. a = Some x \<longleftrightarrow> b = Some x) \<Longrightarrow> a = b"
  by (metis not_Some_eq)

text \<open>The blocks that execution can reach: those that lookup finds, and those that a jump of such a block leads to.\<close>

inductive enters :: "asbestos \<Rightarrow> nat \<Rightarrow> bool" for s where
  lookup: "fiber_lookup a s = Some b \<Longrightarrow> enters s b"
| jump: "enters s b \<Longrightarrow> blocks s b = Some blk \<Longrightarrow> i \<in> {0, 1} \<Longrightarrow> jump_ip blk i = Some (Code t) \<Longrightarrow> enters s t"

lemma jump_target:
  assumes "cinv L s" "b \<in> L" "blocks s b = Some blk" "i \<in> {0, 1}" "jump_ip blk i = Some (Code t)"
  shows "t \<in> L \<and> arm64_fake_jump_target (old_jump_ip blk i) = Some (baddr s t)"
proof -
  have "jumps_ok (blocks s) L i" using assms(1,4) by (auto simp: cinv_def core_ok_def)
  from bspec[OF this[unfolded jumps_ok_def] assms(2)] show ?thesis
    using assms(3,5) by (cases "jumps_from_links blk i") (simp_all, metis+)
qed

lemma enters_live: "enters s b \<Longrightarrow> cinv L s \<Longrightarrow> b \<in> L"
  by (induction rule: enters.induct) (auto simp: cinv_lookup dest: jump_target)

lemma live_enters: "cinv L s \<Longrightarrow> b \<in> L \<Longrightarrow> enters s b"
  using enters.lookup cinv_lookup by blast

text \<open>C6: Invalidating a range of pages of a consistent cache succeeds and leaves it consistent, and afterwards no block whose code
  begins or ends on a page of the range can be reached, neither by a lookup nor through any chain of direct jumps between blocks; exactly
  the blocks with a page in a bucket of the range go, and the generation number tells the threads of it if there was any.\<close>

theorem invalidated_code_unreachable:
  assumes "cache_ok s"
  shows "\<exists>s'. asbestos_invalidate_range start end' s = Some s' \<and> cache_ok s' \<and>
    (\<forall>b. enters s' b \<longleftrightarrow> enters s b \<and> \<not> (\<exists>p\<in>{start..<end'}. overlaps s b p)) \<and>
    (\<forall>b. enters s' b \<longrightarrow> PAGE (baddr s' b) \<notin> {start..<end'} \<and> PAGE (bend s' b) \<notin> {start..<end'}) \<and>
    invalidate_gen s' = (if \<exists>b. enters s b \<and> (\<exists>p\<in>{start..<end'}. overlaps s b p) then invalidate_gen s + 1 else invalidate_gen s)"
proof -
  let ?D = "{b \<in> live s. \<exists>p\<in>{start..<end'}. overlaps s b p}"
  obtain s' where s': "asbestos_invalidate_range start end' s = Some s'" "cinv (live s - ?D) s'" "keeps_addrs s s'"
    "invalidate_gen s' = (if ?D = {} then invalidate_gen s else invalidate_gen s + 1)"
    using invalidate_range_ok[OF assms, of start end'] unfolding invalidates_def by blast
  have c: "cinv (live s) s" using assms by (simp add: cache_ok_cinv)
  have e: "enters s b \<longleftrightarrow> b \<in> live s" "enters s' b \<longleftrightarrow> b \<in> live s - ?D" for b
    using enters_live live_enters c s'(2) by blast+
  have out: "PAGE (baddr s' b) \<notin> {start..<end'} \<and> PAGE (bend s' b) \<notin> {start..<end'}" if "b \<in> live s - ?D" for b
  proof -
    have "baddr s' b = baddr s b \<and> bend s' b = bend s b"
      using keeps_addrs_at[OF s'(3)] cinv_dom[OF c] that by blast
    moreover have "\<not> (\<exists>p\<in>{start..<end'}. overlaps s b p)" using that by simp
    ultimately show ?thesis
      unfolding overlaps_def by (metis (full_types))
  qed
  have "?D = {} \<longleftrightarrow> \<not> (\<exists>b. enters s b \<and> (\<exists>p\<in>{start..<end'}. overlaps s b p))"
    unfolding e by blast
  then show ?thesis
    using s'(1,4) cinv_cache_ok[OF s'(2)] e out by auto
qed

text \<open>A block of one page with a jump to its own beginning, inserted in a new cache.\<close>

definition loop_block :: fiber_block where
  "loop_block = \<lparr>fb_addr = 4096, fb_end_addr = 4103, fb_used = 64, jump_ip = (\<lambda>_. Some (Word64 0x8000000000001000)),
    old_jump_ip = (\<lambda>_. Word64 0x8000000000001000), jumps_from = (\<lambda>_. []), jumps_from_links = (\<lambda>_. Alone), is_jetsam = False\<rparr>"

lemma loop_block_fresh: "fresh_block loop_block"
  by (simp add: fresh_block_def loop_block_def)

lemma loop_block_inserted:
  "\<exists>s. fiber_insert True True 7 loop_block asbestos_new = Some s \<and> cache_ok s \<and> fiber_lookup 4096 s = Some 7 \<and> baddr s 7 = 4096"
proof -
  have c: "cinv {} asbestos_new" using new_cache_ok by (simp add: cache_ok_cinv)
  obtain s where s: "fiber_insert True True 7 loop_block asbestos_new = Some s" "cinv {7} s"
    "same_blocks ((blocks asbestos_new)(7 \<mapsto> loop_block)) (blocks s)"
    using insert_ok[OF c, of 7 loop_block] loop_block_fresh by (auto simp: asbestos_new_def inserted_def)
  have "baddr s 7 = 4096"
    using baseD[OF same_blocks_the[OF s(3), of 7]] by (simp add: loop_block_def)
  then show ?thesis
    using s(1,2) cinv_cache_ok[OF s(2)] cinv_lookup[OF s(2), of 4096 7] by simp
qed

theorem invalidated_code_unreachable_witness:
  "\<exists>s s'. fiber_insert True True 7 loop_block asbestos_new = Some s \<and> enters s 7 \<and>
    asbestos_invalidate_range 1 3 s = Some s' \<and> \<not> enters s' 7"
proof -
  obtain s where s: "fiber_insert True True 7 loop_block asbestos_new = Some s" "cache_ok s" "fiber_lookup 4096 s = Some 7" "baddr s 7 = 4096"
    using loop_block_inserted by blast
  have "enters s 7" by (rule enters.lookup[OF s(3)])
  moreover have "overlaps s 7 1" using s(4) by (simp add: overlaps_def PAGE_def)
  moreover have "(1 :: nat) \<in> {1..<3}" by simp
  ultimately show ?thesis
    using invalidated_code_unreachable[OF s(2), of 1 3] s(1) by blast
qed

text \<open>C40: The hash table of blocks implements a finite map from guest addresses to blocks: inserting a block translated at an address that
  was not in the map maps that address to it and changes no other lookup, whether or not the table is resized and whichever chaining is
  enabled, and invalidation removes exactly the invalidated blocks.\<close>

theorem block_table_refines_map:
  assumes "cache_ok s" "blocks s b = None" "fresh_block blk" "fiber_lookup (fb_addr blk) s = None"
  shows "\<exists>s'. fiber_insert prechain incoming b blk s = Some s' \<and> cache_ok s' \<and>
      (\<lambda>a. fiber_lookup a s') = (\<lambda>a. fiber_lookup a s)(fb_addr blk \<mapsto> b) \<and>
      (\<exists>s''. asbestos_invalidate_page page s' = Some s'' \<and> cache_ok s'' \<and>
        (\<forall>a. fiber_lookup a s'' = (case fiber_lookup a s' of None \<Rightarrow> None | Some c \<Rightarrow> if overlaps s' c page then None else Some c)))"
proof -
  have c: "cinv (live s) s" using assms(1) by (simp add: cache_ok_cinv)
  have "fb_addr blk \<notin> baddr s ` live s"
  proof
    assume "fb_addr blk \<in> baddr s ` live s"
    then obtain x where "x \<in> live s" "baddr s x = fb_addr blk" by auto
    then show False using cinv_lookup[OF c, of "fb_addr blk" x] assms(4) by simp
  qed
  from insert_ok[OF c assms(2,3) this] obtain s' where s': "fiber_insert prechain incoming b blk s = Some s'"
    "cinv (insert b (live s)) s'" "same_blocks ((blocks s)(b \<mapsto> blk)) (blocks s')"
    unfolding inserted_def by blast
  have addr: "baddr s' b = fb_addr blk"
    using baseD[OF same_blocks_the[OF s'(3), of b]] by simp
  have addrs: "x \<noteq> b \<and> baddr s' x = baddr s x" if x: "x \<in> live s" for x
  proof -
    have "x \<in> dom (blocks s)" "x \<noteq> b" using cinv_dom[OF c] x assms(2) by auto
    then show ?thesis using baseD[OF same_blocks_the[OF s'(3), of x]] by auto
  qed
  have look: "fiber_lookup a s' = ((\<lambda>a. fiber_lookup a s)(fb_addr blk \<mapsto> b)) a" for a
  proof (rule option_eqI)
    fix x
    show "fiber_lookup a s' = Some x \<longleftrightarrow> ((\<lambda>a. fiber_lookup a s)(fb_addr blk \<mapsto> b)) a = Some x"
      using cinv_lookup[OF s'(2), of a x] cinv_lookup[OF c, of a x] addr addrs[of x] assms(4) by auto
  qed
  obtain s'' where s'': "asbestos_invalidate_page page s' = Some s''" "invalidates s' {c \<in> live s'. overlaps s' c page} s''"
    using invalidate_page_ok[of s' page] cinv_cache_ok[OF s'(2)] by blast
  note i = s''(2)[unfolded invalidates_def]
  have live': "live s' = insert b (live s)" using cinv_cache_ok[OF s'(2)] by simp
  have "fiber_lookup a s'' = (case fiber_lookup a s' of None \<Rightarrow> None | Some c \<Rightarrow> if overlaps s' c page then None else Some c)" for a
  proof (rule option_eqI)
    fix x
    have "baddr s'' x = baddr s' x" if "x \<in> live s'"
      using keeps_addrs_at[of s' s'' x] i cinv_dom[OF s'(2)] that live' by blast
    then have "fiber_lookup a s'' = Some x \<longleftrightarrow> fiber_lookup a s' = Some x \<and> \<not> overlaps s' x page"
      using cinv_lookup[OF conjunct1[OF i], of a x] cinv_lookup[OF s'(2), of a x] live' by auto
    then show "fiber_lookup a s'' = Some x \<longleftrightarrow>
        (case fiber_lookup a s' of None \<Rightarrow> None | Some c \<Rightarrow> if overlaps s' c page then None else Some c) = Some x"
      by (auto split: option.split)
  qed
  then show ?thesis
    using s'(1) cinv_cache_ok[OF s'(2)] s''(1) cinv_cache_ok[OF conjunct1[OF i]]
    by (intro exI[of _ s'] exI[of _ s''] conjI ext) (use look in auto)
qed

theorem block_table_refines_map_witness:
  "cache_ok asbestos_new \<and> (\<exists>s'. fiber_insert False False 7 loop_block asbestos_new = Some s' \<and>
      (\<lambda>a. fiber_lookup a s') = [4096 \<mapsto> 7])"
proof -
  have look: "(\<lambda>a. fiber_lookup a asbestos_new) = Map.empty"
    by (auto simp: fiber_lookup_def asbestos_new_def)
  have new: "blocks asbestos_new 7 = None" "fiber_lookup (fb_addr loop_block) asbestos_new = None"
    using fun_cong[OF look, of "fb_addr loop_block"] by (simp_all add: asbestos_new_def)
  have addr: "fb_addr loop_block = 4096" by (simp add: loop_block_def)
  from block_table_refines_map[OF new_cache_ok(1) new(1) loop_block_fresh new(2), of False False] new_cache_ok(1) show ?thesis
    unfolding look addr by blast
qed

end
