(* ===== verification/Block_Threads.thy ===== *)
theory Block_Threads
  imports Block_Cache_Laws
begin

text \<open>
  Several threads that execute blocks of one cache while code is invalidated and discarded blocks are freed.  Each rule is a
  stretch of code under a lock, or one that touches only the thread's own state, so the rules interleave as the threads do:
  \<^verbatim>\<open>cpu_step_to_interrupt\<close> holds the jetsam lock for reading from \<^verbatim>\<open>start\<close> to \<^verbatim>\<open>finish\<close>, and
  \<^verbatim>\<open>cpu_run_to_interrupt\<close> frees the jetsam only when it gets that lock for writing.  The rules \<^verbatim>\<open>jump\<close>, \<^verbatim>\<open>call\<close>,
  \<^verbatim>\<open>return\<close> and \<^verbatim>\<open>stop\<close> are what the code of a block does to \<^verbatim>\<open>last_block\<close> and the table of return addresses.
\<close>

record cpus =
  cache :: asbestos
  threads :: "nat \<Rightarrow> cpu_thread"
  running :: "nat set"

abbreviation set_thread :: "nat \<Rightarrow> cpu_thread \<Rightarrow> cpus \<Rightarrow> cpus" where
  "set_thread t th m \<equiv> m\<lparr>threads := (threads m)(t := th)\<rparr>"

inductive cpus_step :: "cpus \<Rightarrow> cpus \<Rightarrow> bool" where
  start: "t \<notin> running m \<Longrightarrow> cpus_step m (set_thread t (cpu_step_start (cache m) (threads m t)) m\<lparr>running := insert t (running m)\<rparr>)"
| revalidate: "t \<in> running m \<Longrightarrow> cpus_step m (set_thread t (revalidate_caches (cache m) (threads m t)) m)"
| get: "t \<in> running m \<Longrightarrow> blocks (cache m) nb = None \<Longrightarrow> fresh_block nblk \<Longrightarrow> fb_addr nblk = ip \<Longrightarrow>
    get_block prechain incoming (nb, nblk) ip (cache m, threads m t) = Some (s', th') \<Longrightarrow>
    cpus_step m (set_thread t th' m\<lparr>cache := s'\<rparr>)"
| chain: "t \<in> running m \<Longrightarrow> try_chain lock_free (cache m, threads m t) = Some s' \<Longrightarrow> cpus_step m (m\<lparr>cache := s'\<rparr>)"
| enter: "t \<in> running m \<Longrightarrow> cpus_step m (set_thread t ((threads m t)\<lparr>last_block := cur_block (threads m t)\<rparr>) m)"
| jump: "t \<in> running m \<Longrightarrow> last_block (threads m t) = Some b \<Longrightarrow> blocks (cache m) b = Some blk \<Longrightarrow> i \<in> {0, 1} \<Longrightarrow>
    jump_ip blk i = Some (Code c) \<Longrightarrow> cpus_step m (set_thread t ((threads m t)\<lparr>last_block := Some c\<rparr>) m)"
| call: "t \<in> running m \<Longrightarrow> last_block (threads m t) = Some b \<Longrightarrow>
    cpus_step m (set_thread t ((threads m t)\<lparr>ret_cache := (ret_cache (threads m t))(k := Some b)\<rparr>) m)"
| return: "t \<in> running m \<Longrightarrow> ret_cache (threads m t) k = Some b \<Longrightarrow>
    cpus_step m (set_thread t ((threads m t)\<lparr>last_block := Some b\<rparr>) m)"
| stop: "t \<in> running m \<Longrightarrow> cpus_step m (set_thread t ((threads m t)\<lparr>last_block := None\<rparr>) m)"
| flush: "t \<in> running m \<Longrightarrow> cpus_step m (set_thread t (flush_caches (cache m) (threads m t)) m)"
| finish: "t \<in> running m \<Longrightarrow> cpus_step m (m\<lparr>running := running m - {t}\<rparr>)"
| invalidate_range: "asbestos_invalidate_range start' end' (cache m) = Some s' \<Longrightarrow> cpus_step m (m\<lparr>cache := s'\<rparr>)"
| invalidate_page: "asbestos_invalidate_page page (cache m) = Some s' \<Longrightarrow> cpus_step m (m\<lparr>cache := s'\<rparr>)"
| invalidate_all: "asbestos_invalidate_all (cache m) = Some s' \<Longrightarrow> cpus_step m (m\<lparr>cache := s'\<rparr>)"
| free: "running m = {} \<Longrightarrow> cpus_step m (m\<lparr>cache := fiber_free_jetsam (cache m)\<rparr>)"

definition new_thread :: cpu_thread where
  "new_thread = \<lparr>block_cache = (\<lambda>_. None), block_cache_gen = 0, ret_cache = (\<lambda>_. None), last_block = None, cur_block = None\<rparr>"

definition new_cpus :: cpus where
  "new_cpus = \<lparr>cache = asbestos_new, threads = (\<lambda>_. new_thread), running = {}\<rparr>"

text \<open>The states that a number of steps lead to.\<close>

inductive cpus_after :: "nat \<Rightarrow> cpus \<Rightarrow> bool" where
  new: "cpus_after 0 new_cpus"
| step: "cpus_after n m \<Longrightarrow> cpus_step m m' \<Longrightarrow> cpus_after (Suc n) m'"

section \<open>The invariant\<close>

definition kept :: "cpu_thread \<Rightarrow> nat set" where
  "kept th = ran (block_cache th) \<union> ran (ret_cache th)"

definition held :: "cpu_thread \<Rightarrow> nat set" where
  "held th = kept th \<union> set_option (last_block th) \<union> set_option (cur_block th)"

text \<open>
  A thread whose generation is current keeps only live blocks; one that runs holds only blocks that are allocated.
  \<^verbatim>\<open>g\<close> counts the invalidations.
\<close>

definition thread_ok :: "nat \<Rightarrow> asbestos \<Rightarrow> bool \<Rightarrow> cpu_thread \<Rightarrow> bool" where
  "thread_ok g s run th \<longleftrightarrow> (\<exists>gt\<le>g. block_cache_gen th = of_nat gt \<and> (gt = g \<longrightarrow> (if run then held th else kept th) \<subseteq> live s)) \<and>
    (run \<longrightarrow> held th \<subseteq> dom (blocks s))"

definition cpus_ok :: "nat \<Rightarrow> cpus \<Rightarrow> bool" where
  "cpus_ok n m \<longleftrightarrow> cache_ok (cache m) \<and> (\<exists>g\<le>n. invalidate_gen (cache m) = of_nat g \<and>
    (\<forall>t. thread_ok g (cache m) (t \<in> running m) (threads m t)))"

lemma live_dom: "cache_ok s \<Longrightarrow> live s \<subseteq> dom (blocks s)"
  using cinv_dom by (simp add: cache_ok_cinv)

lemma held_kept: "kept th \<subseteq> held th"
  by (auto simp: held_def)

lemma thread_okI:
  "block_cache_gen th = of_nat g \<Longrightarrow> held th \<subseteq> live s \<Longrightarrow> cache_ok s \<Longrightarrow> thread_ok g s run th"
  using live_dom[of s] held_kept[of th] by (auto simp: thread_ok_def)

text \<open>A thread is not affected by what keeps the live and the allocated blocks.\<close>

lemma thread_ok_mono:
  "thread_ok g s run th \<Longrightarrow> live s \<subseteq> live s' \<Longrightarrow> dom (blocks s) \<subseteq> dom (blocks s') \<Longrightarrow> thread_ok g s' run th"
  unfolding thread_ok_def by (meson subset_trans)

text \<open>Nor by an invalidation, as its generation is not current any more.\<close>

lemma thread_ok_invalidates:
  assumes "thread_ok g s run th" "invalidates s D s'" "cache_ok s"
  shows "thread_ok (if D = {} then g else Suc g) s' run th"
proof -
  have inv: "cinv (live s - D) s'" and k: "keeps_addrs s s'"
    using assms(2) by (simp_all add: invalidates_def)
  have live': "live s' = live s - D" using cinv_cache_ok[OF inv] by simp
  have dom: "dom (blocks s) \<subseteq> dom (blocks s')" using k by (auto simp: keeps_addrs_def)
  show ?thesis
  proof (cases "D = {}")
    case True
    then show ?thesis using thread_ok_mono[OF assms(1)] live' dom by simp
  next
    case False
    obtain gt where gt: "gt \<le> g" "block_cache_gen th = of_nat gt" using assms(1) by (auto simp: thread_ok_def)
    have "held th \<subseteq> dom (blocks s')" if run using assms(1) dom that unfolding thread_ok_def by blast
    then show ?thesis
      using False gt unfolding thread_ok_def by (intro conjI exI[of _ gt]) simp_all
  qed
qed

lemma cpus_ok_invalidates:
  assumes "cpus_ok n m" "invalidates (cache m) D s'"
  shows "cpus_ok (Suc n) (m\<lparr>cache := s'\<rparr>)"
proof -
  obtain g where g: "g \<le> n" "invalidate_gen (cache m) = of_nat g" "\<And>t. thread_ok g (cache m) (t \<in> running m) (threads m t)"
    and c: "cache_ok (cache m)"
    using assms(1) by (auto simp: cpus_ok_def)
  have "cinv (live (cache m) - D) s'" and "invalidate_gen s' = (if D = {} then invalidate_gen (cache m) else invalidate_gen (cache m) + 1)"
    using assms(2) by (simp_all add: invalidates_def)
  then show ?thesis
    using g thread_ok_invalidates[OF g(3) assms(2) c] cinv_cache_ok[of _ s']
    by (auto simp: cpus_ok_def intro!: exI[of _ "if D = {} then g else Suc g"])
qed

text \<open>A running thread may take hold of live blocks.\<close>

lemma thread_ok_hold:
  assumes "thread_ok g s True th" "cache_ok s" "block_cache_gen th' = block_cache_gen th" "held th' \<subseteq> held th \<union> live s"
  shows "thread_ok g s True th'"
  using assms live_dom[OF assms(2)] unfolding thread_ok_def by auto blast+

lemma held_flush [simp]: "held (flush_caches s th) = {}" "block_cache_gen (flush_caches s th) = invalidate_gen s"
  by (simp_all add: flush_caches_def held_def kept_def)

lemma gen_eq: "a \<le> n \<Longrightarrow> b \<le> n \<Longrightarrow> n < 2 ^ 32 \<Longrightarrow> (of_nat a :: 32 word) = of_nat b \<Longrightarrow> a = b"
  by (simp add: word_of_nat_eq_iff take_bit_nat_eq_self)

lemma cpu_step_start_ok:
  assumes "thread_ok g s False th" "invalidate_gen s = of_nat g" "g < 2 ^ 32" "cache_ok s"
  shows "thread_ok g s True (cpu_step_start s th)"
proof (cases "block_cache_gen th = invalidate_gen s")
  case False
  then show ?thesis using assms by (auto simp: cpu_step_start_def intro: thread_okI)
next
  case True
  then have "kept th \<subseteq> live s"
    using assms(1,2,3) gen_eq[of _ g g] by (auto simp: thread_ok_def)
  then show ?thesis
    using True assms(2,4) by (intro thread_okI) (auto simp: cpu_step_start_def held_def kept_def)
qed

lemma revalidate_ok:
  assumes "thread_ok g s run th" "invalidate_gen s = of_nat g" "cache_ok s"
  shows "thread_ok g s run (revalidate_caches s th)"
  using assms by (auto simp: revalidate_caches_def intro: thread_okI)

lemma held_cur: "held (th\<lparr>cur_block := Some b\<rparr>) \<subseteq> held th \<union> {b}"
    "held (th\<lparr>cur_block := Some b, block_cache := (block_cache th)(k := Some b)\<rparr>) \<subseteq> held th \<union> {b}"
  by (auto simp: held_def kept_def ran_def split: if_splits)

text \<open>Getting the block for an address succeeds: it is one the thread kept or a live one.\<close>

lemma find_block_ok:
  assumes "cache_ok s" "blocks s nb = None" "fresh_block nblk" "fb_addr nblk = ip"
  obtains b s' where "find_block prechain incoming (nb, nblk) ip s = Some (b, s')" "cache_ok s'" "b \<in> live s'" "baddr s' b = ip"
    "live s \<subseteq> live s'" "dom (blocks s) \<subseteq> dom (blocks s')" "invalidate_gen s' = invalidate_gen s"
proof (cases "fiber_lookup ip s")
  case (Some b)
  have "b \<in> live s \<and> baddr s b = ip"
    using cinv_lookup[of "live s" s ip b] Some assms(1) by (simp add: cache_ok_cinv)
  then show thesis
    using that[of b s] Some assms(1) by (simp add: find_block_def)
next
  case None
  have c: "cinv (live s) s" using assms(1) by (simp add: cache_ok_cinv)
  have "fb_addr nblk \<notin> baddr s ` live s"
  proof
    assume "fb_addr nblk \<in> baddr s ` live s"
    then obtain x where "x \<in> live s" "baddr s x = ip" using assms(4) by auto
    then show False using cinv_lookup[OF c, of ip x] None by simp
  qed
  from insert_ok[OF c assms(2,3) this] obtain s' where s': "fiber_insert prechain incoming nb nblk s = Some s'"
    "cinv (insert nb (live s)) s'" "same_blocks ((blocks s)(nb \<mapsto> nblk)) (blocks s')" "invalidate_gen s' = invalidate_gen s"
    unfolding inserted_def by blast
  have "baddr s' nb = ip"
    using baseD[OF same_blocks_the[OF s'(3), of nb]] assms(4) by simp
  moreover have "dom (blocks s) \<subseteq> dom (blocks s')"
    using same_blocks_dom[OF s'(3)] by auto
  ultimately show thesis
    using that[of nb s'] s'(1,4) cinv_cache_ok[OF s'(2)] None by (auto simp: find_block_def)
qed

lemma get_block_ok:
  assumes c: "cache_ok s" and th: "thread_ok g s True th" and new: "blocks s nb = None" "fresh_block nblk" "fb_addr nblk = ip"
  obtains s' th' b where "get_block prechain incoming (nb, nblk) ip (s, th) = Some (s', th')" "cache_ok s'" "thread_ok g s' True th'"
    "live s \<subseteq> live s'" "dom (blocks s) \<subseteq> dom (blocks s')" "invalidate_gen s' = invalidate_gen s"
    "cur_block th' = Some b" "b \<in> dom (blocks s')" "baddr s' b = ip" "b \<in> kept th \<and> s' = s \<or> b \<in> live s'"
proof -
  note result = that
  obtain b s' where f: "find_block prechain incoming (nb, nblk) ip s = Some (b, s')" "cache_ok s'" "b \<in> live s'" "baddr s' b = ip"
    "live s \<subseteq> live s'" "dom (blocks s) \<subseteq> dom (blocks s')" "invalidate_gen s' = invalidate_gen s"
    by (rule find_block_ok[OF c new, of prechain incoming])
  let ?k = "fiber_cache_hash ip"
  let ?th = "th\<lparr>cur_block := Some b, block_cache := (block_cache th)(?k := Some b)\<rparr>"
  have hold: "held ?th \<subseteq> held th \<union> {b}"
    by (rule held_cur)
  have miss: thesis if g: "get_block prechain incoming (nb, nblk) ip (s, th) = Some (s', ?th)"
  proof (rule result[OF g f(2)])
    show "thread_ok g s' True ?th"
      by (rule thread_ok_hold[OF thread_ok_mono[OF th f(5,6)] f(2)]) (use hold f(3) in auto)
  qed (use f live_dom[OF f(2)] in auto)
  show thesis
  proof (cases "block_cache th ?k")
    case None
    then show thesis using f(1) by (intro miss) (simp add: get_block_def)
  next
    case (Some c)
    then have k: "c \<in> kept th" by (auto simp: kept_def ran_def)
    then have "c \<in> dom (blocks s)" using th held_kept[of th] by (auto simp: thread_ok_def)
    then obtain blk where blk: "blocks s c = Some blk" by blast
    show thesis
    proof (cases "fb_addr blk = ip")
      case False
      then show thesis using f(1) blk Some by (intro miss) (simp add: get_block_def)
    next
      case True
      have "thread_ok g s True (th\<lparr>cur_block := Some c\<rparr>)"
        by (rule thread_ok_hold[OF th c]) (use held_cur(1)[of c th] k held_kept[of th] in auto)
      then show thesis
        using that[of s "th\<lparr>cur_block := Some c\<rparr>" c] c True blk Some k by (auto simp: get_block_def)
    qed
  qed
qed

lemma try_chain_ok:
  assumes c: "cache_ok s" and th: "thread_ok g s True th"
  obtains s' where "try_chain lock_free (s, th) = Some s'" "cache_ok s'" "live s' = live s" "dom (blocks s') = dom (blocks s)"
    "invalidate_gen s' = invalidate_gen s"
proof -
  have c': "cinv (live s) s" using c by (simp add: cache_ok_cinv)
  have held: "held th \<subseteq> dom (blocks s)" using th by (simp add: thread_ok_def)
  have "\<exists>s'. try_chain lock_free (s, th) = Some s' \<and> rechained (live s) s s'"
  proof (cases "last_block th = None \<or> cur_block th = None")
    case True
    then show ?thesis using rechained_refl[OF c'] by (auto simp: try_chain_def split: option.split)
  next
    case False
    then obtain lb b where lb: "last_block th = Some lb" "cur_block th = Some b" by auto
    then have d: "lb \<in> dom (blocks s)" "b \<in> dom (blocks s)" using held by (auto simp: held_def)
    then obtain x y where xy: "blocks s lb = Some x" "blocks s b = Some y" by blast
    show ?thesis
      using chain_blocks_ok[OF c' d] rechained_refl[OF c'] lb xy by (auto simp: try_chain_def)
  qed
  then obtain s' where s': "try_chain lock_free (s, th) = Some s'" "rechained (live s) s s'" by blast
  then show thesis
    using that[OF s'(1)] cinv_cache_ok[OF rechained_cinv[OF s'(2)]] same_blocks_dom by (fastforce simp: rechained_def)
qed

text \<open>A direct jump from an allocated block leads to a live one.\<close>

lemma jump_live:
  assumes c: "cache_ok s" and j: "blocks s b = Some blk" "i \<in> {0, 1}" "jump_ip blk i = Some (Code t)"
  shows "t \<in> live s"
proof -
  have c': "cinv (live s) s" and jet: "jetsam_ok (live s) s" using c by (simp_all add: cache_ok_cinv cinv_def)
  have "b \<in> live s \<union> set (jetsam s)" using jet j(1) by (auto simp: jetsam_ok_def)
  moreover have "b \<notin> set (jetsam s)" using jet j by (auto simp: jetsam_ok_def)
  ultimately show ?thesis using jump_target[OF c' _ j] by blast
qed

lemma cpus_okE:
  assumes "cpus_ok n m"
  obtains g where "cache_ok (cache m)" "g \<le> n" "invalidate_gen (cache m) = of_nat g" "\<And>t. thread_ok g (cache m) (t \<in> running m) (threads m t)"
  using assms by (auto simp: cpus_ok_def)

lemma cpus_okI:
  "cache_ok (cache m) \<Longrightarrow> g \<le> n \<Longrightarrow> invalidate_gen (cache m) = of_nat g \<Longrightarrow>
    (\<And>t. thread_ok g (cache m) (t \<in> running m) (threads m t)) \<Longrightarrow> cpus_ok n m"
  by (auto simp: cpus_ok_def)

lemma set_thread_ok:
  assumes "cpus_ok n m" "\<And>g. g \<le> n \<Longrightarrow> invalidate_gen (cache m) = of_nat g \<Longrightarrow> cache_ok (cache m) \<Longrightarrow>
    thread_ok g (cache m) (t \<in> running m) (threads m t) \<Longrightarrow> thread_ok g (cache m) (t \<in> R) th"
    and "\<And>u. u \<noteq> t \<Longrightarrow> u \<in> R \<longleftrightarrow> u \<in> running m"
  shows "cpus_ok n (set_thread t th m\<lparr>running := R\<rparr>)"
proof -
  obtain g where g: "cache_ok (cache m)" "g \<le> n" "invalidate_gen (cache m) = of_nat g" "\<And>t. thread_ok g (cache m) (t \<in> running m) (threads m t)"
    by (rule cpus_okE[OF assms(1)]) blast
  have "thread_ok g (cache m) (u \<in> R) (if u = t then th else threads m u)" for u
    using g(4)[of u] assms(2)[OF g(2,3,1)] assms(3)[of u] by auto
  then show ?thesis
    using g(1-3) by (intro cpus_okI[of _ g]) auto
qed

lemma cpus_ok_hold:
  assumes "cpus_ok n m" "t \<in> running m" "block_cache_gen th = block_cache_gen (threads m t)"
    "held th \<subseteq> held (threads m t) \<union> live (cache m)"
  shows "cpus_ok n (set_thread t th m)"
  using set_thread_ok[OF assms(1), of t "running m" th] thread_ok_hold[OF _ _ assms(3,4)] assms(2) by simp

lemma cpus_ok_cache:
  assumes "cpus_ok n m" "cache_ok s'" "live (cache m) \<subseteq> live s'" "dom (blocks (cache m)) \<subseteq> dom (blocks s')"
    "invalidate_gen s' = invalidate_gen (cache m)"
  shows "cpus_ok n (m\<lparr>cache := s'\<rparr>)"
proof -
  obtain g where g: "g \<le> n" "invalidate_gen (cache m) = of_nat g" "\<And>t. thread_ok g (cache m) (t \<in> running m) (threads m t)"
    by (rule cpus_okE[OF assms(1)]) blast
  show ?thesis
    using g(1,2) assms(2,5) thread_ok_mono[OF g(3) assms(3,4)] by (intro cpus_okI[of _ g]) auto
qed

lemma held_simps:
  "held (th\<lparr>last_block := cur_block th\<rparr>) \<subseteq> held th" "held (th\<lparr>last_block := None\<rparr>) \<subseteq> held th"
  "held (th\<lparr>last_block := Some c\<rparr>) \<subseteq> held th \<union> {c}"
  "held (th\<lparr>ret_cache := (ret_cache th)(k := Some c)\<rparr>) \<subseteq> held th \<union> {c}"
  "last_block th = Some b \<Longrightarrow> b \<in> held th" "ret_cache th k = Some b \<Longrightarrow> b \<in> held th"
  by (auto simp: held_def kept_def ran_def split: if_splits)

lemma cpus_ok_Suc: "cpus_ok n m \<Longrightarrow> cpus_ok (Suc n) m"
  by (auto simp: cpus_ok_def intro: le_SucI)

lemma thread_ok_stop: "thread_ok g s run th \<Longrightarrow> thread_ok g s False th"
  using held_kept[of th] by (auto simp: thread_ok_def split: if_splits)

lemma cpus_ok_get:
  assumes ok: "cpus_ok n m" and t: "t \<in> running m" and new: "blocks (cache m) nb = None" "fresh_block nblk" "fb_addr nblk = ip"
    and get: "get_block prechain incoming (nb, nblk) ip (cache m, threads m t) = Some (s', th')"
  shows "cpus_ok n (set_thread t th' m\<lparr>cache := s'\<rparr>)"
proof -
  obtain g where g: "cache_ok (cache m)" "g \<le> n" "invalidate_gen (cache m) = of_nat g" "\<And>t. thread_ok g (cache m) (t \<in> running m) (threads m t)"
    by (rule cpus_okE[OF ok]) blast
  have "thread_ok g (cache m) True (threads m t)" using g(4)[of t] t by simp
  then have s': "cache_ok s'" "thread_ok g s' True th'" "live (cache m) \<subseteq> live s'" "dom (blocks (cache m)) \<subseteq> dom (blocks s')"
    "invalidate_gen s' = invalidate_gen (cache m)"
    using get_block_ok[OF g(1) _ new, of g "threads m t" prechain incoming] get by (metis option.inject prod.inject)+
  have "thread_ok g s' (u \<in> running m) (if u = t then th' else threads m u)" for u
    using thread_ok_mono[OF g(4) s'(3,4)] s'(2) t by simp
  then show ?thesis
    using s'(1,5) g(2,3) by (intro cpus_okI[of _ g]) auto
qed

lemma cpus_step_ok:
  assumes "cpus_step m m'" "cpus_ok n m" "n < 2 ^ 32"
  shows "cpus_ok (Suc n) m'"
  using assms(1)
proof cases
  case (start t)
  then show ?thesis
    using cpu_step_start_ok[of _ "cache m" "threads m t"] assms(3)
    by (auto intro!: cpus_ok_Suc set_thread_ok[OF assms(2)])
next
  case (revalidate t)
  then show ?thesis
    using set_thread_ok[OF assms(2), of t "running m"] revalidate_ok by (simp add: cpus_ok_Suc)
next
  case (get t nb nblk ip prechain incoming s' th')
  then show ?thesis
    using cpus_ok_get[OF assms(2)] by (simp add: cpus_ok_Suc)
next
  case (chain t lock_free s')
  obtain g where g: "cache_ok (cache m)" "thread_ok g (cache m) (t \<in> running m) (threads m t)"
    by (rule cpus_okE[OF assms(2)]) blast
  then show ?thesis
    using chain try_chain_ok[OF g(1), of g "threads m t" lock_free] cpus_ok_cache[OF assms(2), of s']
    by (metis (full_types) cpus_ok_Suc option.inject order_refl)
next
  case (enter t)
  show ?thesis
    unfolding enter(1) by (rule cpus_ok_Suc, rule cpus_ok_hold[OF assms(2) enter(2)]) (use held_simps(1)[of "threads m t"] in auto)
next
  case (jump t b blk i c)
  have "c \<in> live (cache m)" using jump_live[OF _ jump(4-6)] assms(2) by (simp add: cpus_ok_def)
  then show ?thesis
    unfolding jump(1) by (intro cpus_ok_Suc cpus_ok_hold[OF assms(2) jump(2)]) (use held_simps(3)[of c "threads m t"] in auto)
next
  case (call t b k)
  show ?thesis
    unfolding call(1) by (rule cpus_ok_Suc, rule cpus_ok_hold[OF assms(2) call(2)], simp)
      (rule subset_trans[OF held_simps(4)], use held_simps(5)[OF call(3)] in auto)
next
  case (return t k b)
  show ?thesis
    unfolding return(1) by (rule cpus_ok_Suc, rule cpus_ok_hold[OF assms(2) return(2)], simp)
      (rule subset_trans[OF held_simps(3)], use held_simps(6)[OF return(3)] in auto)
next
  case (stop t)
  show ?thesis
    unfolding stop(1) by (rule cpus_ok_Suc, rule cpus_ok_hold[OF assms(2) stop(2)]) (use held_simps(2)[of "threads m t"] in auto)
next
  case (flush t)
  then show ?thesis
    using set_thread_ok[OF assms(2), of t "running m"] thread_okI[of "flush_caches (cache m) (threads m t)"] by (simp add: cpus_ok_Suc)
next
  case (finish t)
  obtain g where g: "cache_ok (cache m)" "g \<le> n" "invalidate_gen (cache m) = of_nat g" "\<And>t. thread_ok g (cache m) (t \<in> running m) (threads m t)"
    by (rule cpus_okE[OF assms(2)]) blast
  have "thread_ok g (cache m) (u \<in> running m - {t}) (threads m u)" for u
    using g(4)[of u] thread_ok_stop by (cases "u = t") auto
  then show ?thesis
    unfolding finish(1) using g(1-3) by (intro cpus_okI[of _ g]) auto
next
  case (invalidate_range start' end' s')
  then show ?thesis
    using invalidate_range_ok[of "cache m" start' end'] cpus_ok_invalidates[OF assms(2)] assms(2) by (auto simp: cpus_ok_def)
next
  case (invalidate_page page s')
  then show ?thesis
    using invalidate_page_ok[of "cache m" page] cpus_ok_invalidates[OF assms(2)] assms(2) by (auto simp: cpus_ok_def)
next
  case (invalidate_all s')
  then show ?thesis
    using invalidate_all_ok[of "cache m"] cpus_ok_invalidates[OF assms(2)] assms(2) by (auto simp: cpus_ok_def)
next
  case free
  obtain g where g: "cache_ok (cache m)" "g \<le> n" "invalidate_gen (cache m) = of_nat g" "\<And>t. thread_ok g (cache m) (t \<in> running m) (threads m t)"
    by (rule cpus_okE[OF assms(2)]) blast
  note f = free_jetsam_ok[OF g(1)[unfolded cache_ok_cinv]]
  have "thread_ok g (fiber_free_jetsam (cache m)) False (threads m u)" for u
    using g(4)[of u] free(2) cinv_cache_ok[OF f(1)] by (simp add: thread_ok_def)
  then show ?thesis
    unfolding free(1) using g(2,3) free(2) cinv_cache_ok[OF f(1)]
    by (intro cpus_okI[of _ g]) (auto simp: fiber_free_jetsam_def)
qed

lemma cpus_after_ok: "cpus_after n m \<Longrightarrow> n \<le> 2 ^ 32 \<Longrightarrow> cpus_ok n m"
proof (induction rule: cpus_after.induct)
  case new
  show ?case
    using new_cache_ok(1) by (intro cpus_okI[of _ 0]) (simp_all add: new_cpus_def new_thread_def thread_ok_def kept_def, simp add: asbestos_new_def)
next
  case (step n m m')
  then show ?case using cpus_step_ok[of m m' n] by simp
qed

text \<open>C5: However threads executing blocks, invalidations of code and the freeing of discarded blocks interleave, for fewer than
  \<open>2 ^ 32\<close> steps from a new cache, a running thread never uses a freed block: every block it holds is allocated, finding the
  block for a guest address returns an allocated block that was translated from that address (and a live one if the thread's generation is
  the current one), and chaining it to the block executed before succeeds.\<close>

theorem running_threads_use_allocated_blocks:
  assumes "cpus_after n m" "n < 2 ^ 32" "t \<in> running m"
    and "blocks (cache m) nb = None" "fresh_block nblk" "fb_addr nblk = ip"
  shows "held (threads m t) \<subseteq> dom (blocks (cache m)) \<and>
    (\<exists>s' th' b blk. get_block prechain incoming (nb, nblk) ip (cache m, threads m t) = Some (s', th') \<and> cur_block th' = Some b \<and>
      blocks s' b = Some blk \<and> fb_addr blk = ip \<and>
      (block_cache_gen (threads m t) = invalidate_gen (cache m) \<longrightarrow> enters s' b)) \<and>
    (\<exists>s'. try_chain lock_free (cache m, threads m t) = Some s')"
proof -
  have "cpus_ok n m" using cpus_after_ok[OF assms(1)] assms(2) by simp
  then obtain g where g: "cache_ok (cache m)" "g \<le> n" "invalidate_gen (cache m) = of_nat g" "thread_ok g (cache m) (t \<in> running m) (threads m t)"
    by (rule cpus_okE) blast
  have th: "thread_ok g (cache m) True (threads m t)" using g(4) assms(3) by simp
  obtain s' th' b where s': "get_block prechain incoming (nb, nblk) ip (cache m, threads m t) = Some (s', th')" "cache_ok s'"
    "cur_block th' = Some b" "b \<in> dom (blocks s')" "baddr s' b = ip" "b \<in> kept (threads m t) \<and> s' = cache m \<or> b \<in> live s'"
    by (rule get_block_ok[OF g(1) th assms(4-6), of prechain incoming]) blast
  have "b \<in> live s'" if gen: "block_cache_gen (threads m t) = invalidate_gen (cache m)"
  proof -
    obtain gt where gt: "gt \<le> g" "block_cache_gen (threads m t) = of_nat gt" "gt = g \<longrightarrow> held (threads m t) \<subseteq> live (cache m)"
      using th by (auto simp: thread_ok_def)
    have "gt = g" using gen_eq[of gt n g] gt(1,2) g(2,3) gen assms(2) by simp
    then show ?thesis using s'(6) gt(3) held_kept[of "threads m t"] by blast
  qed
  then have e: "block_cache_gen (threads m t) = invalidate_gen (cache m) \<longrightarrow> enters s' b"
    using live_enters[of "live s'" s' b] s'(2) by (simp add: cache_ok_cinv)
  obtain blk where blk: "blocks s' b = Some blk" using s'(4) by blast
  show ?thesis
  proof (intro conjI)
    show "held (threads m t) \<subseteq> dom (blocks (cache m))" using th by (simp add: thread_ok_def)
    show "\<exists>s' th' b blk. get_block prechain incoming (nb, nblk) ip (cache m, threads m t) = Some (s', th') \<and> cur_block th' = Some b \<and>
      blocks s' b = Some blk \<and> fb_addr blk = ip \<and> (block_cache_gen (threads m t) = invalidate_gen (cache m) \<longrightarrow> enters s' b)"
      using s'(1,3,5) blk e by (intro exI[of _ s'] exI[of _ th'] exI[of _ b] exI[of _ blk]) simp
    show "\<exists>s'. try_chain lock_free (cache m, threads m t) = Some s'"
      by (rule try_chain_ok[OF g(1) th, of lock_free]) blast
  qed
qed

theorem running_threads_use_allocated_blocks_witness:
  "\<exists>m. cpus_after 1 m \<and> 3 \<in> running m \<and>
    (\<exists>s' th' b blk. get_block True True (7, loop_block) 4096 (cache m, threads m 3) = Some (s', th') \<and> cur_block th' = Some b \<and>
      blocks s' b = Some blk \<and> fb_addr blk = 4096)"
proof -
  let ?m = "set_thread 3 (cpu_step_start (cache new_cpus) (threads new_cpus 3)) new_cpus\<lparr>running := insert 3 (running new_cpus)\<rparr>"
  have "cpus_step new_cpus ?m" by (rule cpus_step.start) (simp add: new_cpus_def)
  then have m: "cpus_after 1 ?m" using cpus_after.step[OF cpus_after.new] by simp
  have "3 \<in> running ?m" "blocks (cache ?m) 7 = None" "fb_addr loop_block = 4096"
    by (simp_all add: new_cpus_def asbestos_new_def loop_block_def)
  with running_threads_use_allocated_blocks[OF m _ _ _ loop_block_fresh, of 3 7 4096 True True True] show ?thesis
    using m by (intro exI[of _ ?m]) auto
qed

end
