(* ===== verification/Futex.thy ===== *)
theory Futex
  imports Ish_Prelude
    "HOL-Library.Signed_Division"
begin

text \<open>
  Futexes (kernel/futex.c): the table of futexes in use by address space and address, their queues of waiting threads, and the
  calls that wait, wake and requeue.  Futexes and waits live at addresses; a linked list is the list of the addresses on it.
  The lock of the table is part of the state: unlocking it when it is not held is \<^term>\<open>None\<close>, as is every access through a
  null or stale pointer.  Results of malloc, of the host's pipe and clock, and the values read from the guest's memory by
  \<^verbatim>\<open>mem_ptr\<close> are arguments.
\<close>

section \<open>The table\<close>

abbreviation (input) FUTEX_WAIT :: nat where "FUTEX_WAIT \<equiv> 0"
abbreviation (input) FUTEX_WAKE :: nat where "FUTEX_WAKE \<equiv> 1"
abbreviation (input) FUTEX_REQUEUE :: nat where "FUTEX_REQUEUE \<equiv> 3"
abbreviation (input) FUTEX_CMP_REQUEUE :: nat where "FUTEX_CMP_REQUEUE \<equiv> 4"
abbreviation (input) FUTEX_WAKE_OP :: nat where "FUTEX_WAKE_OP \<equiv> 5"
abbreviation (input) FUTEX_WAIT_BITSET :: nat where "FUTEX_WAIT_BITSET \<equiv> 9"
abbreviation (input) FUTEX_WAKE_BITSET :: nat where "FUTEX_WAKE_BITSET \<equiv> 10"
abbreviation (input) FUTEX_HASH_SIZE :: nat where "FUTEX_HASH_SIZE \<equiv> 4096"

record futex =
  f_refcount :: nat
  f_mem :: nat
  f_addr :: nat
  f_queue :: "nat list"

record futex_waiter =
  w_futex :: nat
  w_task :: nat

text \<open>\<^verbatim>\<open>futex_pipe\<close> is the number of bytes in the pipe of each thread, \<^term>\<open>None\<close> before it is created.\<close>

record futex_state =
  futex_lock :: bool
  futex_hash :: "nat \<Rightarrow> nat list"
  futexes :: "nat \<Rightarrow> futex option"
  waits :: "nat \<Rightarrow> futex_waiter option"
  futex_pipe :: "nat \<Rightarrow> nat option"

definition lock_futexes :: "futex_state \<Rightarrow> futex_state option" where
  "lock_futexes st = (if futex_lock st then None else Some (st\<lparr>futex_lock := True\<rparr>))"

definition unlock_futexes :: "futex_state \<Rightarrow> futex_state option" where
  "unlock_futexes st = (if futex_lock st then Some (st\<lparr>futex_lock := False\<rparr>) else None)"

definition futex_bucket :: "nat \<Rightarrow> nat \<Rightarrow> nat" where
  "futex_bucket mem addr = (addr XOR mem) mod FUTEX_HASH_SIZE"

definition set_futex :: "nat \<Rightarrow> (futex \<Rightarrow> futex) \<Rightarrow> futex_state \<Rightarrow> futex_state" where
  "set_futex f u st = st\<lparr>futexes := (futexes st)(f := map_option u (futexes st f))\<rparr>"

definition is_futex_at :: "futex_state \<Rightarrow> nat \<Rightarrow> nat \<Rightarrow> nat \<Rightarrow> bool" where
  "is_futex_at st mem addr f = (case futexes st f of None \<Rightarrow> False | Some fu \<Rightarrow> f_addr fu = addr \<and> f_mem fu = mem)"

text \<open>\<^verbatim>\<open>alloc\<close> is the result of malloc.\<close>

definition futex_get_unlocked :: "nat option \<Rightarrow> nat \<Rightarrow> nat \<Rightarrow> futex_state \<Rightarrow> (nat option \<times> futex_state) option" where
  "futex_get_unlocked alloc mem addr st =
    (let k = futex_bucket mem addr in
     case find (is_futex_at st mem addr) (futex_hash st k) of
       Some f \<Rightarrow> Some (Some f, set_futex f (\<lambda>fu. fu\<lparr>f_refcount := f_refcount fu + 1\<rparr>) st)
     | None \<Rightarrow>
        (case alloc of
          None \<Rightarrow> map_option (Pair None) (unlock_futexes st)
        | Some f \<Rightarrow> Some (Some f, st\<lparr>futexes := (futexes st)(f \<mapsto> \<lparr>f_refcount = 1, f_mem = mem, f_addr = addr, f_queue = []\<rparr>),
            futex_hash := (futex_hash st)(k := f # futex_hash st k)\<rparr>)))"

definition futex_get :: "nat option \<Rightarrow> nat \<Rightarrow> nat \<Rightarrow> futex_state \<Rightarrow> (nat option \<times> futex_state) option" where
  "futex_get alloc mem addr st = do {
    st \<leftarrow> lock_futexes st;
    r \<leftarrow> futex_get_unlocked alloc mem addr st;
    if fst r = None then map_option (Pair None) (unlock_futexes (snd r)) else Some r
  }"

definition futex_put_unlocked :: "nat \<Rightarrow> futex_state \<Rightarrow> futex_state option" where
  "futex_put_unlocked f st = do {
    fu \<leftarrow> futexes st f;
    if f_refcount fu = 1 then
      (if f_queue fu \<noteq> [] then None
       else (let k = futex_bucket (f_mem fu) (f_addr fu) in
         Some (st\<lparr>futexes := (futexes st)(f := None), futex_hash := (futex_hash st)(k := remove1 f (futex_hash st k))\<rparr>)))
    else Some (set_futex f (\<lambda>fu. fu\<lparr>f_refcount := f_refcount fu - 1\<rparr>) st)
  }"

definition futex_put :: "nat \<Rightarrow> futex_state \<Rightarrow> futex_state option" where
  "futex_put f st = do {
    st \<leftarrow> futex_put_unlocked f st;
    unlock_futexes st
  }"

section \<open>Waiting\<close>

text \<open>
  The call up to the point where the thread waits: an error, or the address of the wait on its stack.  \<^verbatim>\<open>cur\<close> is the value
  at the address, \<^term>\<open>None\<close> if it cannot be read, \<^verbatim>\<open>w\<close> the address of the variable \<^verbatim>\<open>wait\<close>, \<^verbatim>\<open>pipe_ok\<close> whether a
  pipe can be created.
\<close>

definition futex_wait_begin :: "nat option \<Rightarrow> nat \<Rightarrow> nat \<Rightarrow> 32 word option \<Rightarrow> 32 word \<Rightarrow> bool \<Rightarrow> nat \<Rightarrow> nat \<Rightarrow> futex_state \<Rightarrow> ((int + nat) \<times> futex_state) option" where
  "futex_wait_begin alloc mem uaddr cur val pipe_ok task w st = do {
    r \<leftarrow> futex_get alloc mem uaddr st;
    f \<leftarrow> fst r;
    let st = snd r;
    case cur of
      None \<Rightarrow> map_option (Pair (Inl EFAULT)) (futex_put f st)
    | Some tmp \<Rightarrow>
      if tmp \<noteq> val then map_option (Pair (Inl EAGAIN)) (futex_put f st)
      else if futex_pipe st task = None \<and> \<not> pipe_ok then map_option (Pair (Inl ENOMEM)) (futex_put f st)
      else do {
        let st = st\<lparr>futex_pipe := (futex_pipe st)(task \<mapsto> 0), waits := (waits st)(w \<mapsto> \<lparr>w_futex = f, w_task = task\<rparr>)\<rparr>;
        st \<leftarrow> unlock_futexes (set_futex f (\<lambda>fu. fu\<lparr>f_queue := f_queue fu @ [w]\<rparr>) st);
        Some (Inr w, st)
      }
  }"

text \<open>
  What the thread observes in one round of the loop: the clock, whether its pipe is readable within the time, whether its
  thread group exits, whether a signal is pending, and the value at the address.
\<close>

record wait_round =
  now_ns :: int
  readable :: bool
  group_exit :: bool
  sig_pending :: bool
  value_now :: "32 word option"

text \<open>The loop; \<^term>\<open>None\<close> while it still waits after the given rounds.  A deadline of 0 stands for none.\<close>

fun futex_wait_loop :: "int \<Rightarrow> 32 word \<Rightarrow> wait_round list \<Rightarrow> int option" where
  "futex_wait_loop deadline_ns val [] = None"
| "futex_wait_loop deadline_ns val (r # rs) =
    (let remain_ms = (deadline_ns - now_ns r) sdiv 1000000 in
     if deadline_ns \<noteq> 0 \<and> remain_ms \<le> 0 then Some ETIMEDOUT
     else if readable r then Some 0
     else if group_exit r then Some EINTR
     else if sig_pending r then Some EINTR
     else case value_now r of None \<Rightarrow> Some EFAULT
     | Some v \<Rightarrow> if v \<noteq> val then Some 0 else futex_wait_loop deadline_ns val rs)"

definition futex_wait_end :: "nat \<Rightarrow> futex_state \<Rightarrow> futex_state option" where
  "futex_wait_end w st = do {
    st \<leftarrow> lock_futexes st;
    wt \<leftarrow> waits st w;
    let st = set_futex (w_futex wt) (\<lambda>fu. fu\<lparr>f_queue := remove1 w (f_queue fu)\<rparr>) st;
    st \<leftarrow> futex_put_unlocked (w_futex wt) st;
    unlock_futexes (st\<lparr>waits := (waits st)(w := None)\<rparr>)
  }"

section \<open>Waking\<close>

definition write_pipe :: "nat \<Rightarrow> futex_state \<Rightarrow> futex_state" where
  "write_pipe task st = st\<lparr>futex_pipe := (futex_pipe st)(task := map_option Suc (futex_pipe st task))\<rparr>"

fun wake_loop :: "nat \<Rightarrow> nat \<Rightarrow> nat \<Rightarrow> nat list \<Rightarrow> futex_state \<Rightarrow> (nat \<times> futex_state) option" where
  "wake_loop f woken max_woken [] st = Some (woken, st)"
| "wake_loop f woken max_woken (w # ws) st =
    (if woken \<ge> max_woken then Some (woken, st)
     else do {
       wt \<leftarrow> waits st w;
       wake_loop f (woken + 1) max_woken ws (set_futex f (\<lambda>fu. fu\<lparr>f_queue := remove1 w (f_queue fu)\<rparr>) (write_pipe (w_task wt) st))
     })"

definition futex_wake_queue :: "nat \<Rightarrow> nat \<Rightarrow> futex_state \<Rightarrow> (nat \<times> futex_state) option" where
  "futex_wake_queue f max_woken st = do {
    fu \<leftarrow> futexes st f;
    wake_loop f 0 max_woken (f_queue fu) st
  }"

text \<open>The element behind one of a list, \<^term>\<open>None\<close> at the end.\<close>

fun next_in :: "nat list \<Rightarrow> nat \<Rightarrow> nat option" where
  "next_in (x # y # xs) w = (if x = w then Some y else next_in (y # xs) w)"
| "next_in _ w = None"

text \<open>One waiter moves from the queue of \<^verbatim>\<open>f\<close> to the end of that of \<^verbatim>\<open>f2\<close>, which may be the same.\<close>

definition requeue_one :: "nat \<Rightarrow> nat \<Rightarrow> nat \<Rightarrow> futex_state \<Rightarrow> futex_state option" where
  "requeue_one f f2 w st = do {
    let st = set_futex f (\<lambda>fu. fu\<lparr>f_queue := remove1 w (f_queue fu)\<rparr>) st;
    let st = set_futex f2 (\<lambda>fu. fu\<lparr>f_queue := f_queue fu @ [w]\<rparr>) st;
    fu \<leftarrow> futexes st f;
    if f_refcount fu \<le> 1 then None
    else do {
      let st = set_futex f (\<lambda>fu. fu\<lparr>f_refcount := f_refcount fu - 1\<rparr>) st;
      let st = set_futex f2 (\<lambda>fu. fu\<lparr>f_refcount := f_refcount fu + 1\<rparr>) st;
      wt \<leftarrow> waits st w;
      Some (st\<lparr>waits := (waits st)(w \<mapsto> wt\<lparr>w_futex := f2\<rparr>)\<rparr>)
    }
  }"

text \<open>The loop over the queue, with the element after the current one noted before the current one moves.\<close>

function requeue_loop :: "nat \<Rightarrow> nat \<Rightarrow> nat \<Rightarrow> nat \<Rightarrow> nat option \<Rightarrow> nat option \<Rightarrow> futex_state \<Rightarrow> (nat \<times> futex_state) option" where
  "requeue_loop f f2 requeued requeue_max wait tmp st =
    (case wait of None \<Rightarrow> Some (requeued, st)
     | Some w \<Rightarrow>
      if requeued \<ge> requeue_max then Some (requeued, st)
      else do {
        st \<leftarrow> requeue_one f f2 w st;
        fu \<leftarrow> futexes st f;
        requeue_loop f f2 (requeued + 1) requeue_max tmp (Option.bind tmp (next_in (f_queue fu))) st
      })"
  by pat_completeness auto

termination
  by (relation "measure (\<lambda>(f, f2, requeued, requeue_max, wait, tmp, st). requeue_max - requeued)") auto

definition futex_requeue :: "nat \<Rightarrow> nat \<Rightarrow> nat \<Rightarrow> futex_state \<Rightarrow> (nat \<times> futex_state) option" where
  "futex_requeue f f2 requeue_max st = do {
    fu \<leftarrow> futexes st f;
    case f_queue fu of [] \<Rightarrow> Some (0, st)
    | w # ws \<Rightarrow> requeue_loop f f2 0 requeue_max (Some w) (next_in (w # ws) w) st
  }"

definition futex_wakelike :: "nat option \<Rightarrow> nat option \<Rightarrow> nat \<Rightarrow> nat \<Rightarrow> nat \<Rightarrow> nat \<Rightarrow> nat \<Rightarrow> nat \<Rightarrow> futex_state \<Rightarrow> (nat \<times> futex_state) option" where
  "futex_wakelike alloc alloc2 mem op uaddr wake_max requeue_max requeue_addr st = do {
    r \<leftarrow> futex_get alloc mem uaddr st;
    f \<leftarrow> fst r;
    ws \<leftarrow> futex_wake_queue f wake_max (snd r);
    if op = FUTEX_REQUEUE then do {
      r2 \<leftarrow> futex_get_unlocked alloc2 mem requeue_addr (snd ws);
      f2 \<leftarrow> fst r2;
      rs \<leftarrow> futex_requeue f f2 requeue_max (snd r2);
      st \<leftarrow> futex_put_unlocked f2 (snd rs);
      st \<leftarrow> futex_put f st;
      Some (fst ws + fst rs, st)
    } else do {
      st \<leftarrow> futex_put f (snd ws);
      Some (fst ws, st)
    }
  }"

definition futex_cmp_requeue :: "nat option \<Rightarrow> nat option \<Rightarrow> nat \<Rightarrow> nat \<Rightarrow> nat \<Rightarrow> nat \<Rightarrow> nat \<Rightarrow> 32 word option \<Rightarrow> 32 word \<Rightarrow> futex_state \<Rightarrow> (int \<times> futex_state) option" where
  "futex_cmp_requeue alloc alloc2 mem uaddr wake_max requeue_max requeue_addr cur expected st = do {
    r \<leftarrow> futex_get alloc mem uaddr st;
    case fst r of None \<Rightarrow> Some (ENOMEM, snd r)
    | Some f \<Rightarrow>
      (case cur of None \<Rightarrow> map_option (Pair EFAULT) (futex_put f (snd r))
       | Some c \<Rightarrow>
        if c \<noteq> expected then map_option (Pair EAGAIN) (futex_put f (snd r))
        else do {
          ws \<leftarrow> futex_wake_queue f wake_max (snd r);
          r2 \<leftarrow> futex_get_unlocked alloc2 mem requeue_addr (snd ws);
          f2 \<leftarrow> fst r2;
          rs \<leftarrow> futex_requeue f f2 requeue_max (snd r2);
          st \<leftarrow> futex_put_unlocked f2 (snd rs);
          st \<leftarrow> futex_put f st;
          Some (int (fst ws + fst rs), st)
        })
  }"

text \<open>The operation on the second address: its new value and whether the comparison with the old one holds.\<close>

definition wake_op_arg :: "32 word \<Rightarrow> 32 word option" where
  "wake_op_arg val3 =
    (let op_code = drop_bit 28 val3; oparg = signed_drop_bit 20 (push_bit 8 val3) in
     if op_code AND 8 \<noteq> 0 then (if sint oparg < 0 \<or> sint oparg > 31 then None else Some (push_bit (unat oparg) 1)) else Some oparg)"

definition wake_op_new :: "32 word \<Rightarrow> 32 word \<Rightarrow> 32 word \<Rightarrow> 32 word option" where
  "wake_op_new val3 oparg old =
    (let op_code = drop_bit 28 val3 AND NOT 8 in
     if op_code = 0 then Some oparg
     else if op_code = 1 then Some (old + oparg)
     else if op_code = 2 then Some (old OR oparg)
     else if op_code = 3 then Some (old AND NOT oparg)
     else if op_code = 4 then Some (old XOR oparg)
     else None)"

definition wake_op_cmp :: "32 word \<Rightarrow> 32 word \<Rightarrow> bool option" where
  "wake_op_cmp val3 old =
    (let cmp_code = drop_bit 24 val3 AND 0xf; cmparg = sint (signed_drop_bit 20 (push_bit 20 val3) :: 32 word); sold = sint old in
     if cmp_code = 0 then Some (sold = cmparg)
     else if cmp_code = 1 then Some (sold \<noteq> cmparg)
     else if cmp_code = 2 then Some (sold < cmparg)
     else if cmp_code = 3 then Some (sold \<le> cmparg)
     else if cmp_code = 4 then Some (sold > cmparg)
     else if cmp_code = 5 then Some (sold \<ge> cmparg)
     else None)"

text \<open>\<^verbatim>\<open>old\<close> is the value at the second address, \<^term>\<open>None\<close> if it cannot be written; the result has the value stored there, if any.\<close>

definition futex_wake_op :: "nat option \<Rightarrow> nat option \<Rightarrow> nat \<Rightarrow> nat \<Rightarrow> nat \<Rightarrow> nat \<Rightarrow> nat \<Rightarrow> 32 word \<Rightarrow> 32 word option \<Rightarrow> futex_state \<Rightarrow> (int \<times> 32 word option \<times> futex_state) option" where
  "futex_wake_op alloc alloc2 mem uaddr wake_max1 uaddr2 wake_max2 val3 old st =
    (case wake_op_arg val3 of None \<Rightarrow> Some (EINVAL, None, st)
     | Some oparg \<Rightarrow>
      (case old of None \<Rightarrow> Some (EFAULT, None, st)
       | Some oldval \<Rightarrow>
        (case wake_op_new val3 oparg oldval of None \<Rightarrow> Some (ENOSYS, None, st)
         | Some new \<Rightarrow>
          (case wake_op_cmp val3 oldval of None \<Rightarrow> Some (ENOSYS, Some new, st)
           | Some cmp_true \<Rightarrow> do {
              st \<leftarrow> lock_futexes st;
              r \<leftarrow> futex_get_unlocked alloc mem uaddr st;
              case fst r of None \<Rightarrow> map_option (\<lambda>st. (ENOMEM, Some new, st)) (unlock_futexes (snd r))
              | Some f1 \<Rightarrow> do {
                  ws \<leftarrow> futex_wake_queue f1 wake_max1 (snd r);
                  ts \<leftarrow> (if cmp_true then do {
                      r2 \<leftarrow> futex_get_unlocked alloc2 mem uaddr2 (snd ws);
                      case fst r2 of None \<Rightarrow> Some (fst ws, snd r2)
                      | Some f2 \<Rightarrow> do {
                          ws2 \<leftarrow> futex_wake_queue f2 wake_max2 (snd r2);
                          st \<leftarrow> futex_put_unlocked f2 (snd ws2);
                          Some (fst ws + fst ws2, st)
                        }
                    } else Some ws);
                  st \<leftarrow> futex_put_unlocked f1 (snd ts);
                  st \<leftarrow> unlock_futexes st;
                  Some (int (fst ts), Some new, st)
                }
            }))))"

section \<open>The system call\<close>

text \<open>Times are pairs of seconds and nanoseconds; the absolute time of \<^verbatim>\<open>FUTEX_WAIT_BITSET\<close> becomes relative to the clock \<^verbatim>\<open>now\<close>.\<close>

definition relative_timeout :: "bool \<Rightarrow> int \<times> int \<Rightarrow> int \<times> int \<Rightarrow> int \<times> int" where
  "relative_timeout bitset timeout now =
    (if bitset then
      (let sec = fst timeout - fst now; nsec = snd timeout - snd now;
           sec' = (if nsec < 0 then sec - 1 else sec); nsec' = (if nsec < 0 then nsec + 1000000000 else nsec)
       in if sec' < 0 then (0, 0) else (sec', nsec'))
     else timeout)"

definition wait_deadline :: "int \<times> int \<Rightarrow> int \<times> int \<Rightarrow> int" where
  "wait_deadline now timeout = fst now * 1000000000 + snd now + fst timeout * 1000000000 + snd timeout"

datatype futex_result = Returns int | Waits nat int

text \<open>
  What the call finds outside the table: the results of malloc, the address space of the caller, the structure at the timeout's
  address, the two clocks, the values at the two addresses, the thread's pipe, the thread and the address of its wait.
\<close>

record futex_env =
  fe_alloc :: "nat option"
  fe_alloc2 :: "nat option"
  fe_mem :: nat
  fe_timeout :: "(int \<times> int) option"
  fe_realtime :: "int \<times> int"
  fe_monotonic :: "int \<times> int"
  fe_value :: "32 word option"
  fe_value2 :: "32 word option"
  fe_pipe_ok :: bool
  fe_task :: nat
  fe_wait :: nat

text \<open>The result, the value stored at the second address, if any, and the new state.\<close>

definition sys_futex :: "futex_env \<Rightarrow> nat \<Rightarrow> 32 word \<Rightarrow> 32 word \<Rightarrow> nat \<Rightarrow> nat \<Rightarrow> 32 word \<Rightarrow> futex_state \<Rightarrow> (futex_result \<times> 32 word option \<times> futex_state) option" where
  "sys_futex e uaddr op val timeout_or_val2 uaddr2 val3 st =
    (let cmd = unat (op AND NOT 384); val2 = timeout_or_val2 mod 4294967296;
         timed = (cmd = FUTEX_WAIT \<or> cmd = FUTEX_WAIT_BITSET) \<and> timeout_or_val2 \<noteq> 0
     in
     if timed \<and> fe_timeout e = None then Some (Returns EFAULT, None, st)
     else if cmd = FUTEX_WAIT \<or> cmd = FUTEX_WAIT_BITSET then do {
       r \<leftarrow> futex_wait_begin (fe_alloc e) (fe_mem e) uaddr (fe_value e) val (fe_pipe_ok e) (fe_task e) (fe_wait e) st;
       let deadline_ns = (case fe_timeout e of Some t \<Rightarrow>
          if timed then wait_deadline (fe_monotonic e) (relative_timeout (cmd = FUTEX_WAIT_BITSET) t (fe_realtime e)) else 0 | None \<Rightarrow> 0);
       Some ((case fst r of Inl err \<Rightarrow> Returns err | Inr w \<Rightarrow> Waits w deadline_ns), None, snd r)
     }
     else if cmd = FUTEX_WAKE \<or> cmd = FUTEX_WAKE_BITSET then
       map_option (\<lambda>(n, st). (Returns (int n), None, st)) (futex_wakelike (fe_alloc e) None (fe_mem e) FUTEX_WAKE uaddr (unat val) 0 0 st)
     else if cmd = FUTEX_REQUEUE then
       map_option (\<lambda>(n, st). (Returns (int n), None, st)) (futex_wakelike (fe_alloc e) (fe_alloc2 e) (fe_mem e) FUTEX_REQUEUE uaddr (unat val) val2 uaddr2 st)
     else if cmd = FUTEX_CMP_REQUEUE then
       map_option (\<lambda>(n, st). (Returns n, None, st)) (futex_cmp_requeue (fe_alloc e) (fe_alloc2 e) (fe_mem e) uaddr (unat val) val2 uaddr2 (fe_value e) val3 st)
     else if cmd = FUTEX_WAKE_OP then
       map_option (\<lambda>(n, v, st). (Returns n, v, st)) (futex_wake_op (fe_alloc e) (fe_alloc2 e) (fe_mem e) uaddr (unat val) uaddr2 val2 val3 (fe_value2 e) st)
     else Some (Returns EINVAL, None, st))"

end
