(* ===== verification/Futex_Laws.thy ===== *)
theory Futex_Laws
  imports Futex
begin

text \<open>The table of futexes implements one queue of waiting threads per address, and its reference counts are exact.\<close>

section \<open>The invariant\<close>

definition refs :: "futex_state \<Rightarrow> nat \<Rightarrow> nat set" where
  "refs st f = {w. \<exists>wt. waits st w = Some wt \<and> w_futex wt = f}"

text \<open>\<^verbatim>\<open>X\<close> counts the references that a call in progress holds.\<close>

definition entry_ok :: "(nat \<Rightarrow> nat) \<Rightarrow> futex_state \<Rightarrow> nat \<Rightarrow> futex \<Rightarrow> bool" where
  "entry_ok X st f fu \<longleftrightarrow> f_refcount fu = card (refs st f) + X f \<and> 0 < f_refcount fu \<and> distinct (f_queue fu) \<and> set (f_queue fu) \<subseteq> refs st f"

definition futex_inv :: "(nat \<Rightarrow> nat) \<Rightarrow> futex_state \<Rightarrow> bool" where
  "futex_inv X st \<longleftrightarrow> finite (dom (waits st)) \<and> (\<forall>k. distinct (futex_hash st k)) \<and>
    (\<forall>k f. f \<in> set (futex_hash st k) \<longleftrightarrow> (\<exists>fu. futexes st f = Some fu \<and> futex_bucket (f_mem fu) (f_addr fu) = k)) \<and>
    (\<forall>f g fu gu. futexes st f = Some fu \<longrightarrow> futexes st g = Some gu \<longrightarrow> f_mem fu = f_mem gu \<longrightarrow> f_addr fu = f_addr gu \<longrightarrow> f = g) \<and>
    (\<forall>f fu. futexes st f = Some fu \<longrightarrow> entry_ok X st f fu) \<and>
    (\<forall>f. futexes st f = None \<longrightarrow> X f = 0) \<and>
    (\<forall>w wt. waits st w = Some wt \<longrightarrow> w_futex wt \<in> dom (futexes st))"

lemma futex_invI:
  assumes "finite (dom (waits st))" "\<And>k. distinct (futex_hash st k)"
    "\<And>f k. f \<in> set (futex_hash st k) \<longleftrightarrow> (\<exists>fu. futexes st f = Some fu \<and> futex_bucket (f_mem fu) (f_addr fu) = k)"
    "\<And>f g fu gu. futexes st f = Some fu \<Longrightarrow> futexes st g = Some gu \<Longrightarrow> f_mem fu = f_mem gu \<Longrightarrow> f_addr fu = f_addr gu \<Longrightarrow> f = g"
    "\<And>f fu. futexes st f = Some fu \<Longrightarrow> entry_ok X st f fu" "\<And>f. futexes st f = None \<Longrightarrow> X f = 0"
    "\<And>w wt. waits st w = Some wt \<Longrightarrow> w_futex wt \<in> dom (futexes st)"
  shows "futex_inv X st"
  unfolding futex_inv_def by (intro conjI allI impI) (fact assms)+

lemma futex_invD:
  assumes "futex_inv X st"
  shows "finite (dom (waits st))" "\<And>k. distinct (futex_hash st k)"
    "\<And>f k. f \<in> set (futex_hash st k) \<longleftrightarrow> (\<exists>fu. futexes st f = Some fu \<and> futex_bucket (f_mem fu) (f_addr fu) = k)"
    "\<And>f g fu gu. futexes st f = Some fu \<Longrightarrow> futexes st g = Some gu \<Longrightarrow> f_mem fu = f_mem gu \<Longrightarrow> f_addr fu = f_addr gu \<Longrightarrow> f = g"
    "\<And>f fu. futexes st f = Some fu \<Longrightarrow> entry_ok X st f fu" "\<And>f. futexes st f = None \<Longrightarrow> X f = 0"
    "\<And>w wt. waits st w = Some wt \<Longrightarrow> w_futex wt \<in> dom (futexes st)"
  using assms by (simp_all add: futex_inv_def)

definition futexes_ok :: "futex_state \<Rightarrow> bool" where
  "futexes_ok st \<longleftrightarrow> futex_inv (\<lambda>_. 0) st \<and> \<not> futex_lock st"

text \<open>The queue of an address.\<close>

definition queue_at :: "futex_state \<Rightarrow> nat \<times> nat \<Rightarrow> nat list" where
  "queue_at st key = (case find (is_futex_at st (fst key) (snd key)) (futex_hash st (futex_bucket (fst key) (snd key))) of
    None \<Rightarrow> [] | Some f \<Rightarrow> f_queue (the (futexes st f)))"

lemma finite_futex_refs [simp]: "futex_inv X st \<Longrightarrow> finite (refs st f)"
  by (rule finite_subset[of _ "dom (waits st)"]) (auto simp: refs_def futex_inv_def)

lemma inv_entry: "futex_inv X st \<Longrightarrow> futexes st f = Some fu \<Longrightarrow> entry_ok X st f fu"
  by (simp add: futex_inv_def)

lemma find_futex:
  assumes "futex_inv X st"
  shows "find (is_futex_at st mem addr) (futex_hash st (futex_bucket mem addr)) = Some f \<longleftrightarrow> is_futex_at st mem addr f"
proof -
  let ?l = "futex_hash st (futex_bucket mem addr)"
  have mem: "f \<in> set ?l" if "is_futex_at st mem addr f" for f
    using assms that by (auto simp: futex_inv_def is_futex_at_def split: option.splits)
  have uniq: "f = g" if "is_futex_at st mem addr f" "is_futex_at st mem addr g" for f g
    using assms that by (auto simp: futex_inv_def is_futex_at_def split: option.splits)
  show ?thesis
  proof
    assume "find (is_futex_at st mem addr) ?l = Some f"
    then show "is_futex_at st mem addr f" by (auto simp: find_Some_iff)
  next
    assume f: "is_futex_at st mem addr f"
    then obtain g where g: "find (is_futex_at st mem addr) ?l = Some g"
      using mem[OF f] by (cases "find (is_futex_at st mem addr) ?l") (auto simp: find_None_iff)
    then have "is_futex_at st mem addr g" by (auto simp: find_Some_iff)
    then show "find (is_futex_at st mem addr) ?l = Some f" using uniq f g by blast
  qed
qed

lemma find_no_futex:
  assumes "futex_inv X st"
  shows "find (is_futex_at st mem addr) (futex_hash st (futex_bucket mem addr)) = None \<longleftrightarrow> (\<forall>f. \<not> is_futex_at st mem addr f)"
  using find_futex[OF assms, of mem addr] by (metis not_Some_eq)

lemma queue_at_eq:
  assumes "futex_inv X st" "is_futex_at st mem addr f"
  shows "queue_at st (mem, addr) = f_queue (the (futexes st f))"
  using find_futex[OF assms(1), of mem addr f] assms(2) by (simp add: queue_at_def)

lemma queue_at_none:
  assumes "futex_inv X st" "\<And>f. \<not> is_futex_at st mem addr f"
  shows "queue_at st (mem, addr) = []"
  using find_no_futex[OF assms(1), of mem addr] assms(2) by (simp add: queue_at_def)

text \<open>Two states with the same queues: every futex with waiters is in both.\<close>

lemma queue_at_cong:
  assumes "futex_inv X st" "futex_inv Y st'"
    and "\<And>f fu. futexes st f = Some fu \<Longrightarrow> f_queue fu \<noteq> [] \<Longrightarrow>
      \<exists>fu'. futexes st' f = Some fu' \<and> f_mem fu' = f_mem fu \<and> f_addr fu' = f_addr fu \<and> f_queue fu' = f_queue fu"
    and "\<And>f fu. futexes st' f = Some fu \<Longrightarrow> f_queue fu \<noteq> [] \<Longrightarrow>
      \<exists>fu'. futexes st f = Some fu' \<and> f_mem fu' = f_mem fu \<and> f_addr fu' = f_addr fu \<and> f_queue fu' = f_queue fu"
  shows "queue_at st = queue_at st'"
proof -
  have sub: "queue_at s (m, a) = q \<Longrightarrow> q \<noteq> [] \<Longrightarrow> queue_at s' (m, a) = q" if inv: "futex_inv U s" "futex_inv V s'"
    and c: "\<And>f fu. futexes s f = Some fu \<Longrightarrow> f_queue fu \<noteq> [] \<Longrightarrow>
      \<exists>fu'. futexes s' f = Some fu' \<and> f_mem fu' = f_mem fu \<and> f_addr fu' = f_addr fu \<and> f_queue fu' = f_queue fu" for U V s s' m a q
  proof -
    assume q: "queue_at s (m, a) = q" "q \<noteq> []"
    then obtain f where f: "is_futex_at s m a f" using queue_at_none[OF inv(1), of m a] by blast
    then obtain fu where fu: "futexes s f = Some fu" "f_mem fu = m" "f_addr fu = a" by (auto simp: is_futex_at_def split: option.splits)
    have fq: "f_queue fu = q" using queue_at_eq[OF inv(1) f] q(1) fu(1) by simp
    then obtain fu' where fu': "futexes s' f = Some fu'" "f_mem fu' = m" "f_addr fu' = a" "f_queue fu' = q"
      using c[OF fu(1)] q(2) fu by auto
    then have "is_futex_at s' m a f" by (simp add: is_futex_at_def)
    then show "queue_at s' (m, a) = q" using queue_at_eq[OF inv(2)] fu' by simp
  qed
  show ?thesis
  proof
    fix key :: "nat \<times> nat"
    obtain m a where key: "key = (m, a)" by fastforce
    show "queue_at st key = queue_at st' key"
      unfolding key using sub[OF assms(1,2,3) refl, of m a] sub[OF assms(2,1,4) refl, of m a] by metis
  qed
qed

text \<open>Changing one futex.\<close>

lemma set_futex_simps [simp]:
  "waits (set_futex f u st) = waits st" "futex_hash (set_futex f u st) = futex_hash st" "futex_lock (set_futex f u st) = futex_lock st"
  "futex_pipe (set_futex f u st) = futex_pipe st" "refs (set_futex f u st) = refs st"
  "futexes (set_futex f u st) g = (if g = f then map_option u (futexes st f) else futexes st g)"
  by (auto simp: set_futex_def refs_def)

lemma entry_ok_cong: "refs st' f = refs st f \<Longrightarrow> X' f = X f \<Longrightarrow> entry_ok X' st' f fu \<longleftrightarrow> entry_ok X st f fu"
  by (simp add: entry_ok_def)

lemma inv_set_futex:
  assumes inv: "futex_inv X st" and f: "futexes st f = Some fu" and u: "f_mem (u fu) = f_mem fu" "f_addr (u fu) = f_addr fu"
    and e: "entry_ok X' (set_futex f u st) f (u fu)" and X: "\<And>g. g \<noteq> f \<Longrightarrow> X' g = X g"
  shows "futex_inv X' (set_futex f u st)"
proof -
  have e: "entry_ok X' (set_futex f u st) g gu" if "futexes (set_futex f u st) g = Some gu" for g gu
  proof (cases "g = f")
    case True
    then show ?thesis using that e f by auto
  next
    case False
    then have "entry_ok X st g gu" using inv_entry[OF inv] that by simp
    then show ?thesis using entry_ok_cong[of "set_futex f u st" g st X' X] X[OF False] by simp
  qed
  have x: "X' g = 0" if "futexes (set_futex f u st) g = None" for g
    using that f X[of g] inv by (auto simp: futex_inv_def split: if_splits)
  have h: "g \<in> set (futex_hash st k) \<longleftrightarrow> (\<exists>gu. futexes (set_futex f u st) g = Some gu \<and> futex_bucket (f_mem gu) (f_addr gu) = k)" for g k
    using inv f u by (cases "g = f") (auto simp: futex_inv_def)
  have un: "g = h" if "futexes (set_futex f u st) g = Some gu" "futexes (set_futex f u st) h = Some hu" "f_mem gu = f_mem hu" "f_addr gu = f_addr hu" for g h gu hu
  proof -
    have "\<exists>x. futexes st g = Some x \<and> f_mem x = f_mem gu \<and> f_addr x = f_addr gu" if "futexes (set_futex f u st) g = Some gu" for g gu
      using that f u by (auto split: if_splits)
    from this[OF that(1)] this[OF that(2)] show ?thesis
      using that(3,4) inv unfolding futex_inv_def by metis
  qed
  have wf: "w_futex wt \<in> dom (futexes (set_futex f u st))" if "waits st w = Some wt" for w wt
  proof -
    have "w_futex wt \<in> dom (futexes st)" using inv that by (simp add: futex_inv_def)
    then show ?thesis by (auto simp: dom_def)
  qed
  show ?thesis
    by (rule futex_invI, unfold set_futex_simps(1,2)) (fact futex_invD[OF inv] h un e x wf)+
qed

section \<open>References\<close>

text \<open>What taking and giving back a reference leaves as it is.\<close>

definition same_waits :: "futex_state \<Rightarrow> futex_state \<Rightarrow> bool" where
  "same_waits st st' \<longleftrightarrow> waits st' = waits st \<and> futex_pipe st' = futex_pipe st \<and> futex_lock st' = futex_lock st \<and> queue_at st' = queue_at st"

lemma same_waits_trans: "same_waits st st' \<Longrightarrow> same_waits st' st'' \<Longrightarrow> same_waits st st''"
  by (simp add: same_waits_def)

lemma queue_at_set_futex:
  assumes "futex_inv X st" "futex_inv X' (set_futex f u st)" "futexes st f = Some fu" "f_mem (u fu) = f_mem fu" "f_addr (u fu) = f_addr fu" "f_queue (u fu) = f_queue fu"
  shows "queue_at (set_futex f u st) = queue_at st"
  using assms(3-6) by (intro queue_at_cong[OF assms(2,1)]) (auto split: if_splits)

lemma get_unlocked_ok:
  assumes inv: "futex_inv X st" and a: "futexes st a = None"
  obtains f st' where "futex_get_unlocked (Some a) mem addr st = Some (Some f, st')" "futex_inv (X(f := X f + 1)) st'"
    "is_futex_at st' mem addr f" "same_waits st st'" "\<And>g. g \<noteq> f \<Longrightarrow> futexes st' g = futexes st g" "f = a \<or> is_futex_at st mem addr f"
proof (cases "find (is_futex_at st mem addr) (futex_hash st (futex_bucket mem addr))")
  case (Some f)
  let ?u = "\<lambda>fu. fu\<lparr>f_refcount := f_refcount fu + 1\<rparr>"
  have at: "is_futex_at st mem addr f" using find_futex[OF inv] Some by blast
  then obtain fu where fu: "futexes st f = Some fu" by (auto simp: is_futex_at_def split: option.splits)
  have i: "futex_inv (X(f := X f + 1)) (set_futex f ?u st)"
    using inv_entry[OF inv fu] by (intro inv_set_futex[OF inv fu]) (auto simp: entry_ok_def)
  have q: "queue_at (set_futex f ?u st) = queue_at st"
    by (rule queue_at_set_futex[OF inv i fu]) auto
  show thesis
    by (rule that[of f "set_futex f ?u st"]) (use Some i q at fu in \<open>auto simp: futex_get_unlocked_def Let_def same_waits_def is_futex_at_def\<close>)
next
  case None
  let ?k = "futex_bucket mem addr"
  let ?new = "\<lparr>f_refcount = 1, f_mem = mem, f_addr = addr, f_queue = []\<rparr>"
  let ?st = "st\<lparr>futexes := (futexes st)(a \<mapsto> ?new), futex_hash := (futex_hash st)(?k := a # futex_hash st ?k)\<rparr>"
  have no: "\<And>f. \<not> is_futex_at st mem addr f" using find_no_futex[OF inv] None by blast
  note d = futex_invD[OF inv]
  have noref: "refs st a = {}" using d(7) a by (fastforce simp: refs_def)
  have i: "futex_inv (X(a := X a + 1)) ?st"
  proof (rule futex_invI)
    show "distinct (futex_hash ?st k)" for k using d(2)[of k] d(3)[of a k] a by auto
    show "f \<in> set (futex_hash ?st k) \<longleftrightarrow> (\<exists>fu. futexes ?st f = Some fu \<and> futex_bucket (f_mem fu) (f_addr fu) = k)" for f k
      using d(3)[of f k] a by auto
    show "f = g" if "futexes ?st f = Some fu" "futexes ?st g = Some gu" "f_mem fu = f_mem gu" "f_addr fu = f_addr gu" for f g fu gu
      using that no[of f] no[of g] d(4)[of f fu g gu] by (auto simp: is_futex_at_def split: if_splits)
    show "entry_ok (X(a := X a + 1)) ?st f fu" if "futexes ?st f = Some fu" for f fu
    proof (cases "f = a")
      case True
      moreover have "refs ?st a = refs st a" by (simp add: refs_def)
      ultimately show ?thesis using that d(6)[OF a] noref by (auto simp: entry_ok_def)
    next
      case False
      then have "entry_ok X st f fu" using d(5)[of f fu] that by simp
      moreover have "refs ?st f = refs st f" by (simp add: refs_def)
      ultimately show ?thesis using False entry_ok_cong[of ?st f st "X(a := X a + 1)" X] by simp
    qed
    show "(X(a := X a + 1)) f = 0" if "futexes ?st f = None" for f using that d(6)[of f] by (auto split: if_splits)
    show "w_futex wt \<in> dom (futexes ?st)" if "waits ?st w = Some wt" for w wt using that d(7)[of w wt] by simp
  qed (use d(1) in simp)
  have q: "queue_at ?st = queue_at st"
    by (rule queue_at_cong[OF i inv]) (use a in \<open>auto split: if_splits\<close>)
  show thesis
    by (rule that[of a ?st]) (use None i q a in \<open>auto simp: futex_get_unlocked_def Let_def same_waits_def is_futex_at_def\<close>)
qed

lemma put_unlocked_ok:
  assumes inv: "futex_inv X st" and X: "0 < X f"
  obtains st' where "futex_put_unlocked f st = Some st'" "futex_inv (X(f := X f - 1)) st'" "same_waits st st'"
proof -
  note d = futex_invD[OF inv]
  obtain fu where fu: "futexes st f = Some fu" using d(6)[of f] X by (cases "futexes st f") auto
  note e = d(5)[OF fu, unfolded entry_ok_def]
  show thesis
  proof (cases "f_refcount fu = 1")
    case False
    let ?u = "\<lambda>fu. fu\<lparr>f_refcount := f_refcount fu - 1\<rparr>"
    have i: "futex_inv (X(f := X f - 1)) (set_futex f ?u st)"
      using e X False by (intro inv_set_futex[OF inv fu]) (auto simp: entry_ok_def)
    have q: "queue_at (set_futex f ?u st) = queue_at st"
      by (rule queue_at_set_futex[OF inv i fu]) auto
    show thesis
      by (rule that[of "set_futex f ?u st"]) (use False fu i q in \<open>auto simp: futex_put_unlocked_def same_waits_def\<close>)
  next
    case True
    then have c: "card (refs st f) = 0" "X f = 1" using e X by auto
    then have r: "refs st f = {}" using finite_futex_refs[OF inv] by simp
    then have empty: "f_queue fu = []" using e by auto
    let ?k = "futex_bucket (f_mem fu) (f_addr fu)"
    let ?st = "st\<lparr>futexes := (futexes st)(f := None), futex_hash := (futex_hash st)(?k := remove1 f (futex_hash st ?k))\<rparr>"
    have i: "futex_inv (X(f := X f - 1)) ?st"
    proof (rule futex_invI)
      show "distinct (futex_hash ?st k)" for k using d(2) by (simp add: distinct_remove1)
      show "g \<in> set (futex_hash ?st k) \<longleftrightarrow> (\<exists>gu. futexes ?st g = Some gu \<and> futex_bucket (f_mem gu) (f_addr gu) = k)" for g k
        using d(2)[of k] d(3)[of g k] fu by auto
      show "g = h" if "futexes ?st g = Some gu" "futexes ?st h = Some hu" "f_mem gu = f_mem hu" "f_addr gu = f_addr hu" for g h gu hu
        using that d(4)[of g gu h hu] by (auto split: if_splits)
      show "entry_ok (X(f := X f - 1)) ?st g gu" if "futexes ?st g = Some gu" for g gu
        using d(5)[of g gu] that by (auto simp: entry_ok_def refs_def split: if_splits)
      show "(X(f := X f - 1)) g = 0" if "futexes ?st g = None" for g using that d(6)[of g] c by (auto split: if_splits)
      show "w_futex wt \<in> dom (futexes ?st)" if "waits ?st w = Some wt" for w wt
        using that d(7)[of w wt] r by (auto simp: refs_def)
    qed (use d(1) in simp)
    have q: "queue_at ?st = queue_at st"
      by (rule queue_at_cong[OF i inv]) (use fu empty in \<open>auto split: if_splits\<close>)
    show thesis
      by (rule that[of ?st]) (use True empty fu i q in \<open>auto simp: futex_put_unlocked_def same_waits_def Let_def\<close>)
  qed
qed

section \<open>Waking and requeueing\<close>

declare requeue_loop.simps [simp del]

lemma queue_at_update:
  assumes inv: "futex_inv X st" "futex_inv X' st'" and f: "futexes st f = Some fu" "futexes st' f = Some fu'"
    "f_mem fu' = f_mem fu" "f_addr fu' = f_addr fu" and other: "\<And>g. g \<noteq> f \<Longrightarrow> futexes st' g = futexes st g"
  shows "queue_at st' = (queue_at st)((f_mem fu, f_addr fu) := f_queue fu')"
proof
  fix key :: "nat \<times> nat"
  obtain m a where key: "key = (m, a)" by fastforce
  have at: "is_futex_at st' m a g \<longleftrightarrow> is_futex_at st m a g" for g
    using f other[of g] by (cases "g = f") (auto simp: is_futex_at_def)
  show "queue_at st' key = ((queue_at st)((f_mem fu, f_addr fu) := f_queue fu')) key"
  proof (cases "\<exists>g. is_futex_at st m a g")
    case False
    moreover have "is_futex_at st (f_mem fu) (f_addr fu) f" using f(1) by (simp add: is_futex_at_def)
    ultimately have "(m, a) \<noteq> (f_mem fu, f_addr fu)" by auto
    then show ?thesis
      using queue_at_none[OF inv(1), of m a] queue_at_none[OF inv(2), of m a] at False unfolding key by auto
  next
    case True
    then obtain g where g: "is_futex_at st m a g" "is_futex_at st' m a g" using at by blast
    have "g = f \<longleftrightarrow> m = f_mem fu \<and> a = f_addr fu"
      using g(1) f(1) futex_invD(4)[OF inv(1), of g _ f fu] by (auto simp: is_futex_at_def split: option.splits)
    then show ?thesis
      using queue_at_eq[OF inv(1) g(1)] queue_at_eq[OF inv(2) g(2)] other[of g] f(2) unfolding key by auto
  qed
qed

lemma inv_queue_shrinks:
  assumes inv: "futex_inv X st" and f: "futexes st f = Some fu"
  shows "futex_inv X (set_futex f (\<lambda>fu. fu\<lparr>f_queue := remove1 w (f_queue fu)\<rparr>) st)"
  using inv_entry[OF inv f] set_remove1_subset[of w "f_queue fu"]
  by (intro inv_set_futex[OF inv f]) (auto simp: entry_ok_def distinct_remove1)

lemma inv_write_pipe [simp]: "futex_inv X (write_pipe t st) \<longleftrightarrow> futex_inv X st"
  by (simp add: futex_inv_def write_pipe_def entry_ok_def refs_def)

lemma write_pipe_simps [simp]: "futexes (write_pipe t st) = futexes st" "waits (write_pipe t st) = waits st" "futex_hash (write_pipe t st) = futex_hash st"
    "futex_lock (write_pipe t st) = futex_lock st"
  by (simp_all add: write_pipe_def)

text \<open>The bytes written to the pipe of a thread when some waits are woken.\<close>

definition wakeups :: "futex_state \<Rightarrow> nat list \<Rightarrow> nat \<Rightarrow> nat" where
  "wakeups st ws t = length (filter (\<lambda>w. map_option w_task (waits st w) = Some t) ws)"

lemma wake_loop_ok:
  assumes "futex_inv X st" "futexes st f = Some fu" "f_queue fu = ws" "n = min (max_woken - woken) (length ws)"
  shows "\<exists>st'. wake_loop f woken max_woken ws st = Some (woken + n, st') \<and> futex_inv X st' \<and>
    futexes st' = (futexes st)(f \<mapsto> fu\<lparr>f_queue := drop n ws\<rparr>) \<and> waits st' = waits st \<and> futex_hash st' = futex_hash st \<and>
    futex_lock st' = futex_lock st \<and> futex_pipe st' = (\<lambda>t. map_option (\<lambda>b. b + wakeups st (take n ws) t) (futex_pipe st t))"
  using assms
proof (induction ws arbitrary: st fu woken n)
  case Nil
  then have "futexes st = (futexes st)(f \<mapsto> fu\<lparr>f_queue := []\<rparr>)" by (auto simp: fun_eq_iff)
  then show ?case using Nil by (simp add: wakeups_def option.map_ident)
next
  case (Cons w ws)
  show ?case
  proof (cases "woken \<ge> max_woken")
    case True
    then have "n = 0" "futexes st = (futexes st)(f \<mapsto> fu\<lparr>f_queue := w # ws\<rparr>)" using Cons.prems by (auto simp: fun_eq_iff)
    then show ?thesis using True Cons.prems by (simp add: wakeups_def option.map_ident)
  next
    case False
    have "w \<in> refs st f" using inv_entry[OF Cons.prems(1,2)] Cons.prems(3) by (auto simp: entry_ok_def)
    then obtain wt where wt: "waits st w = Some wt" by (auto simp: refs_def)
    let ?u = "\<lambda>fu. fu\<lparr>f_queue := remove1 w (f_queue fu)\<rparr>"
    let ?st = "set_futex f ?u (write_pipe (w_task wt) st)"
    obtain m where m: "n = Suc m" "m = min (max_woken - (woken + 1)) (length ws)" using False Cons.prems(4) by (cases n) auto
    have i: "futex_inv X ?st" by (rule inv_queue_shrinks) (use Cons.prems in simp_all)
    have f: "futexes ?st f = Some (?u fu)" "f_queue (?u fu) = ws" using Cons.prems(2,3) by simp_all
    obtain st' where st': "wake_loop f (woken + 1) max_woken ws ?st = Some (woken + 1 + m, st')" "futex_inv X st'"
      "futexes st' = (futexes ?st)(f \<mapsto> (?u fu)\<lparr>f_queue := drop m ws\<rparr>)" "waits st' = waits ?st" "futex_hash st' = futex_hash ?st"
      "futex_lock st' = futex_lock ?st" "futex_pipe st' = (\<lambda>t. map_option (\<lambda>b. b + wakeups ?st (take m ws) t) (futex_pipe ?st t))"
      using Cons.IH[OF i f m(2)] by blast
    have "futexes st' = (futexes st)(f \<mapsto> fu\<lparr>f_queue := drop n (w # ws)\<rparr>)"
      using st'(3) m(1) by (auto simp: fun_eq_iff)
    moreover have "futex_pipe st' = (\<lambda>t. map_option (\<lambda>b. b + wakeups st (take n (w # ws)) t) (futex_pipe st t))"
      unfolding st'(7) using wt m(1) by (auto simp: fun_eq_iff wakeups_def write_pipe_def option.map_comp comp_def)
    ultimately show ?thesis
      using st'(1,2,4-6) False wt m(1) by (intro exI[of _ st']) simp
  qed
qed

lemma wake_queue_ok:
  assumes inv: "futex_inv X st" and f: "futexes st f = Some fu" and n: "n = min max_woken (length (f_queue fu))"
  obtains st' where "futex_wake_queue f max_woken st = Some (n, st')" "futex_inv X st'"
    "futexes st' = (futexes st)(f \<mapsto> fu\<lparr>f_queue := drop n (f_queue fu)\<rparr>)" "waits st' = waits st" "futex_lock st' = futex_lock st"
    "futex_pipe st' = (\<lambda>t. map_option (\<lambda>b. b + wakeups st (take n (f_queue fu)) t) (futex_pipe st t))"
    "queue_at st' = (queue_at st)((f_mem fu, f_addr fu) := drop n (f_queue fu))" "futex_hash st' = futex_hash st"
proof -
  obtain st' where st': "wake_loop f 0 max_woken (f_queue fu) st = Some (0 + n, st')" "futex_inv X st'"
    "futexes st' = (futexes st)(f \<mapsto> fu\<lparr>f_queue := drop n (f_queue fu)\<rparr>)" "waits st' = waits st" "futex_lock st' = futex_lock st"
    "futex_pipe st' = (\<lambda>t. map_option (\<lambda>b. b + wakeups st (take n (f_queue fu)) t) (futex_pipe st t))" "futex_hash st' = futex_hash st"
    using wake_loop_ok[OF inv f refl, of n max_woken 0] n by auto
  have "queue_at st' = (queue_at st)((f_mem fu, f_addr fu) := drop n (f_queue fu))"
    using queue_at_update[OF inv st'(2) f, of "fu\<lparr>f_queue := drop n (f_queue fu)\<rparr>"] st'(3) by simp
  then show thesis
    using that[of st'] st' f by (simp add: futex_wake_queue_def)
qed

lemma requeue_one_ok:
  assumes inv: "futex_inv X st" and f: "futexes st f = Some fu" "w \<in> set (f_queue fu)" "0 < X f" and f2: "futexes st f2 = Some fu2"
  obtains st' fu' fu2' where "requeue_one f f2 w st = Some st'" "futex_inv X st'" "futexes st' = (futexes st)(f \<mapsto> fu', f2 \<mapsto> fu2')"
    "f_mem fu' = f_mem fu" "f_addr fu' = f_addr fu" "f_mem fu2' = f_mem fu2" "f_addr fu2' = f_addr fu2"
    "f_queue fu' = remove1 w (f_queue fu)" "f_queue fu2' = (if f = f2 then remove1 w (f_queue fu) else f_queue fu2) @ [w]"
    "waits st' = (waits st)(w := map_option (\<lambda>wt. wt\<lparr>w_futex := f2\<rparr>) (waits st w))" "futex_lock st' = futex_lock st" "futex_pipe st' = futex_pipe st"
proof -
  note d = futex_invD[OF inv]
  note e = d(5)[OF f(1), unfolded entry_ok_def] and e2 = d(5)[OF f2, unfolded entry_ok_def]
  have "w \<in> refs st f" using e f(2) by auto
  then obtain wt where wt: "waits st w = Some wt" "w_futex wt = f" by (auto simp: refs_def)
  have rf: "0 < card (refs st f)" using \<open>w \<in> refs st f\<close> finite_futex_refs[OF inv] by (auto simp: card_gt_0_iff)
  have same: "fu2 = fu" if "f = f2" using f(1) f2 that by simp
  let ?fu = "fu\<lparr>f_queue := remove1 w (f_queue fu), f_refcount := f_refcount fu - 1\<rparr>"
  let ?fu2 = "if f = f2 then fu\<lparr>f_queue := remove1 w (f_queue fu) @ [w], f_refcount := f_refcount fu - 1 + 1\<rparr> else fu2\<lparr>f_queue := f_queue fu2 @ [w], f_refcount := f_refcount fu2 + 1\<rparr>"
  define S where "S = st\<lparr>futexes := (futexes st)(f \<mapsto> ?fu, f2 \<mapsto> ?fu2), waits := (waits st)(w \<mapsto> wt\<lparr>w_futex := f2\<rparr>)\<rparr>"
  have S: "futexes S = (futexes st)(f \<mapsto> ?fu, f2 \<mapsto> ?fu2)" "waits S = (waits st)(w \<mapsto> wt\<lparr>w_futex := f2\<rparr>)" "futex_hash S = futex_hash st"
    by (simp_all add: S_def)
  have ev: "requeue_one f f2 w st = Some S"
    using f f2 wt e rf same by (auto simp: S_def requeue_one_def set_futex_def Let_def fun_upd_twist)
  have r: "refs S g = (if g = f2 then insert w (refs st g) else refs st g - {w})" for g
    using wt by (auto simp: refs_def S(2))
  have wr: "w \<notin> refs st g" if "g \<noteq> f" for g using wt that by (auto simp: refs_def)
  have old: "\<exists>x. futexes st g = Some x \<and> f_mem x = f_mem gu \<and> f_addr x = f_addr gu" if "futexes S g = Some gu" for g gu
    using that f(1) f2 same unfolding S(1) by (auto split: if_splits)
  have new: "\<exists>x. futexes S g = Some x \<and> f_mem x = f_mem gu \<and> f_addr x = f_addr gu" if "futexes st g = Some gu" for g gu
    using that f(1) f2 same unfolding S(1) by (cases "g = f2"; cases "g = f") auto
  have i: "futex_inv X S"
  proof (rule futex_invI)
    show "g \<in> set (futex_hash S k) \<longleftrightarrow> (\<exists>gu. futexes S g = Some gu \<and> futex_bucket (f_mem gu) (f_addr gu) = k)" for g k
    proof -
      have "g \<in> set (futex_hash S k) \<longleftrightarrow> (\<exists>gu. futexes st g = Some gu \<and> futex_bucket (f_mem gu) (f_addr gu) = k)"
        using d(3)[of g k] by (simp add: S(3))
      also have "\<dots> \<longleftrightarrow> (\<exists>gu. futexes S g = Some gu \<and> futex_bucket (f_mem gu) (f_addr gu) = k)"
      proof (rule iffI; elim exE conjE)
        fix x
        assume x: "futexes st g = Some x" "futex_bucket (f_mem x) (f_addr x) = k"
        show "\<exists>gu. futexes S g = Some gu \<and> futex_bucket (f_mem gu) (f_addr gu) = k" using new[OF x(1)] x(2) by auto
      next
        fix x
        assume x: "futexes S g = Some x" "futex_bucket (f_mem x) (f_addr x) = k"
        show "\<exists>gu. futexes st g = Some gu \<and> futex_bucket (f_mem gu) (f_addr gu) = k" using old[OF x(1)] x(2) by auto
      qed
      finally show ?thesis .
    qed
    show "g = h" if eq: "futexes S g = Some gu" "futexes S h = Some hu" "f_mem gu = f_mem hu" "f_addr gu = f_addr hu" for g h gu hu
    proof -
      obtain x y where "futexes st g = Some x" "f_mem x = f_mem gu" "f_addr x = f_addr gu"
        "futexes st h = Some y" "f_mem y = f_mem hu" "f_addr y = f_addr hu"
        using old[OF eq(1)] old[OF eq(2)] by blast
      then show ?thesis using eq(3,4) d(4)[of g x h y] by simp
    qed
    show "entry_ok X S g gu" if g: "futexes S g = Some gu" for g gu
    proof -
      have fin: "finite (refs st g)" for g by (rule finite_futex_refs[OF inv])
      consider "g = f2" | "g = f" "g \<noteq> f2" | "g \<noteq> f" "g \<noteq> f2" by blast
      then show ?thesis
      proof cases
        case 1
        show ?thesis
        proof (cases "f = f2")
          case True
          then show ?thesis using g[unfolded S(1)] 1 e f(2) r[of f2] \<open>w \<in> refs st f\<close> by (auto simp: entry_ok_def insert_absorb distinct_remove1)
        next
          case False
          then have "w \<notin> set (f_queue fu2)" "w \<notin> refs st f2" using wr[of f2] e2 by auto
          then show ?thesis using g[unfolded S(1)] 1 False e2 r[of f2] fin by (auto simp: entry_ok_def)
        qed
      next
        case 2
        then show ?thesis using g[unfolded S(1)] e f rf r[of f] \<open>w \<in> refs st f\<close> fin[of f] by (auto simp: entry_ok_def distinct_remove1)
      next
        case 3
        then show ?thesis using g[unfolded S(1)] d(5)[of g gu] r[of g] wr[of g] by (auto simp: entry_ok_def)
      qed
    qed
    show "X g = 0" if "futexes S g = None" for g using that d(6)[of g] unfolding S(1) by (auto split: if_splits)
    show "w_futex wt' \<in> dom (futexes S)" if "waits S v = Some wt'" for v wt'
      using that d(7)[of v wt'] unfolding S by (auto split: if_splits)
  qed (use d(1,2) S in auto)
  show thesis
    by (rule that[OF ev i, of ?fu ?fu2]) (use wt f f2 same in \<open>auto simp: S_def\<close>)
qed

text \<open>The first two elements of a queue, as the loop holds them.\<close>

definition first_two :: "nat list \<Rightarrow> nat option \<times> nat option" where
  "first_two q = (case q of [] \<Rightarrow> (None, None) | [w] \<Rightarrow> (Some w, None) | w # t # _ \<Rightarrow> (Some w, Some t))"

definition moved :: "nat \<Rightarrow> nat set \<Rightarrow> (nat \<Rightarrow> futex_waiter option) \<Rightarrow> nat \<Rightarrow> futex_waiter option" where
  "moved f2 W ws = (\<lambda>w. if w \<in> W then map_option (\<lambda>wt. wt\<lparr>w_futex := f2\<rparr>) (ws w) else ws w)"

lemma first_two_tail: "distinct (w # q) \<Longrightarrow> first_two q = (snd (first_two (w # q)), Option.bind (snd (first_two (w # q))) (next_in q))"
  by (cases q; cases "tl q") (auto simp: first_two_def split: list.splits)

lemma requeue_loop_ok:
  assumes "futex_inv X st" "0 < X f" "f \<noteq> f2" "futexes st f = Some fu" "futexes st f2 = Some fu2"
    "n = min (requeue_max - requeued) (length (f_queue fu))" "(wait, tmp) = first_two (f_queue fu)"
  shows "\<exists>st' fu' fu2'. requeue_loop f f2 requeued requeue_max wait tmp st = Some (requeued + n, st') \<and> futex_inv X st' \<and>
    futexes st' = (futexes st)(f \<mapsto> fu', f2 \<mapsto> fu2') \<and> f_mem fu' = f_mem fu \<and> f_addr fu' = f_addr fu \<and> f_mem fu2' = f_mem fu2 \<and>
    f_addr fu2' = f_addr fu2 \<and> f_queue fu' = drop n (f_queue fu) \<and> f_queue fu2' = f_queue fu2 @ take n (f_queue fu) \<and>
    waits st' = moved f2 (set (take n (f_queue fu))) (waits st) \<and> futex_lock st' = futex_lock st \<and> futex_pipe st' = futex_pipe st"
  using assms
proof (induction n arbitrary: st fu fu2 requeued wait tmp)
  case 0
  have "requeue_loop f f2 requeued requeue_max wait tmp st = Some (requeued, st)"
    using "0.prems"(6,7) by (cases wait; subst requeue_loop.simps) (auto simp: first_two_def split: list.splits)
  moreover have eq: "(futexes st)(f \<mapsto> fu, f2 \<mapsto> fu2) = futexes st"
    using "0.prems"(4,5) by (auto simp: fun_eq_iff)
  ultimately show ?case
    using "0.prems"(1) by - (rule exI[of _ st], rule exI[of _ fu], rule exI[of _ fu2], simp only: eq, simp add: moved_def)
next
  case (Suc n)
  obtain w q where q: "f_queue fu = w # q" using Suc.prems(6) by (cases "f_queue fu") auto
  have lt: "requeued < requeue_max" and n: "n = min (requeue_max - (requeued + 1)) (length q)"
    using Suc.prems(6) q by auto
  have dist: "distinct (w # q)" using inv_entry[OF Suc.prems(1,4)] q by (simp add: entry_ok_def)
  have wait: "wait = Some w" using Suc.prems(7) q by (cases q) (auto simp: first_two_def)
  obtain s1 fu1 fu21 where s1: "requeue_one f f2 w st = Some s1" "futex_inv X s1" "futexes s1 = (futexes st)(f \<mapsto> fu1, f2 \<mapsto> fu21)"
    "f_mem fu1 = f_mem fu" "f_addr fu1 = f_addr fu" "f_mem fu21 = f_mem fu2" "f_addr fu21 = f_addr fu2"
    "f_queue fu1 = remove1 w (f_queue fu)" "f_queue fu21 = (if f = f2 then remove1 w (f_queue fu) else f_queue fu2) @ [w]"
    "waits s1 = (waits st)(w := map_option (\<lambda>wt. wt\<lparr>w_futex := f2\<rparr>) (waits st w))" "futex_lock s1 = futex_lock st" "futex_pipe s1 = futex_pipe st"
    by (rule requeue_one_ok[OF Suc.prems(1,4) _ Suc.prems(2,5), of w]) (use q in auto)
  have f1: "futexes s1 f = Some fu1" "futexes s1 f2 = Some fu21" "f_queue fu1 = q" "f_queue fu21 = f_queue fu2 @ [w]"
    using s1(3,8,9) Suc.prems(3) q by simp_all
  have next_two: "(tmp, Option.bind tmp (next_in q)) = first_two q"
    using first_two_tail[OF dist] Suc.prems(7) q by (metis snd_conv)
  obtain s2 fu' fu2' where s2: "requeue_loop f f2 (requeued + 1) requeue_max tmp (Option.bind tmp (next_in q)) s1 = Some (requeued + 1 + n, s2)"
    "futex_inv X s2" "futexes s2 = (futexes s1)(f \<mapsto> fu', f2 \<mapsto> fu2')" "f_mem fu' = f_mem fu1" "f_addr fu' = f_addr fu1" "f_mem fu2' = f_mem fu21"
    "f_addr fu2' = f_addr fu21" "f_queue fu' = drop n q" "f_queue fu2' = f_queue fu21 @ take n q"
    "waits s2 = moved f2 (set (take n q)) (waits s1)" "futex_lock s2 = futex_lock s1" "futex_pipe s2 = futex_pipe s1"
    using Suc.IH[OF s1(2) Suc.prems(2,3) f1(1,2), unfolded f1(3), OF n next_two] by blast
  have "requeue_loop f f2 requeued requeue_max wait tmp st = Some (requeued + Suc n, s2)"
    using s2(1) s1(1) f1(1,3) lt by (subst requeue_loop.simps) (simp add: wait)
  moreover have "futexes s2 = (futexes st)(f \<mapsto> fu', f2 \<mapsto> fu2')"
    using s2(3) s1(3) Suc.prems(3) by (auto simp: fun_eq_iff)
  moreover have "waits s2 = moved f2 (set (take (Suc n) (f_queue fu))) (waits st)"
    unfolding s2(10) s1(10) using dist by (auto simp: q moved_def fun_eq_iff dest: in_set_takeD)
  ultimately show ?case
    using s2(2,4-9,11,12) s1(4-7,11,12) f1(4) q by - (rule exI[of _ s2], rule exI[of _ fu'], rule exI[of _ fu2'], simp add: fun_upd_def)
qed

lemma requeue_ok:
  assumes inv: "futex_inv X st" and f: "0 < X f" "f \<noteq> f2" "futexes st f = Some fu" "futexes st f2 = Some fu2"
    and n: "n = min requeue_max (length (f_queue fu))"
  obtains st' where "futex_requeue f f2 requeue_max st = Some (n, st')" "futex_inv X st'" "waits st' = moved f2 (set (take n (f_queue fu))) (waits st)"
    "futex_lock st' = futex_lock st" "futex_pipe st' = futex_pipe st"
    "queue_at st' = (queue_at st)((f_mem fu, f_addr fu) := drop n (f_queue fu), (f_mem fu2, f_addr fu2) := f_queue fu2 @ take n (f_queue fu))"
proof -
  have "(case f_queue fu of [] \<Rightarrow> None | w # _ \<Rightarrow> Some w, case f_queue fu of [] \<Rightarrow> None | w # ws \<Rightarrow> next_in (w # ws) w) = first_two (f_queue fu)"
    by (auto simp: first_two_def split: list.splits)
  from requeue_loop_ok[OF inv f, of n requeue_max 0, OF _ this] n obtain st' fu' fu2' where
    st': "requeue_loop f f2 0 requeue_max (case f_queue fu of [] \<Rightarrow> None | w # _ \<Rightarrow> Some w)
        (case f_queue fu of [] \<Rightarrow> None | w # ws \<Rightarrow> next_in (w # ws) w) st = Some (n, st')" "futex_inv X st'"
    "futexes st' = (futexes st)(f \<mapsto> fu', f2 \<mapsto> fu2')" "f_mem fu' = f_mem fu" "f_addr fu' = f_addr fu" "f_mem fu2' = f_mem fu2"
    "f_addr fu2' = f_addr fu2" "f_queue fu' = drop n (f_queue fu)" "f_queue fu2' = f_queue fu2 @ take n (f_queue fu)"
    "waits st' = moved f2 (set (take n (f_queue fu))) (waits st)" "futex_lock st' = futex_lock st" "futex_pipe st' = futex_pipe st"
    by auto
  have ev: "futex_requeue f f2 requeue_max st = Some (n, st')"
  proof (cases "f_queue fu")
    case Nil
    then have "st' = st" "n = 0" using st'(1) by (auto simp: requeue_loop.simps)
    then show ?thesis using Nil f(3) by (simp add: futex_requeue_def)
  next
    case (Cons w ws)
    then show ?thesis using st'(1) f(3) by (simp add: futex_requeue_def)
  qed
  have at: "is_futex_at st' m a g \<longleftrightarrow> is_futex_at st m a g" for m a g
    using f(3,4) st'(3-7) by (cases "g = f2"; cases "g = f") (simp_all add: is_futex_at_def)
  have key: "is_futex_at st (f_mem fu) (f_addr fu) f" "is_futex_at st (f_mem fu2) (f_addr fu2) f2"
    using f(3,4) by (simp_all add: is_futex_at_def)
  have uniq: "g = h" if "is_futex_at st m a g" "is_futex_at st m a h" for m a g h
    using that find_futex[OF inv, of m a] by (metis option.inject)
  have "queue_at st' = (queue_at st)((f_mem fu, f_addr fu) := drop n (f_queue fu), (f_mem fu2, f_addr fu2) := f_queue fu2 @ take n (f_queue fu))"
  proof
    fix k :: "nat \<times> nat"
    obtain m a where k: "k = (m, a)" by fastforce
    show "queue_at st' k = ((queue_at st)((f_mem fu, f_addr fu) := drop n (f_queue fu), (f_mem fu2, f_addr fu2) := f_queue fu2 @ take n (f_queue fu))) k"
    proof (cases "\<exists>g. is_futex_at st m a g")
      case False
      then have "(m, a) \<noteq> (f_mem fu, f_addr fu)" "(m, a) \<noteq> (f_mem fu2, f_addr fu2)" using key by auto
      then show ?thesis
        unfolding k using queue_at_none[OF inv, of m a] queue_at_none[OF st'(2), of m a] at False by auto
    next
      case True
      then obtain g where g: "is_futex_at st m a g" by blast
      have "(m, a) = (f_mem fu, f_addr fu) \<longleftrightarrow> g = f" "(m, a) = (f_mem fu2, f_addr fu2) \<longleftrightarrow> g = f2"
        using g key uniq f(3,4) by (auto simp: is_futex_at_def)
      then show ?thesis
        unfolding k using queue_at_eq[OF inv g] queue_at_eq[OF st'(2) at[THEN iffD2, OF g]] st'(3,8,9) f(2) by simp
    qed
  qed
  then show thesis
    using that[OF ev st'(2,10,11,12)] by blast
qed

section \<open>The calls\<close>

lemma queue_at_same: "futexes st' = futexes st \<Longrightarrow> futex_hash st' = futex_hash st \<Longrightarrow> queue_at st' = queue_at st"
proof -
  assume a: "futexes st' = futexes st" "futex_hash st' = futex_hash st"
  then have "is_futex_at st' = is_futex_at st" by (simp add: is_futex_at_def fun_eq_iff)
  then show ?thesis using a by (intro ext) (simp add: queue_at_def split: option.split)
qed

lemma inv_same: "futexes st' = futexes st \<Longrightarrow> futex_hash st' = futex_hash st \<Longrightarrow> waits st' = waits st \<Longrightarrow> futex_inv X st' \<longleftrightarrow> futex_inv X st"
  by (simp add: futex_inv_def entry_ok_def refs_def)

lemma inv_lock [simp]: "futex_inv X (st\<lparr>futex_lock := l\<rparr>) \<longleftrightarrow> futex_inv X st" "queue_at (st\<lparr>futex_lock := l\<rparr>) = queue_at st"
  by (rule inv_same; simp) (rule queue_at_same; simp)

lemma get_ok:
  assumes ok: "futexes_ok st" and a: "futexes st a = None"
  obtains f st' fu where "futex_get (Some a) mem addr st = Some (Some f, st')" "futex_inv ((\<lambda>_. 0)(f := 1)) st'" "futexes st' f = Some fu"
    "f_mem fu = mem" "f_addr fu = addr" "f_queue fu = queue_at st (mem, addr)" "queue_at st' = queue_at st" "waits st' = waits st"
    "futex_pipe st' = futex_pipe st" "futex_lock st'" "\<And>g. g \<noteq> f \<Longrightarrow> futexes st' g = futexes st g" "f = a \<or> futexes st f \<noteq> None"
proof -
  have i: "futex_inv (\<lambda>_. 0) (st\<lparr>futex_lock := True\<rparr>)" and a': "futexes (st\<lparr>futex_lock := True\<rparr>) a = None"
    using ok a by (simp_all add: futexes_ok_def)
  obtain f st' where st': "futex_get_unlocked (Some a) mem addr (st\<lparr>futex_lock := True\<rparr>) = Some (Some f, st')"
    "futex_inv ((\<lambda>_. 0)(f := 0 + 1)) st'" "is_futex_at st' mem addr f" "same_waits (st\<lparr>futex_lock := True\<rparr>) st'"
    "\<And>g. g \<noteq> f \<Longrightarrow> futexes st' g = futexes (st\<lparr>futex_lock := True\<rparr>) g" "f = a \<or> is_futex_at (st\<lparr>futex_lock := True\<rparr>) mem addr f"
    by (rule get_unlocked_ok[OF i a', of mem addr]) blast
  obtain fu where fu: "futexes st' f = Some fu" "f_mem fu = mem" "f_addr fu = addr"
    using st'(3) by (auto simp: is_futex_at_def split: option.splits)
  have "f_queue fu = queue_at st (mem, addr)"
    using queue_at_eq[OF st'(2,3)] fu(1) st'(4) by (simp add: same_waits_def)
  moreover have "futex_get (Some a) mem addr st = Some (Some f, st')"
    using ok st'(1) by (simp add: futex_get_def lock_futexes_def futexes_ok_def)
  ultimately show thesis
    using that[of f st' fu] st'(2,4,5,6) fu by (auto simp: same_waits_def is_futex_at_def split: option.splits)
qed

lemma put_ok:
  assumes inv: "futex_inv X st" and X: "X = (\<lambda>_. 0)(f := 1)" and l: "futex_lock st"
  obtains st' where "futex_put f st = Some st'" "futexes_ok st'" "queue_at st' = queue_at st" "waits st' = waits st" "futex_pipe st' = futex_pipe st"
proof -
  obtain s1 where s1: "futex_put_unlocked f st = Some s1" "futex_inv (X(f := X f - 1)) s1" "same_waits st s1"
    by (rule put_unlocked_ok[OF inv, of f]) (use X in auto)
  have "X(f := X f - 1) = (\<lambda>_. 0)" using X by auto
  then show thesis
    using that[of "s1\<lparr>futex_lock := False\<rparr>"] s1 l by (simp add: futex_put_def unlock_futexes_def same_waits_def futexes_ok_def)
qed

lemma wake_refines:
  assumes ok: "futexes_ok st" and a: "futexes st a = None" and q: "q = queue_at st (mem, uaddr)" and n: "n = min k (length q)"
  shows "\<exists>st'. futex_wakelike (Some a) alloc2 mem FUTEX_WAKE uaddr k 0 0 st = Some (n, st') \<and> futexes_ok st' \<and>
    queue_at st' = (queue_at st)((mem, uaddr) := drop n q) \<and> waits st' = waits st \<and>
    futex_pipe st' = (\<lambda>t. map_option (\<lambda>b. b + wakeups st (take n q) t) (futex_pipe st t))"
proof -
  obtain f s1 fu where s1: "futex_get (Some a) mem uaddr st = Some (Some f, s1)" "futex_inv ((\<lambda>_. 0)(f := 1)) s1" "futexes s1 f = Some fu"
    "f_mem fu = mem" "f_addr fu = uaddr" "f_queue fu = q" "queue_at s1 = queue_at st" "waits s1 = waits st"
    "futex_pipe s1 = futex_pipe st" "futex_lock s1"
    by (rule get_ok[OF ok a, of mem uaddr]) (use q in blast)
  obtain s2 where s2: "futex_wake_queue f k s1 = Some (n, s2)" "futex_inv ((\<lambda>_. 0)(f := 1)) s2" "waits s2 = waits s1" "futex_lock s2 = futex_lock s1"
    "futex_pipe s2 = (\<lambda>t. map_option (\<lambda>b. b + wakeups s1 (take n (f_queue fu)) t) (futex_pipe s1 t))"
    "queue_at s2 = (queue_at s1)((f_mem fu, f_addr fu) := drop n (f_queue fu))"
    by (rule wake_queue_ok[OF s1(2,3), of n k]) (use n s1(6) in auto)
  obtain s3 where s3: "futex_put f s2 = Some s3" "futexes_ok s3" "queue_at s3 = queue_at s2" "waits s3 = waits s2" "futex_pipe s3 = futex_pipe s2"
    by (rule put_ok[OF s2(2) refl]) (use s2(4) s1(10) in auto)
  have "wakeups s1 = wakeups st" using s1(8) by (simp add: wakeups_def fun_eq_iff)
  then show ?thesis
    using s1 s2 s3 by (intro exI[of _ s3]) (simp add: futex_wakelike_def)
qed

lemma requeue_refines:
  assumes ok: "futexes_ok st" and a: "futexes st a = None" "futexes st a2 = None" "a \<noteq> a2" and ne: "uaddr \<noteq> uaddr2"
    and q: "q = queue_at st (mem, uaddr)" and n: "n = min k (length q)" and m: "m = min k2 (length q - n)"
  shows "\<exists>st'. futex_wakelike (Some a) (Some a2) mem FUTEX_REQUEUE uaddr k k2 uaddr2 st = Some (n + m, st') \<and> futexes_ok st' \<and>
    queue_at st' = (queue_at st)((mem, uaddr) := drop (n + m) q, (mem, uaddr2) := queue_at st (mem, uaddr2) @ take m (drop n q)) \<and>
    futex_pipe st' = (\<lambda>t. map_option (\<lambda>b. b + wakeups st (take n q) t) (futex_pipe st t))"
proof -
  obtain f s1 fu where s1: "futex_get (Some a) mem uaddr st = Some (Some f, s1)" "futex_inv ((\<lambda>_. 0)(f := 1)) s1" "futexes s1 f = Some fu"
    "f_mem fu = mem" "f_addr fu = uaddr" "f_queue fu = q" "queue_at s1 = queue_at st" "waits s1 = waits st"
    "futex_pipe s1 = futex_pipe st" "futex_lock s1" "\<And>g. g \<noteq> f \<Longrightarrow> futexes s1 g = futexes st g" "f = a \<or> futexes st f \<noteq> None"
    by (rule get_ok[OF ok a(1), of mem uaddr]) (use q in blast)
  obtain s2 where s2: "futex_wake_queue f k s1 = Some (n, s2)" "futex_inv ((\<lambda>_. 0)(f := 1)) s2"
    "futexes s2 = (futexes s1)(f \<mapsto> fu\<lparr>f_queue := drop n (f_queue fu)\<rparr>)" "waits s2 = waits s1" "futex_lock s2 = futex_lock s1"
    "futex_pipe s2 = (\<lambda>t. map_option (\<lambda>b. b + wakeups s1 (take n (f_queue fu)) t) (futex_pipe s1 t))"
    "queue_at s2 = (queue_at s1)((f_mem fu, f_addr fu) := drop n (f_queue fu))"
    by (rule wake_queue_ok[OF s1(2,3), of n k]) (use n s1(6) in auto)
  have a2: "futexes s2 a2 = None" using s2(3) s1(11)[of a2] s1(12) a(2,3) by auto
  obtain f2 s3 where s3: "futex_get_unlocked (Some a2) mem uaddr2 s2 = Some (Some f2, s3)" "futex_inv (((\<lambda>_. 0)(f := 1))(f2 := ((\<lambda>_. 0)(f := 1)) f2 + 1)) s3"
    "is_futex_at s3 mem uaddr2 f2" "same_waits s2 s3" "\<And>g. g \<noteq> f2 \<Longrightarrow> futexes s3 g = futexes s2 g" "f2 = a2 \<or> is_futex_at s2 mem uaddr2 f2"
    by (rule get_unlocked_ok[OF s2(2) a2, of mem uaddr2]) blast
  let ?fu = "fu\<lparr>f_queue := drop n q\<rparr>"
  have f2: "f \<noteq> f2" "futexes s3 f = Some ?fu"
  proof -
    have "is_futex_at s2 mem uaddr f" using s2(3) s1(4,5) by (simp add: is_futex_at_def)
    then show "f \<noteq> f2" using s3(6) a2 ne by (auto simp: is_futex_at_def split: option.splits)
    then show "futexes s3 f = Some ?fu" using s3(5)[of f] s2(3) s1(6) by simp
  qed
  obtain fu2 where fu2: "futexes s3 f2 = Some fu2" "f_mem fu2 = mem" "f_addr fu2 = uaddr2"
    using s3(3) by (auto simp: is_futex_at_def split: option.splits)
  have q2: "f_queue fu2 = queue_at st (mem, uaddr2)"
    using queue_at_eq[OF s3(2,3)] fu2(1) s3(4) s2(7) s1(4,5,7) ne by (simp add: same_waits_def)
  have X: "((\<lambda>_. 0)(f := 1))(f2 := ((\<lambda>_. 0)(f := 1)) f2 + 1) = ((\<lambda>_. 0)(f := 1, f2 := 1 :: nat))" using f2(1) by auto
  obtain s4 where s4: "futex_requeue f f2 k2 s3 = Some (m, s4)" "futex_inv ((\<lambda>_. 0)(f := 1, f2 := 1)) s4"
    "futex_lock s4 = futex_lock s3" "futex_pipe s4 = futex_pipe s3"
    "queue_at s4 = (queue_at s3)((f_mem ?fu, f_addr ?fu) := drop m (f_queue ?fu), (f_mem fu2, f_addr fu2) := f_queue fu2 @ take m (f_queue ?fu))"
    by (rule requeue_ok[OF s3(2)[unfolded X] _ f2 fu2(1), of m k2]) (use f2(1) m in auto)
  obtain s5 where s5: "futex_put_unlocked f2 s4 = Some s5" "futex_inv (((\<lambda>_. 0)(f := 1, f2 := 1))(f2 := ((\<lambda>_. 0)(f := 1, f2 := 1)) f2 - 1)) s5" "same_waits s4 s5"
    by (rule put_unlocked_ok[OF s4(2), of f2]) auto
  have X5: "((\<lambda>_. 0)(f := 1, f2 := 1))(f2 := ((\<lambda>_. 0)(f := 1, f2 := 1)) f2 - 1) = ((\<lambda>_. 0)(f := 1 :: nat))" using f2(1) by auto
  have "futex_lock s5" using s5(3) s4(3) s3(4) s2(5) s1(10) by (simp add: same_waits_def)
  then obtain s6 where s6: "futex_put f s5 = Some s6" "futexes_ok s6" "queue_at s6 = queue_at s5" "futex_pipe s6 = futex_pipe s5"
    by (rule put_ok[OF s5(2)[unfolded X5] refl])
  have "wakeups s1 = wakeups st" using s1(8) by (simp add: wakeups_def fun_eq_iff)
  then have pipe: "futex_pipe s6 = (\<lambda>t. map_option (\<lambda>b. b + wakeups st (take n q) t) (futex_pipe st t))"
    using s6(4) s5(3) s4(4) s3(4) s2(6) s1(6,9) by (simp add: same_waits_def)
  have queues: "queue_at s6 = (queue_at st)((mem, uaddr) := drop (n + m) q, (mem, uaddr2) := queue_at st (mem, uaddr2) @ take m (drop n q))"
    using s6(3) s5(3) s4(5) s3(4) s2(7) s1(4-7) fu2(2,3) q2 ne by (simp add: same_waits_def add.commute)
  have "futex_wakelike (Some a) (Some a2) mem FUTEX_REQUEUE uaddr k k2 uaddr2 st = Some (n + m, s6)"
    using s1(1) s2(1) s3(1) s4(1) s5(1) s6(1) by (simp add: futex_wakelike_def)
  then show ?thesis using s6(2) pipe queues by blast
qed

lemma refs_insert: "waits st' = (waits st)(w \<mapsto> \<lparr>w_futex = f, w_task = t\<rparr>) \<Longrightarrow> waits st w = None \<Longrightarrow>
    refs st' g = (if g = f then insert w (refs st g) else refs st g)"
  by (auto simp: refs_def)

lemma refs_delete: "waits st' = (waits st)(w := None) \<Longrightarrow> refs st' g = refs st g - {w}"
  by (auto simp: refs_def)

text \<open>A reference of the call becomes that of a wait, and back.\<close>

lemma add_wait:
  assumes inv: "futex_inv X st" and f: "futexes st f = Some fu" "0 < X f" and w: "waits st w = None"
    and st': "futexes st' = futexes st" "futex_hash st' = futex_hash st" "waits st' = (waits st)(w \<mapsto> \<lparr>w_futex = f, w_task = t\<rparr>)"
  shows "futex_inv (X(f := X f - 1)) st'"
proof (rule futex_invI, unfold st'(1,2))
  note d = futex_invD[OF inv]
  have fresh: "w \<notin> refs st g" for g using w by (simp add: refs_def)
  show "entry_ok (X(f := X f - 1)) st' g gu" if g: "futexes st g = Some gu" for g gu
    using d(5)[OF g] refs_insert[OF st'(3) w, of g] fresh[of g] finite_futex_refs[OF inv, of g] f(2) by (auto simp: entry_ok_def)
  show "finite (dom (waits st'))" using d(1) st'(3) by simp
  show "(X(f := X f - 1)) g = 0" if "futexes st g = None" for g using d(6)[OF that] by auto
  show "w_futex wt \<in> dom (futexes st)" if "waits st' v = Some wt" for v wt
    using that d(7)[of v wt] f(1) st'(3) by (auto split: if_splits)
qed (fact futex_invD[OF inv])+

lemma delete_wait:
  assumes inv: "futex_inv X st" and w: "waits st w = Some wt" "futexes st (w_futex wt) = Some fu" "w \<notin> set (f_queue fu)"
    and st': "futexes st' = futexes st" "futex_hash st' = futex_hash st" "waits st' = (waits st)(w := None)"
  shows "futex_inv (X(w_futex wt := X (w_futex wt) + 1)) st'"
proof (rule futex_invI, unfold st'(1,2))
  note d = futex_invD[OF inv]
  have wr: "w \<in> refs st (w_futex wt)" "\<And>g. g \<noteq> w_futex wt \<Longrightarrow> w \<notin> refs st g" using w(1) by (auto simp: refs_def)
  show "entry_ok (X(w_futex wt := X (w_futex wt) + 1)) st' g gu" if g: "futexes st g = Some gu" for g gu
  proof (cases "g = w_futex wt")
    case True
    then have "gu = fu" using g w(2) by simp
    moreover have "card (refs st g) = Suc (card (refs st g - {w}))"
      using card.remove[OF finite_futex_refs[OF inv], of w g] wr(1) True by simp
    ultimately show ?thesis
      using d(5)[OF g] refs_delete[OF st'(3), of g] w(3) True by (auto simp: entry_ok_def)
  next
    case False
    then show ?thesis using d(5)[OF g] refs_delete[OF st'(3), of g] wr(2)[OF False] by (auto simp: entry_ok_def)
  qed
  show "finite (dom (waits st'))" using d(1) st'(3) by simp
  show "(X(w_futex wt := X (w_futex wt) + 1)) g = 0" if "futexes st g = None" for g using d(6)[OF that] w(2) that by auto
  show "w_futex wt' \<in> dom (futexes st)" if "waits st' v = Some wt'" for v wt'
    using that d(7)[of v wt'] st'(3) by (auto split: if_splits)
qed (fact futex_invD[OF inv])+

lemma wait_begin_refines:
  assumes ok: "futexes_ok st" and a: "futexes st a = None" and w: "waits st w = None" and p: "futex_pipe st task \<noteq> None \<or> pipe_ok"
  shows "\<exists>st'. futex_wait_begin (Some a) mem uaddr (Some val) val pipe_ok task w st = Some (Inr w, st') \<and> futexes_ok st' \<and>
    queue_at st' = (queue_at st)((mem, uaddr) := queue_at st (mem, uaddr) @ [w]) \<and> futex_pipe st' = (futex_pipe st)(task \<mapsto> 0) \<and>
    dom (waits st') = insert w (dom (waits st))"
proof -
  obtain f s1 fu where s1: "futex_get (Some a) mem uaddr st = Some (Some f, s1)" "futex_inv ((\<lambda>_. 0)(f := 1)) s1" "futexes s1 f = Some fu"
    "f_mem fu = mem" "f_addr fu = uaddr" "f_queue fu = queue_at st (mem, uaddr)" "queue_at s1 = queue_at st" "waits s1 = waits st"
    "futex_pipe s1 = futex_pipe st" "futex_lock s1"
    by (rule get_ok[OF ok a, of mem uaddr]) blast
  let ?s2 = "s1\<lparr>futex_pipe := (futex_pipe s1)(task \<mapsto> 0), waits := (waits s1)(w \<mapsto> \<lparr>w_futex = f, w_task = task\<rparr>)\<rparr>"
  let ?u = "\<lambda>fu. fu\<lparr>f_queue := f_queue fu @ [w]\<rparr>"
  have s2: "futex_inv (((\<lambda>_. 0)(f := 1))(f := ((\<lambda>_. 0)(f := 1)) f - 1)) ?s2" "futexes ?s2 f = Some fu"
    by (rule add_wait[OF s1(2,3), of w ?s2 task]) (use s1(3,8) w in simp_all)
  have X: "((\<lambda>_. 0)(f := 1))(f := ((\<lambda>_. 0)(f := 1)) f - 1) = (\<lambda>_. 0 :: nat)" by auto
  have e: "entry_ok (\<lambda>_. 0) ?s2 f fu" by (rule inv_entry[OF s2(1)[unfolded X] s2(2)])
  have wq: "w \<notin> set (f_queue fu)" "w \<in> refs ?s2 f"
    using inv_entry[OF s1(2,3)] w s1(8) by (auto simp: entry_ok_def refs_def)
  have s3: "futex_inv (\<lambda>_. 0) (set_futex f ?u ?s2)"
    by (rule inv_set_futex[OF s2(1)[unfolded X] s2(2)]) (use e wq in \<open>auto simp: entry_ok_def\<close>)
  have q: "queue_at (set_futex f ?u ?s2) = (queue_at ?s2)((f_mem fu, f_addr fu) := f_queue (?u fu))"
    by (rule queue_at_update[OF s2(1)[unfolded X] s3 s2(2)]) (use s2(2) in auto)
  have "queue_at ?s2 = queue_at s1" by (rule queue_at_same) simp_all
  moreover have "futex_wait_begin (Some a) mem uaddr (Some val) val pipe_ok task w st = Some (Inr w, (set_futex f ?u ?s2)\<lparr>futex_lock := False\<rparr>)"
    using s1(1,9,10) p by (auto simp: futex_wait_begin_def unlock_futexes_def)
  ultimately show ?thesis
    using s3 q s1(4-9) by (intro exI[of _ "(set_futex f ?u ?s2)\<lparr>futex_lock := False\<rparr>"]) (simp add: futexes_ok_def)
qed

lemma put_waits_commute:
  "futex_put_unlocked f (st\<lparr>waits := W\<rparr>) = map_option (\<lambda>s. s\<lparr>waits := W\<rparr>) (futex_put_unlocked f st)"
  by (cases "futexes st f") (auto simp: futex_put_unlocked_def set_futex_def Let_def)

lemma put_unlocked_frame: "futex_put_unlocked f st = Some st' \<Longrightarrow> waits st' = waits st \<and> futex_lock st' = futex_lock st"
  by (auto simp: futex_put_unlocked_def Let_def bind_eq_Some_conv split: if_splits)

lemma queue_refs:
  assumes "futex_inv X st" "x \<in> set (queue_at st (m, a))"
  obtains g where "is_futex_at st m a g" "x \<in> refs st g"
proof -
  obtain g where g: "is_futex_at st m a g" using queue_at_none[OF assms(1), of m a] assms(2) by fastforce
  then obtain gu where gu: "futexes st g = Some gu" by (auto simp: is_futex_at_def split: option.splits)
  have "x \<in> set (f_queue gu)" using queue_at_eq[OF assms(1) g] assms(2) gu by simp
  then show thesis using that[OF g] inv_entry[OF assms(1) gu] by (auto simp: entry_ok_def)
qed

lemma wait_end_refines:
  assumes ok: "futexes_ok st" and w: "waits st w = Some wt"
  shows "\<exists>st'. futex_wait_end w st = Some st' \<and> futexes_ok st' \<and> queue_at st' = (\<lambda>key. remove1 w (queue_at st key)) \<and>
    futex_pipe st' = futex_pipe st \<and> waits st' = (waits st)(w := None)"
proof -
  let ?f = "w_futex wt" and ?u = "\<lambda>fu. fu\<lparr>f_queue := remove1 w (f_queue fu)\<rparr>" and ?W = "(waits st)(w := None)"
  have inv: "futex_inv (\<lambda>_. 0) st" and l: "\<not> futex_lock st" using ok by (simp_all add: futexes_ok_def)
  obtain fu where fu: "futexes st ?f = Some fu" using futex_invD(7)[OF inv w] by blast
  have e: "distinct (f_queue fu)" using inv_entry[OF inv fu] by (simp add: entry_ok_def)
  define s1 where "s1 = set_futex ?f ?u (st\<lparr>futex_lock := True\<rparr>)"
  have s1: "futex_inv (\<lambda>_. 0) s1" "futexes s1 ?f = Some (?u fu)" "waits s1 = waits st" "futex_pipe s1 = futex_pipe st" "futex_lock s1"
    using inv_queue_shrinks[of "\<lambda>_. 0" "st\<lparr>futex_lock := True\<rparr>" ?f fu w] inv fu by (simp_all add: s1_def)
  have q1: "queue_at s1 = (queue_at st)((f_mem fu, f_addr fu) := remove1 w (f_queue fu))"
    using queue_at_update[OF inv s1(1) fu s1(2)] by (simp add: s1_def)
  have "queue_at s1 = (\<lambda>key. remove1 w (queue_at st key))"
  proof
    fix key :: "nat \<times> nat"
    obtain m a where key: "key = (m, a)" by fastforce
    have at: "is_futex_at st (f_mem fu) (f_addr fu) ?f" using fu by (simp add: is_futex_at_def)
    show "queue_at s1 key = remove1 w (queue_at st key)"
    proof (cases "key = (f_mem fu, f_addr fu)")
      case True
      then show ?thesis using q1 queue_at_eq[OF inv at] fu by simp
    next
      case False
      have "w \<notin> set (queue_at st (m, a))"
      proof
        assume "w \<in> set (queue_at st (m, a))"
        then obtain g where "is_futex_at st m a g" "w \<in> refs st g" by (rule queue_refs[OF inv])
        then show False using w fu False key by (auto simp: refs_def is_futex_at_def)
      qed
      then show ?thesis using q1 False key by (auto simp: remove1_idem)
    qed
  qed
  note q1' = this
  have "futex_inv ((\<lambda>_. 0)(?f := 0 + 1)) (s1\<lparr>waits := ?W\<rparr>)"
    by (rule delete_wait[OF s1(1) _ s1(2)]) (use w s1 e in auto)
  then obtain s2 where s2: "futex_put_unlocked ?f (s1\<lparr>waits := ?W\<rparr>) = Some s2"
    "futex_inv (((\<lambda>_. 0)(?f := 0 + 1))(?f := ((\<lambda>_. 0)(?f := 0 + 1)) ?f - 1)) s2" "same_waits (s1\<lparr>waits := ?W\<rparr>) s2"
    by (rule put_unlocked_ok[of _ _ ?f]) auto
  have X: "((\<lambda>_. 0)(?f := 0 + 1))(?f := ((\<lambda>_. 0)(?f := 0 + 1)) ?f - 1) = (\<lambda>_. 0 :: nat)" by auto
  obtain s3 where s3: "futex_put_unlocked ?f s1 = Some s3" "s3\<lparr>waits := ?W\<rparr> = s2"
    using s2(1) unfolding put_waits_commute by blast
  have same: "waits s3 = waits st" "futex_lock s3"
    using put_unlocked_frame[OF s3(1)] s1(3,5) by simp_all
  have "futex_wait_end w st = Some (s2\<lparr>futex_lock := False\<rparr>)"
    using l w s3 same by (simp add: futex_wait_end_def lock_futexes_def unlock_futexes_def s1_def)
  moreover have "queue_at s2 = queue_at s1" "waits s2 = ?W" "futex_pipe s2 = futex_pipe st"
    using s2(3) s1(4) queue_at_same[of "s1\<lparr>waits := ?W\<rparr>" s1] by (simp_all add: same_waits_def)
  ultimately show ?thesis
    using s2(2)[unfolded X] q1' by (intro exI[of _ "s2\<lparr>futex_lock := False\<rparr>"]) (simp add: futexes_ok_def)
qed

section \<open>Properties\<close>

definition no_futexes :: futex_state where
  "no_futexes = \<lparr>futex_lock = False, futex_hash = (\<lambda>_. []), futexes = Map.empty, waits = Map.empty, futex_pipe = Map.empty\<rparr>"

lemma no_futexes_ok: "futexes_ok no_futexes" "queue_at no_futexes = (\<lambda>_. [])"
  by (auto simp: futexes_ok_def futex_inv_def no_futexes_def queue_at_def)

text \<open>C7: The futex table implements one first-in first-out queue of waiting threads per address space and address, with exact reference
  counts and the lock free between calls.  Waiting on the expected value appends the thread; waking takes the first
  waiters, at most as many as asked for, writes one byte to the pipe of each and returns their number; requeueing to another address also moves the
  next waiters to the end of that address's queue; and a wait that ends takes its thread out of whichever queue it is in by then.\<close>

theorem futex_calls_refine_queues:
  assumes ok: "futexes_ok st" and a: "futexes st a = None" "futexes st a2 = None" "a \<noteq> a2"
    and q: "q = queue_at st (mem, uaddr)" and n: "n = min k (length q)" and m: "m = min k2 (length q - n)"
  shows "(\<exists>st'. futex_wakelike (Some a) None mem FUTEX_WAKE uaddr k 0 0 st = Some (n, st') \<and> futexes_ok st' \<and>
      queue_at st' = (queue_at st)((mem, uaddr) := drop n q) \<and>
      futex_pipe st' = (\<lambda>t. map_option (\<lambda>b. b + wakeups st (take n q) t) (futex_pipe st t))) \<and>
    (uaddr \<noteq> uaddr2 \<longrightarrow>
      (\<exists>st'. futex_wakelike (Some a) (Some a2) mem FUTEX_REQUEUE uaddr k k2 uaddr2 st = Some (n + m, st') \<and> futexes_ok st' \<and>
      queue_at st' = (queue_at st)((mem, uaddr) := drop (n + m) q, (mem, uaddr2) := queue_at st (mem, uaddr2) @ take m (drop n q)) \<and>
      futex_pipe st' = (\<lambda>t. map_option (\<lambda>b. b + wakeups st (take n q) t) (futex_pipe st t)))) \<and>
    (waits st w = None \<and> (futex_pipe st task \<noteq> None \<or> pipe_ok) \<longrightarrow>
      (\<exists>st'. futex_wait_begin (Some a) mem uaddr (Some val) val pipe_ok task w st = Some (Inr w, st') \<and> futexes_ok st' \<and>
      queue_at st' = (queue_at st)((mem, uaddr) := q @ [w]) \<and> futex_pipe st' = (futex_pipe st)(task \<mapsto> 0))) \<and>
    (waits st v = Some vt \<longrightarrow>
      (\<exists>st'. futex_wait_end v st = Some st' \<and> futexes_ok st' \<and> queue_at st' = (\<lambda>key. remove1 v (queue_at st key))))"
proof (intro conjI impI, goal_cases)
  case 1
  then show ?case using wake_refines[OF ok a(1) q n, of None] by blast
next
  case 2
  then show ?case using requeue_refines[OF ok a _ q n m] by blast
next
  case 3
  then show ?case using wait_begin_refines[OF ok a(1), of w task pipe_ok mem uaddr val] unfolding q by blast
next
  case 4
  then show ?case using wait_end_refines[OF ok, of v vt] by blast
qed

theorem futex_calls_refine_queues_witness:
  "\<exists>st. futex_wait_begin (Some 1) 5 64 (Some 7) 7 True 2 9 no_futexes = Some (Inr 9, st) \<and> queue_at st = (\<lambda>_. [])((5, 64) := [9])"
proof -
  have "futexes no_futexes 1 = None" "futexes no_futexes 2 = None" "waits no_futexes 9 = None" "[] = queue_at no_futexes (5, 64)"
    by (simp_all add: no_futexes_def no_futexes_ok[unfolded no_futexes_def])
  with futex_calls_refine_queues[OF no_futexes_ok(1), of 1 2 "[]" 5 64 0 0 0 0 0 9 2 True 7 0] no_futexes_ok(2) show ?thesis
    by auto
qed

text \<open>Taking a reference and giving it back leaves the state as it was.\<close>

lemma get_put_same:
  assumes ok: "futexes_ok st" and a: "futexes st a = None"
  obtains f st' where "futex_get (Some a) mem addr st = Some (Some f, st')" "futex_put f st' = Some st" "futex_pipe st' = futex_pipe st"
proof -
  have inv: "futex_inv (\<lambda>_. 0) st" and l: "\<not> futex_lock st" using ok by (simp_all add: futexes_ok_def)
  let ?s = "st\<lparr>futex_lock := True\<rparr>"
  have at: "is_futex_at ?s = is_futex_at st" by (simp add: is_futex_at_def fun_eq_iff)
  show thesis
  proof (cases "find (is_futex_at st mem addr) (futex_hash st (futex_bucket mem addr))")
    case (Some f)
    then obtain fu where fu: "futexes st f = Some fu" using find_futex[OF inv] by (auto simp: is_futex_at_def split: option.splits)
    have pos: "0 < f_refcount fu" using inv_entry[OF inv fu] by (simp add: entry_ok_def)
    let ?s' = "set_futex f (\<lambda>fu. fu\<lparr>f_refcount := f_refcount fu + 1\<rparr>) ?s"
    have "futex_get (Some a) mem addr st = Some (Some f, ?s')"
      using Some l by (simp add: futex_get_def lock_futexes_def futex_get_unlocked_def at Let_def)
    moreover have "(futexes st)(f \<mapsto> fu) = futexes st" using fu by auto
    then have "futex_put f ?s' = Some st"
      using fu pos l by (simp add: futex_put_def futex_put_unlocked_def unlock_futexes_def set_futex_def)
    ultimately show thesis using that by simp
  next
    case None
    let ?k = "futex_bucket mem addr"
    let ?s' = "?s\<lparr>futexes := (futexes st)(a \<mapsto> \<lparr>f_refcount = 1, f_mem = mem, f_addr = addr, f_queue = []\<rparr>), futex_hash := (futex_hash st)(?k := a # futex_hash st ?k)\<rparr>"
    have "futex_get (Some a) mem addr st = Some (Some a, ?s')"
      using None l by (simp add: futex_get_def lock_futexes_def futex_get_unlocked_def at Let_def)
    moreover have "(futexes st)(a := None) = futexes st" using a by auto
    then have "futex_put a ?s' = Some st"
      using l by (simp add: futex_put_def futex_put_unlocked_def unlock_futexes_def Let_def)
    ultimately show thesis using that by simp
  qed
qed

lemma op_code_mask: "drop_bit 28 (x :: 32 word) AND NOT 8 = drop_bit 28 x AND 7"
proof (rule bit_word_eqI)
  fix n
  assume n: "n < LENGTH(32)"
  have "(8 :: 32 word) = 2 ^ 3" "(7 :: 32 word) = mask 3" by (simp_all add: mask_eq_exp_minus_1)
  moreover have "bit x (28 + n) \<Longrightarrow> n < 4" using bit_imp_le_length[of x "28 + n"] by simp
  ultimately show "bit (drop_bit 28 x AND NOT 8) n = bit (drop_bit 28 x AND 7) n"
    using n by (simp only: bit_and_iff bit_not_iff bit_drop_bit_eq comp_def bit_exp_iff bit_mask_iff) auto
qed



section \<open>Defects\<close>

text \<open>When memory runs out, \<^verbatim>\<open>futex_get_unlocked\<close> releases the lock and \<^verbatim>\<open>futex_get\<close> releases it again.\<close>

lemma futex_get_unlocks_twice:
  assumes "futexes_ok st" "\<And>f. \<not> is_futex_at st mem addr f"
  shows "futex_get None mem addr st = None"
proof -
  have "is_futex_at (st\<lparr>futex_lock := True\<rparr>) = is_futex_at st" by (simp add: is_futex_at_def fun_eq_iff)
  then show ?thesis
    using assms find_no_futex[of "\<lambda>_. 0" st mem addr]
    by (simp add: futex_get_def lock_futexes_def unlock_futexes_def futex_get_unlocked_def futexes_ok_def Let_def)
qed

text \<open>Two threads that wait on one address are requeued to that same address over and over, as often as the limit allows.\<close>

definition two_waiters :: futex_state where
  "two_waiters = \<lparr>futex_lock = False, futex_hash = (\<lambda>k. if k = futex_bucket 5 64 then [1] else []),
    futexes = [1 \<mapsto> \<lparr>f_refcount = 2, f_mem = 5, f_addr = 64, f_queue = [8, 9]\<rparr>],
    waits = [8 \<mapsto> \<lparr>w_futex = 1, w_task = 2\<rparr>, 9 \<mapsto> \<lparr>w_futex = 1, w_task = 3\<rparr>], futex_pipe = [2 \<mapsto> 0, 3 \<mapsto> 0]\<rparr>"

lemma requeue_same_address_repeats:
  "map_option fst (futex_wakelike None None 5 FUTEX_REQUEUE 64 0 6 64 two_waiters) = Some 6"
  by (simp add: two_waiters_def futex_wakelike_def futex_get_def lock_futexes_def futex_get_unlocked_def is_futex_at_def set_futex_def
      futex_wake_queue_def futex_requeue_def requeue_loop.simps requeue_one_def futex_put_unlocked_def futex_put_def unlock_futexes_def Let_def)

text \<open>A thread that was woken reports that its time ran out, when it finds the deadline passed before it looks at its pipe.\<close>

lemma wakeup_lost_at_deadline:
  "futex_wait_loop 5000000 v [\<lparr>now_ns = 4500000, readable = True, group_exit = False, sig_pending = False, value_now = Some v\<rparr>] = Some ETIMEDOUT"
  by simp

text \<open>A deadline on the monotonic clock, which \<^verbatim>\<open>FUTEX_WAIT_BITSET\<close> takes without \<^verbatim>\<open>FUTEX_CLOCK_REALTIME\<close>, has always passed on the other clock.\<close>

lemma monotonic_deadline_expires:
  "0 \<le> snd deadline \<Longrightarrow> snd deadline < 1000000000 \<Longrightarrow> 0 \<le> snd now \<Longrightarrow> snd now < 1000000000 \<Longrightarrow> fst deadline < fst now \<Longrightarrow>
    relative_timeout True deadline now = (0, 0)"
  by (auto simp: relative_timeout_def Let_def)

end
