(* ===== verification/Tty.thy ===== *)
theory Tty
  imports Ish_Prelude
begin

text \<open>
  The line discipline of terminals (fs/tty.c): input with editing, echo and signals in canonical mode, raw input, reading, output
  processing, polling and the calls that change the modes.  The buffer and its flags are arrays of 4096 elements; an access outside
  them or a failed assertion is \<^verbatim>\<open>Undefined\<close>.  Where the code lets go of the lock of the terminal, other threads act: a list of steps says
  for each such place what \<^verbatim>\<open>wait_for\<close> returns, given its timeout in tenths of a second, and what the others did to the terminal.  A call
  that waits when the list is empty is \<^verbatim>\<open>Waiting\<close>; at the other places nobody acts then.  Type \<^verbatim>\<open>char\<close> is signed, as on Apple and x86 hosts.
\<close>

section \<open>Terminals\<close>

abbreviation (input) TTY_BUF_SIZE :: nat where "TTY_BUF_SIZE \<equiv> 4096"
abbreviation (input) VINTR :: nat where "VINTR \<equiv> 0"
abbreviation (input) VQUIT :: nat where "VQUIT \<equiv> 1"
abbreviation (input) VERASE :: nat where "VERASE \<equiv> 2"
abbreviation (input) VKILL :: nat where "VKILL \<equiv> 3"
abbreviation (input) VEOF :: nat where "VEOF \<equiv> 4"
abbreviation (input) VTIME :: nat where "VTIME \<equiv> 5"
abbreviation (input) VMIN :: nat where "VMIN \<equiv> 6"
abbreviation (input) VSTART :: nat where "VSTART \<equiv> 8"
abbreviation (input) VSTOP :: nat where "VSTOP \<equiv> 9"
abbreviation (input) VSUSP :: nat where "VSUSP \<equiv> 10"
abbreviation (input) VEOL :: nat where "VEOL \<equiv> 11"

record termios =
  t_iflags :: "32 word"
  t_oflags :: "32 word"
  t_cflags :: "32 word"
  t_lflags :: "32 word"
  t_line :: byte
  t_cc :: "nat \<Rightarrow> byte"

record winsize =
  ws_row :: "16 word"
  ws_col :: "16 word"
  ws_xpixel :: "16 word"
  ws_ypixel :: "16 word"

text \<open>
  \<^verbatim>\<open>written\<close> is what was given to the driver, \<^verbatim>\<open>produced\<close> and \<^verbatim>\<open>consumed\<close> how often those conditions were notified.  The fields \<^verbatim>\<open>other_...\<close> are
  those of the other side of a pseudoterminal that the code reads.
\<close>

record tty =
  is_master :: bool
  hung_up :: bool
  tbuf :: "nat \<Rightarrow> byte"
  buf_flag :: "nat \<Rightarrow> bool"
  bufsize :: nat
  packet_flags :: byte
  packet_mode :: bool
  tty_termios :: termios
  tty_winsize :: winsize
  fg_group :: nat
  other_ever_opened :: bool
  other_refcount :: nat
  other_hung_up :: bool
  written :: "byte list"
  produced :: nat
  consumed :: nat

abbreviation (input) ISIG :: "32 word" where "ISIG \<equiv> 1"
abbreviation (input) ICANON :: "32 word" where "ICANON \<equiv> 2"
abbreviation (input) ECHO :: "32 word" where "ECHO \<equiv> 8"
abbreviation (input) ECHOE :: "32 word" where "ECHOE \<equiv> 16"
abbreviation (input) ECHOK :: "32 word" where "ECHOK \<equiv> 32"
abbreviation (input) NOFLSH :: "32 word" where "NOFLSH \<equiv> 128"
abbreviation (input) ECHOCTL :: "32 word" where "ECHOCTL \<equiv> 512"
abbreviation (input) INLCR :: "32 word" where "INLCR \<equiv> 64"
abbreviation (input) IGNCR :: "32 word" where "IGNCR \<equiv> 128"
abbreviation (input) ICRNL :: "32 word" where "ICRNL \<equiv> 256"
abbreviation (input) OPOST :: "32 word" where "OPOST \<equiv> 1"
abbreviation (input) ONLCR :: "32 word" where "ONLCR \<equiv> 4"
abbreviation (input) OCRNL :: "32 word" where "OCRNL \<equiv> 8"
abbreviation (input) ONLRET :: "32 word" where "ONLRET \<equiv> 32"

definition has_flag :: "32 word \<Rightarrow> 32 word \<Rightarrow> bool" where
  "has_flag flags f = (flags AND f \<noteq> 0)"

text \<open>Comparing a \<^verbatim>\<open>char\<close> with an \<^verbatim>\<open>unsigned char\<close> of the control characters.\<close>

definition is_cc :: "tty \<Rightarrow> nat \<Rightarrow> byte \<Rightarrow> bool" where
  "is_cc t i ch = (sint ch = uint (t_cc (tty_termios t) i))"

datatype 'a run = Waiting | Undefined | Done 'a

fun run_bind :: "'a run \<Rightarrow> ('a \<Rightarrow> 'b run) \<Rightarrow> 'b run" where
  "run_bind Waiting f = Waiting"
| "run_bind Undefined f = Undefined"
| "run_bind (Done x) f = f x"

text \<open>The fields that \<^verbatim>\<open>malloc\<close> leaves undefined keep the values of the argument.\<close>

definition tty_alloc :: "bool \<Rightarrow> tty \<Rightarrow> tty" where
  "tty_alloc master mem = mem\<lparr>is_master := master, hung_up := False, fg_group := 0,
    tty_termios := (tty_termios mem)\<lparr>t_iflags := ICRNL OR 1024, t_oflags := OPOST OR ONLCR, t_cflags := 0,
      t_lflags := ISIG OR ICANON OR ECHO OR ECHOE OR ECHOK OR ECHOCTL OR 64 OR 32768,
      t_cc := (!) [3, 28, 127, 21, 4, 0, 1, 0, 17, 19, 26, 0, 18, 15, 23, 22, 0, 0, 0]\<rparr>,
    tty_winsize := \<lparr>ws_row = 0, ws_col = 0, ws_xpixel = 0, ws_ypixel = 0\<rparr>,
    buf_flag := (\<lambda>_. False), bufsize := 0, packet_flags := 0\<rparr>"

type_synonym others = "(nat option \<Rightarrow> int \<times> (tty \<Rightarrow> tty)) list"

section \<open>Input\<close>

text \<open>The lock is released while the files of the terminal are woken.\<close>

fun tty_input_wakeup :: "others \<Rightarrow> tty \<Rightarrow> others \<times> tty" where
  "tty_input_wakeup [] t = ([], t\<lparr>produced := produced t + 1\<rparr>)"
| "tty_input_wakeup (e # ws) t = (ws, snd (e None) (t\<lparr>produced := produced t + 1\<rparr>))"

fun tty_push_char :: "byte \<Rightarrow> bool \<Rightarrow> bool \<Rightarrow> others \<Rightarrow> tty \<Rightarrow> (int \<times> others \<times> tty) run" where
  "tty_push_char ch flag blocking ws t =
    (if bufsize t \<ge> TTY_BUF_SIZE then
      (if \<not> blocking then Done (EAGAIN, ws, t)
       else (case ws of [] \<Rightarrow> Waiting
         | e # ws' \<Rightarrow> (case e None of (err, f) \<Rightarrow> if err \<noteq> 0 then Done (EINTR, ws', f t) else tty_push_char ch flag blocking ws' (f t))))
     else Done (0, ws, t\<lparr>tbuf := (tbuf t)(bufsize t := ch), buf_flag := (buf_flag t)(bufsize t := flag), bufsize := bufsize t + 1\<rparr>))"

declare tty_push_char.simps [simp del]

definition tty_echo :: "byte list \<Rightarrow> tty \<Rightarrow> tty" where
  "tty_echo data t = t\<lparr>written := written t @ data\<rparr>"

text \<open>The signals to send are collected in a set.\<close>

definition tty_send_input_signal :: "byte \<Rightarrow> tty \<times> nat set \<Rightarrow> bool \<times> tty \<times> nat set" where
  "tty_send_input_signal ch tq = (case tq of (t, queue) \<Rightarrow>
    let lflags = t_lflags (tty_termios t);
        send = (\<lambda>sig. if fg_group t \<noteq> 0
          then (True, if \<not> has_flag lflags NOFLSH then t\<lparr>bufsize := 0\<rparr> else t, insert sig queue)
          else (True, t, queue))
    in if \<not> has_flag lflags ISIG then (False, t, queue)
       else if ch = 0 then (False, t, queue)
       else if is_cc t VINTR ch then send 2
       else if is_cc t VQUIT ch then send 3
       else if is_cc t VSUSP ch then send 20
       else (False, t, queue))"

text \<open>The flags are those read when the input began; the control characters are the present ones.\<close>

definition should_echoctl :: "32 word \<Rightarrow> tty \<Rightarrow> byte \<Rightarrow> bool" where
  "should_echoctl lflags t ch \<longleftrightarrow> has_flag lflags ECHOCTL \<and> (0 \<le> sint ch \<and> sint ch < 32 \<or> ch = 127) \<and>
    \<not> (ch = 9 \<or> ch = 10 \<or> is_cc t VSTART ch \<or> is_cc t VSTOP ch)"

fun erase_loop :: "32 word \<Rightarrow> bool \<Rightarrow> nat \<Rightarrow> tty \<Rightarrow> tty run" where
  "erase_loop lflags echo 0 t = Done t"
| "erase_loop lflags echo (Suc count) t =
    (if bufsize t = 0 \<or> bufsize t > TTY_BUF_SIZE then Undefined
     else if buf_flag t (bufsize t - 1) then Done t
     else (let t1 = t\<lparr>bufsize := bufsize t - 1\<rparr>;
               t2 = (if echo then tty_echo [8, 32, 8] t1 else t1);
               t3 = (if echo \<and> should_echoctl lflags t2 (tbuf t2 (bufsize t2)) then tty_echo [8, 32, 8] t2 else t2)
           in erase_loop lflags echo count t3))"

definition map_input_char :: "32 word \<Rightarrow> byte \<Rightarrow> byte" where
  "map_input_char iflags ch =
    (if has_flag iflags INLCR \<and> ch = 10 then 13 else if has_flag iflags ICRNL \<and> ch = 13 then 10 else ch)"

definition echo_char :: "32 word \<Rightarrow> bool \<Rightarrow> byte \<Rightarrow> tty \<Rightarrow> tty" where
  "echo_char lflags echo ch t =
    (if \<not> echo then t
     else if should_echoctl lflags t ch then tty_echo [ch XOR 64] (tty_echo [94] t)
     else tty_echo [ch] t)"

text \<open>The labels \<^verbatim>\<open>canon_wake\<close> and \<^verbatim>\<open>no_special\<close>, then one character in canonical mode: the error (0 for none), and the state.\<close>

definition canon_wake :: "bool \<Rightarrow> byte \<Rightarrow> others \<Rightarrow> tty \<Rightarrow> (int \<times> others \<times> tty) run" where
  "canon_wake blocking ch ws t = run_bind (tty_push_char ch True blocking ws t) (\<lambda>(err, ws, t).
    if err < 0 then Done (err, ws, t) else Done (0, tty_input_wakeup ws t))"

definition no_special :: "32 word \<Rightarrow> bool \<Rightarrow> byte \<Rightarrow> others \<Rightarrow> tty \<Rightarrow> (int \<times> others \<times> tty) run" where
  "no_special lflags blocking ch ws t = run_bind (tty_push_char ch False blocking ws t) (\<lambda>(err, ws, t).
    if err < 0 then Done (err, ws, t) else Done (0, ws, echo_char lflags (has_flag lflags ECHO) ch t))"

definition canon_char :: "32 word \<Rightarrow> 32 word \<Rightarrow> bool \<Rightarrow> byte \<Rightarrow> others \<Rightarrow> tty \<times> nat set \<Rightarrow> (int \<times> others \<times> tty \<times> nat set) run" where
  "canon_char iflags lflags blocking c ws tq = (case tq of (t, queue) \<Rightarrow>
    let ch = map_input_char iflags c;
        ret = (\<lambda>queue r. run_bind r (\<lambda>(err, ws, t). Done (err, ws, t, queue)))
    in
    if has_flag iflags IGNCR \<and> ch = 13 then Done (0, ws, t, queue)
    else if ch = 0 then ret queue (no_special lflags blocking ch ws t)
    else if is_cc t VERASE ch \<or> is_cc t VKILL ch then
      (let one = is_cc t VERASE ch \<and> bufsize t > 0;
           echo = has_flag lflags (if one then ECHOE else ECHOK) \<and> has_flag lflags ECHO;
           count = (if one then 1 else bufsize t)
       in run_bind (erase_loop lflags echo count t) (\<lambda>t. Done (0, ws, t, queue)))
    else if is_cc t VEOF ch then ret queue (canon_wake blocking 0 ws t)
    else if ch = 10 \<or> is_cc t VEOL ch then
      ret queue (canon_wake blocking ch ws (if has_flag lflags ECHO then tty_echo [13, 10] t else t))
    else
      (case tty_send_input_signal ch (t, queue) of
        (True, t, queue) \<Rightarrow> Done (0, ws, echo_char lflags (has_flag lflags ECHO) ch t, queue)
      | (False, t, queue) \<Rightarrow> ret queue (no_special lflags blocking ch ws t)))"

fun canon_loop :: "32 word \<Rightarrow> 32 word \<Rightarrow> bool \<Rightarrow> byte list \<Rightarrow> nat \<Rightarrow> others \<Rightarrow> tty \<times> nat set \<Rightarrow> (int \<times> nat \<times> others \<times> tty \<times> nat set) run" where
  "canon_loop iflags lflags blocking [] done_size ws tq = Done (0, done_size, ws, tq)"
| "canon_loop iflags lflags blocking (c # cs) done_size ws tq =
    run_bind (canon_char iflags lflags blocking c ws tq) (\<lambda>(err, ws, tq).
      if err < 0 then Done (err, done_size, ws, tq)
      else canon_loop iflags lflags blocking cs (done_size + 1) ws tq)"

text \<open>Raw input stores characters and leaves the flags as they are.\<close>

fun raw_push :: "bool \<Rightarrow> byte \<Rightarrow> others \<Rightarrow> tty \<Rightarrow> (int \<times> others \<times> tty) run" where
  "raw_push blocking ch ws t =
    (if bufsize t \<ge> TTY_BUF_SIZE then
      (if \<not> blocking then Done (EAGAIN, ws, t)
       else (case ws of [] \<Rightarrow> Waiting
         | e # ws' \<Rightarrow> (case e None of (err, f) \<Rightarrow> if err < 0 then Done (err, ws', f t) else raw_push blocking ch ws' (f t))))
     else Done (0, ws, t\<lparr>tbuf := (tbuf t)(bufsize t := ch), bufsize := bufsize t + 1\<rparr>))"

declare raw_push.simps [simp del]

fun raw_loop :: "bool \<Rightarrow> byte list \<Rightarrow> nat \<Rightarrow> others \<Rightarrow> tty \<times> nat set \<Rightarrow> (int \<times> nat \<times> others \<times> tty \<times> nat set) run" where
  "raw_loop blocking [] done_size ws tq = Done (0, done_size, ws, tq)"
| "raw_loop blocking (c # cs) done_size ws tq =
    (case tty_send_input_signal c tq of
      (True, tq) \<Rightarrow> raw_loop blocking cs (done_size + 1) ws tq
    | (False, t, queue) \<Rightarrow> run_bind (raw_push blocking c ws t) (\<lambda>(err, ws, t).
        if err < 0 then Done (err, done_size, ws, t, queue)
        else raw_loop blocking cs (done_size + 1) ws (t, queue)))"

text \<open>The result, the signals sent to the foreground group, and the terminal.\<close>

definition tty_input :: "byte list \<Rightarrow> bool \<Rightarrow> others \<Rightarrow> tty \<Rightarrow> (int \<times> nat list \<times> tty) run" where
  "tty_input input blocking ws t =
    run_bind
      (if has_flag (t_lflags (tty_termios t)) ICANON
       then canon_loop (t_iflags (tty_termios t)) (t_lflags (tty_termios t)) blocking input 0 ws (t, {})
       else run_bind (raw_loop blocking input 0 ws (t, {})) (\<lambda>(err, n, ws, t, queue).
         Done (if bufsize t > 0 then (case tty_input_wakeup ws t of (ws, t) \<Rightarrow> (err, n, ws, t, queue)) else (err, n, ws, t, queue))))
      (\<lambda>(err, done_size, ws, t, queue).
        if bufsize t > TTY_BUF_SIZE then Undefined
        else Done (if done_size > 0 then int done_size else err,
          if fg_group t \<noteq> 0 then filter (\<lambda>sig. sig \<in> queue) [1..<64] else [], t))"

section \<open>Reading\<close>

definition tty_read_into_buf :: "nat \<Rightarrow> tty \<Rightarrow> (byte list \<times> tty) run" where
  "tty_read_into_buf n t =
    (if n > bufsize t \<or> bufsize t > TTY_BUF_SIZE then Undefined
     else (let left = bufsize t - n in
       Done (map (tbuf t) [0..<n], t\<lparr>bufsize := left,
         tbuf := (\<lambda>i. if i < left then tbuf t (i + n) else tbuf t i),
         buf_flag := (\<lambda>i. if i < left then buf_flag t (i + n) else buf_flag t i),
         consumed := consumed t + 1\<rparr>)))"

definition tty_canon_size :: "tty \<Rightarrow> nat option" where
  "tty_canon_size t = map_option Suc (find (buf_flag t) [0..<bufsize t])"

definition pty_is_half_closed_master :: "tty \<Rightarrow> bool" where
  "pty_is_half_closed_master t \<longleftrightarrow>
    is_master t \<and> other_ever_opened t \<and> (other_refcount t = 1 \<or> other_hung_up t)"

text \<open>
  What a call finds of its process and its file: whether the terminal is its controlling one, its process group, whether
  \<^verbatim>\<open>try_self_signal\<close> accepts the signal, and whether the file is non-blocking.
\<close>

record tty_env =
  te_current :: bool
  te_pgid :: nat
  te_signalled :: bool
  te_nonblock :: bool

definition tty_signal_if_background :: "tty_env \<Rightarrow> tty \<Rightarrow> int" where
  "tty_signal_if_background e t =
    (if \<not> te_current e then 0
     else if fg_group t = 0 \<or> te_pgid e = fg_group t then 0
     else if \<not> te_signalled e then EIO else EINTR)"

fun wait_canon :: "bool \<Rightarrow> others \<Rightarrow> tty \<Rightarrow> ((int + nat) \<times> tty) run" where
  "wait_canon nonblock ws t =
    (case tty_canon_size t of Some n \<Rightarrow> Done (Inr n, t)
     | None \<Rightarrow>
      if pty_is_half_closed_master t then Done (Inl EIO, t)
      else if nonblock then Done (Inl EAGAIN, t)
      else (case ws of [] \<Rightarrow> Waiting
        | w # ws' \<Rightarrow> (case w None of (err, f) \<Rightarrow> if err < 0 then Done (Inl err, f t) else wait_canon nonblock ws' (f t))))"

declare wait_canon.simps [simp del]

text \<open>There is no timeout for the first character.\<close>

fun wait_min :: "bool \<Rightarrow> nat \<Rightarrow> nat \<Rightarrow> others \<Rightarrow> tty \<Rightarrow> (int \<times> tty) run" where
  "wait_min nonblock least time ws t =
    (if bufsize t \<ge> least then Done (0, t)
     else if pty_is_half_closed_master t then Done (EIO, t)
     else if nonblock then Done (EAGAIN, t)
     else (case ws of [] \<Rightarrow> Waiting
        | w # ws' \<Rightarrow> (case w (if bufsize t = 0 \<or> time = 0 then None else Some time) of (err, f) \<Rightarrow>
            if err = ETIMEDOUT then Done (0, f t)
            else if err = EINTR then Done (EINTR, f t)
            else wait_min nonblock least time ws' (f t))))"

declare wait_min.simps [simp del]

definition tty_read_data :: "nat \<Rightarrow> tty \<Rightarrow> (byte list \<times> tty) run" where
  "tty_read_data n t = run_bind (tty_read_into_buf (min n (bufsize t)) t) (\<lambda>(data, t).
    if bufsize t > 0 \<and> tbuf t 0 = 0 \<and> buf_flag t 0
    then run_bind (tty_read_into_buf 1 t) (\<lambda>(dummy, t). Done (data, t))
    else Done (data, t))"

text \<open>The wait loops: an error, or how much of the buffer may be read.\<close>

definition tty_read_wait :: "bool \<Rightarrow> nat \<Rightarrow> others \<Rightarrow> tty \<Rightarrow> ((int + nat) \<times> tty) run" where
  "tty_read_wait nonblock n ws t =
    (if has_flag (t_lflags (tty_termios t)) ICANON then
       run_bind (wait_canon nonblock ws t) (\<lambda>(r, t). case r of
         Inl err \<Rightarrow> Done (Inl err, t)
       | Inr canon_size \<Rightarrow>
           if canon_size = 0 \<or> canon_size > TTY_BUF_SIZE then Undefined
           else Done (Inr (min n (if tbuf t (canon_size - 1) = 0 then canon_size - 1 else canon_size)), t))
     else
       run_bind (wait_min nonblock (unat (t_cc (tty_termios t) VMIN)) (unat (t_cc (tty_termios t) VTIME)) ws t) (\<lambda>(err, t).
         Done (if err < 0 then Inl err else Inr n, t)))"

definition tty_read :: "tty_env \<Rightarrow> nat \<Rightarrow> others \<Rightarrow> tty \<Rightarrow> ((int + byte list) \<times> tty) run" where
  "tty_read e n ws t =
    (if n = 0 then Done (Inr [], t)
     else if hung_up t \<or> pty_is_half_closed_master t then Done (Inr [], t)
     else if tty_signal_if_background e t < 0 then Done (Inl (tty_signal_if_background e t), t)
     else
      (let packet = is_master t \<and> packet_mode t;
           extra = (if packet then [packet_flags t] else []);
           m = (if packet then n - 1 else n)
       in if packet \<and> (packet_flags t \<noteq> 0 \<or> m = 0) then Done (Inr extra, t)
          else run_bind (tty_read_wait (te_nonblock e) m ws t) (\<lambda>(r, t). case r of
              Inl err \<Rightarrow> Done (Inl err, t)
            | Inr k \<Rightarrow> run_bind (tty_read_data k t) (\<lambda>(data, t). Done (Inr (extra @ data), t)))))"

section \<open>Output, polling and modes\<close>

text \<open>The buffer for the processed output has room for \<^verbatim>\<open>cap\<close> characters.\<close>

definition post_store :: "nat \<Rightarrow> byte \<Rightarrow> byte list \<Rightarrow> byte list run" where
  "post_store cap ch postbuf = (if length postbuf < cap then Done (postbuf @ [ch]) else Undefined)"

fun post_loop :: "32 word \<Rightarrow> nat \<Rightarrow> byte list \<Rightarrow> byte list \<Rightarrow> byte list run" where
  "post_loop oflags cap [] postbuf = Done postbuf"
| "post_loop oflags cap (ch # cs) postbuf =
    (if ch = 13 \<and> has_flag oflags ONLRET then post_loop oflags cap cs postbuf
     else if ch = 13 \<and> has_flag oflags OCRNL then run_bind (post_store cap 10 postbuf) (post_loop oflags cap cs)
     else if ch = 10 \<and> has_flag oflags ONLCR then
       run_bind (post_store cap 13 postbuf) (\<lambda>postbuf. run_bind (post_store cap ch postbuf) (post_loop oflags cap cs))
     else run_bind (post_store cap ch postbuf) (post_loop oflags cap cs))"

text \<open>\<^verbatim>\<open>driver_write\<close> is the result of the driver for the data and whether it may block; \<^verbatim>\<open>malloc\<close> succeeds.\<close>

definition tty_write :: "(byte list \<Rightarrow> bool \<Rightarrow> int) \<Rightarrow> bool \<Rightarrow> byte list \<Rightarrow> tty \<Rightarrow> (int \<times> tty) run" where
  "tty_write driver_write nonblock data t =
    (if hung_up t \<or> pty_is_half_closed_master t then Done (EIO, t)
     else (let oflags = t_oflags (tty_termios t) in
       run_bind (if has_flag oflags OPOST then post_loop oflags (length data * 2) data [] else Done data) (\<lambda>post.
         let err = driver_write post (\<not> nonblock); t = tty_echo post t in
         Done (if err < 0 then err else int (length data), t))))"

definition tty_poll :: "tty \<Rightarrow> 32 word" where
  "tty_poll t =
    4 OR (if hung_up t then 1 OR 4 OR 8 OR 16
       else if pty_is_half_closed_master t then 1 OR 16
       else if has_flag (t_lflags (tty_termios t)) ICANON then (if tty_canon_size t \<noteq> None then 1 else 0)
       else if bufsize t > 0 then 1 else 0)
    OR (if is_master t \<and> packet_flags t \<noteq> 0 then 2 else 0)"

text \<open>The signals sent and the terminal.\<close>

definition tty_set_winsize :: "winsize \<Rightarrow> tty \<Rightarrow> nat list \<times> tty" where
  "tty_set_winsize w t = (if fg_group t \<noteq> 0 then [28] else [], t\<lparr>tty_winsize := w\<rparr>)"

datatype tty_arg = Termios_arg termios | Winsize_arg winsize

text \<open>On the slave side of a pseudoterminal.  The argument is read or replaced; one of another type is undefined.\<close>

definition tty_mode_ioctl :: "nat \<Rightarrow> tty_arg \<Rightarrow> tty \<Rightarrow> (int \<times> tty_arg \<times> nat list \<times> tty) run" where
  "tty_mode_ioctl cmd arg t =
    (if cmd = 0x5401 then Done (0, Termios_arg (tty_termios t), [], t)
     else if cmd \<in> {0x5402, 0x5403, 0x5404} then
       (case arg of
          Termios_arg tm \<Rightarrow>
            Done (0, arg, [], (if cmd = 0x5404 then t\<lparr>bufsize := 0, consumed := consumed t + 1\<rparr> else t)\<lparr>tty_termios := tm\<rparr>)
        | Winsize_arg _ \<Rightarrow> Undefined)
     else if cmd = 0x5413 then Done (0, Winsize_arg (tty_winsize t), [], t)
     else if cmd = 0x5414 then
       (case arg of Winsize_arg w \<Rightarrow> (case tty_set_winsize w t of (sent, t) \<Rightarrow> Done (0, arg, sent, t)) | Termios_arg _ \<Rightarrow> Undefined)
     else Done (ENOTTY, arg, [], t))"

end
