(* ===== verification/Tty_Laws.thy ===== *)
theory Tty_Laws
  imports Tty
begin

text \<open>
  The line discipline stays within its buffers whatever other threads do, and in canonical mode a line typed with editing keys is
  read back as edited.
\<close>

section \<open>Bounds\<close>

definition run_all :: "('a \<Rightarrow> bool) \<Rightarrow> 'a run \<Rightarrow> bool" where
  "run_all P r = (case r of Waiting \<Rightarrow> True | Undefined \<Rightarrow> False | Done x \<Rightarrow> P x)"

lemma run_all_simps [simp]: "run_all P Waiting" "\<not> run_all P Undefined" "run_all P (Done x) = P x"
  by (simp_all add: run_all_def)

lemma run_all_bind: "run_all P r \<Longrightarrow> (\<And>x. P x \<Longrightarrow> run_all Q (f x)) \<Longrightarrow> run_all Q (run_bind r f)"
  by (cases r) auto

lemma run_all_ifI: "(c \<Longrightarrow> run_all P a) \<Longrightarrow> (\<not> c \<Longrightarrow> run_all P b) \<Longrightarrow> run_all P (if c then a else b)"
  by simp

lemma run_bind_waiting: "run_bind r f = Waiting \<longleftrightarrow> r = Waiting \<or> (\<exists>x. r = Done x \<and> f x = Waiting)"
  by (cases r) auto

definition in_bounds :: "tty \<Rightarrow> bool" where
  "in_bounds t \<longleftrightarrow> bufsize t \<le> TTY_BUF_SIZE"

definition others_ok :: "others \<Rightarrow> bool" where
  "others_ok ws \<longleftrightarrow> (\<forall>e \<in> set ws. \<forall>time t. in_bounds t \<longrightarrow> in_bounds (snd (e time) t))"

lemma others_ok_simps [simp]:
  "others_ok []"
  "others_ok (e # ws) \<longleftrightarrow> (\<forall>time t. in_bounds t \<longrightarrow> in_bounds (snd (e time) t)) \<and> others_ok ws"
  by (auto simp: others_ok_def)

lemma others_ok_step: "others_ok (e # ws) \<Longrightarrow> e time = (err, f) \<Longrightarrow> in_bounds t \<Longrightarrow> in_bounds (f t)"
  by (metis others_ok_simps(2) snd_conv)

lemma in_bounds_simps [simp]:
  "in_bounds (tty_echo d t) = in_bounds t"
  "bufsize (tty_echo d t) = bufsize t"
  "in_bounds (t\<lparr>bufsize := 0\<rparr>)"
  "in_bounds (t\<lparr>produced := p\<rparr>) = in_bounds t"
  by (simp_all add: in_bounds_def tty_echo_def)

abbreviation pushed_ok :: "(int \<times> others \<times> tty) run \<Rightarrow> bool" where
  "pushed_ok \<equiv> run_all (\<lambda>(err, ws, t). err \<le> 0 \<and> others_ok ws \<and> in_bounds t)"

lemma tty_input_wakeup_bounds:
  "tty_input_wakeup ws t = (ws', t') \<Longrightarrow> others_ok ws \<Longrightarrow> in_bounds t \<Longrightarrow> others_ok ws' \<and> in_bounds t'"
  by (cases ws) auto

lemma tty_push_char_bounds: "others_ok ws \<Longrightarrow> in_bounds t \<Longrightarrow> pushed_ok (tty_push_char ch flag blocking ws t)"
proof (induction ws arbitrary: t)
  case Nil
  then show ?case by (subst tty_push_char.simps) (simp add: in_bounds_def)
next
  case (Cons e ws)
  obtain err f where e: "e None = (err, f)" by fastforce
  have "in_bounds (f t)" using others_ok_step [OF Cons.prems(1) e Cons.prems(2)] .
  then show ?case using Cons.prems Cons.IH [of "f t"] by (subst tty_push_char.simps) (auto simp: e in_bounds_def)
qed

lemma raw_push_bounds: "others_ok ws \<Longrightarrow> in_bounds t \<Longrightarrow> pushed_ok (raw_push blocking ch ws t)"
proof (induction ws arbitrary: t)
  case Nil
  then show ?case by (subst raw_push.simps) (simp add: in_bounds_def)
next
  case (Cons e ws)
  obtain err f where e: "e None = (err, f)" by fastforce
  have "in_bounds (f t)" using others_ok_step [OF Cons.prems(1) e Cons.prems(2)] .
  then show ?case using Cons.prems Cons.IH [of "f t"] by (subst raw_push.simps) (auto simp: e in_bounds_def)
qed

lemma echo_char_bounds [simp]: "in_bounds (echo_char lflags echo ch t) = in_bounds t"
  by (simp add: echo_char_def)

lemma tty_send_input_signal_bounds:
  "tty_send_input_signal ch (t, q) = (b, t', q') \<Longrightarrow> in_bounds t \<Longrightarrow> in_bounds t'"
  by (auto simp: tty_send_input_signal_def Let_def split: if_splits)

lemma erase_loop_bounds: "in_bounds t \<Longrightarrow> count \<le> bufsize t \<Longrightarrow> run_all in_bounds (erase_loop lflags echo count t)"
proof (induction count arbitrary: t echo)
  case (Suc count)
  have "in_bounds (t\<lparr>bufsize := bufsize t - 1\<rparr>)" using Suc.prems by (simp add: in_bounds_def)
  then have b: "in_bounds t'" "count \<le> bufsize t'" if "bufsize t' = bufsize t - 1" for t'
    using that Suc.prems by (auto simp: in_bounds_def)
  show ?case using Suc.prems by (auto simp: Let_def in_bounds_def [of t] intro!: Suc.IH b)
qed simp

lemma canon_wake_bounds: "others_ok ws \<Longrightarrow> in_bounds t \<Longrightarrow> pushed_ok (canon_wake blocking ch ws t)"
  unfolding canon_wake_def
  by (rule run_all_bind [OF tty_push_char_bounds]) (auto dest: tty_input_wakeup_bounds split: prod.split)

lemma no_special_bounds: "others_ok ws \<Longrightarrow> in_bounds t \<Longrightarrow> pushed_ok (no_special lflags blocking ch ws t)"
  unfolding no_special_def by (rule run_all_bind [OF tty_push_char_bounds]) auto

abbreviation char_ok :: "(int \<times> others \<times> tty \<times> nat set) run \<Rightarrow> bool" where
  "char_ok \<equiv> run_all (\<lambda>(err, ws, t, q). err \<le> 0 \<and> others_ok ws \<and> in_bounds t)"

lemma pushed_char_ok: "pushed_ok r \<Longrightarrow> char_ok (run_bind r (\<lambda>(err, ws, t). Done (err, ws, t, q)))"
  by (erule run_all_bind) auto

lemma canon_char_bounds:
  assumes "others_ok ws" "in_bounds t"
  shows "char_ok (canon_char iflags lflags blocking c ws (t, q))"
proof -
  let ?ch = "map_input_char iflags c"
  obtain b t' q' where s: "tty_send_input_signal ?ch (t, q) = (b, t', q')" by (metis prod_cases3)
  have t': "in_bounds t'" using tty_send_input_signal_bounds [OF s assms(2)] .
  have er: "char_ok (run_bind (erase_loop lflags echo n t) (\<lambda>t. Done (0, ws, t, q)))" if "n \<le> bufsize t" for echo n
    by (rule run_all_bind [OF erase_loop_bounds [OF assms(2) that]]) (simp add: assms)
  show ?thesis
    unfolding canon_char_def Let_def prod.case s
    by (cases b; simp only: bool.case; intro run_all_ifI pushed_char_ok canon_wake_bounds no_special_bounds er)
      (simp_all add: assms t')
qed

abbreviation loop_ok :: "nat \<Rightarrow> (int \<times> nat \<times> others \<times> tty \<times> nat set) run \<Rightarrow> bool" where
  "loop_ok m \<equiv> run_all (\<lambda>(err, n, ws, t, q). err \<le> 0 \<and> n \<le> m \<and> others_ok ws \<and> in_bounds t)"

lemma canon_loop_bounds:
  "others_ok ws \<Longrightarrow> in_bounds t \<Longrightarrow> loop_ok (n + length cs) (canon_loop iflags lflags blocking cs n ws (t, q))"
proof (induction cs arbitrary: n ws t q)
  case (Cons c cs)
  show ?case unfolding canon_loop.simps
    by (rule run_all_bind [OF canon_char_bounds [OF Cons.prems]])
      (use Cons.IH [where n = "n + 1"] in auto)
qed simp

lemma raw_loop_bounds:
  "others_ok ws \<Longrightarrow> in_bounds t \<Longrightarrow> loop_ok (n + length cs) (raw_loop blocking cs n ws (t, q))"
proof (induction cs arbitrary: n ws t q)
  case (Cons c cs)
  obtain b t' q' where s: "tty_send_input_signal c (t, q) = (b, t', q')" by (metis prod_cases3)
  have t': "in_bounds t'" using tty_send_input_signal_bounds [OF s Cons.prems(2)] .
  have "loop_ok (n + length (c # cs)) (run_bind (raw_push blocking c ws t') (\<lambda>(err, ws, t).
        if err < 0 then Done (err, n, ws, t, q') else raw_loop blocking cs (n + 1) ws (t, q')))"
    by (rule run_all_bind [OF raw_push_bounds [OF Cons.prems(1) t']]) (use Cons.IH [where n = "n + 1"] in auto)
  moreover have "loop_ok (n + length (c # cs)) (raw_loop blocking cs (n + 1) ws (t', q'))"
    using Cons.IH [OF Cons.prems(1) t', of "n + 1" q'] by simp
  ultimately show ?case by (cases b) (simp_all add: s)
qed simp

lemma tty_input_bounds:
  assumes "others_ok ws" "in_bounds t"
  shows "run_all (\<lambda>(r, sent, t). r \<le> int (length input) \<and> in_bounds t) (tty_input input blocking ws t)"
proof -
  have raw: "loop_ok (length input) (run_bind (raw_loop blocking input 0 ws (t, {})) (\<lambda>(err, n, ws, t, queue).
      Done (if bufsize t > 0 then (case tty_input_wakeup ws t of (ws, t) \<Rightarrow> (err, n, ws, t, queue)) else (err, n, ws, t, queue))))"
    by (rule run_all_bind [OF raw_loop_bounds [OF assms, where n = 0]]) (auto dest: tty_input_wakeup_bounds split: prod.split)
  show ?thesis unfolding tty_input_def
    by (rule run_all_bind [where P = "\<lambda>(err, n, ws, t, q). err \<le> 0 \<and> n \<le> length input \<and> others_ok ws \<and> in_bounds t"])
      (use raw canon_loop_bounds [OF assms, where n = 0] in \<open>auto simp: in_bounds_def\<close>)
qed

lemma tty_read_into_buf_bounds:
  "in_bounds t \<Longrightarrow> n \<le> bufsize t \<Longrightarrow> run_all (\<lambda>(d, t'). length d = n \<and> in_bounds t') (tty_read_into_buf n t)"
  by (simp add: tty_read_into_buf_def Let_def in_bounds_def)

lemma tty_read_data_bounds: "in_bounds t \<Longrightarrow> run_all (\<lambda>(d, t'). length d \<le> n \<and> in_bounds t') (tty_read_data n t)"
  unfolding tty_read_data_def
  by (rule run_all_bind [OF tty_read_into_buf_bounds]) (auto intro!: run_all_bind [OF tty_read_into_buf_bounds])

lemma tty_canon_size_bounds: "tty_canon_size t = Some n \<Longrightarrow> 0 < n \<and> n \<le> bufsize t"
  by (auto simp: tty_canon_size_def find_Some_iff)

lemma wait_canon_bounds: "others_ok ws \<Longrightarrow> in_bounds t \<Longrightarrow>
  run_all (\<lambda>(r, t'). in_bounds t' \<and> (case r of Inl _ \<Rightarrow> True | Inr n \<Rightarrow> 0 < n \<and> n \<le> TTY_BUF_SIZE)) (wait_canon nonblock ws t)"
proof (induction ws arbitrary: t)
  case Nil
  then show ?case by (subst wait_canon.simps) (auto simp: in_bounds_def dest!: tty_canon_size_bounds split: option.split)
next
  case (Cons e ws)
  obtain err f where e: "e None = (err, f)" by fastforce
  have "in_bounds (f t)" using others_ok_step [OF Cons.prems(1) e Cons.prems(2)] .
  then show ?case using Cons.prems Cons.IH [of "f t"]
    by (subst wait_canon.simps) (auto simp: e in_bounds_def dest!: tty_canon_size_bounds split: option.split)
qed

lemma wait_min_bounds: "others_ok ws \<Longrightarrow> in_bounds t \<Longrightarrow> run_all (\<lambda>(err, t'). in_bounds t') (wait_min nonblock least time ws t)"
proof (induction ws arbitrary: t)
  case Nil
  then show ?case by (subst wait_min.simps) simp
next
  case (Cons e ws)
  let ?time = "if bufsize t = 0 \<or> time = 0 then None else Some time"
  obtain err f where e: "e ?time = (err, f)" by fastforce
  have "in_bounds (f t)" using others_ok_step [OF Cons.prems(1) e Cons.prems(2)] .
  then show ?case using Cons.prems Cons.IH [of "f t"] by (subst wait_min.simps) (cases nonblock; simp add: e del: if_split; simp)
qed

lemma tty_read_wait_bounds:
  assumes "others_ok ws" "in_bounds t"
  shows "run_all (\<lambda>(r, t'). in_bounds t' \<and> (case r of Inl _ \<Rightarrow> True | Inr k \<Rightarrow> k \<le> n)) (tty_read_wait nonblock n ws t)"
  unfolding tty_read_wait_def
  by (auto intro!: run_all_bind [OF wait_canon_bounds [OF assms]] run_all_bind [OF wait_min_bounds [OF assms]] split: sum.splits)

lemma tty_read_bounds:
  assumes "others_ok ws" "in_bounds t"
  shows "run_all (\<lambda>(r, t'). in_bounds t' \<and> (case r of Inl _ \<Rightarrow> True | Inr d \<Rightarrow> length d \<le> n)) (tty_read e n ws t)"
proof -
  have *: "run_all (\<lambda>(r, t'). in_bounds t' \<and> (case r of Inl _ \<Rightarrow> True | Inr d \<Rightarrow> length d \<le> n))
      (run_bind (tty_read_wait nb m ws t) (\<lambda>(r, t). case r of Inl err \<Rightarrow> Done (Inl err, t)
        | Inr k \<Rightarrow> run_bind (tty_read_data k t) (\<lambda>(data, t). Done (Inr (x @ data), t))))"
    if "length x + m \<le> n" for x :: "byte list" and nb m
    by (rule run_all_bind [OF tty_read_wait_bounds [OF assms]])
      (use that in \<open>auto intro!: run_all_bind [OF tty_read_data_bounds] split: sum.splits\<close>)
  show ?thesis using assms unfolding tty_read_def Let_def by (simp add: * del: append.simps)
qed

lemma post_loop_bounds: "length post + 2 * length cs \<le> cap \<Longrightarrow>
  run_all (\<lambda>out. length out \<le> length post + 2 * length cs) (post_loop oflags cap cs post) \<and> post_loop oflags cap cs post \<noteq> Waiting"
proof (induction cs arbitrary: post)
  case (Cons c cs)
  have "run_all (\<lambda>out. length out \<le> length post + 2 * length (c # cs)) (post_loop oflags cap cs p) \<and> post_loop oflags cap cs p \<noteq> Waiting"
    if "length p \<le> length post + 2" for p
    using Cons.IH [of p] Cons.prems that by (auto simp: run_all_def split: run.splits)
  then show ?case using Cons.prems by (auto simp: post_store_def)
qed simp

lemma post_loop_write:
  "run_all (\<lambda>out. length out \<le> 2 * length data) (post_loop oflags (length data * 2) data [])"
  "post_loop oflags (length data * 2) data [] \<noteq> Waiting"
  using post_loop_bounds [of "[]" data "length data * 2" oflags] by simp_all

lemma tty_write_bounds:
  "run_all (\<lambda>(r, t'). bufsize t' = bufsize t \<and> length (written t') \<le> length (written t) + 2 * length data) (tty_write dw nonblock data t)"
  unfolding tty_write_def Let_def by (auto simp: tty_echo_def intro!: run_all_bind [OF post_loop_write(1)])

subsection \<open>Calls that do not wait\<close>

lemma tty_push_char_nonblocking: "tty_push_char ch flag False ws t \<noteq> Waiting"
  by (subst tty_push_char.simps) simp

lemma raw_push_nonblocking: "raw_push False ch ws t \<noteq> Waiting"
  by (subst raw_push.simps) simp

lemma erase_loop_not_waiting: "erase_loop lflags echo n t \<noteq> Waiting"
  by (induction lflags echo n t rule: erase_loop.induct) (simp_all add: Let_def)

lemma canon_char_nonblocking: "canon_char iflags lflags False c ws tq \<noteq> Waiting"
  by (cases tq) (auto simp: canon_char_def canon_wake_def no_special_def Let_def run_bind_waiting tty_push_char_nonblocking
      erase_loop_not_waiting split: prod.splits if_splits bool.splits)

lemma canon_loop_nonblocking: "canon_loop iflags lflags False cs n ws tq \<noteq> Waiting"
  by (induction cs arbitrary: n ws tq) (auto simp: run_bind_waiting canon_char_nonblocking split: if_splits)

lemma raw_loop_nonblocking: "raw_loop False cs n ws tq \<noteq> Waiting"
  by (induction cs arbitrary: n ws tq)
    (auto simp: run_bind_waiting raw_push_nonblocking split: if_splits prod.splits bool.splits)

lemma tty_input_nonblocking: "tty_input input False ws t \<noteq> Waiting"
  by (auto simp: tty_input_def run_bind_waiting canon_loop_nonblocking raw_loop_nonblocking split: if_splits)

lemma tty_read_into_buf_not_waiting: "tty_read_into_buf n t \<noteq> Waiting"
  by (simp add: tty_read_into_buf_def Let_def)

lemma tty_read_data_not_waiting: "tty_read_data n t \<noteq> Waiting"
  by (auto simp: tty_read_data_def run_bind_waiting tty_read_into_buf_not_waiting split: if_splits)

lemma tty_read_wait_nonblocking: "tty_read_wait True n ws t \<noteq> Waiting"
  unfolding tty_read_wait_def
  by (subst wait_canon.simps, subst wait_min.simps) (auto simp: run_bind_waiting split: if_splits option.splits sum.splits)

lemma tty_read_nonblocking: "te_nonblock e \<Longrightarrow> tty_read e n ws t \<noteq> Waiting"
  by (auto simp: tty_read_def Let_def run_bind_waiting tty_read_wait_nonblocking tty_read_data_not_waiting split: if_splits sum.splits)

lemma tty_write_not_waiting: "tty_write dw nonblock data t \<noteq> Waiting"
  by (auto simp: tty_write_def Let_def run_bind_waiting post_loop_write split: if_splits)

definition example_memory :: tty where
  "example_memory = \<lparr>is_master = False, hung_up = False, tbuf = (\<lambda>_. 0), buf_flag = (\<lambda>_. False), bufsize = 0, packet_flags = 0,
    packet_mode = False, tty_termios = \<lparr>t_iflags = 0, t_oflags = 0, t_cflags = 0, t_lflags = 0, t_line = 0, t_cc = (\<lambda>_. 0)\<rparr>,
    tty_winsize = \<lparr>ws_row = 0, ws_col = 0, ws_xpixel = 0, ws_ypixel = 0\<rparr>, fg_group = 0,
    other_ever_opened = False, other_refcount = 0, other_hung_up = False, written = [], produced = 0, consumed = 0\<rparr>"

definition example_env :: tty_env where
  "example_env = \<lparr>te_current = True, te_pgid = 1, te_signalled = True, te_nonblock = True\<rparr>"

text \<open>C9: a terminal never leaves its buffers, whatever other threads do to it in between as long as they keep the size of the buffer within
  its 4096 bytes: no access of input, read and write is out of range, the size stays within 4096, input accepts at most what it was
  given, a read returns at most what was asked for, and output processing gives at most twice its input, the room that was allocated.
  Without blocking, input and read always return.
\<close>

theorem tty_stays_in_bounds:
  assumes "others_ok ws" "bufsize t \<le> TTY_BUF_SIZE"
  shows "run_all (\<lambda>(r, sent, t'). r \<le> int (length input) \<and> bufsize t' \<le> TTY_BUF_SIZE) (tty_input input blocking ws t)
    \<and> run_all (\<lambda>(r, t'). bufsize t' \<le> TTY_BUF_SIZE \<and> (case r of Inl err \<Rightarrow> True | Inr data \<Rightarrow> length data \<le> n)) (tty_read e n ws t)
    \<and> run_all (\<lambda>(r, t'). bufsize t' = bufsize t \<and> length (written t') \<le> length (written t) + 2 * length out)
        (tty_write driver_write nonblock out t)
    \<and> tty_input input False ws t \<noteq> Waiting \<and> (te_nonblock e \<longrightarrow> tty_read e n ws t \<noteq> Waiting)
    \<and> tty_write driver_write nonblock out t \<noteq> Waiting"
  using tty_input_bounds [of ws t input blocking] tty_read_bounds [of ws t n e] assms
  by (simp add: in_bounds_def tty_write_bounds tty_input_nonblocking tty_read_nonblocking tty_write_not_waiting)

theorem tty_stays_in_bounds_witness:
  "run_all (\<lambda>(r, sent, t'). r \<le> 2 \<and> bufsize t' \<le> TTY_BUF_SIZE)
    (tty_input [97, 98] True [\<lambda>_. (0, \<lambda>t. t\<lparr>bufsize := 0\<rparr>)] ((tty_alloc False example_memory)\<lparr>bufsize := 4096\<rparr>))"
  using tty_stays_in_bounds [of "[\<lambda>_. (0, \<lambda>t. t\<lparr>bufsize := 0\<rparr>)]" "(tty_alloc False example_memory)\<lparr>bufsize := 4096\<rparr>" "[97, 98]" True]
  by simp

section \<open>Lines\<close>

declare erase_loop.simps(2) [simp del]

definition contents :: "tty \<Rightarrow> (byte \<times> bool) list" where
  "contents t = map (\<lambda>i. (tbuf t i, buf_flag t i)) [0..<bufsize t]"

text \<open>What the calls on a line leave alone.\<close>

definition frame :: "tty \<Rightarrow> tty \<Rightarrow> bool" where
  "frame t t' \<longleftrightarrow> is_master t' = is_master t \<and> hung_up t' = hung_up t \<and> packet_flags t' = packet_flags t \<and>
    packet_mode t' = packet_mode t \<and> tty_termios t' = tty_termios t \<and> fg_group t' = fg_group t \<and>
    other_ever_opened t' = other_ever_opened t \<and> other_refcount t' = other_refcount t \<and> other_hung_up t' = other_hung_up t"

lemma tty_frame_refl [simp]: "frame t t"
  by (simp add: frame_def)

lemma tty_frame_trans: "frame t t' \<Longrightarrow> frame t' t'' \<Longrightarrow> frame t t''"
  by (simp add: frame_def)

lemma tty_frame_is_cc: "frame t t' \<Longrightarrow> is_cc t' = is_cc t"
  by (simp add: frame_def is_cc_def fun_eq_iff)

lemma length_contents [simp]: "length (contents t) = bufsize t"
  by (simp add: contents_def)

lemma echo_simps [simp]:
  "contents (tty_echo d t) = contents t" "frame t (tty_echo d t')= frame t t'"
  "contents (echo_char lf b c t) = contents t" "frame t (echo_char lf b c t') = frame t t'"
  by (simp_all add: contents_def tty_echo_def frame_def echo_char_def)

definition pending :: "tty \<Rightarrow> byte list \<Rightarrow> tty \<Rightarrow> bool" where
  "pending t0 l t \<longleftrightarrow> frame t0 t \<and> contents t = map (\<lambda>c. (c, False)) l"

lemma pending_size: "pending t0 l t \<Longrightarrow> bufsize t = length l"
  using length_contents [of t] by (simp add: pending_def)

lemma pending_flag: "pending t0 l t \<Longrightarrow> i < length l \<Longrightarrow> \<not> buf_flag t i"
proof -
  assume p: "pending t0 l t" and i: "i < length l"
  have "contents t ! i = map (\<lambda>c. (c, False)) l ! i" using p by (simp add: pending_def)
  then show ?thesis using i pending_size [OF p] by (simp add: contents_def)
qed

lemma pending_drop: "pending t0 l t \<Longrightarrow> l \<noteq> [] \<Longrightarrow> pending t0 (butlast l) (t\<lparr>bufsize := bufsize t - 1\<rparr>)"
proof -
  assume p: "pending t0 l t" and l: "l \<noteq> []"
  have "contents (t\<lparr>bufsize := bufsize t - 1\<rparr>) = butlast (contents t)"
    by (cases "bufsize t") (simp_all add: contents_def)
  then show ?thesis using p by (simp add: pending_def frame_def map_butlast)
qed

lemma pending_echo [simp]: "pending t0 l (tty_echo d t) = pending t0 l t" "pending t0 l (echo_char lf b c t) = pending t0 l t"
  by (simp_all add: pending_def)

lemma push_contents:
  assumes "bufsize t < TTY_BUF_SIZE"
  shows "\<exists>t'. tty_push_char ch flag blocking ws t = Done (0, ws, t') \<and> contents t' = contents t @ [(ch, flag)] \<and> frame t t'"
  using assms by (subst tty_push_char.simps) (simp add: contents_def frame_def)

lemma no_special_pending:
  assumes p: "pending t0 l t" and "length l < TTY_BUF_SIZE"
  shows "\<exists>t'. no_special lflags blocking ch ws t = Done (0, ws, t') \<and> pending t0 (l @ [ch]) t'"
proof -
  obtain t' where "tty_push_char ch False blocking ws t = Done (0, ws, t')" "contents t' = contents t @ [(ch, False)]" "frame t t'"
    using push_contents [of t] assms pending_size [OF p] by force
  then show ?thesis using p by (auto simp: no_special_def pending_def intro: tty_frame_trans)
qed

lemma erase_pending:
  "pending t0 l t \<Longrightarrow> length l \<le> TTY_BUF_SIZE \<Longrightarrow> n \<le> length l \<Longrightarrow>
    \<exists>t'. erase_loop lflags echo n t = Done t' \<and> pending t0 (take (length l - n) l) t'"
proof (induction n arbitrary: l t)
  case (Suc n)
  have l: "l \<noteq> []" using Suc.prems by auto
  define t1 where "t1 = t\<lparr>bufsize := bufsize t - 1\<rparr>"
  have IH: "\<exists>t'. erase_loop lflags echo n u = Done t' \<and> pending t0 (take (length l - Suc n) l) t'" if "pending t0 (butlast l) u" for u
  proof -
    have "take (length (butlast l) - n) (butlast l) = take (length l - Suc n) l" by (simp add: butlast_conv_take)
    then show ?thesis using Suc.IH [OF that] Suc.prems by simp
  qed
  have p1: "pending t0 (butlast l) t1" unfolding t1_def by (rule pending_drop [OF Suc.prems(1) l])
  have nf: "\<not> buf_flag t (bufsize t - 1)"
    using pending_flag [OF Suc.prems(1), of "length l - 1"] pending_size [OF Suc.prems(1)] l by simp
  have sz: "bufsize t \<noteq> 0" "\<not> bufsize t > TTY_BUF_SIZE" using pending_size [OF Suc.prems(1)] Suc.prems l by auto
  show ?case unfolding erase_loop.simps Let_def t1_def [symmetric]
    using nf sz by (simp del: erase_loop.simps add: IH p1)
qed simp

text \<open>The reference: what a key does to the line being typed.\<close>

definition edit_line :: "tty \<Rightarrow> byte list \<Rightarrow> byte \<Rightarrow> byte list" where
  "edit_line t l c = (let ch = map_input_char (t_iflags (tty_termios t)) c in
    if has_flag (t_iflags (tty_termios t)) IGNCR \<and> ch = 13 then l
    else if ch = 0 then l @ [ch]
    else if is_cc t VERASE ch then butlast l
    else if is_cc t VKILL ch then []
    else l @ [ch])"

text \<open>A key that neither ends the line nor sends a signal.\<close>

definition line_key :: "tty \<Rightarrow> byte \<Rightarrow> bool" where
  "line_key t c = (let ch = map_input_char (t_iflags (tty_termios t)) c in
    ch = 0 \<or> is_cc t VERASE ch \<or> is_cc t VKILL ch \<or>
    \<not> is_cc t VEOF ch \<and> ch \<noteq> 10 \<and> \<not> is_cc t VEOL ch \<and>
    \<not> (has_flag (t_lflags (tty_termios t)) ISIG \<and> (is_cc t VINTR ch \<or> is_cc t VQUIT ch \<or> is_cc t VSUSP ch)))"

lemma length_edit_line: "length (edit_line t l c) \<le> Suc (length l)"
  by (auto simp: edit_line_def Let_def)

lemma canon_char_erase:
  assumes "\<not> (has_flag iflags IGNCR \<and> map_input_char iflags c = 13)" "map_input_char iflags c \<noteq> 0"
    "is_cc t VERASE (map_input_char iflags c) \<or> is_cc t VKILL (map_input_char iflags c)"
  shows "\<exists>echo. canon_char iflags lflags blocking c ws (t, q) =
    run_bind (erase_loop lflags echo (if is_cc t VERASE (map_input_char iflags c) \<and> bufsize t > 0 then 1 else bufsize t) t)
      (\<lambda>t. Done (0, ws, t, q))"
  unfolding canon_char_def Let_def prod.case using assms by (simp only: if_True if_False simp_thms) blast

lemma canon_char_pending:
  assumes p: "pending t0 l t" and len: "length l < TTY_BUF_SIZE" and k: "line_key t0 c"
  shows "\<exists>t'. canon_char (t_iflags (tty_termios t0)) lflags blocking c ws (t, q) = Done (0, ws, t', q) \<and> pending t0 (edit_line t0 l c) t'"
proof -
  define iflags where "iflags = t_iflags (tty_termios t0)"
  define ch where "ch = map_input_char iflags c"
  have cc: "is_cc t = is_cc t0" and tm: "tty_termios t = tty_termios t0"
    using p tty_frame_is_cc [of t0 t] by (simp_all add: pending_def frame_def)
  have ns: "\<exists>t'. run_bind (no_special lflags blocking ch ws t) (\<lambda>(err, ws, t). Done (err, ws, t, q)) = Done (0, ws, t', q) \<and> pending t0 (l @ [ch]) t'"
    using no_special_pending [OF p len, of lflags blocking ch ws] by auto
  note e = edit_line_def [of t0 l c, folded iflags_def, unfolded Let_def, folded ch_def]
  note kk = k [unfolded line_key_def Let_def, folded iflags_def, folded ch_def]
  show ?thesis
  proof (cases "has_flag iflags IGNCR \<and> ch = 13 \<or> ch = 0")
    case True
    then consider "has_flag iflags IGNCR \<and> ch = 13" | "\<not> (has_flag iflags IGNCR \<and> ch = 13)" "ch = 0" by blast
    then show ?thesis using ns p unfolding e canon_char_def Let_def prod.case iflags_def [symmetric] ch_def [symmetric]
      by cases (simp_all only: if_True if_False simp_thms, auto)
  next
    case no: False
    show ?thesis
    proof (cases "is_cc t0 VERASE ch \<or> is_cc t0 VKILL ch")
      case True
      let ?n = "if is_cc t0 VERASE ch \<and> length l > 0 then 1 else length l"
      obtain echo where c: "canon_char iflags lflags blocking c ws (t, q) = run_bind (erase_loop lflags echo ?n t) (\<lambda>t. Done (0, ws, t, q))"
        using canon_char_erase [of iflags c t lflags blocking ws q] no True unfolding ch_def [symmetric] cc pending_size [OF p] by blast
      have "?n \<le> length l" by (cases l) auto
      then obtain t' where t': "erase_loop lflags echo ?n t = Done t'" "pending t0 (take (length l - ?n) l) t'"
        using erase_pending [OF p, of ?n lflags echo] len by auto
      have "take (length l - ?n) l = edit_line t0 l c" unfolding e using no True by (auto simp: butlast_conv_take)
      then show ?thesis using c t' by (simp only: iflags_def) simp
    next
      case False
      have sig: "tty_send_input_signal ch (t, q) = (False, t, q)"
        using False kk no by (auto simp: tty_send_input_signal_def Let_def cc tm)
      have "canon_char iflags lflags blocking c ws (t, q) = run_bind (no_special lflags blocking ch ws t) (\<lambda>(err, ws, t). Done (err, ws, t, q))"
        using no False kk unfolding canon_char_def Let_def prod.case ch_def [symmetric] cc sig
        by (simp only: de_Morgan_disj if_False simp_thms bool.case)
      then show ?thesis unfolding e using ns no False by (auto simp: iflags_def)
    qed
  qed
qed

lemma canon_loop_pending:
  "pending t0 l t \<Longrightarrow> length l + length cs \<le> TTY_BUF_SIZE \<Longrightarrow> \<forall>c \<in> set cs. line_key t0 c \<Longrightarrow>
    \<exists>t'. canon_loop (t_iflags (tty_termios t0)) lflags blocking (cs @ ds) n ws (t, q)
        = canon_loop (t_iflags (tty_termios t0)) lflags blocking ds (n + length cs) ws (t', q)
      \<and> pending t0 (foldl (edit_line t0) l cs) t' \<and> length (foldl (edit_line t0) l cs) \<le> length l + length cs"
proof (induction cs arbitrary: l t n)
  case (Cons c cs)
  have len: "length l < TTY_BUF_SIZE" using Cons.prems by simp
  obtain t1 where t1: "canon_char (t_iflags (tty_termios t0)) lflags blocking c ws (t, q) = Done (0, ws, t1, q)"
      "pending t0 (edit_line t0 l c) t1"
    using canon_char_pending [OF Cons.prems(1) len, of c lflags blocking ws q] Cons.prems by auto
  have "length (edit_line t0 l c) + length cs \<le> TTY_BUF_SIZE" using length_edit_line [of t0 l c] Cons.prems by simp
  from Cons.IH [OF t1(2) this, of "n + 1"] Cons.prems obtain t' where
    "canon_loop (t_iflags (tty_termios t0)) lflags blocking (cs @ ds) (n + 1) ws (t1, q)
        = canon_loop (t_iflags (tty_termios t0)) lflags blocking ds (n + 1 + length cs) ws (t', q)"
    "pending t0 (foldl (edit_line t0) (edit_line t0 l c) cs) t'"
    "length (foldl (edit_line t0) (edit_line t0 l c) cs) \<le> length (edit_line t0 l c) + length cs" by auto
  then show ?case using t1(1) length_edit_line [of t0 l c] by (intro exI [of _ t']) simp
qed auto

lemma canon_wake_contents:
  assumes "bufsize t < TTY_BUF_SIZE"
  shows "\<exists>t'. canon_wake blocking ch [] t = Done (0, [], t') \<and> contents t' = contents t @ [(ch, True)] \<and> frame t t'"
proof -
  obtain t' where "tty_push_char ch True blocking [] t = Done (0, [], t')" "contents t' = contents t @ [(ch, True)]" "frame t t'"
    using push_contents [OF assms, of ch True blocking "[]"] by blast
  then show ?thesis by (auto simp: canon_wake_def contents_def frame_def)
qed

text \<open>A line is in the buffer: it is what a read in canonical mode takes.\<close>

lemma contents_nth: "i < bufsize t \<Longrightarrow> contents t ! i = (tbuf t i, buf_flag t i)"
  by (simp add: contents_def)

lemma read_line:
  assumes c: "contents t = map (\<lambda>c. (c, False)) l @ [(ch, True)]" and "ch \<noteq> 0" "length l < TTY_BUF_SIZE" "length l < n"
    and "has_flag (t_lflags (tty_termios t)) ICANON"
  shows "\<exists>t'. run_bind (tty_read_wait nonblock n ws t) (\<lambda>(r, t). case r of Inl err \<Rightarrow> Done (Inl err, t)
      | Inr k \<Rightarrow> run_bind (tty_read_data k t) (\<lambda>(data, t). Done (Inr ([] @ data), t))) = Done (Inr (l @ [ch]), t') \<and> bufsize t' = 0"
proof -
  have b: "bufsize t = Suc (length l)" using arg_cong [OF c, of length] by simp
  have nth: "tbuf t i = l ! i" "\<not> buf_flag t i" if "i < length l" for i
    using contents_nth [of i t] that b by (simp_all add: c nth_append)
  have end_of: "tbuf t (length l) = ch" "buf_flag t (length l)"
    using contents_nth [of "length l" t] b by (simp_all add: c nth_append)
  have "find (buf_flag t) [0..<bufsize t] = Some (length l)"
    unfolding find_Some_iff using b nth end_of by (intro exI [of _ "length l"]) (auto simp del: upt_Suc)
  then have cs: "tty_canon_size t = Some (Suc (length l))" by (simp add: tty_canon_size_def)
  have w: "tty_read_wait nonblock n ws t = Done (Inr (Suc (length l)), t)"
    using assms end_of by (simp add: tty_read_wait_def wait_canon.simps [of _ _ t] cs)
  have m: "map (tbuf t) [0..<Suc (length l)] = l @ [ch]"
    by (rule nth_equalityI) (use nth end_of in \<open>auto simp: nth_append less_Suc_eq simp del: upt_Suc\<close>)
  show ?thesis using assms(3) unfolding w
    by (simp add: tty_read_data_def tty_read_into_buf_def b m [simplified] Let_def)
qed

text \<open>C10: in canonical mode a line is read as it was edited.  On an idle terminal with an empty buffer, let characters be typed that neither end
  a line nor send a signal, fewer than 4096 of them, and then a newline.  All are accepted, no signal is sent, and a read that asks for
  enough returns the edited line and the newline and leaves the buffer empty: an erase key has removed the character before it,
  a kill key everything before it, and carriage returns and newlines have been exchanged or dropped as the input modes say.
\<close>

theorem canonical_line_round_trip:
  assumes "has_flag (t_lflags (tty_termios t)) ICANON" "bufsize t = 0" "length s < TTY_BUF_SIZE" "length s < n"
    and keys: "\<forall>c \<in> set s. line_key t c"
    and newline: "\<not> has_flag (t_iflags (tty_termios t)) INLCR" "\<forall>i \<in> {VERASE, VKILL, VEOF}. \<not> is_cc t i 10"
    and idle: "\<not> hung_up t" "\<not> is_master t" "tty_signal_if_background e t = 0"
  shows "\<exists>t1 t2. tty_input (s @ [10]) blocking [] t = Done (int (length s) + 1, [], t1) \<and>
    tty_read e n ws t1 = Done (Inr (foldl (edit_line t) [] s @ [10]), t2) \<and> bufsize t2 = 0"
proof -
  let ?tm = "tty_termios t" and ?l = "foldl (edit_line t) [] s"
  have "pending t [] t" using assms(2) by (simp add: pending_def contents_def)
  from canon_loop_pending [OF this _ keys, of "t_lflags ?tm" blocking "[10]" 0 "[]" "{}"] assms(3) obtain t' where
    loop: "canon_loop (t_iflags ?tm) (t_lflags ?tm) blocking (s @ [10]) 0 [] (t, {})
        = canon_loop (t_iflags ?tm) (t_lflags ?tm) blocking [10] (length s) [] (t', {})"
    and p: "pending t ?l t'" and len: "length ?l \<le> length s" by auto
  define u where "u = (if has_flag (t_lflags ?tm) ECHO then tty_echo [13, 10] t' else t')"
  have u: "pending t ?l u" using p by (simp add: u_def)
  have bu: "bufsize u < TTY_BUF_SIZE" using pending_size [OF u] len assms(3) by simp
  obtain t1 where t1: "canon_wake blocking 10 [] u = Done (0, [], t1)" "contents t1 = contents u @ [(10, True)]" "frame u t1"
    using canon_wake_contents [OF bu] by blast
  have cc: "is_cc t' = is_cc t" using p tty_frame_is_cc by (auto simp: pending_def)
  have "canon_char (t_iflags ?tm) (t_lflags ?tm) blocking 10 [] (t', {}) = Done (0, [], t1, {})"
    using newline t1(1) by (simp add: canon_char_def map_input_char_def Let_def cc u_def)
  then have "tty_input (s @ [10]) blocking [] t = Done (int (length s) + 1, [], t1)"
    using assms(1) loop arg_cong [OF t1(2), of length] bu by (simp add: tty_input_def)
  moreover have fr: "frame t t1" using u t1(3) by (auto simp: pending_def intro: tty_frame_trans)
  then have "tty_signal_if_background e t1 = tty_signal_if_background e t" "\<not> hung_up t1" "\<not> is_master t1" "has_flag (t_lflags (tty_termios t1)) ICANON"
    using idle(1,2) assms(1) by (simp_all add: frame_def tty_signal_if_background_def)
  moreover have "contents t1 = map (\<lambda>c. (c, False)) ?l @ [(10, True)]" using u t1(2) by (simp add: pending_def)
  ultimately show ?thesis
    using read_line [of t1 ?l 10 n "te_nonblock e" ws] len assms(3,4) idle(3)
    by (simp add: tty_read_def pty_is_half_closed_master_def)
qed

theorem canonical_line_round_trip_witness:
  "\<exists>t1 t2. tty_input ([97, 98, 127, 99] @ [10]) False [] (tty_alloc False example_memory) = Done (5, [], t1) \<and>
    tty_read example_env 100 [] t1 = Done (Inr [97, 99, 10], t2) \<and> bufsize t2 = 0"
  using canonical_line_round_trip [of "tty_alloc False example_memory" "[97, 98, 127, 99]" 100 example_env False "[]"]
  by (simp add: tty_alloc_def has_flag_def line_key_def edit_line_def map_input_char_def is_cc_def tty_signal_if_background_def example_env_def Let_def)

section \<open>A lost character\<close>

text \<open>
  Raw input does not set flags.  After the line \<^verbatim>\<open>a\<close> was typed and read in canonical mode, the terminal is put into raw mode, and the bytes
  97 and 0 are typed.  A read of one byte gives the first and drops the second: the old flag makes it look like an end of file.
\<close>

definition raw_termios :: termios where
  "raw_termios = \<lparr>t_iflags = 0, t_oflags = 0, t_cflags = 0, t_lflags = 0, t_line = 0, t_cc = (\<lambda>i. if i = VMIN then 1 else 0)\<rparr>"

lemma raw_mode_loses_nul:
  "run_bind (tty_input [97, 10] False [] (tty_alloc False example_memory)) (\<lambda>(_, _, t).
   run_bind (tty_read example_env 10 [] t) (\<lambda>(_, t).
   run_bind (tty_mode_ioctl 0x5402 (Termios_arg raw_termios) t) (\<lambda>(_, _, _, t).
   run_bind (tty_input [97, 0] False [] t) (\<lambda>(accepted, _, t).
   run_bind (tty_read example_env 1 [] t) (\<lambda>(r, t). Done (accepted, r, bufsize t)))))) = Done (2, Inr [97], 0)"
  by (simp add: tty_alloc_def example_memory_def example_env_def raw_termios_def tty_input_def tty_read_def tty_mode_ioctl_def
      canon_char_def canon_wake_def no_special_def echo_char_def should_echoctl_def tty_echo_def tty_send_input_signal_def is_cc_def
      has_flag_def map_input_char_def tty_push_char.simps raw_push.simps wait_canon.simps wait_min.simps tty_read_wait_def tty_read_data_def
      tty_read_into_buf_def tty_canon_size_def tty_signal_if_background_def pty_is_half_closed_master_def upt_rec Let_def)

end
