(* ===== verification/Spec2Isabelle.thy ===== *)
theory Spec2Isabelle
  imports Kernel_Log Mmap_Calls Fd_Table_Laws Signal_Laws User_Memory Ipc_Laws Crypto_Laws Simd_Laws Path_Laws Block_Threads Futex_Laws Tty_Laws
begin

text \<open>
  \<^bold>\<open>The program.\<close>  The repository runs ARM64 Linux programs without a Linux kernel.  Guest code is translated block by block into
  sequences of assembly gadgets (asbestos/); the system calls are served by a kernel in user space (kernel/, fs/, util/), whose memory
  is reached through a page table (kernel/memory.c, emu/mmu.h).  This library models parts of that kernel and of the block cache,
  in the configuration for ARM64 guests, as functions on explicit states, and proves what they guarantee.

  \<^bold>\<open>Conventions.\<close>  A C struct is a record, an object reached by a pointer lives in a partial function from numbers, and a linked list is a
  list in the order of the links.  An error number is a negative integer.  A result \<^term>\<open>None\<close> (\<^verbatim>\<open>Undefined\<close> for terminals) is an
  execution the C code does not define: an access outside an array, a freed object, a failed assertion.  Results of malloc, of the host
  and of the file systems are arguments, and so is what other threads do where a call lets go of its lock.  Theory \<^verbatim>\<open>Ish_Prelude\<close> holds the
  integers, error numbers, buffers and shared lemmas.

  \<^bold>\<open>Memory.\<close>
  \<^item> \<^verbatim>\<open>Reservations\<close>, \<^verbatim>\<open>Page_Table\<close>, \<^verbatim>\<open>Hole_Finder\<close>, \<^verbatim>\<open>Address_Space\<close> (kernel/memory.c): lazy reservations, the four-level table, the search for
    free addresses, mapping, copy on write and faults.  The locale \<^verbatim>\<open>page_map\<close> is the flat map that callers see; the tree implements it.
    \<^verbatim>\<open>Address_Space_Laws\<close>: mapping and unmapping keep the counts of the memory blocks, fork copies memory, and a write after a fork is
    not seen by the other process.
  \<^item> \<^verbatim>\<open>Mmap_Calls\<close> (kernel/mmap.c): the memory calls on top of these.  \<^verbatim>\<open>User_Memory\<close> (kernel/user.c): copies between kernel and guest, with a
    round trip.
  \<^item> \<^verbatim>\<open>Block_Cache\<close> (asbestos/asbestos.c): the table of translated blocks, the direct jumps between them and invalidation.
    \<^verbatim>\<open>Block_Cache_Laws\<close>: the table implements a finite map, and invalidated code cannot be reached.  \<^verbatim>\<open>Block_Threads\<close>: a step relation that
    interleaves threads; running threads use only allocated blocks.

  \<^bold>\<open>Processes.\<close>
  \<^item> \<^verbatim>\<open>Signals\<close>, \<^verbatim>\<open>Signal_Laws\<close> (kernel/signal.c): the pending set agrees with the queue, a handler and its return restore the registers,
    and SIGKILL ends a task.
  \<^item> \<^verbatim>\<open>Futex\<close>, \<^verbatim>\<open>Futex_Laws\<close> (kernel/futex.c): the table implements a queue per address with exact counts, and failing calls change nothing.
  \<^item> \<^verbatim>\<open>Ipc\<close>, \<^verbatim>\<open>Ipc_Laws\<close> (kernel/ipc.c): message queues, semaphores and shared memory.  The locales \<^verbatim>\<open>id_table\<close> and \<^verbatim>\<open>id_table_put\<close> are what
    the System V tables have in common.
  \<^item> \<^verbatim>\<open>Fifo_Ring\<close>, \<^verbatim>\<open>Kernel_Log\<close> (util/fifo.c, kernel/log.c): the locale \<^verbatim>\<open>bounded_queue\<close> is what the log needs of the ring.

  \<^bold>\<open>Files.\<close>
  \<^item> \<^verbatim>\<open>Refcounts\<close>, \<^verbatim>\<open>Fd_Table\<close>, \<^verbatim>\<open>Fd_Table_Laws\<close> (fs/fd.c): the calls on descriptors keep the counts of files and inodes exact.
  \<^item> \<^verbatim>\<open>File_Lock\<close> (fs/lock.c): record locks, read byte by byte.
  \<^item> \<^verbatim>\<open>Mount_Path\<close>, \<^verbatim>\<open>Mount_Laws\<close>, \<^verbatim>\<open>Path_Laws\<close> (fs/mount.c, fs/path.c, fs/generic.c): look-up of mounts, resolution of paths, and the calls
    that name files.
  \<^item> \<^verbatim>\<open>Tty\<close>, \<^verbatim>\<open>Tty_Laws\<close> (fs/tty.c): the line discipline stays within its buffers whatever other threads do, and a line is read as it was edited.

  \<^bold>\<open>Instructions.\<close>  \<^verbatim>\<open>Crypto\<close>, \<^verbatim>\<open>Crypto_Laws\<close>, \<^verbatim>\<open>Simd\<close>, \<^verbatim>\<open>Simd_Laws\<close> (asbestos/guest-arm64/crypto_helpers.c): the helpers for cryptographic and
  vector instructions, against the standards' rounds, inverses and lanewise meaning.

  \<^bold>\<open>Defects.\<close>  Where the code does not do what it means to, a lemma shows it on a concrete state or under the conditions that cause it, and the
  theorems name the conditions that exclude it.  Examples are \<^verbatim>\<open>raw_mode_loses_nul\<close>, \<^verbatim>\<open>mount_cache_shadows_inner\<close>, \<^verbatim>\<open>path_normalize_overruns\<close>,
  \<^verbatim>\<open>futex_get_unlocks_twice\<close> and \<^verbatim>\<open>access_check_any_bit\<close>.

  \<^bold>\<open>Bounds and fuel.\<close>  Sizes are those of the source: 4096 bytes for pages, paths and terminal buffers, 2 ^ 20 for the log.  Loops that wait take
  the list of what happens at each wait, and have no result while it is too short; for terminals that is the value \<^verbatim>\<open>Waiting\<close>, and calls that
  do not block are proved never to have it.  The loop of \<^verbatim>\<open>madvise\<close> takes a number of rounds, of which one per page is enough (\<^verbatim>\<open>madvise_loop_enough\<close>);
  that of reading a signalfd takes one too, and no theorem says how many are enough for it.  The other loops are total functions.

  \<^bold>\<open>Not modelled.\<close>
  \<^item> The translator (asbestos/guest-arm64/gen.c), the gadgets and the use of the translation lookaside buffer by them: their meaning is that of
    host assembly code.
  \<^item> Code that mainly calls the host: sockets, the fake and real file systems, polling, timers, terminal drivers, native offload, the
    application and its tools.  File systems and terminal drivers are arguments where modelled code calls them.
  \<^item> Parts of the kernel that are left out: forking, exit and process groups, program loading, ptrace, most of kernel/fs.c, the temporary
    and proc file systems, event counters, identities and resource limits.
  \<^item> Of the modelled files: controlling terminals and opening of terminals, the registration of file systems, opening files by path, the
    robust lists of futexes, and the x86 variants.  Memory ordering finer than the locks is not considered.
\<close>

end
